(* ===== verification/Kernel_Prelude.thy ===== *)
theory Kernel_Prelude
  imports Main "HOL-Library.Word"
begin

text \<open>
  Shared vocabulary of the development: the names of the machine types, the errors a kernel
  routine can end in, bounds-checked arrays, the conversion of a wide value to a C++ \<open>int\<close>,
  and null-terminated chains of heap cells, with the lemmas about them that every component
  uses.

  A routine that can stop returns a value of type \<open>kerror + 'a\<close>: \<open>Inl\<close> is the way it stops
  (a call of \<open>Kernel::panic\<close>, an access outside an array, through a null pointer or to a
  deleted object, a loop that never ends), \<open>Inr\<close> the value it returns. Signed arithmetic of \<open>int\<close> is two's
  complement at 32 bits, as the AArch64 compiler the kernel is built with generates it.
\<close>

unbundle bit_operations_syntax

type_synonym u8 = "8 word"
type_synonym u16 = "16 word"
type_synonym u32 = "32 word"
type_synonym u64 = "64 word"

named_theorems kernel_simps \<open>equations that run a routine of the model on a well-formed state\<close>
named_theorems bounds_simps \<open>facts about sizes and ranges of the machine types\<close>


subsection \<open>Errors\<close>

datatype kerror =
    Panic string      \<comment> \<open>\<open>Kernel::panic\<close>, with the text that identifies the call\<close>
  | OutOfBounds       \<comment> \<open>an array access outside the array\<close>
  | NullDeref         \<comment> \<open>an access through a null pointer\<close>
  | UseAfterFree      \<comment> \<open>an access to, or a second delete of, a deleted object\<close>
  | WrongType         \<comment> \<open>a virtual call on an object cast to a class it is not of\<close>
  | Diverges          \<comment> \<open>a loop that never ends\<close>

definition bindE :: "kerror + 'a \<Rightarrow> ('a \<Rightarrow> kerror + 'b) \<Rightarrow> kerror + 'b" where
  "bindE m f = (case m of Inl e \<Rightarrow> Inl e | Inr x \<Rightarrow> f x)"

lemma bindE_simps [simp]:
  "bindE (Inl e) f = Inl e"
  "bindE (Inr x) f = f x"
  by (simp_all add: bindE_def)

lemma bindE_cong [fundef_cong]:
  "m = m' \<Longrightarrow> (\<And>x. m' = Inr x \<Longrightarrow> f x = f' x) \<Longrightarrow> bindE m f = bindE m' f'"
  by (auto simp: bindE_def split: sum.splits)

lemma bindE_assoc: "bindE (bindE m f) g = bindE m (\<lambda>x. bindE (f x) g)"
  by (simp add: bindE_def split: sum.splits)

lemma bindE_eq_Inr:
  "bindE m f = Inr y \<longleftrightarrow> (\<exists>x. m = Inr x \<and> f x = Inr y)"
  by (cases m) auto

lemma bindE_InrE:
  assumes "bindE m f = Inr y"
  obtains x where "m = Inr x" and "f x = Inr y"
  using assms by (auto simp: bindE_eq_Inr)

text \<open>A loop defined by \<^theory_text>\<open>partial_function\<close> returns \<open>None\<close> where it does not end.\<close>

definition returned :: "'a option \<Rightarrow> kerror + 'a" where
  "returned r = (case r of None \<Rightarrow> Inl Diverges | Some x \<Rightarrow> Inr x)"

lemma returned_simps [simp]:
  "returned None = Inl Diverges"
  "returned (Some x) = Inr x"
  by (simp_all add: returned_def)

text \<open>A loop over the values \<open>is\<close> of a counter, ended by the first error of its body.\<close>

primrec forE :: "'i list \<Rightarrow> ('i \<Rightarrow> 's \<Rightarrow> kerror + 's) \<Rightarrow> 's \<Rightarrow> kerror + 's" where
  "forE [] body s = Inr s"
| "forE (i # is) body s = bindE (body i s) (forE is body)"

lemma forE_append: "forE (is @ js) body s = bindE (forE is body s) (forE js body)"
  by (induction "is" arbitrary: s) (auto simp: bindE_def split: sum.splits)

lemma forE_body:
  "(\<And>i s. i \<in> set is \<Longrightarrow> f i s = g i s) \<Longrightarrow> forE is f s = forE is g s"
proof (induction "is" arbitrary: s)
  case (Cons i "is")
  then have "\<And>s. forE is f s = forE is g s" by simp
  then show ?case using Cons.prems by (auto intro: bindE_cong)
qed simp

lemma forE_cong [fundef_cong]:
  "is = js \<Longrightarrow> s = t \<Longrightarrow> (\<And>i s. i \<in> set js \<Longrightarrow> f i s = g i s) \<Longrightarrow> forE is f s = forE js g t"
  by (hypsubst, rule forE_body)

text \<open>An invariant of the body is an invariant of the loop.\<close>

lemma forE_inv:
  assumes "forE is body s = Inr s'" and "P s"
    and "\<And>i s s'. i \<in> set is \<Longrightarrow> P s \<Longrightarrow> body i s = Inr s' \<Longrightarrow> P s'"
  shows "P s'"
  using assms by (induction "is" arbitrary: s) (auto simp: bindE_eq_Inr)


subsection \<open>Arrays\<close>

definition aget :: "'a list \<Rightarrow> int \<Rightarrow> kerror + 'a" where
  "aget xs i = (if 0 \<le> i \<and> i < int (length xs) then Inr (xs ! nat i) else Inl OutOfBounds)"

definition aset :: "'a list \<Rightarrow> int \<Rightarrow> 'a \<Rightarrow> kerror + 'a list" where
  "aset xs i v = (if 0 \<le> i \<and> i < int (length xs) then Inr (xs[nat i := v]) else Inl OutOfBounds)"

lemma aget_in [simp]: "0 \<le> i \<Longrightarrow> i < int (length xs) \<Longrightarrow> aget xs i = Inr (xs ! nat i)"
  by (simp add: aget_def)

lemma aset_in [simp]: "0 \<le> i \<Longrightarrow> i < int (length xs) \<Longrightarrow> aset xs i v = Inr (xs[nat i := v])"
  by (simp add: aset_def)

lemma aget_Inr: "aget xs i = Inr v \<longleftrightarrow> 0 \<le> i \<and> i < int (length xs) \<and> v = xs ! nat i"
  by (auto simp: aget_def)

lemma aset_Inr: "aset xs i v = Inr ys \<longleftrightarrow> 0 \<le> i \<and> i < int (length xs) \<and> ys = xs[nat i := v]"
  by (auto simp: aset_def)

lemma nth_update_int:
  "0 \<le> i \<Longrightarrow> i < int (length xs) \<Longrightarrow> 0 \<le> j \<Longrightarrow>
   xs[nat i := v] ! nat j = (if j = i then v else xs ! nat j)"
  by (auto simp: nth_list_update eq_nat_nat_iff)

lemma distinct_singleton:
  "distinct xs \<Longrightarrow> (\<And>x. x \<in> set xs \<Longrightarrow> x = a) \<Longrightarrow> a \<in> set xs \<Longrightarrow> xs = [a]"
proof (cases xs)
  case (Cons y ys)
  assume d: "distinct xs" and e: "\<And>x. x \<in> set xs \<Longrightarrow> x = a"
  then have "y = a" "\<And>x. x \<in> set ys \<Longrightarrow> x = a" using Cons by auto
  with d Cons show ?thesis by (cases ys) auto
qed simp


subsection \<open>Conversion to a narrower signed type\<close>

definition int32 :: "int \<Rightarrow> int" where
  "int32 x = signed_take_bit 31 x"

text \<open>The remainder of a signed division has the sign of the dividend.\<close>

definition srem :: "int \<Rightarrow> int \<Rightarrow> int" where
  "srem a b = sgn a * (abs a mod abs b)"

lemma srem_mod [simp]: "0 \<le> a \<Longrightarrow> 0 \<le> b \<Longrightarrow> srem a b = a mod b"
  by (cases "a = 0") (simp_all add: srem_def)

lemma int32_id [bounds_simps]: "- (2 ^ 31) \<le> x \<Longrightarrow> x < 2 ^ 31 \<Longrightarrow> int32 x = x"
  unfolding int32_def by (rule signed_take_bit_int_eq_self) simp_all

lemma int32_range: "- (2 ^ 31) \<le> int32 x \<and> int32 x < 2 ^ 31"
  by (simp add: int32_def signed_take_bit_int_greater_eq_minus_exp signed_take_bit_int_less_exp
      del: power_numeral)

definition int8 :: "int \<Rightarrow> int" where
  "int8 x = signed_take_bit 7 x"

lemma int8_id [bounds_simps]: "- (2 ^ 7) \<le> x \<Longrightarrow> x < 2 ^ 7 \<Longrightarrow> int8 x = x"
  unfolding int8_def by (rule signed_take_bit_int_eq_self) simp_all


subsection \<open>Words\<close>

lemma unat_power2 [bounds_simps]: "n < LENGTH('a::len) \<Longrightarrow> unat (2 ^ n :: 'a word) = 2 ^ n"
proof -
  assume n: "n < LENGTH('a)"
  then have "(2::nat) ^ n < 2 ^ LENGTH('a)" by simp
  moreover have "(2 ^ n :: 'a word) = of_nat (2 ^ n)" by simp
  ultimately show ?thesis by (simp only: unat_of_nat mod_less)
qed

lemma word_of_unat: "of_nat (unat w) = (w :: 'a::len word)"
  by simp

lemma unat_eq_of_nat: "unat w = n \<Longrightarrow> (w :: 'a::len word) = of_nat n"
  by (metis word_of_unat)

lemma unat_less_of_uint: "uint (w :: 'a::len word) < int n \<Longrightarrow> unat w < n"
  by (metis nat_int nat_less_eq_zless uint_ge_0 unat_eq_nat_uint)

lemma unat_of_nat_small [bounds_simps]: "n < 2 ^ 64 \<Longrightarrow> unat (of_nat n :: u64) = n"
  by (simp add: unat_of_nat)

lemma unat_add_small [bounds_simps]:
  "unat a + unat b < 2 ^ 64 \<Longrightarrow> unat (a + b :: u64) = unat a + unat b"
  using unat_add_lem [of a b] by simp


subsection \<open>Chains of heap cells\<close>

text \<open>
  \<open>chain nxt p xs\<close>: following the \<open>next\<close> fields from the pointer \<open>p\<close> visits the cells
  \<open>xs\<close> in this order and then reaches the null pointer.
\<close>

fun chain :: "('p \<Rightarrow> 'p option) \<Rightarrow> 'p option \<Rightarrow> 'p list \<Rightarrow> bool" where
  "chain nxt p [] = (p = None)"
| "chain nxt p (x # xs) = (p = Some x \<and> chain nxt (nxt x) xs)"

lemma chain_None [simp]: "chain nxt None xs \<longleftrightarrow> xs = []"
  by (cases xs) auto

lemma chain_cong:
  "(\<And>x. x \<in> set xs \<Longrightarrow> nxt x = nxt' x) \<Longrightarrow> chain nxt p xs = chain nxt' p xs"
  by (induction xs arbitrary: p) auto

lemma chain_update_other [simp]: "q \<notin> set xs \<Longrightarrow> chain (nxt(q := v)) p xs = chain nxt p xs"
  by (rule chain_cong) auto

lemma chain_head: "chain nxt (Some p) xs \<Longrightarrow> \<exists>ys. xs = p # ys \<and> chain nxt (nxt p) ys"
  by (cases xs) auto

lemma chain_unique: "chain nxt p xs \<Longrightarrow> chain nxt p ys \<Longrightarrow> xs = ys"
proof (induction xs arbitrary: p ys)
  case (Cons x xs)
  then show ?case by (cases ys) auto
qed simp

lemma chain_suffix: "chain nxt p (xs @ ys) \<Longrightarrow> \<exists>q. chain nxt q ys"
  by (induction xs arbitrary: p) auto

lemma chain_distinct: "chain nxt p xs \<Longrightarrow> distinct xs"
proof (induction xs arbitrary: p)
  case (Cons x xs)
  have "x \<notin> set xs"
  proof
    assume "x \<in> set xs"
    then obtain ys zs where s: "xs = ys @ x # zs" using split_list by metis
    then have "chain nxt (nxt x) (ys @ x # zs)" using Cons.prems by simp
    then obtain q where "chain nxt q (x # zs)" using chain_suffix by blast
    then have "chain nxt (nxt x) zs" by simp
    then have "zs = xs" using chain_unique [of nxt "nxt x" zs xs] Cons.prems by simp
    then have "length xs = length ys + Suc (length xs)" using s by (metis length_append length_Cons)
    then show False by simp
  qed
  with Cons show ?case by auto
qed simp

lemma chain_append_Cons:
  "chain nxt p (xs @ y # ys) \<Longrightarrow> chain nxt (Some y) (y # ys)"
  by (induction xs arbitrary: p) auto

lemma chain_unlink:
  assumes "chain nxt p (xs @ x # y # ys)" and "distinct (xs @ x # y # ys)"
  shows "chain (nxt(x := nxt y, y := None)) p (xs @ x # ys)"
  using assms by (induction xs arbitrary: p) auto

text \<open>
  The walk both allocators make to unlink a cell from the middle of a list
  (\<open>BuddyAllocator::free_list_del_entry\<close>, \<open>SlobAllocator::bin_del_entry\<close>): \<open>nxt\<close> reads a
  cell's \<open>next\<close> field. The result is the predecessor of \<open>block\<close> where the walk meets
  \<open>block\<close> (\<open>None\<close> if it is met first of all), and \<open>None\<close> where the list ends without it.
\<close>

partial_function (option) unlink_walk ::
  "('p \<Rightarrow> kerror + 'p option) \<Rightarrow> 'p \<Rightarrow> 'p option \<Rightarrow> 'p option
    \<Rightarrow> (kerror + 'p option option) option" where
  "unlink_walk nxt block prev ptr =
     (case ptr of
        None \<Rightarrow> Some (Inr None)
      | Some p \<Rightarrow>
          if p = block then Some (Inr (Some prev))
          else (case nxt p of
                  Inl e \<Rightarrow> Some (Inl e)
                | Inr q \<Rightarrow> unlink_walk nxt block (Some p) q))"

lemma unlink_walk_found:
  assumes "chain f ptr (xs @ block # ys)" and "block \<notin> set xs"
    and "\<And>x. x \<in> set xs \<Longrightarrow> nxt x = Inr (f x)"
  shows "unlink_walk nxt block prev ptr =
     Some (Inr (Some (if xs = [] then prev else Some (last xs))))"
  using assms
proof (induction xs arbitrary: ptr prev)
  case Nil
  then show ?case by (simp add: unlink_walk.simps)
next
  case (Cons x xs)
  then have "unlink_walk nxt block prev ptr = unlink_walk nxt block (Some x) (f x)"
    by (subst unlink_walk.simps) auto
  with Cons show ?case by auto
qed

lemma unlink_walk_absent:
  assumes "chain f ptr xs" and "block \<notin> set xs"
    and "\<And>x. x \<in> set xs \<Longrightarrow> nxt x = Inr (f x)"
  shows "unlink_walk nxt block prev ptr = Some (Inr None)"
  using assms
proof (induction xs arbitrary: ptr prev)
  case Nil
  then show ?case by (simp add: unlink_walk.simps)
next
  case (Cons x xs)
  then have "unlink_walk nxt block prev ptr = unlink_walk nxt block (Some x) (f x)"
    by (subst unlink_walk.simps) auto
  with Cons show ?case by auto
qed

end
