(* ===== verification/KMath.thy ===== *)
theory KMath
  imports Kernel_Prelude
begin

text \<open>
  The integer routines of \<^verbatim>\<open>lib/Math.cc\<close>. Arguments of type \<open>int\<close> are HOL
  integers kept at 32 bits by \<open>int32\<close>, arguments of type \<open>size_t\<close> are 64-bit words.
  The loops that can run forever are partial functions into \<open>option\<close>, and the lemmas say
  exactly on which arguments they end.
\<close>

subsection \<open>The routines\<close>

text \<open>The loop of \<open>pow\<close>: \<open>while (exponent-- > 0) result *= base\<close>.\<close>

function pow_loop :: "int \<Rightarrow> int \<Rightarrow> int \<Rightarrow> int" where
  "pow_loop base exponent result =
     (if exponent > 0 then pow_loop base (exponent - 1) (int32 (result * base)) else result)"
  by pat_completeness auto
termination by (relation "measure (\<lambda>(_, exponent, _). nat exponent)") auto

definition pow :: "int \<Rightarrow> int \<Rightarrow> int" where
  "pow base exponent = pow_loop base exponent 1"

text \<open>
  The binary search of \<open>sqrt\<close>. Inside the loop \<open>1 \<le> l \<le> mid\<close>, so the divisions have a
  positive divisor; for a negative argument the loop does not run.
\<close>

function sqrt_loop :: "int \<Rightarrow> int \<Rightarrow> int \<Rightarrow> int" where
  "sqrt_loop x l r =
     (if l \<le> r then
        (let mid = l + (r - l) div 2 in
         if mid = x div mid then mid
         else if mid < x div mid then sqrt_loop x (mid + 1) r
         else sqrt_loop x l (mid - 1))
      else l - 1)"
  by pat_completeness auto
termination by (relation "measure (\<lambda>(x, l, r). nat (r - l + 1))") (auto simp: Let_def)

definition sqrt :: "int \<Rightarrow> int" where
  "sqrt x = sqrt_loop x 1 x"

text \<open>The loop of \<open>log2\<close>: \<open>while (x >>= 1) ++result\<close>, an arithmetic shift.\<close>

partial_function (option) log2_loop :: "int \<Rightarrow> int \<Rightarrow> int option" where
  "log2_loop x result =
     (let x' = drop_bit 1 x in if x' \<noteq> 0 then log2_loop x' (result + 1) else Some result)"

definition log2 :: "int \<Rightarrow> int option" where
  "log2 x = log2_loop x 0"

partial_function (option) round_up_pow2_loop :: "u64 \<Rightarrow> u64 \<Rightarrow> u64 option" where
  "round_up_pow2_loop x result =
     (if result < x then round_up_pow2_loop x (push_bit 1 result) else Some result)"

definition round_up_to_pow_of_2 :: "u64 \<Rightarrow> u64 option" where
  "round_up_to_pow_of_2 x = round_up_pow2_loop x 1"

partial_function (option) round_up_mult_loop :: "u64 \<Rightarrow> u64 \<Rightarrow> u64 \<Rightarrow> u64 option" where
  "round_up_mult_loop x n result =
     (if result < x then round_up_mult_loop x n (result + n) else Some result)"

definition round_up_to_multiple_of_n :: "u64 \<Rightarrow> u64 \<Rightarrow> u64 option" where
  "round_up_to_multiple_of_n x n = round_up_mult_loop x n n"

declare pow_loop.simps [simp del] sqrt_loop.simps [simp del]


subsection \<open>What they compute\<close>


lemma pow_loop_exact:
  assumes "0 \<le> r" and "0 \<le> b" and "r * b ^ nat e < 2 ^ 31" and "1 \<le> b"
  shows "pow_loop b e r = r * b ^ nat e"
  using assms
proof (induction b e r rule: pow_loop.induct)
  case (1 b e r)
  show ?case
  proof (cases "e > 0")
    case True
    then have e: "nat e = Suc (nat (e - 1))" by simp
    have "r * b \<le> r * b ^ nat e"
      using "1.prems" by (simp add: e mult_left_mono)
    then have wrap: "int32 (r * b) = r * b"
      using "1.prems" by (intro int32_id) (auto intro: order_trans [of _ 0])
    show ?thesis
      using True 1 by (simp add: pow_loop.simps [of b e r] wrap e mult.assoc)
  next
    case False
    then show ?thesis by (simp add: pow_loop.simps)
  qed
qed

lemma pow_exact:
  "1 \<le> b \<Longrightarrow> b ^ nat e < 2 ^ 31 \<Longrightarrow> pow b e = b ^ nat e"
  by (simp add: pow_def pow_loop_exact)

lemma pow_two [kernel_simps]: "0 \<le> e \<Longrightarrow> e < 31 \<Longrightarrow> pow 2 e = 2 ^ nat e"
proof -
  assume e: "0 \<le> e" "e < 31"
  then have "(2::int) ^ nat e < 2 ^ 31" by (intro power_strict_increasing) auto
  then show ?thesis by (intro pow_exact) auto
qed

lemma sqrt_loop_correct:
  assumes "0 \<le> x" and "1 \<le> l" and "(l - 1) * (l - 1) \<le> x" and "x < (r + 1) * (r + 1)"
    and "l \<le> r + 1"
  shows "0 \<le> sqrt_loop x l r \<and> sqrt_loop x l r * sqrt_loop x l r \<le> x \<and>
    x < (sqrt_loop x l r + 1) * (sqrt_loop x l r + 1)"
  using assms
proof (induction x l r rule: sqrt_loop.induct)
  case (1 x l r)
  define mid where "mid = l + (r - l) div 2"
  show ?case
  proof (cases "l \<le> r")
    case False
    with "1.prems" have "l = r + 1" by simp
    moreover have "sqrt_loop x l r = l - 1" using False by (simp add: sqrt_loop.simps [of x l r])
    ultimately show ?thesis using "1.prems" by simp
  next
    case True
    then have mid: "l \<le> mid" "mid \<le> r" "1 \<le> mid"
      using "1.prems" unfolding mid_def by auto
    have q: "mid * (x div mid) \<le> x" "x < mid * (x div mid) + mid"
      using mid mult_div_mod_eq [of mid x] pos_mod_bound [of mid x] pos_mod_sign [of mid x] by linarith+
    consider (eq) "mid = x div mid" | (lt) "mid < x div mid" | (gt) "mid > x div mid" by linarith
    then show ?thesis
    proof cases
      case eq
      then have "mid * mid \<le> x" "x < mid * mid + mid" using q by simp_all
      moreover have "sqrt_loop x l r = mid"
        using True eq by (simp add: sqrt_loop.simps [of x l r] mid_def Let_def)
      ultimately show ?thesis using mid by (simp add: algebra_simps)
    next
      case lt
      then have "mid * mid \<le> mid * (x div mid)" using mid by (intro mult_left_mono) auto
      then have "mid * mid \<le> x" using q(1) by linarith
      then show ?thesis
        using "1.IH"(1) [OF True, of mid] "1.prems" mid lt
        by (simp add: sqrt_loop.simps [of x l r] True mid_def Let_def)
    next
      case gt
      then have "mid * (x div mid) \<le> mid * (mid - 1)" using mid by (intro mult_left_mono) auto
      then have "x < mid * mid" using q(2) by (simp add: right_diff_distrib)
      then show ?thesis
        using "1.IH"(2) [OF True, of mid] "1.prems" mid gt
        by (simp add: sqrt_loop.simps [of x l r] True mid_def Let_def)
    qed
  qed
qed

theorem sqrt_floor:
  "0 \<le> x \<Longrightarrow> 0 \<le> sqrt x \<and> sqrt x * sqrt x \<le> x \<and> x < (sqrt x + 1) * (sqrt x + 1)"
  unfolding sqrt_def by (rule sqrt_loop_correct) (auto simp: algebra_simps add_pos_nonneg)


lemma log2_loop_power: "log2_loop (2 ^ n) r = Some (r + int n)"
proof (induction n arbitrary: r)
  case 0
  show ?case by (subst log2_loop.simps) (simp add: drop_bit_eq_div)
next
  case (Suc n)
  show ?case by (subst log2_loop.simps) (simp add: drop_bit_eq_div Suc)
qed

lemma log2_loop_bounds:
  "1 \<le> x \<Longrightarrow> \<exists>n. log2_loop x r = Some (r + int n) \<and> 2 ^ n \<le> x \<and> x < 2 ^ Suc n"
proof (induction "nat x" arbitrary: x r rule: less_induct)
  case less
  show ?case
  proof (cases "x = 1")
    case True
    then show ?thesis by (subst log2_loop.simps) (simp add: drop_bit_eq_div)
  next
    case False
    with less.prems have x: "x div 2 < x" "1 \<le> x div 2" by auto
    with less.hyps [of "x div 2" "r + 1"] obtain n where
      "log2_loop (x div 2) (r + 1) = Some (r + 1 + int n)" "2 ^ n \<le> x div 2" "x div 2 < 2 ^ Suc n"
      by auto
    moreover have "log2_loop x r = log2_loop (x div 2) (r + 1)"
      using x by (subst log2_loop.simps) (simp add: drop_bit_eq_div)
    ultimately show ?thesis by (intro exI [of _ "Suc n"]) auto
  qed
qed

lemma log2_loop_negative: "x < 0 \<Longrightarrow> log2_loop x r = None"
proof (rule ccontr)
  assume "x < 0" "log2_loop x r \<noteq> None"
  then obtain y where "log2_loop x r = Some y" by auto
  then have ret: "log2_loop x r = Some y" .
  have "0 \<le> x"
  proof (rule log2_loop.raw_induct [where P = "\<lambda>x r y. 0 \<le> x" and xa = "(x, r)" and y = y,
        unfolded prod.case, OF _ ret])
    fix f :: "int \<Rightarrow> int \<Rightarrow> int option" and x r y
    assume IH: "\<And>x r y. f x r = Some y \<Longrightarrow> 0 \<le> x"
      and eq: "(let x' = drop_bit 1 x in if x' \<noteq> 0 then f x' (r + 1) else Some r) = Some y"
    show "0 \<le> x"
    proof (cases "drop_bit 1 x = 0")
      case True
      then have "0 \<le> drop_bit 1 x" by simp
      then show ?thesis by simp
    next
      case False
      with eq have "f (drop_bit 1 x) (r + 1) = Some y" by (simp add: Let_def)
      then have "0 \<le> drop_bit 1 x" by (rule IH)
      then show ?thesis by simp
    qed
  qed
  with \<open>x < 0\<close> show False by simp
qed

theorem log2_total: "(\<exists>r. log2 x = Some r) \<longleftrightarrow> 0 \<le> x"
proof -
  have "log2 0 = Some 0" by (simp add: log2_def log2_loop.simps)
  then show ?thesis
    using log2_loop_negative [of x 0] log2_loop_bounds [of x 0]
    by (cases "x = 0"; cases "x < 0") (auto simp: log2_def)
qed

lemma round_up_pow2_loop_bounds:
  "k \<le> 63 \<Longrightarrow> unat x \<le> 2 ^ 63 \<Longrightarrow> k = 0 \<or> 2 ^ (k - 1) < unat x \<Longrightarrow>
   \<exists>n \<ge> k. n \<le> 63 \<and> round_up_pow2_loop x (2 ^ k) = Some (2 ^ n) \<and> unat x \<le> 2 ^ n \<and>
     (n = 0 \<or> 2 ^ (n - 1) < unat x)"
proof (induction "63 - k" arbitrary: k)
  case 0
  then have k: "k = 63" by simp
  then have "\<not> (2 ^ k :: u64) < x"
    using 0 by (simp add: word_less_nat_alt unat_power2 not_less del: power_numeral)
  with 0 k show ?case by (subst round_up_pow2_loop.simps) auto
next
  case (Suc m)
  then have k: "k < 63" by simp
  then have less: "(2 ^ k :: u64) < x \<longleftrightarrow> 2 ^ k < unat x"
    by (simp add: word_less_nat_alt unat_power2)
  show ?case
  proof (cases "2 ^ k < unat x")
    case True
    have step: "round_up_pow2_loop x (2 ^ k) = round_up_pow2_loop x (2 ^ Suc k)"
      using True less by (subst round_up_pow2_loop.simps) (simp add: push_bit_eq_mult mult.commute)
    obtain n where "Suc k \<le> n" "n \<le> 63" "round_up_pow2_loop x (2 ^ Suc k) = Some (2 ^ n)"
      "unat x \<le> 2 ^ n" "n = 0 \<or> 2 ^ (n - 1) < unat x"
      using Suc.hyps(1) [of "Suc k"] Suc.hyps(2) Suc.prems(2) k True by force
    then show ?thesis unfolding step by (intro exI [of _ n]) simp
  next
    case False
    with less have "round_up_pow2_loop x (2 ^ k) = Some (2 ^ k)"
      by (subst round_up_pow2_loop.simps) simp
    with False Suc.prems show ?thesis by (intro exI [of _ k]) simp
  qed
qed

lemma round_up_to_pow_of_2_Some:
  assumes "unat x \<le> 2 ^ 63"
  obtains n where "n \<le> 63" and "round_up_to_pow_of_2 x = Some (2 ^ n)" and "unat x \<le> 2 ^ n"
    and "n = 0 \<or> 2 ^ (n - 1) < unat x"
  using round_up_pow2_loop_bounds [of 0 x] assms by (auto simp: round_up_to_pow_of_2_def)

lemma unat_u64_power_le: "unat (2 ^ k :: u64) \<le> 2 ^ 63"
proof (cases "k < 64")
  case True
  then have "(2::nat) ^ k \<le> 2 ^ 63" by (intro power_increasing) simp_all
  with True show ?thesis by (simp add: unat_power2 del: power_numeral)
next
  case False
  then have zero: "(2 ^ k :: u64) = 0" by (simp add: exp_eq_zero_iff)
  show ?thesis unfolding zero by simp
qed

lemma round_up_to_pow_of_2_None: "2 ^ 63 < unat x \<Longrightarrow> round_up_to_pow_of_2 x = None"
proof (rule ccontr)
  assume big: "2 ^ 63 < unat x" and "round_up_to_pow_of_2 x \<noteq> None"
  then obtain y where ret: "round_up_pow2_loop x 1 = Some y" by (auto simp: round_up_to_pow_of_2_def)
  have "unat x \<le> 2 ^ 63 \<or> (\<forall>k. (1::u64) \<noteq> 2 ^ k)"
  proof (rule round_up_pow2_loop.raw_induct
      [where P = "\<lambda>x r y. unat x \<le> 2 ^ 63 \<or> (\<forall>k. r \<noteq> 2 ^ k)" and xa = "(x, 1)" and y = y,
        unfolded prod.case, OF _ ret])
    fix f :: "u64 \<Rightarrow> u64 \<Rightarrow> u64 option" and x r y
    assume IH: "\<And>x r y. f x r = Some y \<Longrightarrow> unat x \<le> 2 ^ 63 \<or> (\<forall>k. r \<noteq> 2 ^ k)"
      and eq: "(if r < x then f x (push_bit 1 r) else Some r) = Some y"
    show "unat x \<le> 2 ^ 63 \<or> (\<forall>k. r \<noteq> 2 ^ k)"
    proof (cases "r < x")
      case True
      with eq IH [of x "push_bit 1 r" y] have
        "unat x \<le> 2 ^ 63 \<or> (\<forall>k. push_bit 1 r \<noteq> 2 ^ k)" by simp
      moreover have "push_bit 1 (2 ^ k :: u64) = 2 ^ Suc k" for k
        by (simp add: push_bit_eq_mult mult.commute)
      ultimately show ?thesis by metis
    next
      case False
      then have "unat x \<le> unat r" by (simp add: word_less_nat_alt)
      then show ?thesis using unat_u64_power_le order_trans by blast
    qed
  qed
  with big have "(1::u64) \<noteq> 2 ^ 0" using not_le by blast
  then show False by simp
qed

lemma round_up_mult_loop_exact:
  "0 < unat n \<Longrightarrow> unat r = k * unat n \<Longrightarrow> k \<noteq> 0 \<Longrightarrow> unat x + unat n \<le> 2 ^ 64 \<Longrightarrow>
   k = 1 \<or> (k - 1) * unat n < unat x \<Longrightarrow>
   \<exists>m y. round_up_mult_loop x n r = Some y \<and> unat y = m * unat n \<and> unat x \<le> m * unat n \<and> 1 \<le> m \<and>
     (m = 1 \<or> (m - 1) * unat n < unat x)"
proof (induction "unat x - k * unat n" arbitrary: k r rule: less_induct)
  case less
  show ?case
  proof (cases "r < x")
    case False
    then have "round_up_mult_loop x n r = Some r" by (subst round_up_mult_loop.simps) simp
    moreover have "unat x \<le> unat r" using False by (simp add: word_less_nat_alt)
    ultimately show ?thesis using less.prems by (intro exI [of _ k] exI [of _ r]) auto
  next
    case True
    then have lt: "k * unat n < unat x" using less.prems by (simp add: word_less_nat_alt)
    then have "unat r + unat n < 2 ^ 64" using less.prems by simp
    then have sum: "unat (r + n) = Suc k * unat n"
      using less.prems(2) unat_add_lem [of r n] by simp
    have "round_up_mult_loop x n r = round_up_mult_loop x n (r + n)"
      using True by (subst round_up_mult_loop.simps) simp
    moreover have "unat x - Suc k * unat n < unat x - k * unat n"
      using lt less.prems(1) by simp
    ultimately show ?thesis using less.hyps [of "Suc k" "r + n"] sum lt less.prems by simp
  qed
qed

lemma round_up_to_multiple_of_n_Some:
  assumes "0 < unat n" and "unat x + unat n \<le> 2 ^ 64"
  obtains m y where "round_up_to_multiple_of_n x n = Some y" and "unat y = m * unat n" and "1 \<le> m"
    and "unat x \<le> unat y" and "m = 1 \<or> unat y < unat x + unat n"
proof -
  obtain m y where *: "round_up_mult_loop x n n = Some y" "unat y = m * unat n"
    "unat x \<le> m * unat n" "1 \<le> m" "m = 1 \<or> (m - 1) * unat n < unat x"
    using round_up_mult_loop_exact [of n n 1 x] assms by auto
  then have "m = 1 \<or> unat y < unat x + unat n"
    by (cases m) auto
  with * show thesis by (intro that [of y m]) (auto simp: round_up_to_multiple_of_n_def)
qed


end
