(* ===== verification/Dyadic.thy ===== *)
theory Dyadic
  imports Kernel_Prelude
begin

text \<open>
  Dyadic blocks: the runs of \<open>2 ^ k\<close> consecutive page frames that start at a multiple of
  \<open>2 ^ k\<close>, on which the buddy allocator works. A block is a pair of its first frame and its
  order. Two such blocks are nested or disjoint, and the index the allocator computes with an
  exclusive or is the other half of the next larger block.
\<close>

type_synonym block = "int \<times> nat"

definition span :: "int \<Rightarrow> nat \<Rightarrow> int set" where
  "span i k = {i ..< i + 2 ^ k}"

definition aligned :: "int \<Rightarrow> nat \<Rightarrow> bool" where
  "aligned i k \<longleftrightarrow> 0 \<le> i \<and> 2 ^ k dvd i"

definition buddy_of :: "int \<Rightarrow> nat \<Rightarrow> int" where
  "buddy_of i k = i XOR 2 ^ k"

lemma span_iff [simp]: "j \<in> span i k \<longleftrightarrow> i \<le> j \<and> j < i + 2 ^ k"
  by (auto simp: span_def)

lemma start_in_span: "i \<in> span i k"
  by simp

lemma finite_span [simp]: "finite (span i k)"
  by (simp add: span_def)

lemma aligned_div: "aligned i k \<Longrightarrow> i = 2 ^ k * (i div 2 ^ k)"
  by (simp add: aligned_def)

lemma aligned_le: "aligned i m \<Longrightarrow> k \<le> m \<Longrightarrow> aligned i k"
  by (meson aligned_def dvd_trans le_imp_power_dvd)

lemma aligned_same_order:
  assumes "aligned i k" and "aligned j k" and "span i k \<inter> span j k \<noteq> {}"
  shows "i = j"
proof -
  obtain q r where i: "i = 2 ^ k * q" and j: "j = 2 ^ k * r"
    using assms(1,2) by (meson aligned_div)
  from assms(3) have "i < j + 2 ^ k" "j < i + 2 ^ k" by auto
  then have "2 ^ k * q < 2 ^ k * (r + 1)" "2 ^ k * r < 2 ^ k * (q + 1)"
    by (simp_all add: i j distrib_left)
  then have "q < r + 1" "r < q + 1" by simp_all
  then show ?thesis by (simp add: i j)
qed

lemma span_nested:
  assumes "aligned i k" and "aligned j m" and "k \<le> m" and "span i k \<inter> span j m \<noteq> {}"
  shows "span i k \<subseteq> span j m"
proof -
  obtain q r where i: "i = 2 ^ k * q" and j: "j = 2 ^ k * r"
    using assms(1,2) aligned_le [OF assms(2,3)] by (meson aligned_div)
  define w :: int where "w = 2 ^ (m - k)"
  have m: "(2::int) ^ m = 2 ^ k * w"
    using assms(3) by (simp add: w_def flip: power_add)
  from assms(4) have "i < j + 2 ^ m" "j < i + 2 ^ k" by auto
  then have "2 ^ k * q < 2 ^ k * (r + w)" "2 ^ k * r < 2 ^ k * (q + 1)"
    by (simp_all add: i j m distrib_left)
  then have "q + 1 \<le> r + w" "r \<le> q" by simp_all
  then have "2 ^ k * (q + 1) \<le> 2 ^ k * (r + w)" "j \<le> i"
    by (simp_all add: i j)
  then have "i + 2 ^ k \<le> j + 2 ^ m" "j \<le> i"
    by (simp_all add: i j m distrib_left)
  then show ?thesis by (auto simp: span_def)
qed

lemma buddy_of_eq:
  assumes "aligned i k"
  shows "buddy_of i k = (if even (i div 2 ^ k) then i + 2 ^ k else i - 2 ^ k)"
proof -
  define q where "q = i div 2 ^ k"
  have i: "i = push_bit k q"
    using aligned_div [OF assms] by (simp add: q_def push_bit_eq_mult mult.commute)
  have "buddy_of i k = push_bit k q XOR push_bit k 1"
    by (simp add: buddy_of_def i push_bit_eq_mult [of k 1])
  also have "\<dots> = push_bit k (q XOR 1)"
    by (simp only: push_bit_xor)
  finally show ?thesis
    by (auto simp: xor_one_eq i push_bit_eq_mult algebra_simps q_def [symmetric])
qed

lemma buddy_of_aligned: "aligned i k \<Longrightarrow> aligned (buddy_of i k) k"
proof -
  assume a: "aligned i k"
  define q where "q = i div 2 ^ k"
  have i: "i = 2 ^ k * q" and "0 \<le> 2 ^ k * q"
    using a aligned_div by (auto simp: q_def aligned_def)
  then have "0 \<le> q" by (simp add: zero_le_mult_iff)
  moreover have "odd q \<Longrightarrow> q \<noteq> 0" by auto
  ultimately have "buddy_of i k = 2 ^ k * (if even q then q + 1 else q - 1)"
    and "0 \<le> (if even q then q + 1 else q - 1)"
    using buddy_of_eq [OF a] by (auto simp: q_def [symmetric] i algebra_simps)
  then show ?thesis by (simp add: aligned_def)
qed

lemma buddy_of_ne: "aligned i k \<Longrightarrow> buddy_of i k \<noteq> i"
  by (auto simp: buddy_of_eq)

lemma buddy_of_buddy [simp]: "buddy_of (buddy_of i k) k = i"
  by (simp add: buddy_of_def xor.assoc)

lemma buddy_of_split: "aligned i (Suc k) \<Longrightarrow> buddy_of i k = i + 2 ^ k"
proof -
  assume a: "aligned i (Suc k)"
  then obtain q where "i = 2 ^ Suc k * q" by (metis aligned_div)
  then have "even (i div 2 ^ k)" by simp
  then show ?thesis using a by (simp add: buddy_of_eq aligned_le [of i "Suc k" k])
qed

lemma buddy_parent_aligned: "aligned i k \<Longrightarrow> aligned (min i (buddy_of i k)) (Suc k)"
proof -
  assume a: "aligned i k"
  define q where "q = i div 2 ^ k"
  have i: "i = 2 ^ k * q" and nonneg: "0 \<le> i"
    using a aligned_div by (auto simp: q_def aligned_def)
  show ?thesis
  proof (cases "even q")
    case True
    then obtain r where "q = 2 * r" by blast
    then have "2 ^ Suc k dvd i" by (simp add: i)
    with True nonneg show ?thesis by (simp add: buddy_of_eq [OF a] q_def [symmetric] aligned_def)
  next
    case False
    then obtain r where r: "q = 2 * r + 1" by (meson oddE)
    have "0 \<le> q" using nonneg by (simp add: i zero_le_mult_iff)
    then have "0 \<le> r" using r by simp
    moreover have "min i (buddy_of i k) = 2 ^ Suc k * r"
      using False buddy_of_eq [OF a] by (simp add: q_def [symmetric] i r algebra_simps)
    ultimately show ?thesis
      by (simp add: aligned_def)
  qed
qed

lemma buddy_parent_span:
  "aligned i k \<Longrightarrow> span (min i (buddy_of i k)) (Suc k) = span i k \<union> span (buddy_of i k) k"
  by (auto simp: buddy_of_eq min_def)

lemma buddy_span_disjoint: "aligned i k \<Longrightarrow> span i k \<inter> span (buddy_of i k) k = {}"
  by (auto simp: buddy_of_eq)

lemma split_span:
  "span i (Suc k) = span i k \<union> span (i + 2 ^ k) k" "span i k \<inter> span (i + 2 ^ k) k = {}"
  by auto

lemma split_aligned:
  "aligned i (Suc k) \<Longrightarrow> aligned i k" "aligned i (Suc k) \<Longrightarrow> aligned (i + 2 ^ k) k"
  by (auto simp: aligned_def intro: dvd_mult_right)

text \<open>A block that meets the first frame of the buddy but not the block itself starts there.\<close>

lemma block_at_buddy:
  assumes "aligned i k" and "aligned j m" and "buddy_of i k \<in> span j m"
    and "span j m \<inter> span i k = {}"
  shows "j = buddy_of i k \<and> m \<le> k"
proof -
  let ?b = "buddy_of i k"
  have b: "aligned ?b k" using assms(1) by (rule buddy_of_aligned)
  have "m \<le> k"
  proof (rule ccontr)
    assume "\<not> m \<le> k"
    then have "Suc k \<le> m" by simp
    moreover have "?b \<in> span (min i ?b) (Suc k)"
      by (simp add: buddy_parent_span [OF assms(1)])
    ultimately have "span (min i ?b) (Suc k) \<subseteq> span j m"
      using buddy_parent_aligned [OF assms(1)] assms(2,3) by (intro span_nested) blast+
    then have "i \<in> span j m"
      using buddy_parent_span [OF assms(1)] start_in_span by blast
    then show False using assms(4) start_in_span by blast
  qed
  moreover from this have "j = ?b"
    using aligned_same_order [of j m ?b] assms(2,3) aligned_le [OF b] start_in_span by blast
  ultimately show ?thesis by simp
qed


subsection \<open>Tilings\<close>

text \<open>A set of dyadic blocks that partitions the frames of one block of order \<open>n\<close> at 0.\<close>

definition tiling :: "nat \<Rightarrow> block set \<Rightarrow> bool" where
  "tiling n B \<longleftrightarrow> (\<forall>(i, k) \<in> B. aligned i k) \<and>
     (\<forall>(i, k) \<in> B. \<forall>(j, m) \<in> B. (i, k) \<noteq> (j, m) \<longrightarrow> span i k \<inter> span j m = {}) \<and>
     (\<Union>(i, k) \<in> B. span i k) = span 0 n"

lemma tilingI:
  assumes "\<And>i k. (i, k) \<in> B \<Longrightarrow> aligned i k"
    and "\<And>i k j m. (i, k) \<in> B \<Longrightarrow> (j, m) \<in> B \<Longrightarrow> (i, k) \<noteq> (j, m) \<Longrightarrow> span i k \<inter> span j m = {}"
    and "(\<Union>(i, k) \<in> B. span i k) = span 0 n"
  shows "tiling n B"
  unfolding tiling_def using assms by blast

lemma tiling_aligned: "tiling n B \<Longrightarrow> (i, k) \<in> B \<Longrightarrow> aligned i k"
  unfolding tiling_def by blast

lemma tiling_disjoint:
  "tiling n B \<Longrightarrow> (i, k) \<in> B \<Longrightarrow> (j, m) \<in> B \<Longrightarrow> (i, k) \<noteq> (j, m) \<Longrightarrow> span i k \<inter> span j m = {}"
  unfolding tiling_def by blast

lemma tiling_cover: "tiling n B \<Longrightarrow> (\<Union>(i, k) \<in> B. span i k) = span 0 n"
  unfolding tiling_def by blast

lemma tiling_at: "tiling n B \<Longrightarrow> 0 \<le> j \<Longrightarrow> j < 2 ^ n \<Longrightarrow> \<exists>i k. (i, k) \<in> B \<and> j \<in> span i k"
  using tiling_cover [of n B] by (fastforce simp del: span_iff simp: span_iff [of j 0 n])

lemma span_le_order:
  "span i k \<subseteq> span 0 n \<Longrightarrow> 0 \<le> i \<and> i + 2 ^ k \<le> 2 ^ n \<and> k \<le> n"
proof -
  assume a: "span i k \<subseteq> span 0 n"
  have "i \<in> span i k" "i + 2 ^ k - 1 \<in> span i k" by simp_all
  then have "i \<in> span 0 n" "i + 2 ^ k - 1 \<in> span 0 n" using a by blast+
  then have *: "0 \<le> i" "i + 2 ^ k \<le> 2 ^ n" by simp_all
  then have "(2::int) ^ k \<le> 2 ^ n" by linarith
  then have "k \<le> n" using power_le_imp_le_exp [of "2::int" k n] by simp
  with * show ?thesis by simp
qed

lemma tiling_bounds:
  "tiling n B \<Longrightarrow> (i, k) \<in> B \<Longrightarrow> 0 \<le> i \<and> i + 2 ^ k \<le> 2 ^ n \<and> k \<le> n"
  by (rule span_le_order) (use tiling_cover in blast)

lemma tiling_start:
  "tiling n B \<Longrightarrow> (i, k) \<in> B \<Longrightarrow> (j, m) \<in> B \<Longrightarrow> i \<in> span j m \<Longrightarrow> i = j \<and> k = m"
  using tiling_disjoint [of n B i k j m] start_in_span [of i k] by blast

text \<open>Replacing some of the blocks by others with the same frames.\<close>

lemma tiling_exchange:
  assumes t: "tiling n (B \<union> P)" and "B \<inter> P = {}"
    and al: "\<And>i k. (i, k) \<in> P' \<Longrightarrow> aligned i k"
    and dj: "\<And>i k j m. (i, k) \<in> P' \<Longrightarrow> (j, m) \<in> P' \<Longrightarrow> (i, k) \<noteq> (j, m) \<Longrightarrow> span i k \<inter> span j m = {}"
    and sp: "(\<Union>(i, k) \<in> P'. span i k) = (\<Union>(i, k) \<in> P. span i k)"
  shows "tiling n (B \<union> P') \<and> B \<inter> P' = {}"
proof -
  have apart: "span i k \<inter> span j m = {}" if "(i, k) \<in> B" "(j, m) \<in> P'" for i k j m
  proof -
    have "span i k \<inter> (\<Union>(i, k) \<in> P. span i k) = {}"
      using tiling_disjoint [OF t, of i k] assms(2) that by fast
    then show ?thesis using sp that by blast
  qed
  have "tiling n (B \<union> P')"
  proof (rule tilingI)
    show "aligned i k" if "(i, k) \<in> B \<union> P'" for i k
      using that al tiling_aligned [OF t] by blast
    show "span i k \<inter> span j m = {}"
      if "(i, k) \<in> B \<union> P'" "(j, m) \<in> B \<union> P'" "(i, k) \<noteq> (j, m)" for i k j m
      using that dj apart tiling_disjoint [OF t, of i k j m] by (metis Int_commute Un_iff)
    show "(\<Union>(i, k) \<in> B \<union> P'. span i k) = span 0 n"
      using tiling_cover [OF t] sp by (simp add: UN_Un)
  qed
  moreover have "B \<inter> P' = {}"
  proof (rule ccontr)
    assume "B \<inter> P' \<noteq> {}"
    then obtain i k where "(i, k) \<in> B" "(i, k) \<in> P'" by auto
    then show False using apart [of i k i k] start_in_span by blast
  qed
  ultimately show ?thesis ..
qed

end
