(* ===== verification/Pages.thy ===== *)
theory Pages
  imports Kernel_Prelude
begin

text \<open>
  Page geometry: the macros of \<^verbatim>\<open>include/mm/mmu.h\<close> on page sizes and addresses and the
  static helpers of \<open>class Page\<close> in \<^verbatim>\<open>include/mm/Page.h\<close>. Addresses are 64-bit words.
\<close>

definition PAGE_SHIFT :: nat where
  "PAGE_SHIFT = 12"

definition PAGE_SIZE :: u64 where
  "PAGE_SIZE = push_bit PAGE_SHIFT 1"

definition PAGE_MASK :: u64 where
  "PAGE_MASK = NOT (PAGE_SIZE - 1)"

definition PAGE_OFFSET :: "u64 \<Rightarrow> u64" where
  "PAGE_OFFSET x = x AND 0xfff"

definition is_aligned :: "u64 \<Rightarrow> bool" where
  "is_aligned addr \<longleftrightarrow> addr mod PAGE_SIZE = 0"

definition align_down :: "u64 \<Rightarrow> u64" where
  "align_down addr = addr AND PAGE_MASK"

definition align_up :: "u64 \<Rightarrow> u64" where
  "align_up addr = (addr + (PAGE_SIZE - 1)) AND PAGE_MASK"

lemma PAGE_SIZE_eq [simp]: "PAGE_SIZE = 4096"
  by (simp add: PAGE_SIZE_def PAGE_SHIFT_def push_bit_eq_mult)

lemma PAGE_MASK_eq: "PAGE_MASK = NOT (mask 12)"
  by (simp add: PAGE_MASK_def mask_eq_exp_minus_1)

lemma is_aligned_unat: "is_aligned a \<longleftrightarrow> unat a mod 4096 = 0"
  by (simp add: is_aligned_def unat_mod flip: unat_eq_0)

lemma is_aligned_uint: "is_aligned a \<longleftrightarrow> uint a mod 4096 = 0"
  by (simp add: is_aligned_def uint_mod flip: uint_0_iff)

lemma and_page_mask: "a AND PAGE_MASK = a - a mod 4096"
proof -
  have "a - take_bit 12 a = a AND NOT (take_bit 12 a)"
    by (rule disjunctive_diff) (simp add: bit_take_bit_iff)
  also have "\<dots> = a AND PAGE_MASK"
    by (rule bit_word_eqI) (auto simp: PAGE_MASK_eq bit_and_iff bit_not_iff bit_take_bit_iff bit_mask_iff)
  finally have "a AND PAGE_MASK = a - take_bit 12 a" ..
  then show ?thesis by (simp add: take_bit_eq_mod)
qed

lemma unat_and_page_mask: "unat (a AND PAGE_MASK) = unat a - unat a mod 4096"
  by (simp add: and_page_mask unat_sub word_le_nat_alt unat_mod mod_less_eq_dividend)

lemma align_down_below: "unat (align_down a) = unat a - unat a mod 4096"
  by (simp add: align_down_def unat_and_page_mask)

lemma align_down_aligned: "is_aligned (align_down a)"
  by (simp add: is_aligned_unat align_down_below minus_mod_eq_mult_div)

lemma align_up_above:
  assumes "unat a + 4095 < 2 ^ 64"
  shows "unat (align_up a) = (unat a + 4095) div 4096 * 4096"
proof -
  have "unat (a + 4095) = unat a + 4095"
    using assms unat_add_lem [of a 4095] by simp
  then show ?thesis
    by (simp add: align_up_def unat_and_page_mask minus_mod_eq_div_mult)
qed

lemma align_up_aligned: "is_aligned (align_up a)"
  using align_down_aligned [of "a + 4095"] by (simp add: align_up_def align_down_def)

end
