(* ===== verification/BuddyView.thy ===== *)
theory BuddyView
  imports BuddyAllocator
begin

text \<open>
  The buddy allocator's state seen through four functions (the \<open>next\<close> and \<open>order\<close> field of a
  header, an element of the frame array, the head of a free list), and what each routine on the
  free lists and on the frame array does to them. A free list is abstracted to the list of the
  header indices on it.
\<close>

lemmas buddy_consts [simp] = MAX_ORDER_def ALLOCATED_def DONT_ALLOCATE_def

lemma MAX_ORDER_NR_PAGES_eq [simp]: "MAX_ORDER_NR_PAGES = 512"
  by (simp add: MAX_ORDER_NR_PAGES_def push_bit_eq_mult)

subsection \<open>The view\<close>

definition nxt :: "buddy_allocator \<Rightarrow> int \<Rightarrow> int option" where
  "nxt b p = (if 0 \<le> p then hd_next (headers b ! nat p) else None)"

definition ord :: "buddy_allocator \<Rightarrow> int \<Rightarrow> int" where
  "ord b p = (if 0 \<le> p then hd_order (headers b ! nat p) else 0)"

definition frame :: "buddy_allocator \<Rightarrow> int \<Rightarrow> int" where
  "frame b i = (if 0 \<le> i then frame_array b ! nat i else 0)"

definition first :: "buddy_allocator \<Rightarrow> nat \<Rightarrow> int option" where
  "first b k = free_lists b ! k"

definition shape :: "buddy_allocator \<Rightarrow> bool" where
  "shape b \<longleftrightarrow> length (frame_array b) = 512 \<and> length (free_lists b) = 10 \<and>
     length (headers b) = 512 \<and> (\<forall>p. 0 \<le> p \<and> p < 512 \<longrightarrow> hd_index (headers b ! nat p) = p)"

lemma shape_length:
  "shape b \<Longrightarrow> length (frame_array b) = 512"
  "shape b \<Longrightarrow> length (free_lists b) = 10"
  "shape b \<Longrightarrow> length (headers b) = 512"
  by (simp_all add: shape_def)

lemma header_get:
  "shape b \<Longrightarrow> 0 \<le> p \<Longrightarrow> p < 512 \<Longrightarrow>
   aget (headers b) p = Inr \<lparr>hd_next = nxt b p, hd_order = ord b p, hd_index = p\<rparr>"
  by (auto simp: shape_def aget_def nxt_def ord_def)

lemma first_get:
  "shape b \<Longrightarrow> 0 \<le> k \<Longrightarrow> k < 10 \<Longrightarrow> aget (free_lists b) k = Inr (first b (nat k))"
  by (auto simp: shape_def aget_def first_def)

lemma frame_get: "shape b \<Longrightarrow> 0 \<le> i \<Longrightarrow> i < 512 \<Longrightarrow> aget (frame_array b) i = Inr (frame b i)"
  by (auto simp: shape_def aget_def frame_def)

lemmas view_get = header_get first_get frame_get

lemma set_next_view:
  assumes "shape b" and "0 \<le> p" and "p < 512"
  obtains b' where "set_next p v b = Inr b'" and "shape b'" and "nxt b' = (nxt b)(p := v)"
    and "ord b' = ord b" and "frame b' = frame b" and "first b' = first b"
    and "zone_begin b' = zone_begin b"
proof -
  let ?b = "b\<lparr>headers := (headers b)[nat p := (headers b ! nat p)\<lparr>hd_next := v\<rparr>]\<rparr>"
  have "set_next p v b = Inr ?b" "shape ?b" "nxt ?b = (nxt b)(p := v)" "ord ?b = ord b"
    "frame ?b = frame b" "first ?b = first b" "zone_begin ?b = zone_begin b"
    using assms
    by (auto simp: set_next_def shape_def nxt_def ord_def frame_def first_def nth_list_update
        fun_eq_iff)
  then show thesis by (rule that)
qed

lemma set_order_view:
  assumes "shape b" and "0 \<le> p" and "p < 512"
  obtains b' where "set_order p v b = Inr b'" and "shape b'" and "nxt b' = nxt b"
    and "ord b' = (ord b)(p := v)" and "frame b' = frame b" and "first b' = first b"
    and "zone_begin b' = zone_begin b"
proof -
  let ?b = "b\<lparr>headers := (headers b)[nat p := (headers b ! nat p)\<lparr>hd_order := v\<rparr>]\<rparr>"
  have "set_order p v b = Inr ?b" "shape ?b" "nxt ?b = nxt b" "ord ?b = (ord b)(p := v)"
    "frame ?b = frame b" "first ?b = first b" "zone_begin ?b = zone_begin b"
    using assms
    by (auto simp: set_order_def shape_def nxt_def ord_def frame_def first_def nth_list_update
        fun_eq_iff)
  then show thesis by (rule that)
qed

lemma set_free_list_view:
  assumes "shape b" and "k < 10"
  obtains b' where "set_free_list (int k) v b = Inr b'" and "shape b'" and "nxt b' = nxt b"
    and "ord b' = ord b" and "frame b' = frame b" and "first b' = (first b)(k := v)"
    and "zone_begin b' = zone_begin b"
proof -
  let ?b = "b\<lparr>free_lists := (free_lists b)[k := v]\<rparr>"
  have "set_free_list (int k) v b = Inr ?b" "shape ?b" "nxt ?b = nxt b" "ord ?b = ord b"
    "frame ?b = frame b" "first ?b = (first b)(k := v)" "zone_begin ?b = zone_begin b"
    using assms
    by (auto simp: set_free_list_def shape_def nxt_def ord_def frame_def first_def nth_list_update
        fun_eq_iff)
  then show thesis by (rule that)
qed


subsection \<open>Marking frames\<close>

lemma mark_frames_fill:
  "0 \<le> i \<Longrightarrow> i + int n \<le> int (length fa) \<Longrightarrow>
   \<exists>fa'. mark_frames n i v fa = Inr fa' \<and> length fa' = length fa \<and>
     (\<forall>j \<ge> 0. fa' ! nat j = (if i \<le> j \<and> j < i + int n then v else fa ! nat j))"
proof (induction n arbitrary: i fa)
  case (Suc n)
  then show ?case
    using Suc.IH [of "i + 1" "fa[nat i := v]"] by (auto simp: nth_update_int)
qed simp

lemma mark_block_as_allocated_view:
  assumes "shape b" and "0 \<le> p" and "ord b p = int k" and "p + 2 ^ k \<le> 512" and "k < 10"
  obtains b' where "mark_block_as_allocated p b = Inr b'" and "shape b'" and "nxt b' = nxt b"
    and "ord b' = ord b" and "first b' = first b" and "zone_begin b' = zone_begin b"
    and "frame b' = (\<lambda>j. if j \<in> span p k then -1 else frame b j)"
proof -
  have p: "p < 512" using assms(4) zero_less_power [of "2::int" k] by linarith
  obtain fa where fa: "mark_frames (2 ^ k) p (-1) (frame_array b) = Inr fa" "length fa = 512"
    "\<And>j. 0 \<le> j \<Longrightarrow> fa ! nat j = (if p \<le> j \<and> j < p + 2 ^ k then -1 else frame_array b ! nat j)"
    using mark_frames_fill [of p "2 ^ k" "frame_array b" "-1"] assms by (auto simp: shape_def)
  let ?b = "b\<lparr>frame_array := fa\<rparr>"
  have "mark_block_as_allocated p b = Inr ?b"
    using assms p fa
    by (simp add: mark_block_as_allocated_def header_get pow_two nat_power_eq)
  moreover have "shape ?b" "nxt ?b = nxt b" "ord ?b = ord b" "first ?b = first b"
    "zone_begin ?b = zone_begin b" "frame ?b = (\<lambda>j. if j \<in> span p k then -1 else frame b j)"
    using assms fa by (auto simp: shape_def nxt_def ord_def first_def frame_def fun_eq_iff)
  ultimately show thesis by (intro that)
qed

lemma mark_block_as_allocatable_view:
  assumes "shape b" and "0 \<le> p" and "ord b p = int k" and "p + 2 ^ k \<le> 512" and "k < 10"
  obtains b' where "mark_block_as_allocatable p b = Inr b'" and "shape b'" and "nxt b' = nxt b"
    and "ord b' = ord b" and "first b' = first b" and "zone_begin b' = zone_begin b"
    and "frame b' = (\<lambda>j. if j = p then int k else if j \<in> span p k then -2 else frame b j)"
proof -
  have p: "p < 512" using assms(4) zero_less_power [of "2::int" k] by linarith
  have n: "int (nat ((2::int) ^ k - 1)) = 2 ^ k - 1" by simp
  let ?fa = "(frame_array b)[nat p := int k]"
  obtain fa where fa: "mark_frames (nat (2 ^ k - 1)) (p + 1) (-2) ?fa = Inr fa" "length fa = 512"
    "\<And>j. 0 \<le> j \<Longrightarrow> fa ! nat j = (if p + 1 \<le> j \<and> j < p + 2 ^ k then -2 else ?fa ! nat j)"
    using mark_frames_fill [of "p + 1" "nat (2 ^ k - 1)" ?fa "-2"] assms by (auto simp: shape_def n)
  let ?b = "b\<lparr>frame_array := fa\<rparr>"
  have "mark_block_as_allocatable p b = Inr ?b"
    using assms p fa
    by (simp add: mark_block_as_allocatable_def header_get pow_two int8_id shape_length del: aget_in)
  moreover have "shape ?b" "nxt ?b = nxt b" "ord ?b = ord b" "first ?b = first b"
    "zone_begin ?b = zone_begin b"
    "frame ?b = (\<lambda>j. if j = p then int k else if j \<in> span p k then -2 else frame b j)"
    using assms p fa
    by (auto simp: shape_def nxt_def ord_def first_def frame_def fun_eq_iff nth_update_int)
  ultimately show thesis by (intro that)
qed


subsection \<open>Free lists\<close>

definition lists_ok :: "buddy_allocator \<Rightarrow> (nat \<Rightarrow> int list) \<Rightarrow> bool" where
  "lists_ok b xs \<longleftrightarrow>
     (\<forall>k < 10. chain (nxt b) (first b k) (xs k) \<and> distinct (xs k) \<and>
        (\<forall>p \<in> set (xs k). 0 \<le> p \<and> p < 512 \<and> ord b p = int k)) \<and>
     (\<forall>k \<ge> 10. xs k = [])"

definition relinked :: "buddy_allocator \<Rightarrow> buddy_allocator \<Rightarrow> bool" where
  "relinked b b' \<longleftrightarrow> shape b' \<and> ord b' = ord b \<and> frame b' = frame b \<and>
     zone_begin b' = zone_begin b"

lemma lists_okD:
  assumes "lists_ok b xs" and "k < 10"
  shows "chain (nxt b) (first b k) (xs k)" and "distinct (xs k)"
    and "p \<in> set (xs k) \<Longrightarrow> 0 \<le> p \<and> p < 512 \<and> ord b p = int k"
  using assms by (auto simp: lists_ok_def)

lemma lists_ok_other:
  "lists_ok b xs \<Longrightarrow> p \<in> set (xs k) \<Longrightarrow> m \<noteq> k \<Longrightarrow> p \<notin> set (xs m)"
  by (metis lists_ok_def empty_iff list.set(1) not_le of_nat_eq_iff)

lemma lists_ok_update:
  assumes "lists_ok b xs" and "k < 10" and "ord b' = ord b"
    and "chain (nxt b') (first b' k) ys" and "distinct ys"
    and "\<And>p. p \<in> set ys \<Longrightarrow> 0 \<le> p \<and> p < 512 \<and> ord b p = int k"
    and "\<And>m. m \<noteq> k \<Longrightarrow> first b' m = first b m"
    and "\<And>m p. m \<noteq> k \<Longrightarrow> p \<in> set (xs m) \<Longrightarrow> nxt b' p = nxt b p"
  shows "lists_ok b' (xs(k := ys))"
proof -
  have "chain (nxt b') (first b' m) (xs m)" if "m \<noteq> k" "m < 10" for m
    using chain_cong [of "xs m" "nxt b'" "nxt b"] assms(1,7,8) that by (auto simp: lists_ok_def)
  with assms show ?thesis by (auto simp: lists_ok_def)
qed

lemma free_list_del_head_ok:
  assumes "shape b" and "lists_ok b xs" and "k < 10" and "xs k = p # ys"
  obtains b' where "free_list_del_head (Some p) b = Inr b'" and "relinked b b'"
    and "lists_ok b' (xs(k := ys))"
proof -
  have p: "0 \<le> p" "p < 512" "ord b p = int k" "first b k = Some p" "chain (nxt b) (nxt b p) ys"
    "p \<notin> set ys" "distinct ys"
    using lists_okD [OF assms(2,3)] assms(4) by (auto simp del: chain_None)
  obtain b1 where b1: "set_free_list (int k) (nxt b p) b = Inr b1" "shape b1" "nxt b1 = nxt b"
    "ord b1 = ord b" "frame b1 = frame b" "first b1 = (first b)(k := nxt b p)"
    "zone_begin b1 = zone_begin b"
    using set_free_list_view [OF assms(1,3)] by metis
  obtain b' where b': "set_next p None b1 = Inr b'" "shape b'" "nxt b' = (nxt b1)(p := None)"
    "ord b' = ord b1" "frame b' = frame b1" "first b' = first b1" "zone_begin b' = zone_begin b1"
    using set_next_view [OF b1(2) p(1,2)] by metis
  have "free_list_del_head (Some p) b = Inr b'"
    using assms(1,3) p b1 b'
    by (simp add: free_list_del_head_def header_get first_get del: aget_in)
  moreover have "lists_ok b' (xs(k := ys))"
  proof (rule lists_ok_update [OF assms(2,3)])
    fix m q assume "m \<noteq> k" "q \<in> set (xs m)"
    then have "q \<noteq> p" using lists_ok_other [OF assms(2), of q m k] assms(4) by auto
    then show "nxt b' q = nxt b q" by (simp add: b1 b')
  qed (use p b1 b' lists_okD(3) [OF assms(2,3)] assms(4) in \<open>simp_all\<close>)
  moreover have "relinked b b'" by (simp add: relinked_def b1 b')
  ultimately show thesis by (intro that)
qed

lemma free_list_add_head_ok:
  assumes "shape b" and "lists_ok b xs" and "k < 10" and "p \<notin> set (xs k)"
    and "0 \<le> p" and "p < 512" and "ord b p = int k"
  obtains b' where "free_list_add_head (Some p) b = Inr b'" and "relinked b b'"
    and "lists_ok b' (xs(k := p # xs k))"
proof -
  have fresh: "p \<notin> set (xs m)" for m
    using assms(2,4,7) lists_okD(3) [OF assms(2), of m p] by (cases "m < 10") (auto simp: lists_ok_def)
  have ne: "first b k \<noteq> Some p"
    using lists_okD(1) [OF assms(2,3)] assms(4) chain_head by force
  obtain b1 where b1: "set_next p (first b k) b = Inr b1" "shape b1"
    "nxt b1 = (nxt b)(p := first b k)" "ord b1 = ord b" "frame b1 = frame b" "first b1 = first b"
    "zone_begin b1 = zone_begin b"
    using set_next_view [OF assms(1,5,6)] by metis
  obtain b2 where b2: "set_free_list (int k) (Some p) b1 = Inr b2" "shape b2" "nxt b2 = nxt b1"
    "ord b2 = ord b1" "frame b2 = frame b1" "first b2 = (first b1)(k := Some p)"
    "zone_begin b2 = zone_begin b1"
    using set_free_list_view [OF b1(2) assms(3)] by metis
  have swap: "bindE (set_free_list (int k) (Some p) b) (set_next p (first b k)) = Inr b2"
    using assms(1,3,5,6) b1(1) b2(1)
    by (auto simp: set_free_list_def set_next_def shape_length)
  have "free_list_add_head (Some p) b = Inr b2"
    using assms(1,3,5,6,7) ne b1 b2 swap
    by (auto simp: free_list_add_head_def header_get first_get simp del: aget_in)
  moreover have "lists_ok b2 (xs(k := p # xs k))"
  proof (rule lists_ok_update [OF assms(2,3)])
    show "chain (nxt b2) (first b2 k) (p # xs k)"
      using fresh lists_okD(1) [OF assms(2,3)] by (simp add: b1 b2)
    fix m q assume "m \<noteq> k" "q \<in> set (xs m)"
    then show "nxt b2 q = nxt b q" using fresh [of m] by (auto simp: b1 b2)
  qed (use assms b1 b2 lists_okD(2,3) [OF assms(2,3)] in \<open>auto\<close>)
  moreover have "relinked b b2" by (simp add: relinked_def b1 b2)
  ultimately show thesis by (intro that)
qed

lemma free_list_del_middle_ok:
  assumes "shape b" and "lists_ok b xs" and "k < 10" and "xs k = ys @ q # p # zs"
  obtains b' where "free_list_del_entry (Some p) b = Inr b'" and "relinked b b'"
    and "lists_ok b' (xs(k := ys @ q # zs))"
proof -
  have c: "chain (nxt b) (first b k) (ys @ q # p # zs)" and d: "distinct (ys @ q # p # zs)"
    using lists_okD(1,2) [OF assms(2,3)] assms(4) by auto
  have in_k: "0 \<le> x \<and> x < 512 \<and> ord b x = int k" if "x \<in> set (ys @ q # p # zs)" for x
    using lists_okD(3) [OF assms(2,3), of x] assms(4) that by simp
  have p: "0 \<le> p" "p < 512" "ord b p = int k" and q: "0 \<le> q" "q < 512"
    using in_k by auto
  have ne: "first b k \<noteq> Some p"
    using c d by (cases ys) auto
  let ?f = "\<lambda>x. bindE (aget (headers b) x) (\<lambda>h. Inr (hd_next h))"
  have "?f x = Inr (nxt b x)" if "x \<in> set (ys @ [q])" for x
    using in_k [of x] that assms(1) by (auto simp: header_get simp del: aget_in)
  then have walk: "unlink_walk ?f p None (first b k) = Some (Inr (Some (Some q)))"
    using unlink_walk_found [of "nxt b" "first b k" "ys @ [q]" p zs ?f None] c d by auto
  obtain b1 where b1: "set_next q (nxt b p) b = Inr b1" "shape b1" "nxt b1 = (nxt b)(q := nxt b p)"
    "ord b1 = ord b" "frame b1 = frame b" "first b1 = first b" "zone_begin b1 = zone_begin b"
    using set_next_view [OF assms(1) q] by metis
  obtain b' where b': "set_next p None b1 = Inr b'" "shape b'" "nxt b' = (nxt b1)(p := None)"
    "ord b' = ord b1" "frame b' = frame b1" "first b' = first b1" "zone_begin b' = zone_begin b1"
    using set_next_view [OF b1(2) p(1,2)] by metis
  have "free_list_del_entry (Some p) b = Inr b'"
    using assms(1,3) p ne walk b1 b'
    by (simp add: free_list_del_entry_def header_get first_get del: aget_in)
  moreover have "lists_ok b' (xs(k := ys @ q # zs))"
  proof (rule lists_ok_update [OF assms(2,3)])
    show "chain (nxt b') (first b' k) (ys @ q # zs)"
      using chain_unlink [OF c d] by (simp add: b1 b')
    fix m x assume "m \<noteq> k" "x \<in> set (xs m)"
    then have "x \<noteq> q" "x \<noteq> p" using lists_ok_other [OF assms(2), of x m k] assms(4) by auto
    then show "nxt b' x = nxt b x" by (simp add: b1 b')
  qed (use d in_k b1 b' in \<open>auto\<close>)
  moreover have "relinked b b'" by (simp add: relinked_def b1 b')
  ultimately show thesis by (intro that)
qed

lemma free_list_del_entry_ok:
  assumes "shape b" and "lists_ok b xs" and "k < 10" and "p \<in> set (xs k)"
  obtains b' where "free_list_del_entry (Some p) b = Inr b'" and "relinked b b'"
    and "lists_ok b' (xs(k := remove1 p (xs k)))"
proof -
  obtain ys zs where s: "xs k = ys @ p # zs" "p \<notin> set ys" using assms(4) split_list_first by metis
  show thesis
  proof (cases ys rule: rev_cases)
    case Nil
    with s have xs: "xs k = p # zs" by simp
    have "0 \<le> p" "p < 512" "ord b p = int k" "first b k = Some p"
      using lists_okD [OF assms(2,3)] xs by (auto simp del: chain_None)
    then have "free_list_del_entry (Some p) b = free_list_del_head (Some p) b"
      using assms(1,3) by (simp add: free_list_del_entry_def header_get first_get del: aget_in)
    with free_list_del_head_ok [OF assms(1-3) xs] that xs show thesis by fastforce
  next
    case (snoc vs q)
    with s have xs: "xs k = vs @ q # p # zs" by simp
    have "remove1 p (xs k) = vs @ q # zs" using s snoc by (simp add: remove1_append)
    with free_list_del_middle_ok [OF assms(1-3) xs] that show thesis by metis
  qed
qed

end
