(* ===== verification/BuddyInvariant.thy ===== *)
theory BuddyInvariant
  imports BuddyView
begin

text \<open>
  The invariant of the buddy allocator and its preservation by every routine. The blocks on the
  free lists, the blocks handed out (\<open>A\<close>) and the blocks a routine holds in its local variables
  (\<open>P\<close>) partition the 512 frames of the zone; headers and frame array describe them; no free
  block has a free buddy of the same order.
\<close>

definition free_set :: "(nat \<Rightarrow> int list) \<Rightarrow> block set" where
  "free_set xs = {(p, k). p \<in> set (xs k)}"

definition coalesced :: "block set \<Rightarrow> bool" where
  "coalesced F \<longleftrightarrow> (\<forall>(i, k) \<in> F. k < 9 \<longrightarrow> (buddy_of i k, k) \<notin> F)"

definition frames_ok :: "buddy_allocator \<Rightarrow> block set \<Rightarrow> block set \<Rightarrow> bool" where
  "frames_ok b F A \<longleftrightarrow>
     (\<forall>(i, k) \<in> A. \<forall>j \<in> span i k. frame b j = -1) \<and>
     (\<forall>(i, k) \<in> F. \<forall>j \<in> span i k. frame b j = (if j = i then int k else -2))"

definition zone_inv ::
  "buddy_allocator \<Rightarrow> (nat \<Rightarrow> int list) \<Rightarrow> block set \<Rightarrow> block set \<Rightarrow> bool" where
  "zone_inv b xs A P \<longleftrightarrow> shape b \<and> lists_ok b xs \<and>
     tiling 9 (free_set xs \<union> A \<union> P) \<and> free_set xs \<inter> (A \<union> P) = {} \<and> A \<inter> P = {} \<and>
     (\<forall>(i, k) \<in> A \<union> P. ord b i = int k) \<and>
     frames_ok b (free_set xs) A \<and> coalesced (free_set xs)"

lemma free_set_iff [simp]: "(p, k) \<in> free_set xs \<longleftrightarrow> p \<in> set (xs k)"
  by (simp add: free_set_def)

lemma free_set_add: "free_set (xs(k := p # xs k)) = insert (p, k) (free_set xs)"
  by (auto simp: free_set_def)

lemma free_set_remove:
  "distinct (xs k) \<Longrightarrow> free_set (xs(k := remove1 p (xs k))) = free_set xs - {(p, k)}"
  by (auto simp: free_set_def)

lemma frames_okI:
  assumes "\<And>i k j. (i, k) \<in> A \<Longrightarrow> j \<in> span i k \<Longrightarrow> frame b j = -1"
    and "\<And>i k j. (i, k) \<in> F \<Longrightarrow> j \<in> span i k \<Longrightarrow> frame b j = (if j = i then int k else -2)"
  shows "frames_ok b F A"
  unfolding frames_ok_def using assms by blast

lemma frames_okD:
  assumes "frames_ok b F A"
  shows "(i, k) \<in> A \<Longrightarrow> j \<in> span i k \<Longrightarrow> frame b j = -1"
    and "(i, k) \<in> F \<Longrightarrow> j \<in> span i k \<Longrightarrow> frame b j = (if j = i then int k else -2)"
  using assms unfolding frames_ok_def by blast+

lemma invD:
  assumes "zone_inv b xs A P"
  shows "shape b" and "lists_ok b xs" and "tiling 9 (free_set xs \<union> A \<union> P)"
    and "free_set xs \<inter> (A \<union> P) = {}" and "A \<inter> P = {}"
    and "frames_ok b (free_set xs) A" and "coalesced (free_set xs)"
  using assms by (simp_all add: zone_inv_def)

lemma inv_order:
  "zone_inv b xs A P \<Longrightarrow> (i, k) \<in> free_set xs \<union> A \<union> P \<Longrightarrow> ord b i = int k"
  by (cases "k < 10") (auto simp: zone_inv_def dest: lists_okD(3) simp: lists_ok_def)

lemma inv_block:
  assumes "zone_inv b xs A P" and "(i, k) \<in> free_set xs \<union> A \<union> P"
  shows "aligned i k" and "0 \<le> i" and "i + 2 ^ k \<le> 512" and "k < 10" and "i < 512"
proof -
  note t = invD(3) [OF assms(1)]
  show "aligned i k" using tiling_aligned [OF t assms(2)] .
  have *: "0 \<le> i" "i + 2 ^ k \<le> 512" "k \<le> 9" using tiling_bounds [OF t assms(2)] by auto
  then show "0 \<le> i" "i + 2 ^ k \<le> 512" "k < 10" by auto
  show "i < 512" using *(2) zero_less_power [of "2::int" k] by linarith
qed

subsection \<open>The moves of a block\<close>

text \<open>From a free list into the hands of the running routine.\<close>

lemma inv_unfree:
  assumes I: "zone_inv b xs A P" and p: "p \<in> set (xs k)" and r: "relinked b b'"
    and l: "lists_ok b' (xs(k := remove1 p (xs k)))"
  shows "zone_inv b' (xs(k := remove1 p (xs k))) A (insert (p, k) P)"
proof -
  have "k < 10" using inv_block(4) [OF I, of p k] p by simp
  then have "distinct (xs k)" using invD(2) [OF I] lists_okD(2) by blast
  then have F: "free_set (xs(k := remove1 p (xs k))) = free_set xs - {(p, k)}"
    by (rule free_set_remove)
  have U: "free_set xs - {(p, k)} \<union> A \<union> insert (p, k) P = free_set xs \<union> A \<union> P"
    using p by auto
  have "(p, k) \<notin> A" using invD(4) [OF I] p unfolding free_set_def by blast
  moreover have "ord b p = int k" using inv_order [OF I] p by simp
  moreover have "coalesced (free_set xs - {(p, k)})"
    using invD(7) [OF I] unfolding coalesced_def by blast
  moreover have "frames_ok b' (free_set xs - {(p, k)}) A"
    using invD(6) [OF I] r by (auto simp: frames_ok_def relinked_def)
  ultimately show ?thesis
    using I p r l unfolding zone_inv_def F U by (auto simp: relinked_def)
qed

text \<open>From the hands of the running routine onto a free list.\<close>

lemma inv_free:
  assumes I: "zone_inv b xs A (insert (p, k) P)" and p: "(p, k) \<notin> P" and s: "shape b'"
    and l: "lists_ok b' (xs(k := p # xs k))" and o: "ord b' = ord b"
    and f: "frame b' = (\<lambda>j. if j = p then int k else if j \<in> span p k then -2 else frame b j)"
    and c: "k < 9 \<Longrightarrow> buddy_of p k \<notin> set (xs k)"
  shows "zone_inv b' (xs(k := p # xs k)) A P"
proof -
  have pk: "(p, k) \<notin> free_set xs" "(p, k) \<notin> A" using invD(4,5) [OF I] by auto
  have other: "span i m \<inter> span p k = {}" if "(i, m) \<in> free_set xs \<union> A" for i m
    using tiling_disjoint [OF invD(3) [OF I], of i m p k] that pk by auto
  have keep: "frame b' j = frame b j" if "(i, m) \<in> free_set xs \<union> A" "j \<in> span i m" for i m j
    using other [OF that(1)] that(2) start_in_span [of p k] unfolding f by auto
  have "frames_ok b' (insert (p, k) (free_set xs)) A"
  proof (rule frames_okI)
    show "frame b' j = -1" if "(i, m) \<in> A" "j \<in> span i m" for i m j
      using keep [of i m j] frames_okD(1) [OF invD(6) [OF I] that] that by simp
    show "frame b' j = (if j = i then int m else -2)"
      if "(i, m) \<in> insert (p, k) (free_set xs)" "j \<in> span i m" for i m j
    proof (cases "(i, m) = (p, k)")
      case True
      with that(2) show ?thesis by (auto simp: f)
    next
      case False
      then have "(i, m) \<in> free_set xs" using that(1) by blast
      then show ?thesis
        using keep [of i m j] frames_okD(2) [OF invD(6) [OF I], of i m j] that(2) by simp
    qed
  qed
  moreover have "coalesced (insert (p, k) (free_set xs))"
  proof -
    have "aligned p k" using inv_block(1) [OF I, of p k] by simp
    then have "buddy_of p k \<noteq> p" by (rule buddy_of_ne)
    moreover have "k < 9 \<Longrightarrow> buddy_of i k = p \<Longrightarrow> i \<notin> set (xs k)" for i using c buddy_of_buddy by metis
    ultimately show ?thesis
      using invD(7) [OF I] c unfolding coalesced_def by (auto dest: sym)
  qed
  moreover have "insert (p, k) (free_set xs) \<union> A \<union> P = free_set xs \<union> A \<union> insert (p, k) P" by auto
  ultimately show ?thesis
    using I p pk s l o unfolding zone_inv_def free_set_add by auto
qed

text \<open>From the hands of the running routine to the caller, and back.\<close>

lemma inv_hand_out:
  assumes I: "zone_inv b xs A (insert (p, k) P)" and p: "(p, k) \<notin> P" and s: "shape b'"
    and n: "nxt b' = nxt b" "first b' = first b" and o: "ord b' = ord b"
    and f: "frame b' = (\<lambda>j. if j \<in> span p k then -1 else frame b j)"
  shows "zone_inv b' xs (insert (p, k) A) P"
proof -
  have pk: "(p, k) \<notin> free_set xs" "(p, k) \<notin> A" using invD(4,5) [OF I] by auto
  have keep: "frame b' j = frame b j" if "(i, m) \<in> free_set xs \<union> A" "j \<in> span i m" for i m j
  proof -
    have "(i, m) \<noteq> (p, k)" using that(1) pk by auto
    then have "span i m \<inter> span p k = {}"
      using tiling_disjoint [OF invD(3) [OF I], of i m p k] that(1) by blast
    then show ?thesis using that(2) unfolding f by auto
  qed
  have "frames_ok b' (free_set xs) (insert (p, k) A)"
  proof (rule frames_okI)
    show "frame b' j = -1" if "(i, m) \<in> insert (p, k) A" "j \<in> span i m" for i m j
      using keep [of i m j] frames_okD(1) [OF invD(6) [OF I], of i m j] that f by auto
    show "frame b' j = (if j = i then int m else -2)"
      if "(i, m) \<in> free_set xs" "j \<in> span i m" for i m j
      using keep [of i m j] frames_okD(2) [OF invD(6) [OF I], of i m j] that by simp
  qed
  moreover have "lists_ok b' xs" using invD(2) [OF I] by (simp add: lists_ok_def n o)
  ultimately show ?thesis
    using I p pk s o unfolding zone_inv_def by auto
qed

lemma inv_take_back:
  "zone_inv b xs A {} \<Longrightarrow> (p, k) \<in> A \<Longrightarrow> zone_inv b xs (A - {(p, k)}) {(p, k)}"
proof -
  assume I: "zone_inv b xs A {}" and p: "(p, k) \<in> A"
  have U: "free_set xs \<union> (A - {(p, k)}) \<union> {(p, k)} = free_set xs \<union> A \<union> {}" using p by auto
  show ?thesis using I p unfolding zone_inv_def frames_ok_def U by blast
qed

text \<open>The running routine cuts the frames it holds into other blocks.\<close>

lemma inv_recut:
  assumes I: "zone_inv b xs A P" and s: "shape b'"
    and n: "nxt b' = nxt b" "first b' = first b" "frame b' = frame b"
    and o: "\<And>i. i \<notin> (\<Union>(i, k) \<in> P. span i k) \<Longrightarrow> ord b' i = ord b i"
    and P': "\<And>i k. (i, k) \<in> P' \<Longrightarrow> ord b' i = int k \<and> aligned i k"
    and dj: "\<And>i k j m. (i, k) \<in> P' \<Longrightarrow> (j, m) \<in> P' \<Longrightarrow> (i, k) \<noteq> (j, m) \<Longrightarrow> span i k \<inter> span j m = {}"
    and sp: "(\<Union>(i, k) \<in> P'. span i k) = (\<Union>(i, k) \<in> P. span i k)"
  shows "zone_inv b' xs A P'"
proof -
  have t: "tiling 9 (free_set xs \<union> A \<union> P') \<and> (free_set xs \<union> A) \<inter> P' = {}"
    using invD(3-5) [OF I] P' dj sp by (intro tiling_exchange [where P = P]) auto
  have keep: "ord b' i = ord b i" if "(i, k) \<in> free_set xs \<union> A" for i k
  proof (rule o, rule notI)
    assume "i \<in> (\<Union>(i, k) \<in> P. span i k)"
    then obtain j m where "(j, m) \<in> P" "i \<in> span j m" by auto
    moreover from this have "(i, k) = (j, m)"
      using tiling_start [OF invD(3) [OF I], of i k j m] that by auto
    ultimately show False using that invD(4,5) [OF I] by blast
  qed
  have "\<forall>p \<in> set (xs k). ord b' p = ord b p" for k
    using keep [of _ k] by simp
  then have l: "lists_ok b' xs"
    using invD(2) [OF I] unfolding lists_ok_def n by auto
  have "ord b' i = int k" if "(i, k) \<in> A \<union> P'" for i k
    using that P' keep [of i k] inv_order [OF I, of i k] by auto
  then show ?thesis
    using I s t l unfolding zone_inv_def frames_ok_def n by auto
qed

end
