(* ===== verification/BuddyCorrect.thy ===== *)
theory BuddyCorrect
  imports BuddyInvariant
begin

text \<open>
  Splitting, allocation, merging and deallocation keep the buddy allocator's invariant, and what
  the two entry points promise their callers.
\<close>

subsection \<open>Splitting\<close>

lemma get_buddy_view:
  "shape b \<Longrightarrow> 0 \<le> i \<Longrightarrow> i < 512 \<Longrightarrow> ord b i = int k \<Longrightarrow> get_buddy i b = Inr (buddy_of i k)"
  by (simp add: get_buddy_def header_get buddy_of_def push_bit_eq_mult del: aget_in)

lemma split_step_inv:
  assumes I: "zone_inv b xs A {(i, Suc k)}"
  obtains b' where "split_step i b = Inr b'" and "zone_inv b' (xs(k := (i + 2 ^ k) # xs k)) A {(i, k)}"
    and "zone_begin b' = zone_begin b"
proof -
  let ?j = "i + 2 ^ k"
  note B = inv_block [OF I, of i "Suc k", simplified]
  have al: "aligned i k" "aligned ?j k" using split_aligned [OF B(1)] by auto
  have pow: "(0::int) < 2 ^ k" by simp
  have j: "0 \<le> ?j" "?j < 512" "?j + 2 ^ k \<le> 512" "?j \<noteq> i" using B(2,3) pow by linarith+
  obtain b1 where b1: "set_order i (int k) b = Inr b1" "shape b1" "nxt b1 = nxt b"
    "ord b1 = (ord b)(i := int k)" "frame b1 = frame b" "first b1 = first b"
    "zone_begin b1 = zone_begin b"
    using set_order_view [OF invD(1) [OF I] B(2,5)] by metis
  obtain b2 where b2: "set_order ?j (int k) b1 = Inr b2" "shape b2" "nxt b2 = nxt b1"
    "ord b2 = (ord b1)(?j := int k)" "frame b2 = frame b1" "first b2 = first b1"
    "zone_begin b2 = zone_begin b1"
    using set_order_view [OF b1(2) j(1,2)] by metis
  have I2: "zone_inv b2 xs A {(?j, k), (i, k)}"
  proof (rule inv_recut [OF I b2(2)])
    show "ord b2 x = ord b x" if "x \<notin> (\<Union>(i, k) \<in> {(i, Suc k)}. span i k)" for x
      using that pow by (auto simp: b1 b2)
  qed (use al split_span [of i k] j(4) in \<open>auto simp: b1 b2\<close>)
  obtain b3 where b3: "mark_block_as_allocatable ?j b2 = Inr b3" "shape b3" "nxt b3 = nxt b2"
    "ord b3 = ord b2" "first b3 = first b2" "zone_begin b3 = zone_begin b2"
    "frame b3 = (\<lambda>x. if x = ?j then int k else if x \<in> span ?j k then -2 else frame b2 x)"
    using mark_block_as_allocatable_view [OF b2(2) j(1), of k] j(3) B(4) by (auto simp: b2)
  have "lists_ok b3 xs" using invD(2) [OF I2] by (simp add: lists_ok_def b3)
  moreover have "?j \<notin> set (xs k)" using invD(4) [OF I2] unfolding free_set_def by blast
  ultimately obtain b4 where b4: "free_list_add_head (Some ?j) b3 = Inr b4" "relinked b3 b4"
    "lists_ok b4 (xs(k := ?j # xs k))"
    using free_list_add_head_ok [OF b3(2), of xs k ?j] j(1,2) B(4) by (auto simp: b2 b3)
  have "split_step i b = Inr b4"
    using b1 b2 b3 b4 B j invD(1) [OF I] inv_order [OF I, of i "Suc k"]
    by (simp add: split_step_def header_get get_buddy_view [of b1 i k] buddy_of_split
        del: aget_in)
  moreover have "zone_inv b4 (xs(k := ?j # xs k)) A {(i, k)}"
  proof (rule inv_free [OF I2])
    have "buddy_of ?j k = i" by (metis B(1) buddy_of_buddy buddy_of_split)
    then show "buddy_of ?j k \<notin> set (xs k)" using invD(4) [OF I2] unfolding free_set_def by blast
  qed (use b3 b4 j(4) in \<open>auto simp: relinked_def\<close>)
  ultimately show thesis using that b1 b2 b3 b4 by (simp add: relinked_def)
qed

lemma split_loop_inv:
  "zone_inv b xs A {(i, m)} \<Longrightarrow> t \<le> m \<Longrightarrow>
   \<exists>b' xs'. split_loop i (int t) b = Inr b' \<and> zone_inv b' xs' A {(i, t)} \<and> zone_begin b' = zone_begin b"
proof (induction m arbitrary: b xs)
  case 0
  then have "split_loop i (int t) b = Inr b"
    using inv_order [OF 0(1), of i 0] inv_block [OF 0(1), of i 0] invD(1) [OF 0(1)]
    by (simp add: split_loop.simps header_get del: aget_in)
  with 0 show ?case by auto
next
  case (Suc m)
  note B = inv_order [OF Suc.prems(1), of i "Suc m"] inv_block [OF Suc.prems(1), of i "Suc m"]
    invD(1) [OF Suc.prems(1)]
  show ?case
  proof (cases "t = Suc m")
    case True
    then have "split_loop i (int t) b = Inr b"
      using B by (simp add: split_loop.simps header_get del: aget_in)
    with True Suc.prems show ?thesis by auto
  next
    case False
    with Suc.prems have t: "t \<le> m" by simp
    obtain b1 where b1: "split_step i b = Inr b1" "zone_inv b1 (xs(m := (i + 2 ^ m) # xs m)) A {(i, m)}"
      "zone_begin b1 = zone_begin b"
      using split_step_inv [OF Suc.prems(1)] by metis
    have "split_loop i (int t) b = split_loop i (int t) b1"
      using B t b1(1) by (subst split_loop.simps) (simp add: header_get del: aget_in)
    then show ?thesis using Suc.IH [OF b1(2) t] b1(3) by simp
  qed
qed


subsection \<open>Allocation\<close>

definition frame_addr :: "u64 \<Rightarrow> int \<Rightarrow> u64" where
  "frame_addr zb i = zb + word_of_int (i * 4096)"

definition buddy_inv :: "buddy_allocator \<Rightarrow> block set \<Rightarrow> bool" where
  "buddy_inv b A \<longleftrightarrow> (\<exists>xs. zone_inv b xs A {})"

lemma get_page_frame_addr:
  "0 \<le> i \<Longrightarrow> i < 512 \<Longrightarrow> get_page_frame i b = frame_addr (zone_begin b) i"
  by (simp add: get_page_frame_def frame_addr_def int32_id)

lemma take_victim_inv:
  assumes I: "zone_inv b xs A {(p, k)}"
  obtains b' where "take_victim p b = Inr (frame_addr (zone_begin b) p, b')"
    and "zone_inv b' xs (insert (p, k) A) {}" and "zone_begin b' = zone_begin b"
proof -
  note B = inv_block [OF I, of p k, simplified]
  obtain b' where b': "mark_block_as_allocated p b = Inr b'" "shape b'" "nxt b' = nxt b"
    "ord b' = ord b" "first b' = first b" "zone_begin b' = zone_begin b"
    "frame b' = (\<lambda>j. if j \<in> span p k then -1 else frame b j)"
    using mark_block_as_allocated_view [OF invD(1) [OF I] B(2) _ B(3,4)] inv_order [OF I] by auto
  have "take_victim p b = Inr (frame_addr (zone_begin b) p, b')"
    using B b' by (simp add: take_victim_def header_get get_page_frame_addr del: aget_in)
  moreover have "zone_inv b' xs (insert (p, k) A) {}"
    using I b' by (intro inv_hand_out [of b xs A p k "{}"]) auto
  ultimately show thesis using that b' by blast
qed

lemma first_nonempty:
  assumes "zone_inv b xs A P" and "k < 10"
  shows "first b k = (case xs k of [] \<Rightarrow> None | p # _ \<Rightarrow> Some p)"
  using lists_okD(1) [OF invD(2) [OF assms(1)] assms(2)] by (cases "xs k") auto

lemma search_larger_found:
  assumes "zone_inv b xs A {}" and "k < 10"
  shows "search_larger (int k) b =
    (if \<forall>m. k \<le> m \<longrightarrow> xs m = [] then Inr (10, None)
     else let m = (LEAST m. k \<le> m \<and> xs m \<noteq> []) in Inr (int m, Some (hd (xs m))))"
  using assms(2)
proof (induction "10 - k" arbitrary: k)
  case (Suc n)
  show ?case
  proof (cases "xs k = []")
    case False
    then have least: "(LEAST m. k \<le> m \<and> xs m \<noteq> []) = k" by (intro Least_equality) auto
    have "search_larger (int k) b = Inr (int k, Some (hd (xs k)))"
      using False Suc.prems first_nonempty [OF assms(1) Suc.prems] invD(1) [OF assms(1)]
      by (subst search_larger.simps) (auto simp: first_get neq_Nil_conv simp del: aget_in)
    with False least show ?thesis by auto
  next
    case True
    have split: "(k \<le> m \<and> xs m \<noteq> []) \<longleftrightarrow> (Suc k \<le> m \<and> xs m \<noteq> [])" for m
      using True by (metis Suc_leD antisym not_less_eq_eq)
    then have all: "(\<forall>m. k \<le> m \<longrightarrow> xs m = []) \<longleftrightarrow> (\<forall>m. Suc k \<le> m \<longrightarrow> xs m = [])" by blast
    have step: "search_larger (int k) b = search_larger (int (Suc k)) b"
      using True Suc.prems first_nonempty [OF assms(1) Suc.prems] invD(1) [OF assms(1)]
      by (subst search_larger.simps) (simp add: first_get add.commute del: aget_in)
    show ?thesis
    proof (cases "Suc k < 10")
      case True
      moreover have "n = 10 - Suc k" using Suc.hyps(2) by simp
      ultimately show ?thesis using Suc.hyps(1) [of "Suc k"] unfolding step all split by blast
    next
      case False
      then have "\<forall>m. Suc k \<le> m \<longrightarrow> xs m = []" using invD(2) [OF assms(1)] by (simp add: lists_ok_def)
      with False Suc.prems show ?thesis unfolding step all by (simp add: search_larger.simps)
    qed
  qed
qed simp


lemma uint_pages:
  assumes "n < 64"
  shows "uint ((2 ^ n :: u64) div 4096) = (if n < 12 then 0 else 2 ^ (n - 12))"
proof -
  have "uint (2 ^ n :: u64) = 2 ^ n"
    using assms unat_power2 [where 'a = 64, of n] by (simp add: uint_nat)
  moreover have "(2::int) ^ n div 2 ^ 12 = 2 ^ (n - 12)" if "12 \<le> n"
    using that by (simp add: power_diff del: power_numeral)
  moreover have "(2::int) ^ n < 2 ^ 12" if "n < 12"
    using that by (intro power_strict_increasing) auto
  ultimately show ?thesis by (auto simp: uint_div)
qed

lemma size_to_order_power:
  assumes "n < 43"
  shows "size_to_order (2 ^ n) = Some (int (n - 12))"
proof (cases "n < 12")
  case True
  then show ?thesis
    by (simp add: size_to_order_def uint_pages int32_id log2_def log2_loop.simps)
next
  case False
  have "(2::int) ^ (n - 12) < 2 ^ 31" using assms by (intro power_strict_increasing) auto
  then have "int32 (2 ^ (n - 12)) = 2 ^ (n - 12)"
    by (intro int32_id) (auto intro: order_trans [of _ 0])
  then show ?thesis
    using False assms by (simp add: size_to_order_def uint_pages log2_def log2_loop_power)
qed

text \<open>The order of a request: the least one whose blocks hold the requested bytes.\<close>

definition fits :: "u64 \<Rightarrow> nat \<Rightarrow> bool" where
  "fits sz k \<longleftrightarrow> unat sz \<le> 2 ^ (k + 12) \<and> (k = 0 \<or> 2 ^ (k + 11) < unat sz)"

lemma request_order:
  assumes "unat sz \<le> 2 ^ 42"
  obtains n k where "normalize_size sz = Some (2 ^ n)" and "n < 43"
    and "size_to_order (2 ^ n) = Some (int k)" and "fits sz k"
proof -
  have "unat sz \<le> 2 ^ 63" using assms by simp
  then obtain n where n: "n \<le> 63" "normalize_size sz = Some (2 ^ n)" "unat sz \<le> 2 ^ n"
    "n = 0 \<or> 2 ^ (n - 1) < unat sz"
    unfolding normalize_size_def by (rule round_up_to_pow_of_2_Some)
  have n42: "n < 43"
  proof (rule ccontr)
    assume "\<not> n < 43"
    then have "(2::nat) ^ 42 \<le> 2 ^ (n - 1)" by (intro power_increasing) auto
    with n(4) assms \<open>\<not> n < 43\<close> show False by linarith
  qed
  have "fits sz (n - 12)"
  proof (cases "n < 13")
    case True
    then have "(2::nat) ^ n \<le> 2 ^ 12" by (intro power_increasing) auto
    with n(3) True show ?thesis by (simp add: fits_def)
  next
    case False
    then have "n - 12 + 12 = n" "n - 12 + 11 = n - 1" by auto
    with n(3,4) False show ?thesis unfolding fits_def by simp
  qed
  with n n42 that size_to_order_power show thesis by blast
qed

lemma fits_unique: "fits sz k \<Longrightarrow> fits sz m \<Longrightarrow> k = m"
proof (induction k m rule: linorder_wlog)
  case (le k m)
  show ?case
  proof (rule ccontr)
    assume "k \<noteq> m"
    with le have "(2::nat) ^ (k + 12) \<le> 2 ^ (m + 11)" by (intro power_increasing) auto
    with le \<open>k \<noteq> m\<close> show False by (auto simp: fits_def)
  qed
qed simp

lemma allocate_exact:
  assumes I: "zone_inv b xs A {}" and k: "k < 10" and xs: "xs k = p # ys"
  obtains b' xs' where
    "bindE (free_list_del_head (Some p) b) (take_victim p) =
       Inr (frame_addr (zone_begin b) p, b')"
    and "zone_inv b' xs' (insert (p, k) A) {}" and "zone_begin b' = zone_begin b" and "(p, k) \<notin> A"
proof -
  obtain b1 where b1: "free_list_del_head (Some p) b = Inr b1" "relinked b b1"
    "lists_ok b1 (xs(k := ys))"
    using free_list_del_head_ok [OF invD(1,2) [OF I] k xs] by metis
  have I1: "zone_inv b1 (xs(k := ys)) A {(p, k)}"
    using inv_unfree [OF I, of p k b1] b1(2,3) by (simp add: xs)
  obtain b' where b': "take_victim p b1 = Inr (frame_addr (zone_begin b1) p, b')"
    "zone_inv b' (xs(k := ys)) (insert (p, k) A) {}" "zone_begin b' = zone_begin b1"
    using take_victim_inv [OF I1] by metis
  show thesis using that [of b'] b1 b' invD(5) [OF I1] by (simp add: relinked_def)
qed

lemma allocate_split:
  assumes I: "zone_inv b xs A {}" and p: "p \<in> set (xs m)" and t: "t \<le> m"
  obtains b1 b2 b' xs' where "free_list_del_entry (Some p) b = Inr b1"
    and "split_block (Some p) (int t) b1 = Inr (p, b2)"
    and "take_victim p b2 = Inr (frame_addr (zone_begin b) p, b')"
    and "zone_inv b' xs' (insert (p, t) A) {}" and "zone_begin b' = zone_begin b" and "(p, t) \<notin> A"
proof -
  note B = inv_block [OF I, of p m, simplified, OF disjI1, OF p]
  obtain b1 where b1: "free_list_del_entry (Some p) b = Inr b1" "relinked b b1"
    "lists_ok b1 (xs(m := remove1 p (xs m)))"
    using free_list_del_entry_ok [OF invD(1,2) [OF I] B(4) p] by metis
  have I1: "zone_inv b1 (xs(m := remove1 p (xs m))) A {(p, m)}"
    by (rule inv_unfree [OF I p b1(2,3)])
  obtain b2 xs2 where b2: "split_loop p (int t) b1 = Inr b2" "zone_inv b2 xs2 A {(p, t)}"
    "zone_begin b2 = zone_begin b1"
    using split_loop_inv [OF I1 t] by metis
  have sb: "split_block (Some p) (int t) b1 = Inr (p, b2)"
    using B b1(2) b2(1) inv_order [OF I, of p m] p
    by (simp add: split_block_def header_get relinked_def del: aget_in)
  obtain b' where b': "take_victim p b2 = Inr (frame_addr (zone_begin b2) p, b')"
    "zone_inv b' xs2 (insert (p, t) A) {}" "zone_begin b' = zone_begin b2"
    using take_victim_inv [OF b2(2)] by metis
  show thesis using that [OF b1(1) sb] b1 b2 b' invD(5) [OF b2(2)] by (simp add: relinked_def)
qed

lemma allocate_inv:
  assumes I: "zone_inv b xs A {}" and sz: "unat sz \<le> 2 ^ 42" and k: "fits sz k"
  shows "(\<exists>p b' xs'. allocate sz b = Inr (frame_addr (zone_begin b) p, b') \<and>
            zone_inv b' xs' (insert (p, k) A) {} \<and> zone_begin b' = zone_begin b \<and> (p, k) \<notin> A) \<or>
         (allocate sz b = Inr (0, b) \<and> (\<forall>m \<ge> k. xs m = []))"
    (is "?hit \<or> ?miss")
proof -
  obtain n where n: "normalize_size sz = Some (2 ^ n)" "n < 43"
    "size_to_order (2 ^ n) = Some (int k)"
    using request_order [OF sz] fits_unique [OF k] by metis
  then have nz: "(2 ^ n :: u64) \<noteq> 0" by (simp add: exp_eq_zero_iff)
  consider (big) "10 \<le> k" | (exact) p ys where "k < 10" "xs k = p # ys"
    | (none) "k < 10" "xs k = []" "\<forall>m \<ge> k. xs m = []"
    | (larger) "k < 10" "xs k = []" "\<not> (\<forall>m \<ge> k. xs m = [])"
    by (cases "xs k") force+
  then show ?thesis
  proof cases
    case big
    then have "\<forall>m \<ge> k. xs m = []" using invD(2) [OF I] by (auto simp: lists_ok_def)
    with big n nz have ?miss by (simp add: allocate_def)
    then show ?thesis ..
  next
    case exact
    then have "allocate sz b = bindE (free_list_del_head (Some p) b) (take_victim p)"
      using n nz first_nonempty [OF I exact(1)] invD(1) [OF I]
      by (simp add: allocate_def first_get del: aget_in)
    with allocate_exact [OF I exact] have ?hit by metis
    then show ?thesis ..
  next
    case none
    then have ?miss
      using n nz first_nonempty [OF I none(1)] invD(1) [OF I] search_larger_found [OF I none(1)]
      by (simp add: allocate_def first_get del: aget_in)
    then show ?thesis ..
  next
    case larger
    define m where "m = (LEAST m. k \<le> m \<and> xs m \<noteq> [])"
    have m: "k \<le> m" "xs m \<noteq> []" using larger(3) LeastI_ex [of "\<lambda>m. k \<le> m \<and> xs m \<noteq> []"]
      unfolding m_def by blast+
    then have "hd (xs m) \<in> set (xs m)" "m < 10"
      using invD(2) [OF I] by (auto simp: lists_ok_def not_le [symmetric])
    moreover have "search_larger (int k) b = Inr (int m, Some (hd (xs m)))"
      using search_larger_found [OF I larger(1)] larger(3) unfolding m_def Let_def by simp
    ultimately obtain b1 b2 b' xs' where
      "free_list_del_entry (Some (hd (xs m))) b = Inr b1"
      "split_block (Some (hd (xs m))) (int k) b1 = Inr (hd (xs m), b2)"
      "take_victim (hd (xs m)) b2 = Inr (frame_addr (zone_begin b) (hd (xs m)), b')"
      and hit: "zone_inv b' xs' (insert (hd (xs m), k) A) {}" "zone_begin b' = zone_begin b"
        "(hd (xs m), k) \<notin> A"
      and "search_larger (int k) b = Inr (int m, Some (hd (xs m)))" "m < 10"
      using allocate_split [OF I _ m(1)] by metis
    then have "allocate sz b = Inr (frame_addr (zone_begin b) (hd (xs m)), b')"
      using n nz first_nonempty [OF I larger(1)] invD(1) [OF I] larger(1,2)
      by (simp add: allocate_def first_get del: aget_in)
    with hit show ?thesis by blast
  qed
qed


subsection \<open>Deallocation\<close>

text \<open>The block at the buddy's first frame, and what the tests of the merge loop see of it.\<close>

lemma buddy_in_zone:
  assumes "aligned i k" and "i + 2 ^ k \<le> 512" and "k < 9"
  shows "0 \<le> buddy_of i k" and "buddy_of i k < 512"
proof -
  have "i < 512" using assms(2) zero_less_power [of "2::int" k] by linarith
  then have "i \<in> span i k \<inter> span 0 9" using assms(1) by (simp add: aligned_def)
  then have "span (min i (buddy_of i k)) (Suc k) \<inter> span 0 9 \<noteq> {}"
    using buddy_parent_span [OF assms(1)] by blast
  then have "span (min i (buddy_of i k)) (Suc k) \<subseteq> span 0 9"
    using buddy_parent_aligned [OF assms(1)] assms(3)
    by (intro span_nested) (simp_all add: aligned_def)
  then have "buddy_of i k \<in> span 0 9"
    using buddy_parent_span [OF assms(1)] start_in_span [of "buddy_of i k" k] by blast
  then show "0 \<le> buddy_of i k" "buddy_of i k < 512" by simp_all
qed

lemma buddy_state:
  assumes I: "zone_inv b xs A {(i, k)}" and k: "k < 9"
  shows "frame b (buddy_of i k) \<noteq> -1 \<and> ord b (buddy_of i k) = int k \<longleftrightarrow> buddy_of i k \<in> set (xs k)"
proof -
  let ?j = "buddy_of i k"
  note B = inv_block [OF I, of i k, simplified]
  note t = invD(3) [OF I]
  have pow9: "(2::int) ^ 9 = 512" by simp
  obtain p m where p: "(p, m) \<in> free_set xs \<union> A \<union> {(i, k)}" "?j \<in> span p m"
    using tiling_at [OF t, of ?j] buddy_in_zone [OF B(1,3) k] unfolding pow9 by blast
  have "?j \<notin> span i k"
    using buddy_span_disjoint [OF B(1)] start_in_span [of ?j k] by blast
  then have ne: "(p, m) \<noteq> (i, k)" using p(2) by blast
  then have "span p m \<inter> span i k = {}" using tiling_disjoint [OF t p(1), of i k] by blast
  then have pj: "p = ?j" "m \<le> k"
    using block_at_buddy [OF B(1) _ p(2)] tiling_aligned [OF t p(1)] by blast+
  have o: "ord b ?j = int m" using inv_order [OF I p(1)] pj by simp
  have only: "?j \<in> set (xs k) \<Longrightarrow> k = m"
    using inv_order [OF I, of ?j k] o by simp
  have "frame b ?j = (if ?j \<in> set (xs m) then int m else -1)"
  proof (cases "?j \<in> set (xs m)")
    case True
    then show ?thesis using frames_okD(2) [OF invD(6) [OF I], of ?j m ?j] by simp
  next
    case False
    moreover have "(?j, m) \<in> free_set xs \<or> (?j, m) \<in> A" using p(1) ne unfolding pj(1) by blast
    ultimately have "(?j, m) \<in> A" unfolding free_set_iff by blast
    then show ?thesis using False frames_okD(1) [OF invD(6) [OF I], of ?j m ?j] by simp
  qed
  then have "frame b ?j \<noteq> -1 \<longleftrightarrow> ?j \<in> set (xs m)" by simp
  moreover have "ord b ?j = int k \<longleftrightarrow> k = m" using o by auto
  ultimately show ?thesis using only by blast
qed

lemma merge_step_stop:
  assumes I: "zone_inv b xs A {(i, k)}" and "k < 9 \<Longrightarrow> buddy_of i k \<notin> set (xs k)"
  shows "merge_step i b = Inr None"
proof -
  note B = inv_block [OF I, of i k, simplified] inv_order [OF I, of i k]
  show ?thesis
  proof (cases "k < 9")
    case True
    then show ?thesis
      using B assms(2) buddy_state [OF I True] buddy_in_zone [OF B(1,3) True] invD(1) [OF I]
      by (simp add: merge_step_def header_get frame_get get_buddy_view is_block_allocated_def
          eq_commute [of "int k" "ord b (buddy_of i k)"] del: aget_in)
  next
    case False
    with B invD(1) [OF I] show ?thesis by (simp add: merge_step_def header_get del: aget_in)
  qed
qed

lemma merge_step_merge:
  assumes I: "zone_inv b xs A {(i, k)}" and k: "k < 9" and j: "buddy_of i k \<in> set (xs k)"
  obtains b' where "merge_step i b = Inr (Some (min i (buddy_of i k), b'))"
    and "zone_inv b' (xs(k := remove1 (buddy_of i k) (xs k))) A {(min i (buddy_of i k), Suc k)}"
    and "zone_begin b' = zone_begin b"
proof -
  let ?j = "buddy_of i k" and ?xs = "xs(k := remove1 (buddy_of i k) (xs k))"
  note B = inv_block [OF I, of i k, simplified] inv_order [OF I, of i k]
  note J = buddy_state [OF I k] buddy_in_zone [OF B(1,3) k]
  have k10: "k < 10" using k by simp
  obtain b1 where b1: "free_list_del_entry (Some ?j) b = Inr b1" "relinked b b1" "lists_ok b1 ?xs"
    using free_list_del_entry_ok [OF invD(1,2) [OF I] k10 j] by metis
  have I1: "zone_inv b1 ?xs A {(?j, k), (i, k)}" by (rule inv_unfree [OF I j b1(2,3)])
  have m: "0 \<le> min i ?j" "min i ?j < 512" using B J by auto
  obtain b' where b': "set_order (min i ?j) (int k + 1) b1 = Inr b'" "shape b'" "nxt b' = nxt b1"
    "ord b' = (ord b1)(min i ?j := int k + 1)" "frame b' = frame b1" "first b' = first b1"
    "zone_begin b' = zone_begin b1"
    using set_order_view [OF invD(1) [OF I1] m] by metis
  have if_min: "(if ?j < i then ?j else i) = min i ?j" by auto
  have sh: "shape b" "shape b1" using invD(1) [OF I] invD(1) [OF I1] .
  have ij: "ord b i = int k" "ord b ?j = int k" "frame b ?j \<noteq> -1" using B(6) J(1) j by auto
  have o: "ord b1 (min i ?j) = int k"
    using ij b1(2) by (simp add: relinked_def min_def)
  have "get_buddy i b = Inr ?j" "is_block_allocated ?j b = Inr False"
    using B(2,5) J(2,3) ij sh
    by (simp_all add: get_buddy_view is_block_allocated_def header_get frame_get del: aget_in)
  then have "merge_step i b = Inr (Some (min i ?j, b'))"
    using header_get [OF sh(1) B(2,5)] header_get [OF sh(1) J(2,3)] header_get [OF sh(2) m]
      ij(1,2) o k b1(1) b'(1)
    by (simp add: merge_step_def if_min Let_def del: aget_in)
  moreover have "zone_inv b' ?xs A {(min i ?j, Suc k)}"
  proof (rule inv_recut [OF I1 b'(2)])
    show "ord b' x = ord b1 x" if "x \<notin> (\<Union>(i, k) \<in> {(?j, k), (i, k)}. span i k)" for x
    proof -
      have "x \<noteq> i" "x \<noteq> ?j" using that start_in_span [of i k] start_in_span [of ?j k] by blast+
      then show ?thesis by (simp add: b' min_def)
    qed
    show "(\<Union>(i, k) \<in> {(min i ?j, Suc k)}. span i k) = (\<Union>(i, k) \<in> {(?j, k), (i, k)}. span i k)"
      by (simp add: buddy_parent_span [OF B(1)] Un_commute)
  qed (use buddy_parent_aligned [OF B(1)] b' in \<open>simp_all\<close>)
  ultimately show thesis using that b1 b' by (simp add: relinked_def)
qed

lemma merge_loop_inv:
  "zone_inv b xs A {(i, k)} \<Longrightarrow>
   \<exists>j m b' xs'. merge_loop i b = Inr (j, b') \<and> zone_inv b' xs' A {(j, m)} \<and>
     (m < 9 \<longrightarrow> buddy_of j m \<notin> set (xs' m)) \<and> zone_begin b' = zone_begin b"
proof (induction "9 - k" arbitrary: b xs i k rule: less_induct)
  case less
  show ?case
  proof (cases "k < 9 \<and> buddy_of i k \<in> set (xs k)")
    case False
    then have "merge_loop i b = Inr (i, b)"
      using merge_step_stop [OF less.prems] by (subst merge_loop.simps) simp
    with False less.prems show ?thesis by blast
  next
    case True
    then obtain b' where b': "merge_step i b = Inr (Some (min i (buddy_of i k), b'))"
      "zone_inv b' (xs(k := remove1 (buddy_of i k) (xs k))) A {(min i (buddy_of i k), Suc k)}"
      "zone_begin b' = zone_begin b"
      using merge_step_merge [OF less.prems] by metis
    have "merge_loop i b = merge_loop (min i (buddy_of i k)) b'"
      using b'(1) by (subst merge_loop.simps) simp
    moreover have "9 - Suc k < 9 - k" using True by linarith
    ultimately show ?thesis using less.hyps [OF _ b'(2)] b'(3) by simp
  qed
qed

end
