(* ===== verification/Page_Interface.thy ===== *)
theory Page_Interface
  imports Pages
begin

text \<open>
  The interface between an allocator of memory regions and its clients. A region is a start
  address and a length in bytes. The ghost argument of \<open>live\<close> is the set of regions handed out
  and not yet returned; the laws say that an allocation adds one region that meets none of them,
  that a client may return any region it holds, and that neither call stops the kernel.
\<close>

type_synonym region = "u64 \<times> nat"

definition bytes :: "region \<Rightarrow> nat set" where
  "bytes r = {unat (fst r) ..< unat (fst r) + snd r}"

definition regions_ok :: "region set \<Rightarrow> bool" where
  "regions_ok R \<longleftrightarrow>
     (\<forall>(p, n) \<in> R. p \<noteq> 0 \<and> is_aligned p \<and> 0 < n \<and> unat p + n \<le> 2 ^ 64) \<and>
     (\<forall>r \<in> R. \<forall>q \<in> R. r \<noteq> q \<longrightarrow> bytes r \<inter> bytes q = {})"

text \<open>
  A client of the allocator: a sequence of calls in which only addresses the client holds are
  given back. \<open>Acquire sz\<close> requests \<open>sz\<close> bytes and keeps the result unless it is null;
  \<open>Release i\<close> returns the \<open>i\<close>-th address held (and does nothing if there is none).
\<close>

datatype client_op = Acquire u64 | Release nat

definition drop_nth :: "nat \<Rightarrow> 'a list \<Rightarrow> 'a list" where
  "drop_nth i xs = take i xs @ drop (Suc i) xs"

fun run_client ::
  "(u64 \<Rightarrow> 's \<Rightarrow> kerror + (u64 \<times> 's)) \<Rightarrow> (u64 \<Rightarrow> 's \<Rightarrow> kerror + 's) \<Rightarrow>
   client_op list \<Rightarrow> u64 list \<Rightarrow> 's \<Rightarrow> kerror + (u64 list \<times> 's)" where
  "run_client al de [] held s = Inr (held, s)"
| "run_client al de (Acquire sz # ops) held s =
     bindE (al sz s) (\<lambda>(p, s'). run_client al de ops (if p = 0 then held else p # held) s')"
| "run_client al de (Release i # ops) held s =
     (if i < length held
      then bindE (de (held ! i) s) (\<lambda>s'. run_client al de ops (drop_nth i held) s')
      else run_client al de ops held s)"

fun requests_within :: "nat \<Rightarrow> client_op list \<Rightarrow> bool" where
  "requests_within n [] = True"
| "requests_within n (Acquire sz # ops) = (unat sz \<le> n \<and> requests_within n ops)"
| "requests_within n (Release i # ops) = requests_within n ops"

lemma drop_nth_set:
  "i < length xs \<Longrightarrow> distinct xs \<Longrightarrow> set (drop_nth i xs) = set xs - {xs ! i} \<and> distinct (drop_nth i xs)"
proof -
  assume i: "i < length xs" and d: "distinct xs"
  have s: "xs = take i xs @ xs ! i # drop (Suc i) xs" using i by (rule id_take_nth_drop)
  with d have "distinct (take i xs @ xs ! i # drop (Suc i) xs)" by simp
  moreover have "set xs = set (take i xs @ xs ! i # drop (Suc i) xs)" using s by simp
  ultimately show ?thesis by (auto simp: drop_nth_def)
qed

locale page_allocator =
  fixes alloc :: "u64 \<Rightarrow> 's \<Rightarrow> kerror + (u64 \<times> 's)"
    and dealloc :: "u64 \<Rightarrow> 's \<Rightarrow> kerror + 's"
    and live :: "'s \<Rightarrow> region set \<Rightarrow> bool"
    and limit :: nat
  assumes live_regions: "live s R \<Longrightarrow> regions_ok R"
    and alloc_law: "live s R \<Longrightarrow> unat sz \<le> limit \<Longrightarrow>
      \<exists>p s'. alloc sz s = Inr (p, s') \<and>
        (if p = 0 then s' = s
         else \<exists>n. unat sz \<le> n \<and> (p, n) \<notin> R \<and> live s' (insert (p, n) R))"
    and dealloc_law: "live s R \<Longrightarrow> (p, n) \<in> R \<Longrightarrow>
      \<exists>s'. dealloc p s = Inr s' \<and> live s' (R - {(p, n)})"
begin

lemma start_determines:
  assumes "live s R" and "(p, n) \<in> R" and "(p, m) \<in> R"
  shows "n = m"
proof (rule ccontr)
  assume "n \<noteq> m"
  then have "(p, n) \<noteq> (p, m)" by simp
  then have "bytes (p, n) \<inter> bytes (p, m) = {}"
    using live_regions [OF assms(1)] assms(2,3) unfolding regions_ok_def by blast
  moreover have "0 < n" "0 < m"
    using live_regions [OF assms(1)] assms(2,3) unfolding regions_ok_def by blast+
  then have "unat p \<in> bytes (p, n) \<inter> bytes (p, m)" by (simp add: bytes_def)
  ultimately show False by blast
qed

lemma fresh_address:
  assumes "live s (insert (p, n) R)" and "(p, n) \<notin> R"
  shows "p \<notin> fst ` R"
proof
  assume "p \<in> fst ` R"
  then obtain m where "(p, m) \<in> R" by auto
  with assms start_determines [OF assms(1), of p n m] show False by auto
qed

lemma release_holdings:
  assumes "live s R" and "(p, n) \<in> R"
  shows "fst ` (R - {(p, n)}) = fst ` R - {p}"
proof -
  have "p \<notin> fst ` (R - {(p, n)})"
  proof
    assume "p \<in> fst ` (R - {(p, n)})"
    then obtain r where "r \<in> R" "r \<noteq> (p, n)" "p = fst r" by blast
    then have "(p, snd r) \<in> R" "snd r \<noteq> n" by (metis prod.collapse)+
    then show False using start_determines [OF assms(1)] assms(2) by blast
  qed
  moreover have "fst ` R = insert p (fst ` (R - {(p, n)}))"
    using assms(2) by (metis fst_conv image_insert insert_Diff)
  ultimately show ?thesis by blast
qed

text \<open>A client that returns only what it holds never stops the kernel.\<close>

lemma client_safe:
  "live s R \<Longrightarrow> set held = fst ` R \<Longrightarrow> distinct held \<Longrightarrow> requests_within limit ops \<Longrightarrow>
   \<exists>held' s' R'. run_client alloc dealloc ops held s = Inr (held', s') \<and> live s' R' \<and>
     set held' = fst ` R' \<and> distinct held'"
proof (induction ops arbitrary: held s R)
  case Nil
  then show ?case by auto
next
  case (Cons op ops)
  show ?case
  proof (cases op)
    case (Acquire sz)
    with Cons.prems obtain p s1 where a: "alloc sz s = Inr (p, s1)"
      "if p = 0 then s1 = s else \<exists>n. unat sz \<le> n \<and> (p, n) \<notin> R \<and> live s1 (insert (p, n) R)"
      using alloc_law [of s R sz] by auto
    show ?thesis
    proof (cases "p = 0")
      case True
      then show ?thesis using a Acquire Cons by auto
    next
      case False
      then obtain n where n: "(p, n) \<notin> R" "live s1 (insert (p, n) R)" using a(2) by auto
      then have "set (p # held) = fst ` insert (p, n) R" "distinct (p # held)"
        using Cons.prems fresh_address by auto
      then show ?thesis
        using Cons.IH [OF n(2), of "p # held"] Cons.prems(4) a(1) False Acquire by simp
    qed
  next
    case (Release i)
    show ?thesis
    proof (cases "i < length held")
      case True
      then have "held ! i \<in> fst ` R" using Cons.prems(2) nth_mem by blast
      then obtain n where n: "(held ! i, n) \<in> R" by force
      then obtain s1 where s1: "dealloc (held ! i) s = Inr s1" "live s1 (R - {(held ! i, n)})"
        using dealloc_law [OF Cons.prems(1)] by blast
      have "set (drop_nth i held) = fst ` (R - {(held ! i, n)})" "distinct (drop_nth i held)"
        using drop_nth_set [OF True Cons.prems(3)] release_holdings [OF Cons.prems(1) n]
          Cons.prems(2) by auto
      then show ?thesis
        using Cons.IH [OF s1(2)] Cons.prems(4) True s1(1) Release by simp
    next
      case False
      then show ?thesis using Cons Release by simp
    qed
  qed
qed

end

end
