(* ===== verification/BuddySpec.thy ===== *)
theory BuddySpec
  imports BuddyCorrect Page_Interface
begin

text \<open>
  What the buddy allocator promises: the constructor establishes the invariant, \<open>allocate\<close>
  hands out a fresh block of the right order whenever an aligned run of free frames of that
  length exists, \<open>deallocate\<close> takes it back, and an allocator with nothing handed out is in
  its initial configuration again.
\<close>

subsection \<open>Addresses of frames\<close>

text \<open>The zone is page aligned, does not start at the null address and does not wrap around.\<close>

definition zone_ok :: "u64 \<Rightarrow> bool" where
  "zone_ok zb \<longleftrightarrow> is_aligned zb \<and> zb \<noteq> 0 \<and> uint zb + 2 ^ 21 \<le> 2 ^ 64"

lemma uint_page_offset:
  "0 \<le> i \<Longrightarrow> i < 512 \<Longrightarrow> uint (word_of_int (i * 4096) :: u64) = i * 4096"
  unfolding uint_word_of_int_eq by (rule take_bit_int_eq_self) simp_all

lemma uint_frame_addr:
  assumes "zone_ok zb" and "0 \<le> i" and "i < 512"
  shows "uint (frame_addr zb i) = uint zb + i * 4096"
proof -
  have "uint zb + 2 ^ 21 \<le> 2 ^ 64"
    using assms(1) unfolding zone_ok_def by blast
  then have "uint zb + uint (word_of_int (i * 4096) :: u64) < 2 ^ 64"
    using assms by (simp add: uint_page_offset del: of_int_mult)
  then show ?thesis
    using uint_add_lem [of zb "word_of_int (i * 4096)"] uint_page_offset [OF assms(2,3)]
    by (simp add: frame_addr_def del: of_int_mult)
qed

lemma frame_addr_aligned:
  "zone_ok zb \<Longrightarrow> 0 \<le> i \<Longrightarrow> i < 512 \<Longrightarrow> is_aligned (frame_addr zb i)"
proof -
  assume z: "zone_ok zb" and i: "0 \<le> i" "i < 512"
  have "uint zb mod 4096 = 0" using z unfolding zone_ok_def is_aligned_uint by blast
  then show ?thesis unfolding is_aligned_uint uint_frame_addr [OF z i] by (simp only: mod_mult_self1)
qed

lemma frame_addr_not_null: "zone_ok zb \<Longrightarrow> 0 \<le> i \<Longrightarrow> i < 512 \<Longrightarrow> frame_addr zb i \<noteq> 0"
proof
  assume z: "zone_ok zb" and i: "0 \<le> i" "i < 512" and "frame_addr zb i = 0"
  then have "uint zb + i * 4096 = 0" using uint_frame_addr [OF z i] by simp
  then have "uint zb = 0" using i uint_ge_0 [of zb] by linarith
  then show False using z unfolding zone_ok_def uint_0_iff by blast
qed

lemma frame_addr_inj:
  assumes "zone_ok zb" and "0 \<le> i" and "i < 512" and "0 \<le> j" and "j < 512"
    and "frame_addr zb i = frame_addr zb j"
  shows "i = j"
proof -
  have "uint zb + i * 4096 = uint zb + j * 4096"
    using assms(6) uint_frame_addr [OF assms(1-3)] uint_frame_addr [OF assms(1,4,5)] by metis
  then show ?thesis by linarith
qed

lemma get_block_header_frame:
  assumes "zone_ok (zone_begin b)" and "0 \<le> i" and "i < 512"
  shows "get_block_header (frame_addr (zone_begin b) i) b = Inr i"
proof -
  have "uint ((frame_addr (zone_begin b) i - zone_begin b) div 4096) = i"
    using uint_page_offset [OF assms(2,3)] by (simp add: frame_addr_def uint_div del: of_int_mult)
  then show ?thesis
    using assms frame_addr_aligned by (simp add: get_block_header_def int32_id)
qed


subsection \<open>Deallocation\<close>

lemma deallocate_inv:
  assumes I: "zone_inv b xs A {}" and z: "zone_ok (zone_begin b)" and p: "(p, k) \<in> A"
  obtains b' xs' where "deallocate (frame_addr (zone_begin b) p) b = Inr b'"
    and "zone_inv b' xs' (A - {(p, k)}) {}" and "zone_begin b' = zone_begin b"
proof -
  let ?A = "A - {(p, k)}"
  note B = inv_block [OF I, of p k, simplified, OF disjI2, OF p]
  obtain j m b1 xs1 where b1: "merge_loop p b = Inr (j, b1)" and I1: "zone_inv b1 xs1 ?A {(j, m)}"
    and c: "m < 9 \<longrightarrow> buddy_of j m \<notin> set (xs1 m)" and z1: "zone_begin b1 = zone_begin b"
    using merge_loop_inv [OF inv_take_back [OF I p]] by blast
  note J = inv_block [OF I1, of j m, simplified]
  have o: "ord b1 j = int m" using inv_order [OF I1] by simp
  have "j \<notin> set (xs1 m)" using invD(4) [OF I1] unfolding free_set_def by blast
  then obtain b2 where b2: "free_list_add_head (Some j) b1 = Inr b2" "relinked b1 b2"
    "lists_ok b2 (xs1(m := j # xs1 m))"
    using free_list_add_head_ok [OF invD(1,2) [OF I1] J(4) _ J(2,5) o] by metis
  have s2: "shape b2" "ord b2 j = int m" using b2(2) o by (auto simp: relinked_def)
  obtain b3 where b3: "mark_block_as_allocatable j b2 = Inr b3" "shape b3" "nxt b3 = nxt b2"
    "ord b3 = ord b2" "first b3 = first b2" "zone_begin b3 = zone_begin b2"
    "frame b3 = (\<lambda>x. if x = j then int m else if x \<in> span j m then -2 else frame b2 x)"
    using mark_block_as_allocatable_view [OF s2(1) J(2) s2(2) J(3,4)] by blast
  have "lists_ok b3 (xs1(m := j # xs1 m))" using b2(3) by (simp add: lists_ok_def b3)
  then have "zone_inv b3 (xs1(m := j # xs1 m)) ?A {}"
    using c b2(2) b3 by (intro inv_free [OF I1]) (auto simp: relinked_def)
  moreover have "deallocate (frame_addr (zone_begin b) p) b = Inr b3"
    using get_block_header_frame [OF z B(2,5)] frame_addr_not_null [OF z B(2,5)] b1 b2(1) b3(1)
    by (simp add: deallocate_def)
  moreover have "zone_begin b3 = zone_begin b" using b2(2) b3(6) z1 by (simp add: relinked_def)
  ultimately show thesis using that by blast
qed


subsection \<open>Free runs\<close>

text \<open>
  An aligned run of frames none of which is handed out lies inside one free block: smaller free
  blocks inside the run would have a free buddy.
\<close>

lemma coalesced_run:
  assumes t: "tiling 9 (F \<union> A)" and c: "coalesced F" and j: "aligned j k"
    and z: "span j k \<subseteq> span 0 9" and free: "\<And>i m. (i, m) \<in> A \<Longrightarrow> span i m \<inter> span j k = {}"
  obtains i m where "(i, m) \<in> F" and "k \<le> m" and "span j k \<subseteq> span i m"
proof -
  let ?meets = "\<lambda>m. \<exists>i. (i, m) \<in> F \<and> span i m \<inter> span j k \<noteq> {}"
  have in_F: "\<exists>i m. (i, m) \<in> F \<and> x \<in> span i m" if "x \<in> span j k" for x
  proof -
    have "x \<in> span 0 9" using that z by blast
    then obtain i m where "(i, m) \<in> F \<union> A" "x \<in> span i m" using tiling_at [OF t, of x] by auto
    then show ?thesis using free that by blast
  qed
  define m where "m = (LEAST m. ?meets m)"
  have "\<exists>m. ?meets m" using in_F [OF start_in_span] start_in_span [of j k] by blast
  then have "?meets m" unfolding m_def by (rule LeastI_ex)
  then obtain i where i: "(i, m) \<in> F" "span i m \<inter> span j k \<noteq> {}" by blast
  have al: "aligned i m" using tiling_aligned [OF t] i by blast
  show thesis
  proof (cases "k \<le> m")
    case True
    then show ?thesis using that [OF i(1)] span_nested [OF j al] i(2) by blast
  next
    case False
    let ?b = "buddy_of i m"
    have "k \<le> 9" using span_le_order [OF z] by blast
    have "span (min i ?b) (Suc m) \<inter> span j k \<noteq> {}" using i(2) buddy_parent_span [OF al] by blast
    then have "span (min i ?b) (Suc m) \<subseteq> span j k"
      using span_nested [OF buddy_parent_aligned [OF al] j] False by simp
    then have b: "?b \<in> span j k" using buddy_parent_span [OF al] start_in_span by blast
    then obtain i' m' where i': "(i', m') \<in> F" "?b \<in> span i' m'" using in_F by blast
    have "?b \<notin> span i m" using buddy_span_disjoint [OF al] start_in_span by blast
    then have "span i' m' \<inter> span i m = {}"
      using tiling_disjoint [OF t, of i' m' i m] i i' by blast
    then have "i' = ?b" "m' \<le> m"
      using block_at_buddy [OF al _ i'(2)] tiling_aligned [OF t] i'(1) by blast+
    moreover have "m \<le> m'" unfolding m_def using i' b by (intro Least_le) blast
    ultimately have "(?b, m) \<in> F" using i'(1) by simp
    moreover have "m < 9" using False \<open>k \<le> 9\<close> by simp
    ultimately show ?thesis using c i(1) unfolding coalesced_def by blast
  qed
qed


subsection \<open>The initial configuration\<close>

definition initial_lists :: "nat \<Rightarrow> int list" where
  "initial_lists k = (if k = 9 then [0] else [])"

lemma tiling_whole: "tiling 9 {(0, 9)}"
  by (rule tilingI) (auto simp: aligned_def)

lemma zone_order: "size_to_order (get_zone_end zb - zb) = Some 9"
proof -
  have "order_to_size (word_of_int 9) = 2 ^ 21"
    by (simp add: order_to_size_def int32_id pow_two)
  then have "get_zone_end zb - zb = 2 ^ 21" by (simp add: get_zone_end_def)
  then show ?thesis using size_to_order_power [of 21] by simp
qed

lemma constructor_state:
  obtains b where "BuddyAllocator zb = Inr b" and "zone_begin b = zb" and "shape b"
    and "frame b = (\<lambda>j. if j < 0 then 0 else (9 # replicate 511 (-2)) ! nat j)"
    and "first b = (\<lambda>k. (replicate 9 None @ [Some 0]) ! k)" and "nxt b 0 = None" and "ord b 0 = 9"
proof -
  let ?hs = "map (\<lambda>i. \<lparr>hd_next = None, hd_order = 0, hd_index = i\<rparr>) [0..511]"
  let ?b0 = "\<lparr>zone_begin = zb, frame_array = 9 # replicate 511 (-2),
    free_lists = replicate 9 None @ [Some 0], headers = ?hs\<rparr>"
  have fl: "(replicate 10 None)[9 := Some (0::int)] = replicate 9 None @ [Some 0]"
    by (simp add: eval_nat_numeral)
  have s0: "shape ?b0" by (auto simp: shape_def)
  obtain b1 where b1: "set_order 0 9 ?b0 = Inr b1" "shape b1" "nxt b1 = nxt ?b0"
    "ord b1 = (ord ?b0)(0 := 9)" "frame b1 = frame ?b0" "first b1 = first ?b0"
    "zone_begin b1 = zone_begin ?b0"
    using set_order_view [OF s0, of 0] by (metis order_refl zero_less_numeral)
  obtain b2 where b2: "set_next 0 None b1 = Inr b2" "shape b2" "nxt b2 = (nxt b1)(0 := None)"
    "ord b2 = ord b1" "frame b2 = frame b1" "first b2 = first b1" "zone_begin b2 = zone_begin b1"
    using set_next_view [OF b1(2), of 0] by (metis order_refl zero_less_numeral)
  have "BuddyAllocator zb = Inr b2"
    using b1(1) b2(1) by (simp add: BuddyAllocator_def zone_order Let_def int8_id fl)
  then show thesis
    by (rule that) (simp_all add: b1 b2 frame_def first_def fun_eq_iff)
qed

lemma constructor_inv:
  obtains b where "BuddyAllocator zb = Inr b" and "zone_begin b = zb"
    and "zone_inv b initial_lists {} {}"
proof -
  obtain b where b: "BuddyAllocator zb = Inr b" "zone_begin b = zb" "shape b"
    "frame b = (\<lambda>j. if j < 0 then 0 else (9 # replicate 511 (-2)) ! nat j)"
    "first b = (\<lambda>k. (replicate 9 None @ [Some 0]) ! k)" "nxt b 0 = None" "ord b 0 = 9"
    by (rule constructor_state)
  have F: "free_set initial_lists = {(0, 9)}"
    by (auto simp: free_set_def initial_lists_def split: if_splits)
  have "lists_ok b initial_lists"
    using b by (auto simp: lists_ok_def initial_lists_def nth_append)
  moreover have "frames_ok b {(0, 9)} {}"
    by (rule frames_okI) (auto simp: b nth_Cons')
  ultimately have "zone_inv b initial_lists {} {}"
    using b(3) tiling_whole unfolding zone_inv_def F by (simp add: coalesced_def)
  with b that show thesis by blast
qed

text \<open>With nothing handed out there is one free block, the whole zone.\<close>

lemma empty_lists:
  assumes I: "zone_inv b xs {} {}"
  shows "xs = initial_lists"
proof -
  have t: "tiling 9 (free_set xs \<union> {})" using invD(3) [OF I] by simp
  obtain i m where im: "(i, m) \<in> free_set xs" "9 \<le> m" "span 0 9 \<subseteq> span i m"
    using coalesced_run [OF t invD(7) [OF I], of 0 9] by (auto simp: aligned_def)
  then have i: "i = 0" "m = 9" using tiling_bounds [OF t, of i m] by auto
  have only: "(j, k) \<in> free_set xs \<Longrightarrow> (j, k) = (0, 9)" for j k
    using tiling_start [OF t, of j k 0 9] inv_block [OF I, of j k] im i by auto
  have "distinct (xs 9)" using lists_okD(2) [OF invD(2) [OF I]] by simp
  moreover have "x = 0" if "x \<in> set (xs 9)" for x using only [of x 9] that by simp
  moreover have "0 \<in> set (xs 9)" using im i by simp
  ultimately have "xs 9 = [0]" by (rule distinct_singleton)
  moreover have "xs k = []" if "k \<noteq> 9" for k
    using only [of _ k] that by (metis free_set_iff list.set_intros(1) neq_Nil_conv prod.inject)
  ultimately show ?thesis by (auto simp: initial_lists_def)
qed


subsection \<open>Handed-out regions\<close>

definition region_of :: "u64 \<Rightarrow> block \<Rightarrow> region" where
  "region_of zb = (\<lambda>(i, k). (frame_addr zb i, 2 ^ (k + 12)))"

definition buddy_live :: "buddy_allocator \<Rightarrow> region set \<Rightarrow> bool" where
  "buddy_live b R \<longleftrightarrow> zone_ok (zone_begin b) \<and> (\<exists>A. buddy_inv b A \<and> R = region_of (zone_begin b) ` A)"

lemma region_bytes:
  assumes "zone_ok zb" and "0 \<le> i" and "i < 512" and "x \<in> bytes (region_of zb (i, k))"
  shows "(int x - uint zb) div 4096 \<in> span i k"
proof -
  have x: "unat (frame_addr zb i) \<le> x" "x < unat (frame_addr zb i) + 2 ^ (k + 12)"
    using assms(4) by (auto simp: bytes_def region_of_def)
  then have "int (unat (frame_addr zb i)) \<le> int x"
    "int x < int (unat (frame_addr zb i) + 2 ^ (k + 12))" by linarith+
  then have "uint zb + i * 4096 \<le> int x" "int x < uint zb + i * 4096 + 2 ^ k * 4096"
    using uint_frame_addr [OF assms(1-3)] by (simp_all add: power_add)
  then have "i \<le> (int x - uint zb) div 4096" "(int x - uint zb) div 4096 < i + 2 ^ k" by linarith+
  then show ?thesis by simp
qed

lemma region_of_inj:
  assumes "buddy_inv b A" and "zone_ok zb" and "(i, k) \<in> A" and "(j, m) \<in> A"
    and "frame_addr zb i = frame_addr zb j"
  shows "(i, k) = (j, m)"
proof -
  obtain xs where I: "zone_inv b xs A {}" using assms(1) by (auto simp: buddy_inv_def)
  have "i = j"
    using inv_block [OF I, of i k] inv_block [OF I, of j m] assms
    by (intro frame_addr_inj [OF assms(2)]) auto
  moreover have "k = m"
    using inv_order [OF I, of i k] inv_order [OF I, of j m] assms(3,4) calculation by simp
  ultimately show ?thesis by simp
qed

lemma buddy_live_regions:
  assumes "buddy_live b R"
  shows "regions_ok R"
proof -
  obtain A xs where z: "zone_ok (zone_begin b)" and I: "zone_inv b xs A {}"
    and R: "R = region_of (zone_begin b) ` A"
    using assms by (auto simp: buddy_live_def buddy_inv_def)
  let ?z = "zone_begin b"
  have one: "frame_addr ?z i \<noteq> 0 \<and> is_aligned (frame_addr ?z i) \<and>
    unat (frame_addr ?z i) + 2 ^ (k + 12) \<le> 2 ^ 64" if "(i, k) \<in> A" for i k
  proof -
    note B = inv_block [OF I, of i k, simplified, OF disjI2, OF that]
    have "(i + 2 ^ k) * 4096 \<le> 512 * 4096" using B(3) by simp
    moreover have "uint ?z + 2 ^ 21 \<le> 2 ^ 64" using z unfolding zone_ok_def by blast
    ultimately have "uint (frame_addr ?z i) + 2 ^ k * 4096 \<le> 2 ^ 64"
      using uint_frame_addr [OF z B(2,5)] by (simp add: distrib_right)
    then have "int (unat (frame_addr ?z i) + 2 ^ (k + 12)) \<le> int (2 ^ 64)"
      by (simp add: power_add)
    then show ?thesis
      using frame_addr_not_null [OF z B(2,5)] frame_addr_aligned [OF z B(2,5)] by linarith
  qed
  have apart: "bytes (region_of ?z (i, k)) \<inter> bytes (region_of ?z (j, m)) = {}"
    if "(i, k) \<in> A" "(j, m) \<in> A" "(i, k) \<noteq> (j, m)" for i k j m
  proof -
    have "span i k \<inter> span j m = {}"
      using tiling_disjoint [OF invD(3) [OF I], of i k j m] that by blast
    moreover note region_bytes [OF z, of i _ k] region_bytes [OF z, of j _ m]
      inv_block(2,5) [OF I, of i k] inv_block(2,5) [OF I, of j m]
    ultimately show ?thesis using that by blast
  qed
  show ?thesis
    unfolding regions_ok_def
  proof (intro conjI ballI impI)
    fix r assume "r \<in> R"
    then obtain i k where "(i, k) \<in> A" "r = region_of ?z (i, k)" using R by auto
    then show "case r of (p, n) \<Rightarrow> p \<noteq> 0 \<and> is_aligned p \<and> 0 < n \<and> unat p + n \<le> 2 ^ 64"
      using one [of i k] by (simp add: region_of_def)
  next
    fix r q assume rq: "r \<in> R" "q \<in> R" "r \<noteq> q"
    then obtain i k j m where "(i, k) \<in> A" "r = region_of ?z (i, k)"
      "(j, m) \<in> A" "q = region_of ?z (j, m)" using R by auto
    then show "bytes r \<inter> bytes q = {}" using apart [of i k j m] rq(3) by blast
  qed
qed

lemma allocate_live:
  assumes L: "buddy_live b R" and sz: "unat sz \<le> 2 ^ 42"
  shows "\<exists>p b'. allocate sz b = Inr (p, b') \<and>
    (if p = 0 then b' = b
     else \<exists>n. unat sz \<le> n \<and> (p, n) \<notin> R \<and> buddy_live b' (insert (p, n) R))"
proof -
  obtain A xs where z: "zone_ok (zone_begin b)" and I: "zone_inv b xs A {}"
    and R: "R = region_of (zone_begin b) ` A"
    using L by (auto simp: buddy_live_def buddy_inv_def)
  obtain n k where k: "fits sz k" using request_order [OF sz] by metis
  show ?thesis
    using allocate_inv [OF I sz k]
  proof (elim disjE exE conjE)
    fix p b' xs'
    assume a: "allocate sz b = Inr (frame_addr (zone_begin b) p, b')"
      and I': "zone_inv b' xs' (insert (p, k) A) {}" and z': "zone_begin b' = zone_begin b"
      and new: "(p, k) \<notin> A"
    let ?r = "region_of (zone_begin b) (p, k)"
    have inv': "buddy_inv b' (insert (p, k) A)" using I' by (auto simp: buddy_inv_def)
    have "buddy_live b' (insert ?r R)"
      using inv' z z' R unfolding buddy_live_def by (metis image_insert)
    moreover have "?r \<notin> R"
      using region_of_inj [OF inv' z, of p k] new unfolding R by (auto simp: region_of_def)
    moreover have "frame_addr (zone_begin b) p \<noteq> 0"
      using inv_block(2,5) [OF I', of p k] frame_addr_not_null [OF z] by simp
    moreover have "unat sz \<le> 2 ^ (k + 12)" using k by (simp add: fits_def)
    ultimately show ?thesis using a by (auto simp: region_of_def intro: exI [of _ "2 ^ (k + 12)"])
  next
    assume "allocate sz b = Inr (0, b)"
    then show ?thesis by simp
  qed
qed

lemma deallocate_live:
  assumes L: "buddy_live b R" and p: "(p, n) \<in> R"
  shows "\<exists>b'. deallocate p b = Inr b' \<and> buddy_live b' (R - {(p, n)}) \<and>
    zone_begin b' = zone_begin b"
proof -
  obtain A xs where z: "zone_ok (zone_begin b)" and I: "zone_inv b xs A {}"
    and R: "R = region_of (zone_begin b) ` A"
    using L by (auto simp: buddy_live_def buddy_inv_def)
  obtain i k where ik: "(i, k) \<in> A" "(p, n) = region_of (zone_begin b) (i, k)" using p R by auto
  obtain b' xs' where b': "deallocate (frame_addr (zone_begin b) i) b = Inr b'"
    "zone_inv b' xs' (A - {(i, k)}) {}" "zone_begin b' = zone_begin b"
    using deallocate_inv [OF I z ik(1)] by metis
  have "buddy_inv b A" using I by (auto simp: buddy_inv_def)
  then have "region_of (zone_begin b) ` (A - {(i, k)}) = R - {(p, n)}"
    using region_of_inj [OF _ z _ ik(1)] unfolding R ik(2) by (auto simp: region_of_def)
  then have "buddy_live b' (R - {(p, n)})"
    using b'(2,3) z unfolding buddy_live_def buddy_inv_def by metis
  then show ?thesis using b'(1,3) ik(2) by (simp add: region_of_def)
qed

interpretation bud: page_allocator allocate deallocate buddy_live "2 ^ 42"
  using buddy_live_regions allocate_live deallocate_live by unfold_locales blast+


subsection \<open>Single pages\<close>

text \<open>The page frames of the zone outside all live regions.\<close>

definition free_pages :: "u64 \<Rightarrow> region set \<Rightarrow> u64 set" where
  "free_pages zb R = {q \<in> frame_addr zb ` {0..<512}. \<forall>r \<in> R. unat q \<notin> bytes r}"

lemma finite_free_pages [simp]: "finite (free_pages zb R)"
  by (simp add: free_pages_def)

lemma frame_in_region:
  assumes z: "zone_ok zb" and i: "0 \<le> i" "i < 512" and j: "0 \<le> j" "j < 512" and "j \<in> span i k"
  shows "unat (frame_addr zb j) \<in> bytes (region_of zb (i, k))"
proof -
  have "i \<le> j" "j < i + 2 ^ k" using assms(6) by auto
  then have "uint (frame_addr zb i) \<le> uint (frame_addr zb j)"
    "uint (frame_addr zb j) < uint (frame_addr zb i) + 2 ^ k * 4096"
    unfolding uint_frame_addr [OF z i] uint_frame_addr [OF z j] by linarith+
  then have "int (unat (frame_addr zb i)) \<le> int (unat (frame_addr zb j))"
    "int (unat (frame_addr zb j)) < int (unat (frame_addr zb i) + 2 ^ (k + 12))"
    by (simp_all add: power_add)
  then have "unat (frame_addr zb i) \<le> unat (frame_addr zb j)"
    "unat (frame_addr zb j) < unat (frame_addr zb i) + 2 ^ (k + 12)"
    by (simp_all only: of_nat_le_iff of_nat_less_iff)
  then show ?thesis unfolding bytes_def region_of_def by simp
qed

lemma no_free_pages:
  assumes I: "zone_inv b xs A {}" and z: "zone_ok zb" and none: "\<forall>m \<ge> 0. xs m = []"
  shows "free_pages zb (region_of zb ` A) = {}"
proof -
  have "free_set xs = {}" using none by (auto simp: free_set_def)
  then have t: "tiling 9 A" using invD(3) [OF I] by simp
  have "\<exists>r \<in> region_of zb ` A. unat (frame_addr zb j) \<in> bytes r" if j: "0 \<le> j" "j < 512" for j
  proof -
    obtain i k where ik: "(i, k) \<in> A" "j \<in> span i k" using tiling_at [OF t, of j] j by auto
    have "0 \<le> i" "i + 2 ^ k \<le> 512" using tiling_bounds [OF t ik(1)] by simp_all
    moreover from this(2) have "i < 512" using zero_less_power [of "2 :: int" k] by linarith
    ultimately have "unat (frame_addr zb j) \<in> bytes (region_of zb (i, k))"
      using frame_in_region [OF z _ _ j ik(2)] by blast
    with ik(1) show ?thesis by blast
  qed
  then show ?thesis unfolding free_pages_def by fastforce
qed

lemma free_pages_insert:
  assumes z: "zone_ok zb"
  shows "free_pages zb R - {f} \<subseteq> free_pages zb (insert (f, 4096) R) \<or> f \<notin> frame_addr zb ` {0..<512}"
proof (intro disjCI subsetI)
  fix q assume f: "\<not> f \<notin> frame_addr zb ` {0..<512}" and q: "q \<in> free_pages zb R - {f}"
  then obtain i j where ij: "f = frame_addr zb i" "0 \<le> i" "i < 512" "q = frame_addr zb j" "0 \<le> j" "j < 512"
    by (auto simp: free_pages_def)
  have "unat q \<notin> bytes (f, 4096)"
  proof
    assume "unat q \<in> bytes (f, 4096)"
    then have "unat q \<in> bytes (region_of zb (i, 0))" by (simp add: region_of_def ij)
    from region_bytes [OF z ij(2,3) this] have "(uint q - uint zb) div 4096 = i" by simp
    then have "j = i" using uint_frame_addr [OF z ij(5,6)] ij(4) by simp
    then show False using q ij by simp
  qed
  then show "q \<in> free_pages zb (insert (f, 4096) R)" using q by (auto simp: free_pages_def)
qed

lemma one_page_live:
  assumes L: "buddy_live b R"
  shows "allocate_one_page_frame b = Inr (0, b) \<and> free_pages (zone_begin b) R = {} \<or>
    (\<exists>p b'. allocate_one_page_frame b = Inr (p, b') \<and> p \<noteq> 0 \<and> (p, 4096) \<notin> R \<and>
       zone_begin b' = zone_begin b \<and> buddy_live b' (insert (p, 4096) R))"
proof -
  obtain A xs where z: "zone_ok (zone_begin b)" and I: "zone_inv b xs A {}"
    and R: "R = region_of (zone_begin b) ` A"
    using L by (auto simp: buddy_live_def buddy_inv_def)
  have f: "fits 4096 0" by (simp add: fits_def)
  have sz: "unat (4096::u64) \<le> 2 ^ 42" by simp
  show ?thesis
    using allocate_inv [OF I sz f]
  proof (elim disjE exE conjE)
    fix p b' xs'
    assume a: "allocate 4096 b = Inr (frame_addr (zone_begin b) p, b')"
      and I': "zone_inv b' xs' (insert (p, 0) A) {}" and z': "zone_begin b' = zone_begin b"
      and new: "(p, 0) \<notin> A"
    let ?r = "region_of (zone_begin b) (p, 0)"
    have inv': "buddy_inv b' (insert (p, 0) A)" using I' by (auto simp: buddy_inv_def)
    have "buddy_live b' (insert ?r R)"
      using inv' z z' R unfolding buddy_live_def by (metis image_insert)
    moreover have "?r \<notin> R"
      using region_of_inj [OF inv' z, of p 0] new unfolding R by (auto simp: region_of_def)
    moreover have "frame_addr (zone_begin b) p \<noteq> 0"
      using inv_block(2,5) [OF I', of p 0] frame_addr_not_null [OF z] by simp
    ultimately show ?thesis
      using a z' by (auto simp: allocate_one_page_frame_def region_of_def)
  next
    assume "allocate 4096 b = Inr (0, b)" "\<forall>m \<ge> 0. xs m = []"
    then show ?thesis using no_free_pages [OF I z] R by (simp add: allocate_one_page_frame_def)
  qed
qed

lemma live_frame:
  assumes "buddy_live b R" and "(p, n) \<in> R"
  shows "p \<in> frame_addr (zone_begin b) ` {0..<512}"
proof -
  obtain A xs where I: "zone_inv b xs A {}" and R: "R = region_of (zone_begin b) ` A"
    using assms(1) by (auto simp: buddy_live_def buddy_inv_def)
  then obtain i k where ik: "(i, k) \<in> A" "p = frame_addr (zone_begin b) i"
    using assms(2) by (auto simp: region_of_def)
  have "i \<in> {0..<512}" using inv_block(2,5) [OF I, of i k] ik(1) by simp
  then show ?thesis using ik(2) by (rule rev_image_eqI)
qed

lemma free_pages_empty:
  assumes "zone_ok zb"
  shows "card (free_pages zb {}) = 512"
proof -
  have "inj_on (frame_addr zb) {0..<512}"
    using frame_addr_inj [OF assms] by (auto intro!: inj_onI)
  then show ?thesis by (simp add: free_pages_def card_image)
qed

lemma live_bounds:
  assumes "buddy_live b R" and "(p, n) \<in> R"
  shows "is_aligned p" and "uint (zone_begin b) \<le> uint p"
    and "uint p + int n \<le> uint (zone_begin b) + 2 ^ 21"
proof -
  obtain A xs where z: "zone_ok (zone_begin b)" and I: "zone_inv b xs A {}"
    and R: "R = region_of (zone_begin b) ` A"
    using assms(1) by (auto simp: buddy_live_def buddy_inv_def)
  obtain i k where ik: "(i, k) \<in> A" "(p, n) = region_of (zone_begin b) (i, k)" using assms(2) R by auto
  note B = inv_block [OF I, of i k, simplified, OF disjI2, OF ik(1)]
  have p: "p = frame_addr (zone_begin b) i" "n = 2 ^ (k + 12)" using ik(2) by (auto simp: region_of_def)
  show "is_aligned p" using frame_addr_aligned [OF z B(2,5)] p by simp
  show "uint (zone_begin b) \<le> uint p" using uint_frame_addr [OF z B(2,5)] B(2) p by simp
  have "(i + 2 ^ k) * 4096 \<le> 512 * 4096" using B(3) by simp
  then show "uint p + int n \<le> uint (zone_begin b) + 2 ^ 21"
    using uint_frame_addr [OF z B(2,5)] p by (simp add: distrib_right power_add)
qed

end
