(* ===== verification/BuddyTheorems.thy ===== *)
theory BuddyTheorems
  imports BuddySpec
begin

text \<open>
  The properties of the buddy allocator (\<^verbatim>\<open>mm/BuddyAllocator.cc\<close>), stated over its entry
  points. \<open>buddy_inv b A\<close> is the invariant of \<^verbatim>\<open>BuddyInvariant.thy\<close> with \<open>A\<close> the blocks handed out.
\<close>

text \<open>C5: The constructor returns for every zone address and establishes the invariant with
  nothing handed out.\<close>

theorem constructor_establishes:
  "\<exists>b. BuddyAllocator zb = Inr b \<and> zone_begin b = zb \<and> buddy_inv b {}"
  using constructor_inv [of zb] unfolding buddy_inv_def by metis

text \<open>C1: For a request of at most \<open>2 ^ 42\<close> bytes whose order is \<open>k\<close>, \<open>allocate\<close> returns.
  Either it hands out an aligned block of \<open>2 ^ k\<close> frames inside the zone that meets no block
  handed out before, and keeps the invariant; or it returns null, leaves the state as it was, and
  every aligned run of \<open>2 ^ k\<close> frames of the zone meets a block already handed out, so that no
  allocator of such blocks could have served the request.\<close>

theorem allocate_correct:
  assumes "buddy_inv b A" and "unat sz \<le> 2 ^ 42" and "fits sz k"
  shows "(\<exists>p b'. allocate sz b = Inr (frame_addr (zone_begin b) p, b') \<and>
            aligned p k \<and> p + 2 ^ k \<le> 512 \<and> (\<forall>(i, m) \<in> A. span i m \<inter> span p k = {}) \<and>
            buddy_inv b' (insert (p, k) A) \<and> zone_begin b' = zone_begin b) \<or>
         (allocate sz b = Inr (0, b) \<and>
            (\<forall>j. aligned j k \<and> j + 2 ^ k \<le> 512 \<longrightarrow> (\<exists>(i, m) \<in> A. span i m \<inter> span j k \<noteq> {})))"
proof -
  obtain xs where I: "zone_inv b xs A {}" using assms(1) by (auto simp: buddy_inv_def)
  show ?thesis
    using allocate_inv [OF I assms(2,3)]
  proof (elim disjE exE conjE)
    fix p b' xs'
    assume a: "allocate sz b = Inr (frame_addr (zone_begin b) p, b')"
      "zone_inv b' xs' (insert (p, k) A) {}" "zone_begin b' = zone_begin b" "(p, k) \<notin> A"
    have "\<forall>(i, m) \<in> A. span i m \<inter> span p k = {}"
      using tiling_disjoint [OF invD(3) [OF a(2)], of _ _ p k] a(4) by blast
    moreover have "aligned p k" "p + 2 ^ k \<le> 512" "buddy_inv b' (insert (p, k) A)"
      using inv_block [OF a(2), of p k] a(2) by (auto simp: buddy_inv_def)
    ultimately show ?thesis using a(1,3) by blast
  next
    assume a: "allocate sz b = Inr (0, b)" "\<forall>m \<ge> k. xs m = []"
    have t: "tiling 9 (free_set xs \<union> A)" using invD(3) [OF I] by simp
    have "\<exists>(i, m) \<in> A. span i m \<inter> span j k \<noteq> {}" if j: "aligned j k" "j + 2 ^ k \<le> 512" for j
    proof (rule ccontr)
      assume none: "\<not> (\<exists>(i, m) \<in> A. span i m \<inter> span j k \<noteq> {})"
      then have "span i m \<inter> span j k = {}" if "(i, m) \<in> A" for i m using that by blast
      moreover have "span j k \<subseteq> span 0 9" using j by (auto simp: aligned_def)
      ultimately obtain i m where "(i, m) \<in> free_set xs" "k \<le> m"
        using coalesced_run [OF t invD(7) [OF I] j(1)] by metis
      with a(2) show False by (auto simp: free_set_def)
    qed
    with a(1) show ?thesis by blast
  qed
qed

theorem allocate_correct_witness:
  "\<exists>b p b'. BuddyAllocator 0x10000000 = Inr b \<and>
     allocate 5000 b = Inr (frame_addr 0x10000000 p, b') \<and> aligned p 1 \<and> buddy_inv b' {(p, 1)}"
proof -
  obtain b where b: "BuddyAllocator 0x10000000 = Inr b" "zone_begin b = 0x10000000" "buddy_inv b {}"
    using constructor_inv [of "0x10000000"] unfolding buddy_inv_def by metis
  have "fits 5000 1" by (simp add: fits_def)
  then have "(\<exists>p b'. allocate 5000 b = Inr (frame_addr 0x10000000 p, b') \<and> aligned p 1 \<and>
      buddy_inv b' {(p, 1)}) \<or> (\<forall>j. aligned j 1 \<and> j + 2 ^ 1 \<le> 512 \<longrightarrow> False)"
    using allocate_correct [OF b(3), of 5000 1] unfolding b(2) by auto
  moreover have "aligned 0 1" by (simp add: aligned_def)
  ultimately show ?thesis using b(1) by fastforce
qed

text \<open>C2: Deallocating a block that is handed out returns, merges it with every free buddy, and
  keeps the invariant (in particular that no two free buddies remain) for the other blocks.\<close>

theorem deallocate_correct:
  assumes "buddy_inv b A" and "zone_ok (zone_begin b)" and "(p, k) \<in> A"
  shows "\<exists>b'. deallocate (frame_addr (zone_begin b) p) b = Inr b' \<and>
    buddy_inv b' (A - {(p, k)}) \<and> zone_begin b' = zone_begin b"
proof -
  obtain xs where I: "zone_inv b xs A {}" using assms(1) by (auto simp: buddy_inv_def)
  show ?thesis using deallocate_inv [OF I assms(2,3)] unfolding buddy_inv_def by metis
qed

lemma zone_ok_kernel: "zone_ok 0x10000000"
  by (simp add: zone_ok_def is_aligned_def)

lemma first_page_taken:
  obtains b p b' where "BuddyAllocator 0x10000000 = Inr b" and "zone_begin b' = 0x10000000"
    and "allocate_one_page_frame b = Inr (frame_addr 0x10000000 p, b')" and "buddy_inv b' {(p, 0)}"
    and "frame_addr 0x10000000 p \<noteq> 0"
proof -
  obtain b where b: "BuddyAllocator 0x10000000 = Inr b" "zone_begin b = 0x10000000"
    and I: "zone_inv b initial_lists {} {}" by (rule constructor_inv)
  have "fits 4096 0" by (simp add: fits_def)
  moreover have "\<not> (\<forall>m \<ge> 0. initial_lists m = [])" by (auto simp: initial_lists_def)
  ultimately obtain p b' xs' where b': "allocate 4096 b = Inr (frame_addr 0x10000000 p, b')"
    "zone_inv b' xs' {(p, 0)} {}" "zone_begin b' = 0x10000000"
    using allocate_inv [OF I, of 4096 0] unfolding b(2) by auto
  have "0 \<le> p" "p < 512" using inv_block(2,5) [OF b'(2), of p 0] by auto
  then have "frame_addr 0x10000000 p \<noteq> 0" using frame_addr_not_null [OF zone_ok_kernel] by simp
  with b b' that show thesis by (auto simp: allocate_one_page_frame_def buddy_inv_def)
qed

theorem deallocate_correct_witness:
  "\<exists>b p b' b''. BuddyAllocator 0x10000000 = Inr b \<and>
     allocate_one_page_frame b = Inr (frame_addr 0x10000000 p, b') \<and>
     deallocate (frame_addr 0x10000000 p) b' = Inr b'' \<and> buddy_inv b'' {}"
proof -
  obtain b p b' where b: "BuddyAllocator 0x10000000 = Inr b"
    "allocate_one_page_frame b = Inr (frame_addr 0x10000000 p, b')" "zone_begin b' = 0x10000000"
    "buddy_inv b' {(p, 0)}" by (rule first_page_taken)
  then show ?thesis
    using deallocate_correct [OF b(4), of p 0] zone_ok_kernel by (simp add: b) metis
qed

text \<open>C4: A zone with nothing handed out is in its initial configuration: one free block of
  order 9 at frame 0 on the last free list, every other list empty, and the frame array reads 9
  followed by 511 times \<open>DONT_ALLOCATE\<close>. Allocation and deallocation leave no fragments behind.\<close>

theorem empty_zone_is_initial:
  assumes "buddy_inv b {}"
  shows "free_lists b = replicate 9 None @ [Some 0] \<and>
    frame_array b = 9 # replicate 511 DONT_ALLOCATE \<and>
    hd_order (headers b ! 0) = 9 \<and> hd_next (headers b ! 0) = None"
proof -
  obtain xs where "zone_inv b xs {} {}" using assms by (auto simp: buddy_inv_def)
  then have I: "zone_inv b initial_lists {} {}" using empty_lists by blast
  have F: "free_set initial_lists = {(0, 9)}"
    by (auto simp: free_set_def initial_lists_def split: if_splits)
  have c: "chain (nxt b) (first b k) (initial_lists k)" if "k < 10" for k
    using lists_okD(1) [OF invD(2) [OF I] that] .
  have "free_lists b ! k = (replicate 9 None @ [Some 0]) ! k" if "k < 10" for k
    using c [OF that] that by (auto simp: first_def initial_lists_def nth_append split: if_splits)
  then have fl: "free_lists b = replicate 9 None @ [Some 0]"
    using shape_length(2) [OF invD(1) [OF I]] by (intro nth_equalityI) auto
  have "frame b (int j) = (if j = 0 then 9 else -2)" if "j < 512" for j
    using frames_okD(2) [OF invD(6) [OF I], of 0 9 "int j"] that by (simp add: F)
  then have "frame_array b ! j = (9 # replicate 511 (-2)) ! j" if "j < 512" for j
    using that by (cases j) (auto simp: frame_def)
  then have fa: "frame_array b = 9 # replicate 511 (-2)"
    using shape_length(1) [OF invD(1) [OF I]] by (intro nth_equalityI) auto
  have "ord b 0 = 9" "nxt b 0 = None"
    using inv_order [OF I, of 0 9] c [of 9] by (auto simp: F initial_lists_def)
  with fl fa show ?thesis by (simp add: ord_def nxt_def)
qed


theorem empty_zone_is_initial_witness:
  "\<exists>b. BuddyAllocator 0x10000000 = Inr b \<and> free_lists b = replicate 9 None @ [Some 0]"
proof -
  obtain b where "BuddyAllocator 0x10000000 = Inr b" "buddy_inv b {}"
    using constructor_inv [of "0x10000000"] unfolding buddy_inv_def by metis
  then show ?thesis using empty_zone_is_initial [of b] by blast
qed

text \<open>C3: Any sequence of requests of at most \<open>2 ^ 42\<close> bytes and of deallocations of addresses
  the client holds runs on a fresh zone without a panic, an access outside an array or through a
  null pointer, or a loop that does not end. The regions held at the end are page aligned and
  pairwise disjoint, and each address held is the start of one of them.\<close>

theorem client_never_stops:
  assumes "zone_ok zb" and "BuddyAllocator zb = Inr b" and "requests_within (2 ^ 42) ops"
  shows "\<exists>held b' R. run_client allocate deallocate ops [] b = Inr (held, b') \<and>
    regions_ok R \<and> set held = fst ` R \<and> distinct held"
proof -
  obtain b0 where "BuddyAllocator zb = Inr b0" "zone_begin b0 = zb"
    and I: "zone_inv b0 initial_lists {} {}" by (rule constructor_inv)
  then have "buddy_live b {}"
    using assms(1,2) unfolding buddy_live_def buddy_inv_def by (metis Inr_inject image_empty)
  moreover have "set [] = fst ` {}" "distinct []" by simp_all
  ultimately show ?thesis
    using bud.client_safe [of b "{}" "[]" ops] bud.live_regions assms(3) by metis
qed

theorem client_never_stops_witness:
  "\<exists>held b b' R. BuddyAllocator 0x10000000 = Inr b \<and>
     run_client allocate deallocate [Acquire 5000, Acquire 1, Release 1] [] b = Inr (held, b') \<and>
     regions_ok R \<and> set held = fst ` R"
proof -
  obtain b where b: "BuddyAllocator 0x10000000 = Inr b" by (rule constructor_inv)
  show ?thesis
    using client_never_stops [OF zone_ok_kernel b, of "[Acquire 5000, Acquire 1, Release 1]"] b
    by fastforce
qed

lemma size_to_order_huge:
  assumes "43 < n" and "n \<le> 63"
  shows "size_to_order (2 ^ n) = Some 0"
proof -
  have "(2::int) ^ 32 dvd 2 ^ (n - 12)" using assms by (intro le_imp_power_dvd) auto
  then have "int32 (2 ^ (n - 12)) = 0"
    unfolding int32_def signed_take_bit_eq_take_bit_shift take_bit_eq_mod
    by (simp add: mod_add_left_eq [symmetric] dvd_imp_mod_0)
  then show ?thesis
    using assms by (simp add: size_to_order_def uint_pages log2_def log2_loop.simps)
qed

lemma size_to_order_8TiB: "size_to_order (2 ^ 43) = None"
proof -
  have "int32 (2 ^ 31) = - (2 ^ 31)" by (simp add: int32_def signed_take_bit_eq_take_bit_shift take_bit_eq_mod)
  then show ?thesis
    using log2_loop_negative [of "- (2 ^ 31)" 0]
    by (simp add: size_to_order_def uint_pages [of 43] log2_def del: power_numeral)
qed

lemma normalize_between:
  assumes "2 ^ m < unat sz" and "unat sz \<le> 2 ^ 63"
  obtains n where "m < n" and "n \<le> 63" and "unat sz \<le> 2 ^ n" and "normalize_size sz = Some (2 ^ n)"
    and "2 ^ (n - 1) < unat sz"
proof -
  obtain n where n: "n \<le> 63" "normalize_size sz = Some (2 ^ n)" "unat sz \<le> 2 ^ n"
    "n = 0 \<or> 2 ^ (n - 1) < unat sz"
    unfolding normalize_size_def by (rule round_up_to_pow_of_2_Some [OF assms(2)])
  have "(2::nat) ^ m < 2 ^ n" using assms(1) n(3) by linarith
  then have "m < n" by simp
  with n that show thesis by blast
qed

text \<open>Requests beyond \<open>2 ^ 42\<close> bytes are not refused. The order is computed through an
  \<open>int\<close>: up to \<open>2 ^ 43\<close> bytes the loop of \<open>log2\<close> never ends, beyond that and up to
  \<open>2 ^ 63\<close> bytes the request is served as one of a single byte (one page), and beyond
  \<open>2 ^ 63\<close> bytes the loop of \<open>round_up_to_pow_of_2\<close> never ends.\<close>

theorem allocate_oversized:
  "(2 ^ 42 < unat sz \<and> unat sz \<le> 2 ^ 43 \<longrightarrow> allocate sz b = Inl Diverges) \<and>
   (2 ^ 43 < unat sz \<and> unat sz \<le> 2 ^ 63 \<longrightarrow> allocate sz b = allocate 1 b) \<and>
   (2 ^ 63 < unat sz \<longrightarrow> allocate sz b = Inl Diverges)"
proof (intro conjI impI; (elim conjE)?)
  assume sz: "2 ^ 42 < unat sz" "unat sz \<le> 2 ^ 43"
  then have "unat sz \<le> 2 ^ 63" by simp
  then obtain n where n: "42 < n" "normalize_size sz = Some (2 ^ n)" "2 ^ (n - 1) < unat sz"
    using normalize_between [OF sz(1)] by metis
  have "(2::nat) ^ (n - 1) < 2 ^ 43" using n(3) sz(2) by linarith
  then have "n - 1 < 43" by (rule power_less_imp_less_exp [rotated]) simp
  with n(1) have "n = 43" by simp
  with n show "allocate sz b = Inl Diverges" by (simp add: allocate_def size_to_order_8TiB del: power_numeral)
next
  assume sz: "2 ^ 43 < unat sz" "unat sz \<le> 2 ^ 63"
  then obtain n where n: "43 < n" "n \<le> 63" "normalize_size sz = Some (2 ^ n)"
    using normalize_between by metis
  have nz: "(2 ^ n :: u64) \<noteq> 0" using n(2) by (simp add: exp_eq_zero_iff)
  have one: "normalize_size 1 = Some 1"
    by (simp add: normalize_size_def round_up_to_pow_of_2_def round_up_pow2_loop.simps)
  have same: "size_to_order (2 ^ n) = size_to_order 1"
    using size_to_order_huge [OF n(1,2)] size_to_order_power [of 0] by simp
  show "allocate sz b = allocate 1 b"
    unfolding allocate_def n(3) one returned_simps bindE_simps same using nz by simp
next
  assume "2 ^ 63 < unat sz"
  then show "allocate sz b = Inl Diverges"
    by (simp add: allocate_def normalize_size_def round_up_to_pow_of_2_None del: power_numeral)
qed

theorem allocate_oversized_witness:
  "\<exists>b. BuddyAllocator 0x10000000 = Inr b \<and> allocate 0x80000000000 b = Inl Diverges \<and>
     allocate 0x100000000000 b = allocate 1 b \<and> allocate 0x8000000000000001 b = Inl Diverges"
proof -
  obtain b where "BuddyAllocator 0x10000000 = Inr b" by (rule constructor_inv)
  then show ?thesis
    using allocate_oversized [of "0x80000000000" b] allocate_oversized [of "0x100000000000" b]
      allocate_oversized [of "0x8000000000000001" b] by simp
qed

text \<open>C6: \<open>deallocate\<close> stops the kernel with a panic, before it reads or writes any header,
  for a pointer that is not page aligned and for every aligned pointer outside the zone whose
  distance from the zone's start is below 16 TiB (\<open>2 ^ 44\<close> bytes).\<close>

theorem deallocate_rejects:
  assumes "p \<noteq> 0"
    and "\<not> is_aligned p \<or> 2 ^ 21 \<le> uint (p - zone_begin b) \<and> uint (p - zone_begin b) < 2 ^ 44"
  shows "\<exists>msg. deallocate p b = Inl (Panic msg)"
proof (cases "is_aligned p")
  case False
  then show ?thesis using assms(1) by (simp add: deallocate_def get_block_header_def)
next
  case True
  define d where "d = uint (p - zone_begin b) div 4096"
  have "2 ^ 21 \<le> uint (p - zone_begin b)" "uint (p - zone_begin b) < 2 ^ 44"
    using assms(2) True by auto
  then have d: "512 \<le> d" "d < 2 ^ 32" unfolding d_def by simp_all
  have "int32 d < 0 \<or> 512 \<le> int32 d"
  proof (cases "d < 2 ^ 31")
    case True
    then show ?thesis using d by (simp add: int32_id)
  next
    case False
    then have "(d + 2 ^ 31) mod 2 ^ 32 = d - 2 ^ 31"
      using d mod_pos_pos_trivial [of "d - 2 ^ 31" "2 ^ 32"] mod_add_self2 [of "d - 2 ^ 31" "2 ^ 32"]
      by (simp del: mod_add_self2 add: add.commute)
    then have "int32 d = d - 2 ^ 32"
      by (simp add: int32_def signed_take_bit_eq_take_bit_shift take_bit_eq_mod)
    then show ?thesis using d(2) by simp
  qed
  then show ?thesis
    using True assms(1) by (auto simp: deallocate_def get_block_header_def Let_def d_def uint_div)
qed

theorem deallocate_rejects_witness:
  "\<exists>b msg1 msg2. BuddyAllocator 0x10000000 = Inr b \<and> deallocate 0x10000010 b = Inl (Panic msg1) \<and>
     deallocate 0x10200000 b = Inl (Panic msg2)"
proof -
  obtain b where "BuddyAllocator 0x10000000 = Inr b" "zone_begin b = 0x10000000"
    by (rule constructor_inv)
  then show ?thesis
    using deallocate_rejects [of "0x10000010" b] deallocate_rejects [of "0x10200000" b]
    by (simp add: is_aligned_def)
qed

end
