(* ===== verification/SlobAllocator.thy ===== *)
theory SlobAllocator
  imports BuddyAllocator
begin

text \<open>
  The chunk allocator of \<^verbatim>\<open>mm/SlobAllocator.cc\<close> and \<^verbatim>\<open>include/mm/SlobAllocator.h\<close>. Chunk
  headers live in the page frames the allocator obtains; \<open>chunks\<close> gives the header at an address.
  Every chunk size is a multiple of 16 bytes, the size of a header, so headers never overlap
  partially and a header is read and written as one value. Pointers are 64-bit addresses, 0 is
  null. The page frames come from the buddy allocator of the same zone, field \<open>backing\<close>.
\<close>

definition smallest_chunk_size :: u64 where
  "smallest_chunk_size = 0x20"

definition largest_chunk_size :: u64 where
  "largest_chunk_size = 0x80"

definition chunk_size_gap :: u64 where
  "chunk_size_gap = 0x10"

definition nr_bins :: int where
  "nr_bins = int32 (uint ((largest_chunk_size - smallest_chunk_size) div chunk_size_gap + 1))"

record chunk_header =
  ch_next :: u64
  ch_index :: int
  ch_prev_chunk_size :: int

definition get_chunk_header_size :: u64 where
  "get_chunk_header_size = 16"

definition get_size :: "chunk_header \<Rightarrow> u64" where
  "get_size c = smallest_chunk_size + word_of_int (ch_index c) * chunk_size_gap"

definition get_prev_chunk_size :: "chunk_header \<Rightarrow> int" where
  "get_prev_chunk_size c = ch_prev_chunk_size c AND NOT 1"

definition is_allocated :: "chunk_header \<Rightarrow> bool" where
  "is_allocated c \<longleftrightarrow> ch_prev_chunk_size c AND 1 \<noteq> 0"

definition set_allocated :: "bool \<Rightarrow> chunk_header \<Rightarrow> chunk_header" where
  "set_allocated allocated c =
     (if allocated then c\<lparr>ch_prev_chunk_size := ch_prev_chunk_size c OR 1\<rparr>
      else c\<lparr>ch_prev_chunk_size := ch_prev_chunk_size c AND NOT 1\<rparr>)"

definition set_prev_chunk_size :: "int \<Rightarrow> chunk_header \<Rightarrow> chunk_header" where
  "set_prev_chunk_size sz c =
     (let flag = is_allocated c in set_allocated flag (c\<lparr>ch_prev_chunk_size := sz\<rparr>))"

definition get_prev_chunk :: "u64 \<Rightarrow> chunk_header \<Rightarrow> u64" where
  "get_prev_chunk addr c = addr - word_of_int (get_prev_chunk_size c)"

definition get_next_chunk :: "u64 \<Rightarrow> chunk_header \<Rightarrow> u64" where
  "get_next_chunk addr c = addr + get_size c"

record slob_allocator =
  backing :: buddy_allocator
  page_frame_allocatable_begin :: u64
  top_chunk :: u64
  page_frame_allocatable_end :: u64
  top_chunk_prev_chunk_size :: int
  bins :: "u64 list"
  unsorted_bin :: u64
  chunks :: "u64 \<Rightarrow> chunk_header"

definition SlobAllocator :: "buddy_allocator \<Rightarrow> (u64 \<Rightarrow> chunk_header) \<Rightarrow> slob_allocator" where
  "SlobAllocator page_frame_allocator memory =
     \<lparr>backing = page_frame_allocator, page_frame_allocatable_begin = 0, top_chunk = 0,
      page_frame_allocatable_end = 0, top_chunk_prev_chunk_size = 0,
      bins = replicate (nat nr_bins) 0, unsorted_bin = 0, chunks = memory\<rparr>"

definition upd_chunk :: "u64 \<Rightarrow> (chunk_header \<Rightarrow> chunk_header) \<Rightarrow> slob_allocator \<Rightarrow> slob_allocator" where
  "upd_chunk p f s = s\<lparr>chunks := (chunks s)(p := f (chunks s p))\<rparr>"

definition is_chunk_size_usable :: "u64 \<Rightarrow> bool" where
  "is_chunk_size_usable chunk_size \<longleftrightarrow> chunk_size \<ge> smallest_chunk_size"

definition get_top_chunk_size :: "slob_allocator \<Rightarrow> u64" where
  "get_top_chunk_size s = page_frame_allocatable_end s - top_chunk s"

definition is_top_chunk_used_up :: "slob_allocator \<Rightarrow> bool" where
  "is_top_chunk_used_up s \<longleftrightarrow> get_top_chunk_size s = 0"

definition is_top_chunk_large_enough :: "u64 \<Rightarrow> slob_allocator \<Rightarrow> bool" where
  "is_top_chunk_large_enough requested_size s \<longleftrightarrow> get_top_chunk_size s \<ge> requested_size"

definition get_bin_index :: "u64 \<Rightarrow> int" where
  "get_bin_index sz = int32 (uint ((sz - smallest_chunk_size) div chunk_size_gap))"

definition normalize_size :: "u64 \<Rightarrow> u64 option" where
  "normalize_size sz =
     round_up_to_multiple_of_n (if sz \<ge> smallest_chunk_size then sz else smallest_chunk_size) 16"

definition discard :: "u64 \<Rightarrow> slob_allocator \<Rightarrow> slob_allocator" where
  "discard chunk = upd_chunk chunk (set_allocated True)"


subsection \<open>Bins\<close>

text \<open>\<open>bin_get_head\<close> returns the address of a bin: reading and writing what it points to.\<close>

definition bin_head :: "u64 \<Rightarrow> slob_allocator \<Rightarrow> kerror + u64" where
  "bin_head chunk s =
     (if ch_index (chunks s chunk) \<ge> nr_bins then Inr (unsorted_bin s)
      else aget (bins s) (ch_index (chunks s chunk)))"

definition set_bin_head :: "u64 \<Rightarrow> u64 \<Rightarrow> slob_allocator \<Rightarrow> kerror + slob_allocator" where
  "set_bin_head chunk v s =
     (if ch_index (chunks s chunk) \<ge> nr_bins then Inr (s\<lparr>unsorted_bin := v\<rparr>)
      else bindE (aset (bins s) (ch_index (chunks s chunk)) v) (\<lambda>bs. Inr (s\<lparr>bins := bs\<rparr>)))"

definition ptr :: "u64 \<Rightarrow> u64 option" where
  "ptr p = (if p = 0 then None else Some p)"

definition bin_del_entry :: "u64 \<Rightarrow> slob_allocator \<Rightarrow> kerror + slob_allocator" where
  "bin_del_entry chunk s =
     (if chunk = 0 then Inl (Panic ''bin_del_entry(nullptr)'')
      else
        bindE (bin_head chunk s) (\<lambda>first.
        if first = chunk then
          bindE (set_bin_head chunk (ch_next (chunks s first)) s) (\<lambda>s.
          Inr (upd_chunk chunk (\<lambda>c. c\<lparr>ch_next := 0\<rparr>) s))
        else
          bindE (returned (unlink_walk (\<lambda>q. Inr (ptr (ch_next (chunks s q)))) chunk None (ptr first)))
            (\<lambda>w. bindE w (\<lambda>found.
              case found of
                None \<Rightarrow> Inr s
              | Some None \<Rightarrow> Inl NullDeref
              | Some (Some prev) \<Rightarrow>
                  let s = upd_chunk prev (\<lambda>c. c\<lparr>ch_next := ch_next (chunks s chunk)\<rparr>) s in
                  Inr (upd_chunk chunk (\<lambda>c. c\<lparr>ch_next := 0\<rparr>) s)))))"

definition bin_del_head :: "u64 \<Rightarrow> slob_allocator \<Rightarrow> kerror + slob_allocator" where
  "bin_del_head chunk s =
     (if chunk = 0 then Inl (Panic ''bin_del_head(nullptr)'')
      else if ch_index (chunks s chunk) \<ge> nr_bins then bin_del_entry chunk s
      else
        bindE (aget (bins s) (ch_index (chunks s chunk))) (\<lambda>first.
        if first = 0 then Inr s
        else
          bindE (aset (bins s) (ch_index (chunks s chunk)) (ch_next (chunks s first))) (\<lambda>bs.
          Inr (upd_chunk chunk (\<lambda>c. c\<lparr>ch_next := 0\<rparr>) (s\<lparr>bins := bs\<rparr>)))))"

definition bin_add_head :: "u64 \<Rightarrow> slob_allocator \<Rightarrow> kerror + slob_allocator" where
  "bin_add_head chunk s =
     (if chunk = 0 then Inl (Panic ''bin_add_head(nullptr)'')
      else
        bindE (bin_head chunk s) (\<lambda>first.
        if first = chunk then Inl (Panic ''repeated bin_add_head()'')
        else if first = 0 then
          bindE (set_bin_head chunk chunk s) (\<lambda>s. Inr (upd_chunk chunk (\<lambda>c. c\<lparr>ch_next := 0\<rparr>) s))
        else
          set_bin_head chunk chunk (upd_chunk chunk (\<lambda>c. c\<lparr>ch_next := first\<rparr>) s)))"


subsection \<open>Splitting\<close>

definition split_from_top_chunk :: "u64 \<Rightarrow> slob_allocator \<Rightarrow> kerror + (u64 \<times> slob_allocator)" where
  "split_from_top_chunk requested_size s =
     (if requested_size > get_top_chunk_size s
      then Inl (Panic ''unable to split from the top chunk'')
      else
        let chunk = top_chunk s;
            s = upd_chunk chunk (\<lambda>c. set_allocated True
                  (c\<lparr>ch_next := 0, ch_index := get_bin_index requested_size,
                     ch_prev_chunk_size := top_chunk_prev_chunk_size s\<rparr>)) s
        in Inr (chunk, s\<lparr>top_chunk := chunk + requested_size,
                         top_chunk_prev_chunk_size := int32 (uint requested_size)\<rparr>))"

definition split_from_chunk :: "u64 \<Rightarrow> u64 \<Rightarrow> slob_allocator \<Rightarrow> kerror + (u64 \<times> slob_allocator)" where
  "split_from_chunk chunk requested_size s =
     (if chunk = 0 then Inl (Panic ''chunk == nullptr'')
      else if \<not> is_chunk_size_usable requested_size
      then Inl (Panic ''requested_size must contain header size'')
      else if ch_index (chunks s chunk) < 0 then Inl (Panic ''invalid chunk->index'')
      else if requested_size > get_size (chunks s chunk)
      then Inl (Panic ''unable to split from a chunk'')
      else
        let remainder_size = get_size (chunks s chunk) - requested_size;
            remainder = chunk + requested_size;
            s = upd_chunk remainder (\<lambda>c. c\<lparr>ch_next := 0, ch_index := get_bin_index remainder_size,
                  ch_prev_chunk_size := int32 (uint requested_size)\<rparr>) s
        in
        bindE (bin_del_head chunk s) (\<lambda>s.
        bindE (if is_chunk_size_usable remainder_size
               then bin_add_head remainder (upd_chunk remainder (set_allocated False) s)
               else Inr (discard remainder s)) (\<lambda>s.
        let next_chunk = get_next_chunk chunk (chunks s chunk);
            s = (if next_chunk \<noteq> top_chunk s
                 then upd_chunk next_chunk (set_prev_chunk_size (int32 (uint remainder_size))) s
                 else s);
            s = upd_chunk chunk (\<lambda>c. set_allocated True
                  (c\<lparr>ch_next := 0, ch_index := get_bin_index requested_size\<rparr>)) s
        in Inr (chunk, s))))"

definition request_new_page_frame :: "slob_allocator \<Rightarrow> kerror + (bool \<times> slob_allocator)" where
  "request_new_page_frame s =
     bindE (allocate_one_page_frame (backing s)) (\<lambda>(page_frame, b).
     let s = s\<lparr>backing := b\<rparr> in
     if page_frame = 0 then Inr (False, s)
     else Inr (True, s\<lparr>page_frame_allocatable_begin := page_frame, top_chunk := page_frame,
                       page_frame_allocatable_end := page_frame + PAGE_SIZE\<rparr>))"


subsection \<open>Allocation and deallocation\<close>

text \<open>The search of the unsorted bin for a chunk of at least the requested size.\<close>

partial_function (option) search_unsorted ::
  "u64 \<Rightarrow> (u64 \<Rightarrow> chunk_header) \<Rightarrow> u64 \<Rightarrow> u64 option" where
  "search_unsorted requested_size cs chunk =
     (if chunk = 0 then Some 0
      else if get_size (cs chunk) \<ge> requested_size then Some chunk
      else search_unsorted requested_size cs (ch_next (cs chunk)))"

text \<open>The search of the larger bins for one that is not empty, from bin \<open>idx\<close> on.\<close>

fun search_bins :: "u64 list \<Rightarrow> u64" where
  "search_bins [] = 0"
| "search_bins (b # bs) = (if b \<noteq> 0 then b else search_bins bs)"

text \<open>
  The part of \<open>allocate\<close> that serves a request from the top chunk; \<open>None\<close> where \<open>allocate\<close>
  returns the null pointer because no page frame is left.
\<close>

definition allocate_from_top ::
  "u64 \<Rightarrow> slob_allocator \<Rightarrow> kerror + (u64 option \<times> slob_allocator)" where
  "allocate_from_top requested_size s =
     bindE (if is_top_chunk_used_up s then request_new_page_frame s
            else if \<not> is_top_chunk_large_enough requested_size s then
              bindE (split_from_top_chunk (get_top_chunk_size s) s) (\<lambda>(chunk, s).
              bindE (if is_chunk_size_usable (get_size (chunks s chunk)) then bin_add_head chunk s
                     else Inr (discard chunk s)) request_new_page_frame)
            else Inr (True, s)) (\<lambda>(ok, s).
     if \<not> ok then Inr (None, s)
     else bindE (split_from_top_chunk requested_size s) (\<lambda>(victim, s). Inr (Some victim, s)))"

definition allocate :: "u64 \<Rightarrow> slob_allocator \<Rightarrow> kerror + (u64 \<times> slob_allocator)" where
  "allocate requested_size s =
     (if requested_size = 0 then Inr (0, s)
      else
        bindE (returned (normalize_size (get_chunk_header_size + requested_size))) (\<lambda>requested_size.
        let idx = get_bin_index requested_size in
        bindE (if idx < nr_bins then aget (bins s) idx else Inr 0) (\<lambda>exact.
        bindE (if exact \<noteq> 0 then
                 bindE (bin_del_head exact (upd_chunk exact (set_allocated True) s)) (\<lambda>s.
                 Inr (Some exact, s))
               else
                 bindE (returned (search_unsorted requested_size (chunks s) (unsorted_bin s))) (\<lambda>chunk.
                 if chunk \<noteq> 0 then
                   bindE (split_from_chunk chunk requested_size s) (\<lambda>(c, s). Inr (Some c, s))
                 else
                   let chunk = search_bins (drop (nat idx) (bins s)) in
                   if idx < nr_bins \<and> chunk \<noteq> 0 then
                     bindE (split_from_chunk chunk requested_size s) (\<lambda>(c, s). Inr (Some c, s))
                   else allocate_from_top requested_size s)) (\<lambda>(victim, s).
        case victim of
          None \<Rightarrow> Inr (0, s)
        | Some victim \<Rightarrow>
            if is_aligned (victim + 16) then Inl (Panic ''fatal error'')
            else Inr (victim + 16, s)))))"

definition deallocate :: "u64 \<Rightarrow> slob_allocator \<Rightarrow> kerror + slob_allocator" where
  "deallocate p s =
     (if p = 0 then Inr s
      else
        let mid_chunk = p - 16;
            prev_chunk = get_prev_chunk mid_chunk (chunks s mid_chunk);
            next_chunk = get_next_chunk mid_chunk (chunks s mid_chunk);
            chunk_size = get_size (chunks s mid_chunk);
            s = upd_chunk mid_chunk (set_allocated False) s
        in
        bindE (if \<not> is_allocated (chunks s prev_chunk) \<and> \<not> is_aligned mid_chunk then
                 bindE (bin_del_entry prev_chunk s) (\<lambda>s.
                 let chunk_size = chunk_size + get_size (chunks s prev_chunk);
                     s = upd_chunk prev_chunk (\<lambda>c. c\<lparr>ch_next := next_chunk,
                           ch_index := get_bin_index chunk_size\<rparr>) s;
                     s = upd_chunk next_chunk (set_prev_chunk_size (int32 (uint chunk_size))) s
                 in Inr (prev_chunk, chunk_size, s))
               else Inr (mid_chunk, chunk_size, s)) (\<lambda>(chunk, chunk_size, s).
        if is_aligned next_chunk then Inr s
        else if next_chunk = top_chunk s then
          Inr (s\<lparr>top_chunk := chunk,
                 top_chunk_prev_chunk_size := get_prev_chunk_size (chunks s chunk)\<rparr>)
        else if \<not> is_allocated (chunks s next_chunk) then
          bindE (bin_del_entry next_chunk s) (\<lambda>s.
          let chunk_size = chunk_size + get_size (chunks s next_chunk);
              after = next_chunk + get_size (chunks s next_chunk);
              s = upd_chunk chunk (\<lambda>c. c\<lparr>ch_next := after, ch_index := get_bin_index chunk_size\<rparr>) s;
              s = upd_chunk (ch_next (chunks s chunk)) (set_prev_chunk_size (int32 (uint chunk_size))) s
          in bin_add_head chunk s)
        else Inr s))"

end
