(* ===== verification/SlobTheorems.thy ===== *)
theory SlobTheorems
  imports SlobAllocator
begin

text \<open>
  Properties of the chunk allocator: sizes and bin indices correspond, the header's flag and size
  are stored independently, bins are lists, and serving from and returning to the top chunk.
\<close>

lemmas slob_consts [simp] =
  smallest_chunk_size_def largest_chunk_size_def chunk_size_gap_def get_chunk_header_size_def

lemma nr_bins_eq [simp]: "nr_bins = 7"
  by (simp add: nr_bins_def int32_id)

subsection \<open>Sizes\<close>

text \<open>The chunk size of a request of \<open>n\<close> bytes: header included, a multiple of 16, at least 32.\<close>

definition chunk_size_of :: "nat \<Rightarrow> nat" where
  "chunk_size_of n = max 32 ((n + 31) div 16 * 16)"

lemma normalize_size_eq:
  assumes "unat n \<le> 2 ^ 32"
  shows "SlobAllocator.normalize_size (16 + n) = Some (of_nat (chunk_size_of (unat n)))"
proof -
  define x :: u64 where "x = (if 16 + n \<ge> 32 then 16 + n else 32)"
  have sum: "unat (16 + n) = 16 + unat n"
    using assms unat_add_lem [of 16 n] by simp
  then have x: "unat x = max 32 (16 + unat n)"
    by (auto simp: x_def word_le_nat_alt max_def)
  then have "0 < unat (16::u64)" "unat x + unat (16::u64) \<le> 2 ^ 64" using assms by auto
  then obtain m y where y: "round_up_to_multiple_of_n x 16 = Some y" "unat y = m * unat (16::u64)"
    "1 \<le> m" "unat x \<le> unat y" "m = 1 \<or> unat y < unat x + unat (16::u64)"
    by (rule round_up_to_multiple_of_n_Some)
  have "m = (unat x + 15) div 16" using y x by auto
  moreover have "16 * ((max 32 (16 + unat n) + 15) div 16) = chunk_size_of (unat n)"
    unfolding chunk_size_of_def by (simp add: max_def) presburger
  ultimately have "unat y = chunk_size_of (unat n)" using y(2) x by (simp add: mult.commute)
  then have "y = of_nat (chunk_size_of (unat n))" by (rule unat_eq_of_nat)
  then show ?thesis
    using y(1) by (cases "32 \<le> 16 + n") (simp_all add: SlobAllocator.normalize_size_def x_def)
qed

lemma get_size_bin_index:
  assumes "32 \<le> unat m" and "unat m mod 16 = 0" and "unat m < 2 ^ 34"
  shows "0 \<le> get_bin_index m" and "get_size (c\<lparr>ch_index := get_bin_index m\<rparr>) = m"
proof -
  have "unat (m - 32) = unat m - 32" using assms(1) by (simp add: unat_sub word_le_nat_alt)
  then have q: "unat ((m - 32) div 16) = (unat m - 32) div 16" by (simp add: unat_div)
  then have "uint ((m - 32) div 16) = int ((unat m - 32) div 16)" by (metis of_nat_unat)
  moreover have "(unat m - 32) div 16 < 2 ^ 31" using assms(3) by simp
  then have "int ((unat m - 32) div 16) < 2 ^ 31" by (metis of_nat_less_iff of_nat_numeral of_nat_power)
  ultimately have idx: "get_bin_index m = int ((unat m - 32) div 16)"
    by (simp add: get_bin_index_def int32_id)
  then show "0 \<le> get_bin_index m" by simp
  have "32 + (unat m - 32) div 16 * 16 = unat m" using assms by presburger
  then have "m = of_nat (32 + (unat m - 32) div 16 * 16)" by (intro unat_eq_of_nat) simp
  then have "(32::u64) + of_nat ((unat m - 32) div 16) * 16 = m" by simp
  then show "get_size (c\<lparr>ch_index := get_bin_index m\<rparr>) = m" by (simp add: get_size_def idx)
qed

subsection \<open>The header's packed word\<close>

lemma is_allocated_odd: "is_allocated c \<longleftrightarrow> odd (ch_prev_chunk_size c)"
  by (simp add: is_allocated_def and_one_eq odd_iff_mod_2_eq_one)

lemma set_allocated_flag [simp]: "is_allocated (set_allocated v c) = v"
  by (simp add: is_allocated_odd set_allocated_def even_or_iff even_and_iff)

lemma set_allocated_fields [simp]:
  "ch_next (set_allocated v c) = ch_next c" "ch_index (set_allocated v c) = ch_index c"
  "get_size (set_allocated v c) = get_size c"
  by (simp_all add: set_allocated_def get_size_def)

lemma set_allocated_size [simp]: "get_prev_chunk_size (set_allocated v c) = get_prev_chunk_size c"
  by (auto simp: get_prev_chunk_size_def set_allocated_def bit_eq_iff bit_simps)

lemma set_prev_chunk_size_fields [simp]:
  "is_allocated (set_prev_chunk_size sz c) = is_allocated c"
  "ch_next (set_prev_chunk_size sz c) = ch_next c" "ch_index (set_prev_chunk_size sz c) = ch_index c"
  "get_size (set_prev_chunk_size sz c) = get_size c"
  "get_prev_chunk_size (set_prev_chunk_size sz c) = sz AND NOT 1"
  by (simp_all add: set_prev_chunk_size_def Let_def get_size_def)
     (simp add: get_prev_chunk_size_def)

lemma even_and_not_one: "even sz \<Longrightarrow> sz AND - 2 = (sz :: int)"
proof -
  assume "even sz"
  then have "sz AND NOT 1 = sz"
    by (intro bit_eqI) (auto simp: bit_simps bit_0 dest: gr0_conv_Suc [THEN iffD1])
  then show ?thesis by simp
qed


subsection \<open>Serving from the top chunk\<close>

text \<open>The top chunk is the unused tail of the page frame obtained last.\<close>

definition top_ok :: "slob_allocator \<Rightarrow> bool" where
  "top_ok s \<longleftrightarrow> is_aligned (page_frame_allocatable_begin s) \<and>
     page_frame_allocatable_end s = page_frame_allocatable_begin s + 4096 \<and>
     unat (page_frame_allocatable_begin s) + 4096 < 2 ^ 64 \<and>
     unat (page_frame_allocatable_begin s) \<le> unat (top_chunk s) \<and>
     unat (top_chunk s) \<le> unat (page_frame_allocatable_begin s) + 4096 \<and>
     unat (top_chunk s) mod 16 = 0"

definition bins_empty :: "slob_allocator \<Rightarrow> bool" where
  "bins_empty s \<longleftrightarrow> bins s = replicate 7 0 \<and> unsorted_bin s = 0"

definition top_room :: "slob_allocator \<Rightarrow> nat" where
  "top_room s = unat (page_frame_allocatable_begin s) + 4096 - unat (top_chunk s)"

lemma top_size:
  assumes "top_ok s"
  shows "unat (get_top_chunk_size s) = top_room s"
proof -
  have e: "unat (page_frame_allocatable_end s) = unat (page_frame_allocatable_begin s) + 4096"
    using assms unat_add_lem [of "page_frame_allocatable_begin s" 4096] by (simp add: top_ok_def)
  have "top_chunk s \<le> page_frame_allocatable_end s"
    using assms e by (simp add: top_ok_def word_le_nat_alt)
  then show ?thesis by (simp add: get_top_chunk_size_def top_room_def unat_sub e)
qed

lemma chunk_size_of_facts:
  "32 \<le> chunk_size_of n" "chunk_size_of n mod 16 = 0" "n + 16 \<le> chunk_size_of n"
  "0 < n \<Longrightarrow> chunk_size_of n < n + 32"
  unfolding chunk_size_of_def by (auto simp: max_def)

lemma inside_page:
  assumes "(b::nat) mod 4096 = 0" and "b < x" and "x < b + 4096"
  shows "x mod 4096 \<noteq> 0"
proof -
  have "x = b + (x - b)" using assms(2) by simp
  then have "x mod 4096 = (x - b) mod 4096" using assms(1) by (metis add_0 mod_add_left_eq)
  also have "\<dots> = x - b" using assms(2,3) by simp
  finally show ?thesis using assms(2) by simp
qed

lemma not_page_start:
  assumes "top_ok s" and "unat (top_chunk s) + d < unat (page_frame_allocatable_begin s) + 4096"
    and "0 < d"
  shows "\<not> is_aligned (top_chunk s + of_nat d)"
proof -
  have "unat (top_chunk s + of_nat d) = unat (top_chunk s) + d"
    using assms by (subst unat_add_small) (auto simp: top_ok_def unat_of_nat_small)
  moreover have "unat (page_frame_allocatable_begin s) mod 4096 = 0"
    using assms(1) by (simp add: top_ok_def is_aligned_unat)
  ultimately show ?thesis
    using assms inside_page [of "unat (page_frame_allocatable_begin s)" "unat (top_chunk s) + d"]
    by (simp add: is_aligned_unat top_ok_def)
qed

lemma split_top:
  assumes t: "top_ok s" and m: "unat m \<le> top_room s" "unat m mod 16 = 0"
  obtains s' where "split_from_top_chunk m s = Inr (top_chunk s, s')" and "top_ok s'"
    and "unat (top_chunk s') = unat (top_chunk s) + unat m" and "top_chunk s' = top_chunk s + m"
    and "page_frame_allocatable_begin s' = page_frame_allocatable_begin s"
    and "bins s' = bins s" and "unsorted_bin s' = unsorted_bin s" and "backing s' = backing s"
    and "top_chunk_prev_chunk_size s' = int32 (uint m)"
    and "chunks s' = (chunks s)(top_chunk s := set_allocated True
           \<lparr>ch_next = 0, ch_index = get_bin_index m,
            ch_prev_chunk_size = top_chunk_prev_chunk_size s\<rparr>)"
proof -
  define c where "c = set_allocated True \<lparr>ch_next = 0, ch_index = get_bin_index m,
    ch_prev_chunk_size = top_chunk_prev_chunk_size s\<rparr>"
  define s' where "s' = s\<lparr>chunks := (chunks s)(top_chunk s := c), top_chunk := top_chunk s + m,
    top_chunk_prev_chunk_size := int32 (uint m)\<rparr>"
  have "\<not> get_top_chunk_size s < m" using m(1) top_size [OF t] by (simp add: word_less_nat_alt)
  moreover have "set_allocated True (chunks s (top_chunk s)\<lparr>ch_next := 0,
      ch_index := get_bin_index m, ch_prev_chunk_size := top_chunk_prev_chunk_size s\<rparr>) = c"
    by (cases "chunks s (top_chunk s)") (simp add: c_def)
  ultimately have "split_from_top_chunk m s = Inr (top_chunk s, s')"
    by (simp add: split_from_top_chunk_def Let_def upd_chunk_def s'_def)
  moreover have sum: "unat (top_chunk s + m) = unat (top_chunk s) + unat m"
    using t m(1) by (intro unat_add_small) (auto simp: top_ok_def top_room_def)
  moreover have "top_ok s'"
    using t m sum by (auto simp: top_ok_def top_room_def s'_def)
  ultimately show thesis using that [of s'] by (simp add: s'_def c_def)
qed

lemma search_bins_empty [simp]: "search_bins (replicate j 0) = 0"
  by (induction j) auto

lemma allocate_bump:
  assumes t: "top_ok s" and e: "bins_empty s" and n: "0 < unat n"
    and room: "chunk_size_of (unat n) \<le> top_room s"
  obtains s' where "allocate n s = Inr (top_chunk s + 16, s')" and "top_ok s'" and "bins_empty s'"
    and "unat (top_chunk s') = unat (top_chunk s) + chunk_size_of (unat n)"
    and "top_chunk s' = top_chunk s + of_nat (chunk_size_of (unat n))"
    and "page_frame_allocatable_begin s' = page_frame_allocatable_begin s"
    and "backing s' = backing s"
    and "chunks s' = (chunks s)(top_chunk s := set_allocated True
           \<lparr>ch_next = 0, ch_index = get_bin_index (of_nat (chunk_size_of (unat n))),
            ch_prev_chunk_size = top_chunk_prev_chunk_size s\<rparr>)"
    and "get_size (chunks s' (top_chunk s)) = of_nat (chunk_size_of (unat n))"
proof -
  let ?k = "chunk_size_of (unat n)"
  have k: "32 \<le> ?k" "?k mod 16 = 0" "unat n + 16 \<le> ?k" "?k \<le> 4096"
    using chunk_size_of_facts [of "unat n"] room t by (auto simp: top_room_def top_ok_def)
  have u: "unat (of_nat ?k :: u64) = ?k" using k(4) by (simp add: unat_of_nat_small)
  have norm: "SlobAllocator.normalize_size (16 + n) = Some (of_nat ?k)"
    using k by (intro normalize_size_eq) simp
  obtain s' where s': "split_from_top_chunk (of_nat ?k) s = Inr (top_chunk s, s')" "top_ok s'"
    "unat (top_chunk s') = unat (top_chunk s) + ?k" "top_chunk s' = top_chunk s + of_nat ?k"
    "page_frame_allocatable_begin s' = page_frame_allocatable_begin s"
    "bins s' = bins s" "unsorted_bin s' = unsorted_bin s" "backing s' = backing s"
    "chunks s' = (chunks s)(top_chunk s := set_allocated True
           \<lparr>ch_next = 0, ch_index = get_bin_index (of_nat ?k),
            ch_prev_chunk_size = top_chunk_prev_chunk_size s\<rparr>)"
    using split_top [OF t, of "of_nat ?k"] u room k(2) by metis
  have "\<not> is_top_chunk_used_up s" "is_top_chunk_large_enough (of_nat ?k) s"
    using top_size [OF t] room k(1) u
    by (auto simp: is_top_chunk_used_up_def is_top_chunk_large_enough_def word_le_nat_alt
        simp flip: unat_eq_0)
  then have top: "allocate_from_top (of_nat ?k) s = Inr (Some (top_chunk s), s')"
    using s'(1) by (simp add: allocate_from_top_def)
  have idx: "0 \<le> get_bin_index (of_nat ?k)"
    and size: "get_size (c\<lparr>ch_index := get_bin_index (of_nat ?k)\<rparr>) = of_nat ?k" for c
    using get_size_bin_index [of "of_nat ?k"] u k by simp_all
  have "\<not> is_aligned (top_chunk s + 16)"
    using not_page_start [OF t, of 16] room k(1) by (simp add: top_room_def)
  moreover have "search_unsorted (of_nat ?k) (chunks s) 0 = Some 0"
    by (simp add: search_unsorted.simps)
  moreover have "n \<noteq> 0" using n by auto
  ultimately have "allocate n s = Inr (top_chunk s + 16, s')"
    using e norm top idx
    by (auto simp: allocate_def bins_empty_def Let_def aget_def nth_replicate)
  moreover have "bins_empty s'" using e s' by (simp add: bins_empty_def)
  moreover have "get_size (chunks s' (top_chunk s)) = of_nat ?k"
    using size [of "\<lparr>ch_next = 0, ch_index = 0, ch_prev_chunk_size = 0\<rparr>"]
    by (simp add: s'(9) get_size_def)
  ultimately show thesis using that s' by blast
qed


fun allocate_all :: "u64 list \<Rightarrow> slob_allocator \<Rightarrow> kerror + (u64 list \<times> slob_allocator)" where
  "allocate_all [] s = Inr ([], s)"
| "allocate_all (n # ns) s =
     bindE (allocate n s) (\<lambda>(p, s). bindE (allocate_all ns s) (\<lambda>(ps, s). Inr (p # ps, s)))"

abbreviation chunks_sum :: "u64 list \<Rightarrow> nat" where
  "chunks_sum ns \<equiv> sum_list (map (\<lambda>n. chunk_size_of (unat n)) ns)"

text \<open>C17: Requests served from an empty allocator's top chunk are laid out one after the other:
  with room for all of them in the page frame, the object of the \<open>i\<close>-th request starts 16 bytes
  (its header) after the chunks of the requests before it. Each chunk is at least 16 bytes larger
  than its request, so no two objects and no object and header overlap.\<close>

theorem allocations_laid_out:
  assumes "top_ok s" and "bins_empty s" and "0 \<notin> set ns" and "chunks_sum ns \<le> top_room s"
  shows "\<exists>ps s'. allocate_all ns s = Inr (ps, s') \<and> length ps = length ns \<and>
    (\<forall>i < length ns. unat (ps ! i) = unat (top_chunk s) + chunks_sum (take i ns) + 16 \<and>
       unat (ns ! i) + 16 \<le> chunk_size_of (unat (ns ! i))) \<and>
    top_ok s' \<and> bins_empty s' \<and> unat (top_chunk s') = unat (top_chunk s) + chunks_sum ns"
  using assms
proof (induction ns arbitrary: s)
  case Nil
  then show ?case by simp
next
  case (Cons n ns)
  have n: "0 < unat n" "chunk_size_of (unat n) \<le> top_room s"
    using Cons.prems by (auto simp: unat_gt_0)
  obtain s1 where s1: "allocate n s = Inr (top_chunk s + 16, s1)" "top_ok s1" "bins_empty s1"
    "unat (top_chunk s1) = unat (top_chunk s) + chunk_size_of (unat n)"
    "page_frame_allocatable_begin s1 = page_frame_allocatable_begin s"
    using allocate_bump [OF Cons.prems(1,2) n] by metis
  have room: "chunks_sum ns \<le> top_room s1" "0 \<notin> set ns"
    using Cons.prems(3,4) s1(4,5) by (auto simp: top_room_def)
  obtain ps s' where ps: "allocate_all ns s1 = Inr (ps, s')" "length ps = length ns"
    "\<forall>i < length ns. unat (ps ! i) = unat (top_chunk s1) + chunks_sum (take i ns) + 16 \<and>
       unat (ns ! i) + 16 \<le> chunk_size_of (unat (ns ! i))"
    "top_ok s'" "bins_empty s'" "unat (top_chunk s') = unat (top_chunk s1) + chunks_sum ns"
    using Cons.IH [OF s1(2,3) room(2,1)] by metis
  have "unat (top_chunk s + 16) = unat (top_chunk s) + 16"
    using Cons.prems(1) n(2) chunk_size_of_facts(1) [of "unat n"]
    by (subst unat_add_small) (auto simp: top_ok_def top_room_def)
  then have "\<forall>i < length (n # ns). unat (((top_chunk s + 16) # ps) ! i) =
      unat (top_chunk s) + chunks_sum (take i (n # ns)) + 16 \<and>
      unat ((n # ns) ! i) + 16 \<le> chunk_size_of (unat ((n # ns) ! i))"
    using ps(3) s1(4) chunk_size_of_facts(3) [of "unat n"] by (auto simp: less_Suc_eq_0_disj)
  then show ?case using s1(1) ps s1(4) by simp
qed

definition fresh_slob :: slob_allocator where
  "fresh_slob =
     \<lparr>backing = \<lparr>zone_begin = 0x10200000, frame_array = [], free_lists = [], headers = []\<rparr>,
      page_frame_allocatable_begin = 0x10200000, top_chunk = 0x10200000,
      page_frame_allocatable_end = 0x10201000, top_chunk_prev_chunk_size = 0,
      bins = replicate 7 0, unsorted_bin = 0,
      chunks = (\<lambda>_. \<lparr>ch_next = 0, ch_index = 0, ch_prev_chunk_size = 0\<rparr>)\<rparr>"

lemma fresh_slob_ok: "top_ok fresh_slob" "bins_empty fresh_slob" "top_room fresh_slob = 4096"
  by (simp_all add: fresh_slob_def top_ok_def bins_empty_def top_room_def is_aligned_def)

theorem allocations_laid_out_witness:
  "\<exists>ps s'. allocate_all [8, 100, 1] fresh_slob = Inr (ps, s') \<and> length ps = 3 \<and>
     unat (ps ! 1) = 0x10200000 + 32 + 16"
  using allocations_laid_out [of fresh_slob "[8, 100, 1]"] fresh_slob_ok
  by (force simp: chunk_size_of_def fresh_slob_def)

text \<open>C18: Returning the chunk below the top chunk undoes its allocation, when all bins are empty.
  Let the request be at least one byte and leave some room in the top chunk, let the size that
  is recorded of the top chunk's predecessor be even, and let the top chunk start a page frame or
  have an allocated chunk of that size before it. Then \<open>allocate\<close> returns, \<open>deallocate\<close> of the
  address it returned gives the top chunk its old start and recorded predecessor size, and the
  bins are empty again.\<close>

theorem allocate_deallocate_top:
  assumes t: "top_ok s" and e: "bins_empty s" and n: "0 < unat n"
    and room: "chunk_size_of (unat n) < top_room s" and ev: "even (top_chunk_prev_chunk_size s)"
    and prev: "is_aligned (top_chunk s) \<or>
      0 < top_chunk_prev_chunk_size s \<and> top_chunk_prev_chunk_size s < 2 ^ 31 \<and>
      is_allocated (chunks s (top_chunk s - word_of_int (top_chunk_prev_chunk_size s)))"
  shows "\<exists>p s1 s2. allocate n s = Inr (p, s1) \<and> deallocate p s1 = Inr s2 \<and> top_ok s2 \<and>
    bins_empty s2 \<and> top_chunk s2 = top_chunk s \<and>
    top_chunk_prev_chunk_size s2 = top_chunk_prev_chunk_size s"
proof -
  let ?k = "chunk_size_of (unat n)" and ?t = "top_chunk s" and ?q = "top_chunk_prev_chunk_size s"
  obtain s1 where s1: "allocate n s = Inr (?t + 16, s1)" "top_ok s1" "bins_empty s1"
    "top_chunk s1 = ?t + of_nat ?k"
    "page_frame_allocatable_begin s1 = page_frame_allocatable_begin s"
    "chunks s1 = (chunks s)(?t := set_allocated True
           \<lparr>ch_next = 0, ch_index = get_bin_index (of_nat ?k), ch_prev_chunk_size = ?q\<rparr>)"
    "get_size (chunks s1 ?t) = of_nat ?k"
    using allocate_bump [OF t e n] room by (metis less_imp_le)
  have q: "get_prev_chunk_size (chunks s1 ?t) = ?q"
    using ev by (simp add: s1(6) get_prev_chunk_size_def [of "\<lparr>ch_next = _, ch_index = _, ch_prev_chunk_size = _\<rparr>"]
        even_and_not_one)
  define d where "d = upd_chunk ?t (set_allocated False) s1"
  have d: "top_chunk d = ?t + of_nat ?k" "get_prev_chunk_size (chunks d ?t) = ?q"
    "chunks d x = (if x = ?t then set_allocated False (chunks s1 ?t) else chunks s1 x)" for x
    using q s1(4) by (simp_all add: d_def upd_chunk_def)
  have "\<not> is_aligned (?t + of_nat ?k)"
    using not_page_start [OF t, of ?k] room chunk_size_of_facts(1) [of "unat n"]
    by (simp add: top_room_def)
  moreover have "is_aligned ?t \<or> is_allocated (chunks d (?t - word_of_int ?q))"
  proof (cases "is_aligned ?t")
    case False
    then have "0 < ?q" "?q < 2 ^ 31" "is_allocated (chunks s (?t - word_of_int ?q))" using prev by auto
    moreover from this have "uint (word_of_int ?q :: u64) = ?q"
      unfolding uint_word_of_int_eq by (intro take_bit_int_eq_self) auto
    then have "(word_of_int ?q :: u64) \<noteq> 0" using \<open>0 < ?q\<close> unfolding uint_0_iff [symmetric] by simp
    ultimately show ?thesis by (simp add: d(3) s1(6))
  qed simp
  moreover have "unat (?t + 16) = unat ?t + 16"
    using t room chunk_size_of_facts(1) [of "unat n"]
    by (subst unat_add_small) (auto simp: top_ok_def top_room_def)
  then have "unat (?t + 16) \<noteq> 0" by simp
  then have "?t + 16 \<noteq> 0" unfolding unat_eq_0 .
  ultimately have "deallocate (?t + 16) s1 =
      Inr (d\<lparr>top_chunk := ?t, top_chunk_prev_chunk_size := ?q\<rparr>)"
    using q s1(7) d(1,2)
    by (auto simp: deallocate_def Let_def get_prev_chunk_def get_next_chunk_def d_def [symmetric])
  moreover have "top_ok (d\<lparr>top_chunk := ?t, top_chunk_prev_chunk_size := ?q\<rparr>)"
    using t s1(2,5) by (simp add: top_ok_def upd_chunk_def d_def)
  moreover have "bins_empty (d\<lparr>top_chunk := ?t, top_chunk_prev_chunk_size := ?q\<rparr>)"
    using s1(3) by (simp add: bins_empty_def upd_chunk_def d_def)
  ultimately show ?thesis using s1(1) by auto
qed

theorem allocate_deallocate_top_witness:
  "\<exists>p s1 s2. allocate 100 fresh_slob = Inr (p, s1) \<and> deallocate p s1 = Inr s2 \<and>
     top_chunk s2 = 0x10200000"
  using allocate_deallocate_top [of fresh_slob 100] fresh_slob_ok
  by (force simp: chunk_size_of_def fresh_slob_def is_aligned_def)


subsection \<open>Bins\<close>

text \<open>The chunks on the bin that a chunk's index selects.\<close>

definition on_bin :: "slob_allocator \<Rightarrow> u64 \<Rightarrow> u64 list \<Rightarrow> bool" where
  "on_bin s chunk xs \<longleftrightarrow> (\<exists>head. bin_head chunk s = Inr head \<and>
     chain (\<lambda>q. ptr (ch_next (chunks s q))) (ptr head) xs)"

lemma set_bin_head_view:
  assumes "bin_head chunk s = Inr h"
  obtains s' where "set_bin_head chunk v s = Inr s'" and "chunks s' = chunks s"
    and "bin_head chunk s' = Inr v"
proof (cases "7 \<le> ch_index (chunks s chunk)")
  case True
  then show ?thesis using that [of "s\<lparr>unsorted_bin := v\<rparr>"] by (simp add: set_bin_head_def bin_head_def)
next
  case False
  let ?i = "ch_index (chunks s chunk)"
  have "0 \<le> ?i" "?i < int (length (bins s))"
    using assms False by (auto simp: bin_head_def aget_Inr)
  then show ?thesis
    using False that [of "s\<lparr>bins := (bins s)[nat ?i := v]\<rparr>"] by (simp add: set_bin_head_def bin_head_def)
qed

lemma bin_head_upd_next [simp]: "bin_head chunk (upd_chunk q (\<lambda>c. c\<lparr>ch_next := v\<rparr>) s) = bin_head chunk s"
  by (simp add: bin_head_def upd_chunk_def)

lemma chunks_upd_next [simp]:
  "(\<lambda>x. ptr (ch_next (chunks (upd_chunk q (\<lambda>c. c\<lparr>ch_next := v\<rparr>) s) x))) =
   (\<lambda>x. ptr (ch_next (chunks s x)))(q := ptr v)"
  by (auto simp: upd_chunk_def)

lemma ptr_simps [simp]: "ptr 0 = None" "p \<noteq> 0 \<Longrightarrow> ptr p = Some p" "ptr p = Some q \<longleftrightarrow> p = q \<and> p \<noteq> 0"
  "ptr p = None \<longleftrightarrow> p = 0"
  by (auto simp: ptr_def)

lemma bin_add_head_list:
  assumes "on_bin s chunk xs" and "chunk \<noteq> 0" and "chunk \<notin> set xs"
  shows "\<exists>s'. bin_add_head chunk s = Inr s' \<and> on_bin s' chunk (chunk # xs)"
proof -
  obtain h where h: "bin_head chunk s = Inr h" "chain (\<lambda>q. ptr (ch_next (chunks s q))) (ptr h) xs"
    using assms(1) by (auto simp: on_bin_def)
  have ne: "h \<noteq> chunk" using h(2) assms(2,3) by (cases xs) auto
  let ?s = "upd_chunk chunk (\<lambda>c. c\<lparr>ch_next := h\<rparr>) s"
  obtain s' where s': "set_bin_head chunk chunk ?s = Inr s'" "chunks s' = chunks ?s"
    "bin_head chunk s' = Inr chunk"
    using set_bin_head_view [of chunk ?s h] h(1) by auto
  have "on_bin s' chunk (chunk # xs)"
    using s' h(2) assms(2,3) by (simp add: on_bin_def)
  moreover have "\<exists>s''. bin_add_head chunk s = Inr s'' \<and> chunks s'' = chunks s' \<and>
    bin_head chunk s'' = Inr chunk"
  proof (cases "h = 0")
    case True
    obtain t where "set_bin_head chunk chunk s = Inr t" "chunks t = chunks s"
      "bin_head chunk t = Inr chunk"
      using set_bin_head_view [OF h(1)] by metis
    then show ?thesis using True h(1) assms(2) s'(2) by (auto simp: bin_add_head_def upd_chunk_def bin_head_def)
  next
    case False
    then show ?thesis using h(1) ne assms(2) s' by (simp add: bin_add_head_def)
  qed
  ultimately show ?thesis by (auto simp: on_bin_def)
qed

lemma bin_del_entry_list:
  assumes "on_bin s chunk xs" and "chunk \<noteq> 0"
  shows "\<exists>s'. bin_del_entry chunk s = Inr s' \<and> on_bin s' chunk (remove1 chunk xs)"
proof -
  let ?f = "\<lambda>q. ptr (ch_next (chunks s q))"
  obtain h where h: "bin_head chunk s = Inr h" and c: "chain ?f (ptr h) xs"
    using assms(1) by (auto simp: on_bin_def)
  have d: "distinct xs" using chain_distinct [OF c] .
  show ?thesis
  proof (cases "h = chunk")
    case True
    then obtain ys where ys: "xs = chunk # ys" "chain ?f (ptr (ch_next (chunks s chunk))) ys"
      using c assms(2) by (cases xs) auto
    obtain t where "set_bin_head chunk (ch_next (chunks s chunk)) s = Inr t" "chunks t = chunks s"
      "bin_head chunk t = Inr (ch_next (chunks s chunk))"
      using set_bin_head_view [OF h] by metis
    then show ?thesis
      using True h assms(2) ys d by (auto simp: bin_del_entry_def on_bin_def)
  next
    case ne: False
    show ?thesis
    proof (cases "chunk \<in> set xs")
      case False
      then have "unlink_walk (\<lambda>q. Inr (?f q)) chunk None (ptr h) = Some (Inr None)"
        by (intro unlink_walk_absent [OF c]) auto
      then show ?thesis
        using False ne h assms by (simp add: bin_del_entry_def remove1_idem)
    next
      case True
      then obtain ys zs where s: "xs = ys @ chunk # zs" "chunk \<notin> set ys" using split_list_first by metis
      have "ys \<noteq> []" using s(1) c ne assms(2) by (cases ys) auto
      then obtain vs q where q: "ys = vs @ [q]" by (metis rev_exhaust)
      have "unlink_walk (\<lambda>q. Inr (?f q)) chunk None (ptr h) = Some (Inr (Some (Some q)))"
        using unlink_walk_found [of ?f "ptr h" ys chunk zs "\<lambda>q. Inr (?f q)" None] c s q by simp
      moreover have "chain (?f(q := ?f chunk, chunk := None)) (ptr h) (vs @ q # zs)"
        using chain_unlink [of ?f "ptr h" vs q chunk zs] c d s(1) q by simp
      ultimately show ?thesis
        using ne h assms(2) s q by (simp add: bin_del_entry_def Let_def on_bin_def remove1_append)
    qed
  qed
qed

text \<open>C19: A bin is a list: for the chunks \<open>xs\<close> reached from the bin that the index of \<open>chunk\<close>
  selects, \<open>bin_add_head\<close> of a chunk not among them puts it in front, and \<open>bin_del_entry\<close> removes
  the chunk wherever it is and changes nothing if it is not there; neither fails.\<close>

theorem bins_refine_lists:
  assumes "on_bin s chunk xs" and "chunk \<noteq> 0"
  shows "(\<exists>s'. bin_del_entry chunk s = Inr s' \<and> on_bin s' chunk (remove1 chunk xs)) \<and>
    (chunk \<notin> set xs \<longrightarrow> (\<exists>s'. bin_add_head chunk s = Inr s' \<and> on_bin s' chunk (chunk # xs)))"
  using bin_del_entry_list [OF assms] bin_add_head_list [OF assms] by blast

theorem bins_refine_lists_witness:
  "\<exists>s' s''. bin_add_head 0x10200000 fresh_slob = Inr s' \<and> on_bin s' 0x10200000 [0x10200000] \<and>
     bin_del_entry 0x10200000 fresh_slob = Inr s'' \<and> on_bin s'' 0x10200000 []"
  using bins_refine_lists [of fresh_slob "0x10200000" "[]"]
  by (auto simp: on_bin_def bin_head_def fresh_slob_def)

text \<open>A chunk freed between two chunks in use goes to no bin: \<open>deallocate\<close> only clears the
  flag in its header, and bins, unsorted bin and top chunk stay as they were, so the memory is not
  found by a later \<open>allocate\<close> until a neighbour is freed.\<close>

theorem deallocate_between_used:
  assumes "p \<noteq> 0" and "mid = p - 16"
    and "next_chunk = get_next_chunk mid (chunks s mid)" and "prev = get_prev_chunk mid (chunks s mid)"
    and "prev \<noteq> mid" and "is_allocated (chunks s prev)"
    and "next_chunk \<noteq> mid" and "is_allocated (chunks s next_chunk)" and "next_chunk \<noteq> top_chunk s"
  shows "\<exists>s'. deallocate p s = Inr s' \<and> bins s' = bins s \<and> unsorted_bin s' = unsorted_bin s \<and>
    top_chunk s' = top_chunk s \<and> chunks s' = (chunks s)(mid := set_allocated False (chunks s mid))"
  using assms by (simp add: deallocate_def Let_def upd_chunk_def)

definition three_chunks :: slob_allocator where
  "three_chunks = fresh_slob\<lparr>top_chunk := 0x10200060, top_chunk_prev_chunk_size := 0x20,
     chunks := (\<lambda>_. \<lparr>ch_next = 0, ch_index = 0, ch_prev_chunk_size = 0x21\<rparr>)\<rparr>"

theorem deallocate_between_used_witness:
  "\<exists>s'. deallocate 0x10200030 three_chunks = Inr s' \<and> bins s' = bins three_chunks \<and>
     unsorted_bin s' = 0 \<and> top_chunk s' = 0x10200060"
proof -
  have c: "chunks three_chunks q = \<lparr>ch_next = 0, ch_index = 0, ch_prev_chunk_size = 0x21\<rparr>" for q
    by (simp add: three_chunks_def)
  have "get_next_chunk 0x10200020 (chunks three_chunks 0x10200020) = 0x10200040"
    "get_prev_chunk 0x10200020 (chunks three_chunks 0x10200020) = 0x10200000"
    "is_allocated (chunks three_chunks q)" for q
    by (simp_all add: c get_next_chunk_def get_prev_chunk_def get_size_def get_prev_chunk_size_def
        is_allocated_def)
  moreover have "top_chunk three_chunks = 0x10200060" "unsorted_bin three_chunks = 0"
    by (simp_all add: three_chunks_def fresh_slob_def)
  ultimately show ?thesis
    using deallocate_between_used [of "0x10200030" "0x10200020" "0x10200040" three_chunks "0x10200000"]
    by auto
qed

end
