(* ===== verification/AddressSanitizer.thy ===== *)
theory AddressSanitizer
  imports Kernel_Prelude
begin

text \<open>
  The allocation tracker of \<^verbatim>\<open>mm/AddressSanitizer.cc\<close>: a table of 1000 pointers in which
  \<open>MemoryManager\<close> records what it handed out. A null entry is a free one.
\<close>

record address_sanitizer =
  allocated_pointers :: "u64 list"

definition AddressSanitizer :: address_sanitizer where
  "AddressSanitizer = \<lparr>allocated_pointers = replicate 1000 0\<rparr>"

text \<open>The loops look for the first entry equal to \<open>p\<close>, from entry \<open>i\<close> on.\<close>

primrec find_entry :: "u64 \<Rightarrow> nat \<Rightarrow> u64 list \<Rightarrow> nat option" where
  "find_entry p i [] = None"
| "find_entry p i (x # xs) = (if x = p then Some i else find_entry p (Suc i) xs)"

definition mark_free_chk :: "u64 \<Rightarrow> address_sanitizer \<Rightarrow> kerror + (bool \<times> address_sanitizer)" where
  "mark_free_chk p a =
     (case find_entry p 0 (allocated_pointers a) of
        Some i \<Rightarrow> Inr (True, a\<lparr>allocated_pointers := (allocated_pointers a)[i := 0]\<rparr>)
      | None \<Rightarrow> Inl (Panic ''kasan: double free detected''))"

definition mark_allocated :: "u64 \<Rightarrow> address_sanitizer \<Rightarrow> kerror + address_sanitizer" where
  "mark_allocated p a =
     (if find_entry p 0 (allocated_pointers a) \<noteq> None
      then Inl (Panic ''kasan: pointer is already allocated'')
      else case find_entry 0 0 (allocated_pointers a) of
             Some i \<Rightarrow> Inr (a\<lparr>allocated_pointers := (allocated_pointers a)[i := p]\<rparr>)
           | None \<Rightarrow> Inr a)"


subsection \<open>What is tracked\<close>

definition tracked :: "address_sanitizer \<Rightarrow> u64 set" where
  "tracked a = set (allocated_pointers a) - {0}"

text \<open>No pointer is in the table twice.\<close>

definition kasan_inv :: "address_sanitizer \<Rightarrow> bool" where
  "kasan_inv a \<longleftrightarrow> length (allocated_pointers a) = 1000 \<and>
     distinct (filter (\<lambda>x. x \<noteq> 0) (allocated_pointers a))"

definition table_full :: "address_sanitizer \<Rightarrow> bool" where
  "table_full a \<longleftrightarrow> 0 \<notin> set (allocated_pointers a)"

lemma find_entry_None: "find_entry p i xs = None \<longleftrightarrow> p \<notin> set xs"
  by (induction xs arbitrary: i) auto

lemma find_entry_absent [simp]: "p \<notin> set xs \<Longrightarrow> find_entry p i xs = None"
  by (simp add: find_entry_None)

lemma find_entry_Some:
  "find_entry p i xs = Some j \<Longrightarrow> \<exists>ys zs. xs = ys @ p # zs \<and> p \<notin> set ys \<and> j = i + length ys"
proof (induction xs arbitrary: i)
  case (Cons x xs)
  show ?case
  proof (cases "x = p")
    case True
    then show ?thesis using Cons.prems by (intro exI [of _ "[]"] exI [of _ xs]) auto
  next
    case False
    then obtain ys zs where "xs = ys @ p # zs" "p \<notin> set ys" "j = Suc i + length ys"
      using Cons by fastforce
    with False show ?thesis by (intro exI [of _ "x # ys"] exI [of _ zs]) auto
  qed
qed simp

lemma find_entry_split:
  assumes "p \<in> set xs"
  obtains ys zs where "xs = ys @ p # zs" and "p \<notin> set ys"
    and "find_entry p 0 xs = Some (length ys)" and "xs[length ys := v] = ys @ v # zs"
proof -
  obtain j where j: "find_entry p 0 xs = Some j" using assms find_entry_None [of p 0 xs] by auto
  obtain ys zs where s: "xs = ys @ p # zs" "p \<notin> set ys" "j = length ys"
    using find_entry_Some [OF j] by auto
  moreover have "xs[length ys := v] = ys @ v # zs" using s by simp
  ultimately show thesis using j that by blast
qed

lemma tracked_initial [simp]: "tracked AddressSanitizer = {}"
  by (simp add: tracked_def AddressSanitizer_def)

lemma kasan_inv_initial [simp]: "kasan_inv AddressSanitizer"
  by (simp add: kasan_inv_def AddressSanitizer_def)

lemma not_full_card:
  assumes "kasan_inv a" and "card (tracked a) < 1000"
  shows "\<not> table_full a"
proof
  assume "table_full a"
  then have "filter (\<lambda>x. x \<noteq> 0) (allocated_pointers a) = allocated_pointers a"
    by (auto simp: table_full_def filter_id_conv)
  then have "distinct (allocated_pointers a)" "length (allocated_pointers a) = 1000"
    using assms(1) by (auto simp: kasan_inv_def)
  then have "card (set (allocated_pointers a)) = 1000" by (simp add: distinct_card)
  then show False using assms(2) \<open>table_full a\<close> by (simp add: tracked_def table_full_def)
qed

lemma mark_allocated_cases:
  assumes "kasan_inv a"
  shows "if p \<in> set (allocated_pointers a) then \<exists>msg. mark_allocated p a = Inl (Panic msg)
    else if table_full a then mark_allocated p a = Inr a
    else \<exists>a'. mark_allocated p a = Inr a' \<and> kasan_inv a' \<and> tracked a' = insert p (tracked a)"
proof (cases "p \<in> set (allocated_pointers a)")
  case True
  then show ?thesis using find_entry_None [of p 0] by (auto simp: mark_allocated_def)
next
  case p: False
  show ?thesis
  proof (cases "table_full a")
    case True
    with p show ?thesis by (simp add: mark_allocated_def table_full_def)
  next
    case False
    then have "0 \<in> set (allocated_pointers a)" by (simp add: table_full_def)
    then obtain ys zs where s: "allocated_pointers a = ys @ 0 # zs"
      "find_entry 0 0 (allocated_pointers a) = Some (length ys)"
      "(allocated_pointers a)[length ys := p] = ys @ p # zs" by (rule find_entry_split)
    then have "p \<noteq> 0" using p by auto
    let ?a = "a\<lparr>allocated_pointers := ys @ p # zs\<rparr>"
    have "mark_allocated p a = Inr ?a"
      using p s by (simp add: mark_allocated_def)
    moreover have "kasan_inv ?a" "tracked ?a = insert p (tracked a)"
      using assms s(1) p \<open>p \<noteq> 0\<close> by (auto simp: kasan_inv_def tracked_def)
    ultimately show ?thesis using p False by auto
  qed
qed

lemma mark_free_chk_cases:
  assumes "kasan_inv a" and "p \<noteq> 0"
  shows "if p \<in> tracked a
    then \<exists>a'. mark_free_chk p a = Inr (True, a') \<and> kasan_inv a' \<and> tracked a' = tracked a - {p}
    else \<exists>msg. mark_free_chk p a = Inl (Panic msg)"
proof (cases "p \<in> tracked a")
  case True
  then have "p \<in> set (allocated_pointers a)" by (simp add: tracked_def)
  then obtain ys zs where s: "allocated_pointers a = ys @ p # zs" "p \<notin> set ys"
    "find_entry p 0 (allocated_pointers a) = Some (length ys)"
    "(allocated_pointers a)[length ys := 0] = ys @ 0 # zs" by (rule find_entry_split)
  let ?a = "a\<lparr>allocated_pointers := ys @ 0 # zs\<rparr>"
  have "mark_free_chk p a = Inr (True, ?a)" using s by (simp add: mark_free_chk_def)
  moreover have "kasan_inv ?a" "tracked ?a = tracked a - {p}"
    using assms s(1,2) by (auto simp: kasan_inv_def tracked_def)
  ultimately show ?thesis using True by auto
next
  case False
  then have "p \<notin> set (allocated_pointers a)" using assms(2) by (simp add: tracked_def)
  then show ?thesis using False by (simp add: mark_free_chk_def)
qed

text \<open>While the table has room, a pointer recorded once can be released once: the first
  \<open>mark_free_chk\<close> succeeds, gives the entry back and leaves every other pointer tracked, and a
  second one for the same pointer is a panic. Recording a tracked pointer again is a panic too.\<close>

theorem double_free_detected:
  assumes "kasan_inv a" and "p \<noteq> 0" and "p \<notin> tracked a" and "\<not> table_full a"
  shows "\<exists>a1 a2 m1 m2. mark_allocated p a = Inr a1 \<and> mark_allocated p a1 = Inl (Panic m1) \<and>
    mark_free_chk p a1 = Inr (True, a2) \<and> mark_free_chk p a2 = Inl (Panic m2) \<and>
    tracked a2 = tracked a"
proof -
  have "p \<notin> set (allocated_pointers a)" using assms(2,3) by (simp add: tracked_def)
  then obtain a1 where a1: "mark_allocated p a = Inr a1" "kasan_inv a1"
    "tracked a1 = insert p (tracked a)"
    using mark_allocated_cases [OF assms(1), of p] assms(4) by auto
  moreover from this have "p \<in> set (allocated_pointers a1)" by (auto simp: tracked_def)
  then obtain m1 where "mark_allocated p a1 = Inl (Panic m1)"
    using mark_allocated_cases [OF a1(2), of p] by auto
  moreover obtain a2 where a2: "mark_free_chk p a1 = Inr (True, a2)" "kasan_inv a2"
    "tracked a2 = tracked a1 - {p}"
    using mark_free_chk_cases [OF a1(2) assms(2)] a1(3) by auto
  moreover obtain m2 where "mark_free_chk p a2 = Inl (Panic m2)"
    using mark_free_chk_cases [OF a2(2) assms(2)] a2(3) by auto
  ultimately show ?thesis using assms(3) by auto
qed

theorem double_free_detected_witness:
  "\<exists>a1 a2 m. mark_allocated 0x10000000 AddressSanitizer = Inr a1 \<and>
     mark_free_chk 0x10000000 a1 = Inr (True, a2) \<and> mark_free_chk 0x10000000 a2 = Inl (Panic m)"
  using double_free_detected [of AddressSanitizer "0x10000000"]
  by (auto simp: table_full_def AddressSanitizer_def kasan_inv_def tracked_def)

end
