(* ===== verification/MemoryManager.thy ===== *)
theory MemoryManager
  imports AddressSanitizer SlobAllocator
begin

text \<open>
  \<^verbatim>\<open>mm/MemoryManager.cc\<close> and \<^verbatim>\<open>include/mm/Zone.h\<close>: the two memory zones, the kernel's
  allocation entry points and the reference counts of the page frames of the first zone. The
  global lock is not modelled: a call is one atomic step. The buddy allocator of a zone is the
  field \<open>backing\<close> of its chunk allocator, which the source reaches through a pointer.
\<close>

definition KERNEL_VA_BASE :: u64 where
  "KERNEL_VA_BASE = 0xffff000000000000"

record zone =
  begin_addr :: u64
  slob :: slob_allocator

definition Zone :: "u64 \<Rightarrow> (u64 \<Rightarrow> chunk_header) \<Rightarrow> kerror + zone" where
  "Zone begin memory =
     bindE (BuddyAllocator begin) (\<lambda>b.
     Inr \<lparr>begin_addr = begin, slob = SlobAllocator b memory\<rparr>)"

record memory_manager =
  ram_size :: u64
  zone0 :: zone
  zone1 :: zone
  ref_counts :: "int list"
  kasan :: address_sanitizer

text \<open>The memory size is what the mailbox of the board reports.\<close>

definition MemoryManager ::
  "u64 \<Rightarrow> (u64 \<Rightarrow> chunk_header) \<Rightarrow> kerror + memory_manager" where
  "MemoryManager arm_memory memory =
     bindE (Zone 0x10000000 memory) (\<lambda>z0.
     bindE (Zone 0x10200000 memory) (\<lambda>z1.
     Inr \<lparr>ram_size = arm_memory, zone0 = z0, zone1 = z1,
          ref_counts = replicate (nat MAX_ORDER_NR_PAGES) 0, kasan = AddressSanitizer\<rparr>))"

abbreviation buddy0 :: "memory_manager \<Rightarrow> buddy_allocator" where
  "buddy0 mm \<equiv> backing (slob (zone0 mm))"

definition set_buddy0 :: "buddy_allocator \<Rightarrow> memory_manager \<Rightarrow> memory_manager" where
  "set_buddy0 b mm =
     mm\<lparr>zone0 := (zone0 mm)\<lparr>slob := (slob (zone0 mm))\<lparr>backing := b\<rparr>\<rparr>\<rparr>"

definition set_slob1 :: "slob_allocator \<Rightarrow> memory_manager \<Rightarrow> memory_manager" where
  "set_slob1 s mm = mm\<lparr>zone1 := (zone1 mm)\<lparr>slob := s\<rparr>\<rparr>"

definition get_free_page :: "bool \<Rightarrow> memory_manager \<Rightarrow> kerror + (u64 \<times> memory_manager)" where
  "get_free_page physical mm =
     bindE (allocate_one_page_frame (buddy0 mm)) (\<lambda>(ret, b).
     bindE (mark_allocated ret (kasan mm)) (\<lambda>k.
     Inr (if physical then ret else KERNEL_VA_BASE + ret, (set_buddy0 b mm)\<lparr>kasan := k\<rparr>)))"

definition kmalloc :: "u64 \<Rightarrow> memory_manager \<Rightarrow> kerror + (u64 \<times> memory_manager)" where
  "kmalloc sz mm =
     bindE (if sz + get_chunk_header_size \<ge> PAGE_SIZE then
              bindE (BuddyAllocator.allocate sz (buddy0 mm)) (\<lambda>(ret, b). Inr (ret, set_buddy0 b mm))
            else
              bindE (SlobAllocator.allocate sz (slob (zone1 mm))) (\<lambda>(ret, s).
              Inr (ret, set_slob1 s mm))) (\<lambda>(ret, mm).
     bindE (mark_allocated ret (kasan mm)) (\<lambda>k. Inr (ret, mm\<lparr>kasan := k\<rparr>)))"

definition kfree :: "u64 \<Rightarrow> memory_manager \<Rightarrow> kerror + memory_manager" where
  "kfree p mm =
     (let p = (if p \<ge> KERNEL_VA_BASE then p - KERNEL_VA_BASE else p) in
      bindE (mark_free_chk p (kasan mm)) (\<lambda>(_, k).
      let mm = mm\<lparr>kasan := k\<rparr> in
      if is_aligned p then
        bindE (BuddyAllocator.deallocate p (buddy0 mm)) (\<lambda>b. Inr (set_buddy0 b mm))
      else
        bindE (SlobAllocator.deallocate p (slob (zone1 mm))) (\<lambda>s. Inr (set_slob1 s mm))))"

definition get_page_ref_idx :: "u64 \<Rightarrow> memory_manager \<Rightarrow> kerror + int" where
  "get_page_ref_idx addr mm =
     (if addr < begin_addr (zone0 mm) \<or> addr \<ge> begin_addr (zone1 mm)
      then Inl (Panic ''get_page_ref_idx(): p_addr out of bound'')
      else if \<not> is_aligned addr
      then Inl (Panic ''get_page_ref_idx(): p_addr is not a valid page address'')
      else Inr (int32 (uint (drop_bit 12 (addr - begin_addr (zone0 mm))))))"

definition add_page_ref_count :: "int \<Rightarrow> u64 \<Rightarrow> memory_manager \<Rightarrow> kerror + (int \<times> memory_manager)" where
  "add_page_ref_count d addr mm =
     bindE (get_page_ref_idx addr mm) (\<lambda>idx.
     bindE (aget (ref_counts mm) idx) (\<lambda>n.
     bindE (aset (ref_counts mm) idx (int32 (n + d))) (\<lambda>rs.
     Inr (int32 (n + d), mm\<lparr>ref_counts := rs\<rparr>))))"

definition inc_page_ref_count :: "u64 \<Rightarrow> memory_manager \<Rightarrow> kerror + (int \<times> memory_manager)" where
  "inc_page_ref_count = add_page_ref_count 1"

definition dec_page_ref_count :: "u64 \<Rightarrow> memory_manager \<Rightarrow> kerror + (int \<times> memory_manager)" where
  "dec_page_ref_count = add_page_ref_count (-1)"

definition get_page_ref_count :: "u64 \<Rightarrow> memory_manager \<Rightarrow> kerror + int" where
  "get_page_ref_count addr mm =
     bindE (get_page_ref_idx addr mm) (\<lambda>idx. aget (ref_counts mm) idx)"

end
