(* ===== verification/VMMap.thy ===== *)
theory VMMap
  imports MemoryManager
begin

text \<open>
  The page tables of a process, \<^verbatim>\<open>mm/VirtualMemoryMap.cc\<close>, with the page-descriptor macros of
  \<^verbatim>\<open>include/mm/mmu.h\<close>. Physical memory is read and written as 64-bit words at multiples of 8;
  \<open>mem\<close> gives the word at an address. A \<open>VMMap\<close> object is the address of its page global
  directory.
\<close>

definition PD_COW_PAGE :: u64 where "PD_COW_PAGE = push_bit 55 1"
definition PD_EL0_EXEC_NEVER :: u64 where "PD_EL0_EXEC_NEVER = push_bit 54 1"
definition PD_ACCESS :: u64 where "PD_ACCESS = push_bit 10 1"
definition PD_RDONLY :: u64 where "PD_RDONLY = push_bit 7 1"
definition PD_KERNEL_USER :: u64 where "PD_KERNEL_USER = push_bit 6 1"
definition PD_TABLE :: u64 where "PD_TABLE = 3"
definition PD_PAGE :: u64 where "PD_PAGE = 3"
definition MAIR_IDX_NORMAL_NOCACHE :: u64 where "MAIR_IDX_NORMAL_NOCACHE = 1"

definition PD_INVALID :: "u64 \<Rightarrow> bool" where
  "PD_INVALID x \<longleftrightarrow> x AND 1 = 0"

definition USER_PAGE :: u64 where
  "USER_PAGE = push_bit 2 MAIR_IDX_NORMAL_NOCACHE OR PD_ACCESS OR PD_KERNEL_USER OR PD_PAGE"

definition USER_PAGE_RWX :: u64 where "USER_PAGE_RWX = USER_PAGE"
definition USER_PAGE_RX :: u64 where "USER_PAGE_RX = USER_PAGE OR PD_RDONLY"
definition USER_PAGE_RW :: u64 where "USER_PAGE_RW = USER_PAGE OR PD_EL0_EXEC_NEVER"
definition USER_PAGE_R :: u64 where "USER_PAGE_R = USER_PAGE OR PD_RDONLY OR PD_EL0_EXEC_NEVER"

definition PGD_INDEX :: "u64 \<Rightarrow> u64" where "PGD_INDEX x = drop_bit 39 x AND 0x1ff"
definition PUD_INDEX :: "u64 \<Rightarrow> u64" where "PUD_INDEX x = drop_bit 30 x AND 0x1ff"
definition PMD_INDEX :: "u64 \<Rightarrow> u64" where "PMD_INDEX x = drop_bit 21 x AND 0x1ff"
definition PTE_INDEX :: "u64 \<Rightarrow> u64" where "PTE_INDEX x = drop_bit 12 x AND 0x1ff"

definition PD_PAGE_MASK :: u64 where "PD_PAGE_MASK = 0x00007ffffffff000"
definition PD_ATTR_MASK :: u64 where "PD_ATTR_MASK = PAGE_SIZE - 1"

record kstate =
  mem :: "u64 \<Rightarrow> u64"
  mm :: memory_manager

definition store :: "u64 \<Rightarrow> u64 \<Rightarrow> kstate \<Rightarrow> kstate" where
  "store a v ks = ks\<lparr>mem := (mem ks)(a := v)\<rparr>"

text \<open>\<open>memset(page, 0, PAGE_SIZE)\<close> and \<open>memcpy(dst, src, PAGE_SIZE)\<close> on page frames.\<close>

definition clear_page :: "u64 \<Rightarrow> kstate \<Rightarrow> kstate" where
  "clear_page p ks = ks\<lparr>mem := (\<lambda>a. if a - p < PAGE_SIZE then 0 else mem ks a)\<rparr>"

definition copy_page :: "u64 \<Rightarrow> u64 \<Rightarrow> kstate \<Rightarrow> kstate" where
  "copy_page dst src ks =
     ks\<lparr>mem := (\<lambda>a. if a - dst < PAGE_SIZE then mem ks (src + (a - dst)) else mem ks a)\<rparr>"

definition with_mm ::
  "(memory_manager \<Rightarrow> kerror + ('a \<times> memory_manager)) \<Rightarrow> kstate \<Rightarrow> kerror + ('a \<times> kstate)" where
  "with_mm f ks = bindE (f (mm ks)) (\<lambda>(r, m). Inr (r, ks\<lparr>mm := m\<rparr>))"

definition vm_kfree :: "u64 \<Rightarrow> kstate \<Rightarrow> kerror + kstate" where
  "vm_kfree p ks = bindE (kfree p (mm ks)) (\<lambda>m. Inr (ks\<lparr>mm := m\<rparr>))"

definition entry :: "u64 \<Rightarrow> u64 \<Rightarrow> u64" where
  "entry pt i = pt + 8 * i"


subsection \<open>Construction\<close>

definition VMMap :: "kstate \<Rightarrow> kerror + (u64 \<times> kstate)" where
  "VMMap ks =
     bindE (with_mm (get_free_page True) ks) (\<lambda>(pgd, ks).
     if pgd = 0 then Inr (pgd, ks) else Inr (pgd, clear_page pgd ks))"


subsection \<open>Walking\<close>

text \<open>The loop of \<open>walk\<close> over the indices of the upper three levels; \<open>None\<close> is the null pointer.\<close>

fun walk_levels :: "u64 list \<Rightarrow> u64 \<Rightarrow> bool \<Rightarrow> kstate \<Rightarrow> kerror + (u64 option \<times> kstate)" where
  "walk_levels [] pt create_pte ks = Inr (Some pt, ks)"
| "walk_levels (i # is) pt create_pte ks =
     (if \<not> PD_INVALID (mem ks (entry pt i))
      then walk_levels is (mem ks (entry pt i) AND PD_PAGE_MASK) create_pte ks
      else if \<not> create_pte then Inr (None, ks)
      else
        bindE (with_mm (get_free_page True) ks) (\<lambda>(page_frame, ks).
        let ks = store (entry pt i) (page_frame OR PD_TABLE) (clear_page page_frame ks)
        in walk_levels is page_frame create_pte ks))"

definition walk :: "u64 \<Rightarrow> u64 \<Rightarrow> bool \<Rightarrow> kstate \<Rightarrow> kerror + (u64 option \<times> kstate)" where
  "walk pgd v_addr create_pte ks =
     bindE (walk_levels [PGD_INDEX v_addr, PUD_INDEX v_addr, PMD_INDEX v_addr] pgd create_pte ks)
       (\<lambda>(pt, ks). Inr (map_option (\<lambda>pt. entry pt (PTE_INDEX v_addr)) pt, ks))"


subsection \<open>Mapping\<close>

definition map_page :: "u64 \<Rightarrow> u64 \<Rightarrow> u64 \<Rightarrow> u64 \<Rightarrow> kstate \<Rightarrow> kerror + kstate" where
  "map_page pgd v_addr p_addr attr ks =
     bindE (walk pgd v_addr True ks) (\<lambda>(pte, ks).
     case pte of
       None \<Rightarrow> Inl NullDeref
     | Some pte \<Rightarrow>
         if \<not> PD_INVALID (mem ks pte) then Inl (Panic ''VMMap::map: already mapped'')
         else
           let attr = (if attr AND PD_RDONLY = 0 then attr OR PD_COW_PAGE else attr);
               ks = store pte (p_addr OR attr) ks
           in bindE (with_mm (inc_page_ref_count p_addr) ks) (\<lambda>(_, ks). Inr ks))"

definition unmap :: "u64 \<Rightarrow> u64 \<Rightarrow> kstate \<Rightarrow> kerror + kstate" where
  "unmap pgd v_addr ks =
     bindE (walk pgd v_addr False ks) (\<lambda>(pte, ks).
     case pte of
       None \<Rightarrow> Inl (Panic ''VMMap::map: not mapped yet'')
     | Some pte \<Rightarrow>
         let p_addr = mem ks pte AND PD_PAGE_MASK; ks = store pte 0 ks
         in bindE (with_mm (dec_page_ref_count p_addr) ks) (\<lambda>(_, ks). Inr ks))"

definition is_cow_page :: "u64 \<Rightarrow> u64 \<Rightarrow> kstate \<Rightarrow> kerror + bool" where
  "is_cow_page pgd v_addr ks =
     (if \<not> is_aligned v_addr then Inl (Panic ''VMMap::walk(): v_addr unaligned to page boundary'')
      else
        bindE (walk pgd v_addr False ks) (\<lambda>(pte, ks).
        Inr (case pte of None \<Rightarrow> False | Some pte \<Rightarrow> mem ks pte AND PD_COW_PAGE \<noteq> 0)))"

definition get_physical_address :: "u64 \<Rightarrow> u64 \<Rightarrow> kstate \<Rightarrow> kerror + u64" where
  "get_physical_address pgd v_addr ks =
     bindE (walk pgd v_addr False ks) (\<lambda>(pte, ks).
     Inr (case pte of
            None \<Rightarrow> 0
          | Some pte \<Rightarrow> (mem ks pte AND PD_PAGE_MASK) + PAGE_OFFSET v_addr))"

definition get_unmapped_area :: "u64 \<Rightarrow> u64" where
  "get_unmapped_area len = 0"

definition copy_page_frame :: "u64 \<Rightarrow> u64 \<Rightarrow> kstate \<Rightarrow> kerror + kstate" where
  "copy_page_frame pgd v_addr ks =
     bindE (walk pgd v_addr False ks) (\<lambda>(pte, ks).
     case pte of
       None \<Rightarrow> Inl (Panic ''copy_page_frame(): page directory / entry does not exist'')
     | Some pte \<Rightarrow>
         let old_page_frame = mem ks pte AND PD_PAGE_MASK;
             old_attr = mem ks pte AND PD_ATTR_MASK
         in bindE (get_page_ref_count old_page_frame (mm ks)) (\<lambda>n.
            if n = 1 then
              let ks = store pte (mem ks pte AND NOT PD_COW_PAGE) ks
              in Inr (store pte (mem ks pte AND NOT PD_RDONLY) ks)
            else
              bindE (with_mm (get_free_page True) ks) (\<lambda>(new_page_frame, ks).
              let ks = copy_page new_page_frame old_page_frame ks;
                  ks = store pte (new_page_frame OR old_attr) ks;
                  ks = store pte (mem ks pte AND NOT PD_RDONLY) ks
              in bindE (with_mm (dec_page_ref_count old_page_frame) ks) (\<lambda>(_, ks).
                 bindE (with_mm (inc_page_ref_count new_page_frame) ks) (\<lambda>(_, ks). Inr ks)))))"


subsection \<open>Whole address spaces\<close>

text \<open>
  The two traversals recurse on the level of the table; here the argument \<open>d\<close> is the number of
  levels below it, 3 for the page global directory and 0 for the tables of page-table entries.
\<close>

definition pt_indices :: "u64 list" where
  "pt_indices = map of_nat [0..<512]"

definition free_leaf :: "u64 \<Rightarrow> u64 \<Rightarrow> kstate \<Rightarrow> kerror + kstate" where
  "free_leaf pt i ks =
     (if PD_INVALID (mem ks (entry pt i)) then Inr ks
      else
        let p_addr = mem ks (entry pt i) AND PD_PAGE_MASK in
        bindE (with_mm (dec_page_ref_count p_addr) ks) (\<lambda>(n, ks).
        if n = 0 then vm_kfree p_addr ks else Inr ks))"

primrec dfs_kfree_page :: "nat \<Rightarrow> u64 \<Rightarrow> kstate \<Rightarrow> kerror + kstate" where
  "dfs_kfree_page 0 pt ks = forE pt_indices (free_leaf pt) ks"
| "dfs_kfree_page (Suc d) pt ks =
     forE pt_indices (\<lambda>i ks.
       if PD_INVALID (mem ks (entry pt i)) then Inr ks
       else
         bindE (dfs_kfree_page d (mem ks (entry pt i) AND PD_PAGE_MASK) ks) (\<lambda>ks.
         vm_kfree (mem ks (entry pt i) AND PD_PAGE_MASK) ks)) ks"

definition copy_leaf :: "u64 \<Rightarrow> u64 \<Rightarrow> u64 \<Rightarrow> kstate \<Rightarrow> kerror + kstate" where
  "copy_leaf pt_old pt_new i ks =
     (if PD_INVALID (mem ks (entry pt_old i)) then Inr ks
      else
        let page_frame_addr = mem ks (entry pt_old i) AND PD_PAGE_MASK;
            v = page_frame_addr OR USER_PAGE_RX OR PD_COW_PAGE;
            ks = store (entry pt_old i) v (store (entry pt_new i) v ks)
        in bindE (with_mm (inc_page_ref_count page_frame_addr) ks) (\<lambda>(_, ks). Inr ks))"

primrec dfs_copy_page_tables :: "nat \<Rightarrow> u64 \<Rightarrow> u64 \<Rightarrow> kstate \<Rightarrow> kerror + kstate" where
  "dfs_copy_page_tables 0 pt_old pt_new ks = forE pt_indices (copy_leaf pt_old pt_new) ks"
| "dfs_copy_page_tables (Suc d) pt_old pt_new ks =
     forE pt_indices (\<lambda>i ks.
       if PD_INVALID (mem ks (entry pt_old i)) then Inr ks
       else
         let old_page_frame = mem ks (entry pt_old i) AND PD_PAGE_MASK in
         bindE (with_mm (get_free_page True) ks) (\<lambda>(new_page_frame, ks).
         let ks = clear_page new_page_frame ks;
             ks = store (entry pt_new i) (new_page_frame OR PD_TABLE) ks
         in dfs_copy_page_tables d old_page_frame new_page_frame ks)) ks"

definition reset :: "u64 \<Rightarrow> kstate \<Rightarrow> kerror + kstate" where
  "reset pgd ks = bindE (dfs_kfree_page 3 pgd ks) (\<lambda>ks. Inr (clear_page pgd ks))"

definition destroy :: "u64 \<Rightarrow> kstate \<Rightarrow> kerror + kstate" where
  "destroy pgd ks = bindE (reset pgd ks) (vm_kfree pgd)"

definition copy_from :: "u64 \<Rightarrow> u64 \<Rightarrow> kstate \<Rightarrow> kerror + kstate" where
  "copy_from pgd r_pgd ks = dfs_copy_page_tables 3 r_pgd pgd ks"

end
