(* ===== verification/PageTables.thy ===== *)
theory PageTables
  imports VMMap
begin

text \<open>
  The tree of page tables as a partial function from index paths to table frames, and what a
  single write to a table does to it. Nothing here depends on how frames are obtained.
\<close>

subsection \<open>Entries\<close>

definition table_frame :: "u64 \<Rightarrow> bool" where
  "table_frame p \<longleftrightarrow> is_aligned p \<and> unat p < 2 ^ 46"

abbreviation index_ok :: "u64 \<Rightarrow> bool" where
  "index_ok i \<equiv> unat i < 512"

lemma unat_entry:
  assumes "table_frame p" and "index_ok i"
  shows "unat (entry p i) = unat p + 8 * unat i"
proof -
  have "unat (8 * i) = 8 * unat i" using assms(2) unat_mult_lem [of 8 i] by simp
  then show ?thesis using assms by (simp add: entry_def table_frame_def unat_add_small)
qed

lemma entry_div:
  assumes "table_frame p" and "index_ok i"
  shows "unat (entry p i) div 4096 = unat p div 4096"
proof -
  obtain k where k: "unat p = 4096 * k"
    using assms(1) by (auto simp: table_frame_def is_aligned_unat)
  show ?thesis using assms(2) unfolding unat_entry [OF assms] k by simp
qed

lemma entry_inj:
  assumes "table_frame p" and "table_frame q" and "index_ok i" and "index_ok j"
    and "entry p i = entry q j"
  shows "p = q \<and> i = j"
proof -
  have "unat p div 4096 = unat q div 4096"
    using entry_div [OF assms(1,3)] entry_div [OF assms(2,4)] assms(5) by simp
  moreover have "unat p mod 4096 = 0" "unat q mod 4096 = 0"
    using assms(1,2) by (simp_all add: table_frame_def is_aligned_unat)
  ultimately have pq: "unat p = unat q" by (metis div_mult_mod_eq)
  then have "unat i = unat j"
    using unat_entry [OF assms(1,3)] unat_entry [OF assms(2,4)] assms(5) by simp
  with pq show ?thesis by (simp add: word_unat_eq_iff)
qed

lemma offset_div:
  assumes "table_frame p" and "unat d < 4096"
  shows "unat (p + d) div 4096 = unat p div 4096"
proof -
  obtain k where k: "unat p = 4096 * k" using assms(1) by (auto simp: table_frame_def is_aligned_unat)
  have "unat (p + d) = unat p + unat d"
    using assms by (intro unat_add_small) (simp add: table_frame_def)
  then show ?thesis using assms(2) k by simp
qed

lemma in_page:
  assumes "table_frame p" and "table_frame q" and "unat d < 4096"
  shows "q + d - p < 4096 \<longleftrightarrow> p = q"
proof
  assume less: "q + d - p < 4096"
  then have "unat (q + d - p) < 4096" by (simp add: word_less_nat_alt)
  from offset_div [OF assms(1) this]
  have "unat q div 4096 = unat p div 4096" using offset_div [OF assms(2,3)] by simp
  moreover have "unat p mod 4096 = 0" "unat q mod 4096 = 0"
    using assms(1,2) by (simp_all add: table_frame_def is_aligned_unat)
  ultimately have "unat p = unat q" by (metis div_mult_mod_eq)
  then show "p = q" by (simp add: word_unat_eq_iff)
qed (use assms(3) in \<open>simp add: word_less_nat_alt\<close>)

lemma entry_offset: "index_ok i \<Longrightarrow> unat (8 * i) < 4096"
  using unat_mult_lem [of 8 i] by simp

lemma page_offset_less:
  assumes "table_frame p" and "table_frame q" and "index_ok i"
  shows "entry q i - p < 4096 \<longleftrightarrow> p = q"
  unfolding entry_def by (rule in_page [OF assms(1,2) entry_offset [OF assms(3)]])

lemma clear_page_entry:
  assumes "table_frame p" and "table_frame q" and "index_ok i"
  shows "mem (clear_page p ks) (entry q i) = (if p = q then 0 else mem ks (entry q i))"
  using page_offset_less [OF assms] by (simp add: clear_page_def)

lemma PD_PAGE_MASK_bits: "bit PD_PAGE_MASK n \<longleftrightarrow> 12 \<le> n \<and> n < 47"
proof -
  have eq: "PD_PAGE_MASK = push_bit 12 (mask 35)"
    by (simp add: PD_PAGE_MASK_def push_bit_eq_mult mask_eq_exp_minus_1)
  show ?thesis unfolding eq by (auto simp: bit_simps)
qed

lemma table_frame_bits:
  assumes "table_frame p" and "bit p n"
  shows "12 \<le> n \<and> n < 46"
proof -
  have "unat (take_bit 46 p) = unat p"
    using assms(1) by (simp add: table_frame_def take_bit_eq_mod unat_mod)
  then have "take_bit 46 p = p" by (simp add: word_unat_eq_iff)
  moreover have "unat (take_bit 12 p) = 0"
    using assms(1) by (simp add: table_frame_def take_bit_eq_mod unat_mod is_aligned_unat)
  then have "take_bit 12 p = 0" unfolding unat_eq_0 .
  ultimately show ?thesis using assms(2) by (metis bit_0_eq bit_take_bit_iff bot_apply bot_bool_def not_le)
qed

lemma table_frame_mask: "table_frame p \<Longrightarrow> p AND PD_PAGE_MASK = p"
  by (rule bit_word_eqI) (auto simp: bit_and_iff PD_PAGE_MASK_bits dest: table_frame_bits)

lemma descriptor_frame:
  assumes "table_frame p" and "a AND PD_PAGE_MASK = 0"
  shows "(p OR a) AND PD_PAGE_MASK = p"
  using assms by (simp add: bit.conj_disj_distrib2 table_frame_mask)

lemma table_descriptor:
  assumes "table_frame p"
  shows "(p OR PD_TABLE) AND PD_PAGE_MASK = p" and "\<not> PD_INVALID (p OR PD_TABLE)"
proof -
  show "(p OR PD_TABLE) AND PD_PAGE_MASK = p"
    by (rule descriptor_frame [OF assms]) (simp add: PD_TABLE_def PD_PAGE_MASK_def)
  have "odd (p OR PD_TABLE)" by (simp add: even_or_iff PD_TABLE_def)
  then show "\<not> PD_INVALID (p OR PD_TABLE)" by (simp add: PD_INVALID_def and_one_eq odd_iff_mod_2_eq_one)
qed


subsection \<open>The tree of tables\<close>

fun table_at :: "(u64 \<Rightarrow> u64) \<Rightarrow> u64 \<Rightarrow> u64 list \<Rightarrow> u64 option" where
  "table_at m pt [] = Some pt"
| "table_at m pt (i # is) =
     (if PD_INVALID (m (entry pt i)) then None
      else table_at m (m (entry pt i) AND PD_PAGE_MASK) is)"

definition path :: "u64 list \<Rightarrow> bool" where
  "path is \<longleftrightarrow> length is \<le> 3 \<and> (\<forall>i \<in> set is. index_ok i)"

text \<open>\<open>T\<close> is a set of table frames that holds all tables of the tree at \<open>pgd\<close>, and different
  paths lead to different tables.\<close>

definition tree_ok :: "(u64 \<Rightarrow> u64) \<Rightarrow> u64 \<Rightarrow> u64 set \<Rightarrow> bool" where
  "tree_ok m pgd T \<longleftrightarrow> (\<forall>p \<in> T. table_frame p) \<and>
     (\<forall>is p. path is \<and> table_at m pgd is = Some p \<longrightarrow> p \<in> T) \<and>
     (\<forall>is js p. path is \<and> path js \<and> table_at m pgd is = Some p \<and> table_at m pgd js = Some p \<longrightarrow>
        is = js)"

lemma table_at_append:
  "table_at m pt (xs @ ys) = (case table_at m pt xs of None \<Rightarrow> None | Some q \<Rightarrow> table_at m q ys)"
  by (induction xs arbitrary: pt) auto

lemma table_at_cong:
  assumes "\<And>ys i zs q. xs = ys @ i # zs \<Longrightarrow> table_at m pt ys = Some q \<Longrightarrow>
    m' (entry q i) = m (entry q i)"
  shows "table_at m' pt xs = table_at m pt xs"
  using assms
proof (induction xs arbitrary: pt)
  case (Cons i xs)
  have e: "m' (entry pt i) = m (entry pt i)" using Cons.prems [of "[]" i xs pt] by simp
  show ?case
  proof (cases "PD_INVALID (m (entry pt i))")
    case False
    have "table_at m' (m (entry pt i) AND PD_PAGE_MASK) xs =
        table_at m (m (entry pt i) AND PD_PAGE_MASK) xs"
    proof (rule Cons.IH)
      fix ys j zs q
      assume "xs = ys @ j # zs" "table_at m (m (entry pt i) AND PD_PAGE_MASK) ys = Some q"
      then show "m' (entry q j) = m (entry q j)"
        using Cons.prems [of "i # ys" j zs q] False by simp
    qed
    with e False show ?thesis by simp
  qed (simp add: e)
qed simp

lemma path_prefix: "path (xs @ ys) \<Longrightarrow> path xs"
  by (auto simp: path_def)

lemma path_mid: "path (xs @ i # ys) \<Longrightarrow> index_ok i \<and> length xs < 3"
  by (auto simp: path_def)

lemma tree_okD:
  assumes "tree_ok m pgd T"
  shows "p \<in> T \<Longrightarrow> table_frame p" and "path is \<Longrightarrow> table_at m pgd is = Some p \<Longrightarrow> p \<in> T"
    and "path is \<Longrightarrow> path js \<Longrightarrow> table_at m pgd is = Some p \<Longrightarrow> table_at m pgd js = Some p \<Longrightarrow> is = js"
  using assms unfolding tree_ok_def by blast+

lemma tree_frame: "tree_ok m pgd T \<Longrightarrow> path is \<Longrightarrow> table_at m pgd is = Some p \<Longrightarrow> table_frame p"
  using tree_okD by blast

text \<open>A write to an entry of a last-level table leaves the tree as it is.\<close>

lemma leaf_write_tables:
  assumes t: "tree_ok m pgd T" and xs: "path xs" "length xs = 3" "table_at m pgd xs = Some q"
    and i: "index_ok i" and ys: "path ys"
  shows "table_at (m(entry q i := w)) pgd ys = table_at m pgd ys"
proof (rule table_at_cong)
  fix zs j us q1 assume s: "ys = zs @ j # us" and q1: "table_at m pgd zs = Some q1"
  have zs: "path zs" "index_ok j" "length zs < 3"
    using ys s path_prefix path_mid by auto
  have "entry q1 j \<noteq> entry q i"
  proof
    assume "entry q1 j = entry q i"
    then have "q1 = q"
      using entry_inj [of q1 q j i] tree_frame [OF t] zs q1 xs(1,3) i by blast
    then show False using tree_okD(3) [OF t zs(1) xs(1)] q1 xs zs(3) by simp
  qed
  then show "(m(entry q i := w)) (entry q1 j) = m (entry q1 j)" by simp
qed

lemma leaf_write_tree:
  assumes "tree_ok m pgd T" and "path xs" "length xs = 3" "table_at m pgd xs = Some q" and "index_ok i"
  shows "tree_ok (m(entry q i := w)) pgd T"
  using assms(1) leaf_write_tables [OF assms] unfolding tree_ok_def by (metis (no_types, lifting))


text \<open>A write that hangs a fresh, cleared frame \<open>f\<close> into an invalid entry of an upper table.\<close>

definition hang :: "u64 \<Rightarrow> u64 \<Rightarrow> u64 \<Rightarrow> (u64 \<Rightarrow> u64) \<Rightarrow> u64 \<Rightarrow> u64" where
  "hang q i f m = (\<lambda>a. if a - f < 4096 then 0 else m a)(entry q i := f OR PD_TABLE)"

lemma hang_entry:
  assumes "table_frame f" and "table_frame p" and "table_frame q" and "q \<noteq> f"
    and "index_ok i" and "index_ok j"
  shows "hang q i f m (entry p j) =
    (if p = q \<and> j = i then f OR PD_TABLE else if p = f then 0 else m (entry p j))"
  using page_offset_less [OF assms(1,2,6)] entry_inj [OF assms(2,3,6,5)] assms(4)
  by (auto simp: hang_def)

lemma hang_tables:
  assumes t: "tree_ok m pgd T" and xs: "path (xs @ [i])" "table_at m pgd xs = Some q"
    and inv: "PD_INVALID (m (entry q i))" and f: "table_frame f" "f \<notin> T" and ys: "path ys"
  shows "table_at (hang q i f m) pgd ys =
    (if take (Suc (length xs)) ys = xs @ [i]
     then if length ys = Suc (length xs) then Some f else None
     else table_at m pgd ys)"
proof -
  have px: "path xs" "index_ok i" using xs(1) path_prefix path_mid [of xs i "[]"] by auto
  have q: "table_frame q" "q \<noteq> f" using tree_okD [OF t] px(1) xs(2) f(2) by auto
  have other: "table_at (hang q i f m) pgd zs = table_at m pgd zs"
    if zs: "path zs" "take (Suc (length xs)) zs \<noteq> xs @ [i]" for zs
  proof (rule table_at_cong)
    fix us j vs p assume s: "zs = us @ j # vs" and p: "table_at m pgd us = Some p"
    have us: "path us" "index_ok j" using zs s path_prefix path_mid by auto
    then have P: "table_frame p" "p \<noteq> f" using tree_okD [OF t] p f(2) by auto
    have "\<not> (p = q \<and> j = i)"
    proof
      assume "p = q \<and> j = i"
      then have "us = xs" "j = i" using tree_okD(3) [OF t us(1) px(1)] p xs(2) by auto
      then show False using zs(2) s by simp
    qed
    then show "hang q i f m (entry p j) = m (entry p j)"
      using hang_entry [OF f(1) P(1) q px(2) us(2)] P(2) by auto
  qed
  show ?thesis
  proof (cases "take (Suc (length xs)) ys = xs @ [i]")
    case True
    then obtain zs where zs: "ys = (xs @ [i]) @ zs" by (metis append_take_drop_id)
    have "table_at (hang q i f m) pgd xs = Some q" using other [OF px(1)] xs(2) by simp
    then have at: "table_at (hang q i f m) pgd (xs @ [i]) = Some f"
      using hang_entry [OF f(1) q(1) q px(2) px(2)] table_descriptor [OF f(1)]
      by (simp add: table_at_append)
    have "PD_INVALID 0" by (simp add: PD_INVALID_def)
    moreover have "hang q i f m (entry f j) = 0" if "index_ok j" for j
      using hang_entry [OF f(1) f(1) q px(2) that] q(2) by auto
    moreover have "\<forall>j \<in> set zs. index_ok j" using ys zs by (auto simp: path_def)
    ultimately have "table_at (hang q i f m) f zs = (if zs = [] then Some f else None)"
      by (cases zs) auto
    then have "table_at (hang q i f m) pgd ((xs @ [i]) @ zs) = (if zs = [] then Some f else None)"
      unfolding table_at_append [of _ _ "xs @ [i]"] at by simp
    then show ?thesis using True zs by simp
  next
    case False
    then show ?thesis using other [OF ys] by simp
  qed
qed

lemma hang_tree:
  assumes t: "tree_ok m pgd T" and xs: "path (xs @ [i])" "table_at m pgd xs = Some q"
    and inv: "PD_INVALID (m (entry q i))" and f: "table_frame f" "f \<notin> T"
  shows "tree_ok (hang q i f m) pgd (insert f T)"
proof -
  note H = hang_tables [OF t xs inv f]
  have is_f: "table_at (hang q i f m) pgd ys = Some f \<Longrightarrow> path ys \<Longrightarrow> ys = xs @ [i]" for ys
    using H [of ys] tree_okD(2) [OF t, of ys f] f(2) by (auto split: if_splits)
  have old: "table_at (hang q i f m) pgd ys = Some p \<Longrightarrow> path ys \<Longrightarrow> p \<noteq> f \<Longrightarrow>
      table_at m pgd ys = Some p" for ys p
    using H [of ys] by (auto split: if_splits)
  show ?thesis
    unfolding tree_ok_def
  proof (intro conjI allI impI ballI)
    fix p assume "p \<in> insert f T"
    then show "table_frame p" using f(1) tree_okD(1) [OF t] by auto
  next
    fix ys p assume "path ys \<and> table_at (hang q i f m) pgd ys = Some p"
    then show "p \<in> insert f T" using old tree_okD(2) [OF t] by blast
  next
    fix ys zs p
    assume "path ys \<and> path zs \<and> table_at (hang q i f m) pgd ys = Some p \<and>
      table_at (hang q i f m) pgd zs = Some p"
    then show "ys = zs" using is_f old tree_okD(3) [OF t] by (cases "p = f") blast+
  qed
qed


subsection \<open>Descriptors of pages\<close>

definition v_path :: "u64 \<Rightarrow> u64 list" where
  "v_path v = [PGD_INDEX v, PUD_INDEX v, PMD_INDEX v]"

definition pte_slot :: "(u64 \<Rightarrow> u64) \<Rightarrow> u64 \<Rightarrow> u64 \<Rightarrow> u64 option" where
  "pte_slot m pgd v = map_option (\<lambda>pt. entry pt (PTE_INDEX v)) (table_at m pgd (v_path v))"

text \<open>The abstraction of an address space: the descriptor of each virtual page, 0 without one.\<close>

definition descriptor :: "(u64 \<Rightarrow> u64) \<Rightarrow> u64 \<Rightarrow> u64 \<Rightarrow> u64" where
  "descriptor m pgd v = (case pte_slot m pgd v of None \<Rightarrow> 0 | Some a \<Rightarrow> m a)"

definition same_page :: "u64 \<Rightarrow> u64 \<Rightarrow> bool" where
  "same_page v w \<longleftrightarrow> v_path v = v_path w \<and> PTE_INDEX v = PTE_INDEX w"

lemma index_ok_and: "index_ok (x AND 0x1ff)"
proof -
  have "(0x1ff :: u64) = mask 9" by (simp add: mask_eq_exp_minus_1)
  then have "x AND 0x1ff = take_bit 9 x" by (simp add: take_bit_eq_mask)
  then have "unat (x AND 0x1ff) = unat x mod 512" by (simp add: take_bit_eq_mod unat_mod)
  then show ?thesis by simp
qed

lemma v_path_ok [simp]: "path (v_path v)" "length (v_path v) = 3" "index_ok (PTE_INDEX v)"
  using index_ok_and by (auto simp: v_path_def path_def PGD_INDEX_def PUD_INDEX_def PMD_INDEX_def
      PTE_INDEX_def)

lemma leaf_write_descriptor:
  assumes t: "tree_ok m pgd T" and s: "pte_slot m pgd v = Some a"
  shows "tree_ok (m(a := w)) pgd T" and "pte_slot (m(a := w)) pgd u = pte_slot m pgd u"
    and "descriptor (m(a := w)) pgd u = (if same_page u v then w else descriptor m pgd u)"
proof -
  obtain q where q: "table_at m pgd (v_path v) = Some q" "a = entry q (PTE_INDEX v)"
    using s by (auto simp: pte_slot_def)
  note L = leaf_write_tables [OF t v_path_ok(1,2) q(1) v_path_ok(3)]
  show "tree_ok (m(a := w)) pgd T"
    using leaf_write_tree [OF t v_path_ok(1,2) q(1) v_path_ok(3)] q(2) by simp
  show slot: "pte_slot (m(a := w)) pgd u = pte_slot m pgd u" for u
    using L q(2) by (simp add: pte_slot_def)
  have "pte_slot m pgd u = Some a \<longleftrightarrow> same_page u v"
  proof
    assume "pte_slot m pgd u = Some a"
    then obtain p where p: "table_at m pgd (v_path u) = Some p" "entry p (PTE_INDEX u) = entry q (PTE_INDEX v)"
      using q(2) by (auto simp: pte_slot_def)
    have "table_frame p" "table_frame q" using tree_frame [OF t v_path_ok(1)] p(1) q(1) by blast+
    from entry_inj [OF this v_path_ok(3) v_path_ok(3) p(2)]
    have "p = q \<and> PTE_INDEX u = PTE_INDEX v" .
    then show "same_page u v"
      using tree_okD(3) [OF t v_path_ok(1) v_path_ok(1)] p(1) q(1) by (auto simp: same_page_def)
  qed (use q in \<open>auto simp: pte_slot_def same_page_def\<close>)
  then show "descriptor (m(a := w)) pgd u = (if same_page u v then w else descriptor m pgd u)"
    using slot s by (auto simp: descriptor_def split: option.splits)
qed

lemma hang_descriptor:
  assumes t: "tree_ok m pgd T" and xs: "path (xs @ [i])" "table_at m pgd xs = Some q"
    and inv: "PD_INVALID (m (entry q i))" and f: "table_frame f" "f \<notin> T"
  shows "descriptor (hang q i f m) pgd u = descriptor m pgd u"
proof (cases "take (Suc (length xs)) (v_path u) = xs @ [i]")
  case True
  have len: "length xs < 3" using path_mid [of xs i "[]"] xs(1) by simp
  have px: "path xs" "index_ok i" using xs(1) path_prefix path_mid [of xs i "[]"] by auto
  have q: "table_frame q" "q \<noteq> f" using tree_okD [OF t] px(1) xs(2) f(2) by auto
  obtain zs where zs: "v_path u = (xs @ [i]) @ zs" using True by (metis append_take_drop_id)
  then have "table_at m pgd (v_path u) = None" using xs(2) inv by (simp add: table_at_append)
  then have "descriptor m pgd u = 0" by (simp add: descriptor_def pte_slot_def)
  moreover have "descriptor (hang q i f m) pgd u = 0"
    using hang_tables [OF t xs inv f v_path_ok(1)] True hang_entry [OF f(1) f(1) q px(2) v_path_ok(3), of m u] q(2)
    by (auto simp: descriptor_def pte_slot_def)
  ultimately show ?thesis by simp
next
  case False
  then have same: "table_at (hang q i f m) pgd (v_path u) = table_at m pgd (v_path u)"
    using hang_tables [OF t xs inv f v_path_ok(1)] by simp
  show ?thesis
  proof (cases "table_at m pgd (v_path u)")
    case (Some p)
    have px: "path xs" "index_ok i" "length xs < 3" using xs(1) path_prefix path_mid [of xs i "[]"] by auto
    have q: "table_frame q" "q \<noteq> f" using tree_okD [OF t] px(1) xs(2) f(2) by auto
    have p: "table_frame p" "p \<noteq> f"
      using tree_frame [OF t v_path_ok(1) Some] tree_okD(2) [OF t v_path_ok(1) Some] f(2) by auto
    have "p \<noteq> q" using tree_okD(3) [OF t v_path_ok(1) px(1)] Some xs(2) px(3) by fastforce
    then show ?thesis
      using same Some hang_entry [OF f(1) p(1) q px(2) v_path_ok(3), of m u] p(2)
      by (simp add: descriptor_def pte_slot_def)
  qed (simp add: descriptor_def pte_slot_def same)
qed

end
