(* ===== verification/MemoryTheorems.thy ===== *)
theory MemoryTheorems
  imports MemoryManager BuddySpec
begin

text \<open>
  The memory manager on top of its two providers: pages obtained with \<open>get_free_page\<close> and given
  back with \<open>kfree\<close>, the allocation tracker in between, and the reference counts.
\<close>

subsection \<open>The invariant of the memory manager\<close>

text \<open>\<open>R\<close>: the regions of the first zone in use. The tracker holds exactly their start addresses
  among the page-aligned pointers; pointers into chunks are never page aligned.\<close>

definition mm_inv :: "memory_manager \<Rightarrow> region set \<Rightarrow> bool" where
  "mm_inv mm R \<longleftrightarrow> begin_addr (zone0 mm) = 0x10000000 \<and> begin_addr (zone1 mm) = 0x10200000 \<and>
     zone_begin (buddy0 mm) = 0x10000000 \<and> length (ref_counts mm) = 512 \<and>
     buddy_live (buddy0 mm) R \<and> kasan_inv (kasan mm) \<and>
     {p \<in> tracked (kasan mm). is_aligned p} = fst ` R"

lemma set_buddy0_simps [simp]:
  "buddy0 (set_buddy0 b mm) = b" "zone1 (set_buddy0 b mm) = zone1 mm"
  "begin_addr (zone0 (set_buddy0 b mm)) = begin_addr (zone0 mm)"
  "ref_counts (set_buddy0 b mm) = ref_counts mm" "kasan (set_buddy0 b mm) = kasan mm"
  by (simp_all add: set_buddy0_def)

lemma MemoryManager_inv: "\<exists>mm. MemoryManager ram cs = Inr mm \<and> mm_inv mm {}"
proof -
  obtain b0 where b0: "BuddyAllocator 0x10000000 = Inr b0" "zone_begin b0 = 0x10000000"
    "zone_inv b0 initial_lists {} {}" by (rule constructor_inv)
  obtain b1 where b1: "BuddyAllocator 0x10200000 = Inr b1" by (rule constructor_inv)
  have "zone_ok 0x10000000" by (simp add: zone_ok_def is_aligned_def)
  then have "buddy_live b0 {}" using b0 by (auto simp: buddy_live_def buddy_inv_def)
  with b0 b1 show ?thesis
    by (simp add: MemoryManager_def Zone_def SlobAllocator_def mm_inv_def)
qed

lemma mm_inv_page:
  assumes "mm_inv mm R" and "(p, n) \<in> R"
  shows "is_aligned p" and "p \<noteq> 0" and "0x10000000 \<le> uint p" and "uint p + int n \<le> 0x10200000"
    and "unat p < 0x10200000"
proof -
  have L: "buddy_live (buddy0 mm) R" and z: "zone_begin (buddy0 mm) = 0x10000000"
    using assms(1) by (auto simp: mm_inv_def)
  show "is_aligned p" "0x10000000 \<le> uint p" "uint p + int n \<le> 0x10200000"
    using live_bounds [OF L assms(2)] unfolding z by simp_all
  then show "p \<noteq> 0" by auto
  have "0 < n" using bud.live_regions [OF L] assms(2) by (auto simp: regions_ok_def)
  then have "uint p < int 0x10200000" using \<open>uint p + int n \<le> 0x10200000\<close> by simp
  then show "unat p < 0x10200000" by (rule unat_less_of_uint)
qed

abbreviation spare :: "region set \<Rightarrow> nat" where
  "spare R \<equiv> card (free_pages 0x10000000 R)"

lemma spare_empty: "spare {} = 512"
  by (rule free_pages_empty) (simp add: zone_ok_def is_aligned_def)

lemma spare_insert:
  assumes "mm_inv mm (insert (f, 4096) R)"
  shows "spare R \<le> Suc (spare (insert (f, 4096) R))"
proof -
  have z: "zone_ok 0x10000000" by (simp add: zone_ok_def is_aligned_def)
  have "f \<in> frame_addr 0x10000000 ` {0..<512}"
    using live_frame [of "buddy0 mm" _ f 4096] assms by (auto simp: mm_inv_def)
  then have "free_pages 0x10000000 R - {f} \<subseteq> free_pages 0x10000000 (insert (f, 4096) R)"
    using free_pages_insert [OF z, of R f] by blast
  from card_mono [OF _ this] have "card (free_pages 0x10000000 R - {f}) \<le> spare (insert (f, 4096) R)"
    by simp
  moreover have "spare R \<le> Suc (card (free_pages 0x10000000 R - {f}))"
    using card_insert_le_m1 [of "Suc (card (free_pages 0x10000000 R - {f}))"
        "free_pages 0x10000000 R - {f}" f]
      card_mono [of "insert f (free_pages 0x10000000 R - {f})" "free_pages 0x10000000 R"] by fastforce
  ultimately show ?thesis by simp
qed

lemma get_free_page_inv:
  assumes M: "mm_inv mm R" and room: "\<not> table_full (kasan mm)"
  shows "(\<exists>p mm'. get_free_page True mm = Inr (p, mm') \<and>
            get_free_page False mm = Inr (KERNEL_VA_BASE + p, mm') \<and>
            (p, 4096) \<notin> R \<and> mm_inv mm' (insert (p, 4096) R) \<and> ref_counts mm' = ref_counts mm \<and>
            tracked (kasan mm') = insert p (tracked (kasan mm))) \<or>
         (\<exists>msg. get_free_page v mm = Inl (Panic msg)) \<and> spare R = 0"
proof -
  have L: "buddy_live (buddy0 mm) R" and K: "kasan_inv (kasan mm)"
    and T: "{p \<in> tracked (kasan mm). is_aligned p} = fst ` R"
    using M by (auto simp: mm_inv_def)
  show ?thesis
    using one_page_live [OF L]
  proof (elim disjE exE conjE)
    assume "allocate_one_page_frame (buddy0 mm) = Inr (0, buddy0 mm)"
      and "free_pages (zone_begin (buddy0 mm)) R = {}"
    moreover have "zone_begin (buddy0 mm) = 0x10000000" using M by (simp add: mm_inv_def)
    moreover have "0 \<in> set (allocated_pointers (kasan mm))" using room by (simp add: table_full_def)
    then obtain msg where "mark_allocated 0 (kasan mm) = Inl (Panic msg)"
      using mark_allocated_cases [OF K, of 0] by auto
    ultimately show ?thesis by (simp add: get_free_page_def)
  next
    fix p b
    assume a: "allocate_one_page_frame (buddy0 mm) = Inr (p, b)" "p \<noteq> 0" "(p, 4096) \<notin> R"
      and z: "zone_begin b = zone_begin (buddy0 mm)" and L': "buddy_live b (insert (p, 4096) R)"
    have "p \<notin> fst ` R" using bud.fresh_address [OF L' a(3)] .
    moreover have al: "is_aligned p" using live_bounds(1) [OF L', of p 4096] by simp
    ultimately have "p \<notin> set (allocated_pointers (kasan mm))"
      using T a(2) by (auto simp: tracked_def)
    then obtain k where k: "mark_allocated p (kasan mm) = Inr k" "kasan_inv k"
      "tracked k = insert p (tracked (kasan mm))"
      using mark_allocated_cases [OF K, of p] room by auto
    let ?mm = "(set_buddy0 b mm)\<lparr>kasan := k\<rparr>"
    have "{q \<in> tracked k. is_aligned q} = fst ` insert (p, 4096) R" using T al k(3) by auto
    then have "mm_inv ?mm (insert (p, 4096) R)"
      using M L' z k(2) by (simp add: mm_inv_def)
    then show ?thesis using a k(1,3) by (auto simp: get_free_page_def)
  qed
qed

lemma kfree_inv:
  assumes M: "mm_inv mm R" and p: "(p, n) \<in> R"
  shows "\<exists>mm'. kfree p mm = Inr mm' \<and> kfree (KERNEL_VA_BASE + p) mm = Inr mm' \<and>
    mm_inv mm' (R - {(p, n)}) \<and> ref_counts mm' = ref_counts mm"
proof -
  have L: "buddy_live (buddy0 mm) R" and K: "kasan_inv (kasan mm)"
    and T: "{p \<in> tracked (kasan mm). is_aligned p} = fst ` R"
    using M by (auto simp: mm_inv_def)
  note P = mm_inv_page [OF M p]
  have "p \<in> tracked (kasan mm)" using T p by force
  then obtain k where k: "mark_free_chk p (kasan mm) = Inr (True, k)" "kasan_inv k"
    "tracked k = tracked (kasan mm) - {p}"
    using mark_free_chk_cases [OF K P(2)] by auto
  obtain b where b: "BuddyAllocator.deallocate p (buddy0 mm) = Inr b" "buddy_live b (R - {(p, n)})"
    "zone_begin b = zone_begin (buddy0 mm)"
    using deallocate_live [OF L p] by blast
  let ?mm = "set_buddy0 b (mm\<lparr>kasan := k\<rparr>)"
  note low = P(5)
  have "\<not> KERNEL_VA_BASE \<le> p" using low by (simp add: KERNEL_VA_BASE_def word_le_nat_alt)
  then have "kfree p mm = Inr ?mm" using k(1) b(1) P(1) by (simp add: kfree_def Let_def)
  moreover have "unat (KERNEL_VA_BASE + p) = 0xffff000000000000 + unat p"
    using low by (subst unat_add_small) (auto simp: KERNEL_VA_BASE_def)
  then have "KERNEL_VA_BASE \<le> KERNEL_VA_BASE + p"
    by (simp add: KERNEL_VA_BASE_def word_le_nat_alt)
  then have "kfree (KERNEL_VA_BASE + p) mm = Inr ?mm"
    using k(1) b(1) P(1) by (simp add: kfree_def Let_def)
  moreover have "{q \<in> tracked k. is_aligned q} = fst ` (R - {(p, n)})"
    using T bud.release_holdings [OF L p] k(3) by auto
  then have "mm_inv ?mm (R - {(p, n)})"
    using M b(2,3) k(2) by (simp add: mm_inv_def)
  ultimately show ?thesis by simp
qed

text \<open>C15: A page obtained from \<open>get_free_page\<close> is not in use and lies in the first zone, and
  \<open>kfree\<close> takes it back, by its physical or by its kernel-virtual address, leaving the same pages
  in use as before; freeing it again is a panic. Where no page is free, \<open>get_free_page\<close> panics: it
  never returns the null pointer while the tracker has room.\<close>

theorem page_cycle:
  assumes "mm_inv mm R" and "\<not> table_full (kasan mm)"
  shows "(\<exists>p mm1 mm2 msg. get_free_page True mm = Inr (p, mm1) \<and> (p, 4096) \<notin> R \<and>
      mm_inv mm1 (insert (p, 4096) R) \<and> kfree p mm1 = Inr mm2 \<and>
      kfree (KERNEL_VA_BASE + p) mm1 = Inr mm2 \<and> mm_inv mm2 R \<and> kfree p mm2 = Inl (Panic msg)) \<or>
    (\<exists>msg. get_free_page True mm = Inl (Panic msg)) \<and> spare R = 0"
  using get_free_page_inv [OF assms, of True]
proof (elim disjE exE conjE)
  fix p mm1
  assume a: "get_free_page True mm = Inr (p, mm1)" "(p, 4096) \<notin> R"
    and M1: "mm_inv mm1 (insert (p, 4096) R)"
  then obtain mm2 where mm2: "kfree p mm1 = Inr mm2" "kfree (KERNEL_VA_BASE + p) mm1 = Inr mm2"
    "mm_inv mm2 R"
    using kfree_inv [OF M1, of p 4096] a(2) by auto
  have P: "is_aligned p" "p \<noteq> 0" "unat p < 0x10200000"
    using mm_inv_page [OF M1, of p 4096] by auto
  have L1: "buddy_live (buddy0 mm1) (insert (p, 4096) R)" using M1 by (simp add: mm_inv_def)
  have "p \<notin> fst ` R" using bud.fresh_address [OF L1 a(2)] .
  then have "p \<notin> tracked (kasan mm2)" using mm2(3) P(1) by (auto simp: mm_inv_def)
  then obtain msg where "mark_free_chk p (kasan mm2) = Inl (Panic msg)"
    using mark_free_chk_cases [of "kasan mm2" p] mm2(3) P(2) by (auto simp: mm_inv_def)
  moreover have "\<not> KERNEL_VA_BASE \<le> p"
    using P(3) by (simp add: KERNEL_VA_BASE_def word_le_nat_alt)
  ultimately have "kfree p mm2 = Inl (Panic msg)" by (simp add: kfree_def Let_def)
  with a M1 mm2 show ?thesis by blast
qed blast


theorem page_cycle_witness:
  "\<exists>mm0 p mm1 mm2. MemoryManager 0x40000000 (\<lambda>_. \<lparr>ch_next = 0, ch_index = 0, ch_prev_chunk_size = 0\<rparr>) = Inr mm0 \<and>
     get_free_page True mm0 = Inr (p, mm1) \<and> kfree p mm1 = Inr mm2 \<and> mm_inv mm2 {}"
proof -
  obtain mm0 where mm0: "MemoryManager 0x40000000
      (\<lambda>_. \<lparr>ch_next = 0, ch_index = 0, ch_prev_chunk_size = 0\<rparr>) = Inr mm0" "mm_inv mm0 {}"
    using MemoryManager_inv by blast
  have "kasan mm0 = AddressSanitizer"
    using mm0(1) by (auto simp: MemoryManager_def bindE_eq_Inr)
  then have "\<not> table_full (kasan mm0)" by (simp add: table_full_def AddressSanitizer_def)
  from page_cycle [OF mm0(2) this] show ?thesis using mm0(1) spare_empty by auto
qed

subsection \<open>Reference counts\<close>

definition page_number :: "u64 \<Rightarrow> nat" where
  "page_number p = (unat p - 0x10000000) div 4096"

lemma ref_idx:
  assumes "begin_addr (zone0 mm) = 0x10000000" and "begin_addr (zone1 mm) = 0x10200000"
    and "is_aligned p" and "0x10000000 \<le> unat p" and "unat p < 0x10200000"
  shows "get_page_ref_idx p mm = Inr (int (page_number p))" and "page_number p < 512"
proof -
  have "unat (p - 0x10000000) = unat p - 0x10000000"
    using assms(4) by (simp add: unat_sub word_le_nat_alt)
  then have "unat (drop_bit 12 (p - 0x10000000)) = page_number p"
    by (simp add: drop_bit_eq_div unat_div page_number_def)
  then have "uint (drop_bit 12 (p - 0x10000000)) = int (page_number p)" by (metis of_nat_unat)
  moreover show n: "page_number p < 512" using assms(4,5) by (simp add: page_number_def)
  ultimately show "get_page_ref_idx p mm = Inr (int (page_number p))"
    using assms by (simp add: get_page_ref_idx_def word_less_nat_alt word_le_nat_alt int32_id)
qed

lemma page_number_inj:
  assumes "is_aligned p" and "is_aligned q" and "0x10000000 \<le> unat p" and "0x10000000 \<le> unat q"
    and "page_number p = page_number q"
  shows "p = q"
proof -
  have "unat p - 0x10000000 = page_number p * 4096" if "is_aligned p" "0x10000000 \<le> unat p" for p
    using that dvd_div_mult_self [of 4096 "unat p - 0x10000000"]
    by (simp add: page_number_def is_aligned_unat dvd_diff_nat mod_eq_0_iff_dvd)
  then have "unat p = unat q" using assms by (metis le_add_diff_inverse)
  then show ?thesis by (simp add: word_unat_eq_iff)
qed

text \<open>C16: The reference counts of the page frames are independent counters: on an aligned address
  of the first zone, incrementing and decrementing return and store the count changed by one (while
  it stays an \<open>int\<close>), a later \<open>get_page_ref_count\<close> reads it, and the counts of all other frames are
  unchanged. On every other address all three operations panic.\<close>

theorem ref_counts_independent:
  assumes z: "begin_addr (zone0 mm) = 0x10000000" "begin_addr (zone1 mm) = 0x10200000"
    and len: "length (ref_counts mm) = 512" and d: "d = 1 \<or> d = -1"
  shows "if is_aligned p \<and> 0x10000000 \<le> unat p \<and> unat p < 0x10200000
    then \<exists>n mm'. get_page_ref_count p mm = Inr n \<and> add_page_ref_count d p mm = Inr (int32 (n + d), mm') \<and>
      get_page_ref_count p mm' = Inr (int32 (n + d)) \<and>
      (\<forall>q. is_aligned q \<and> 0x10000000 \<le> unat q \<and> unat q < 0x10200000 \<and> q \<noteq> p \<longrightarrow>
        get_page_ref_count q mm' = get_page_ref_count q mm)
    else \<exists>msg. get_page_ref_count p mm = Inl (Panic msg) \<and> add_page_ref_count d p mm = Inl (Panic msg)"
proof (cases "is_aligned p \<and> 0x10000000 \<le> unat p \<and> unat p < 0x10200000")
  case True
  let ?i = "page_number p" and ?n = "ref_counts mm ! page_number p"
  let ?mm = "mm\<lparr>ref_counts := (ref_counts mm)[?i := int32 (?n + d)]\<rparr>"
  note I = ref_idx [OF z, of p] and I' = ref_idx [of ?mm p]
  have "get_page_ref_count q ?mm = get_page_ref_count q mm"
    if "is_aligned q \<and> 0x10000000 \<le> unat q \<and> unat q < 0x10200000 \<and> q \<noteq> p" for q
  proof -
    have "page_number q \<noteq> ?i" using page_number_inj [of q p] that True by blast
    then show ?thesis using ref_idx [OF z, of q] ref_idx [of ?mm q] z len that
      by (simp add: get_page_ref_count_def)
  qed
  then show ?thesis
    using True I I' z len by (simp add: get_page_ref_count_def add_page_ref_count_def)
next
  case False
  then have "\<exists>msg. get_page_ref_idx p mm = Inl (Panic msg)"
    using z by (auto simp: get_page_ref_idx_def word_less_nat_alt word_le_nat_alt)
  with False show ?thesis by (auto simp: get_page_ref_count_def add_page_ref_count_def)
qed


theorem ref_counts_independent_witness:
  "\<exists>mm0 n mm'. MemoryManager 0x40000000 (\<lambda>_. \<lparr>ch_next = 0, ch_index = 0, ch_prev_chunk_size = 0\<rparr>) = Inr mm0 \<and>
     get_page_ref_count 0x10003000 mm0 = Inr n \<and>
     inc_page_ref_count 0x10003000 mm0 = Inr (int32 (n + 1), mm')"
proof -
  obtain mm0 where mm0: "MemoryManager 0x40000000
      (\<lambda>_. \<lparr>ch_next = 0, ch_index = 0, ch_prev_chunk_size = 0\<rparr>) = Inr mm0" "mm_inv mm0 {}"
    using MemoryManager_inv by blast
  then have "begin_addr (zone0 mm0) = 0x10000000" "begin_addr (zone1 mm0) = 0x10200000"
    "length (ref_counts mm0) = 512" by (simp_all add: mm_inv_def)
  moreover have "is_aligned 0x10003000" by (simp add: is_aligned_def)
  ultimately show ?thesis
    using ref_counts_independent [of mm0 1 "0x10003000"] mm0(1) by (auto simp: inc_page_ref_count_def)
qed

end
