(* ===== verification/VMTheorems.thy ===== *)
theory VMTheorems
  imports PageTables MemoryTheorems
begin

text \<open>
  The page-table operations over the tree of \<open>PageTables\<close> and the frames of \<open>MemoryManager\<close>: what
  \<open>map\<close>, \<open>unmap\<close> and the copy-on-write fault do to the abstract address space \<open>descriptor\<close>, and what
  they leave alone.
\<close>

text \<open>
  The tables of the address space at \<open>pgd\<close> are the frames \<open>T\<close>, all of them among the live
  allocations \<open>R\<close> of the memory manager.
\<close>

definition vm_inv :: "kstate \<Rightarrow> u64 \<Rightarrow> u64 set \<Rightarrow> region set \<Rightarrow> bool" where
  "vm_inv ks pgd T R \<longleftrightarrow> mm_inv (mm ks) R \<and> tree_ok (mem ks) pgd T \<and> (\<lambda>p. (p, 4096)) ` T \<subseteq> R"

abbreviation records :: "kstate \<Rightarrow> nat" where
  "records ks \<equiv> card (tracked (kasan (mm ks)))"

text \<open>A frame of \<open>R\<close> that is not a table keeps its contents.\<close>

definition data_kept :: "kstate \<Rightarrow> kstate \<Rightarrow> u64 set \<Rightarrow> region set \<Rightarrow> bool" where
  "data_kept ks ks' T R \<longleftrightarrow>
     (\<forall>p d. (p, 4096) \<in> R \<and> p \<notin> T \<and> unat d < 4096 \<longrightarrow> mem ks' (p + d) = mem ks (p + d))"

lemma mm_frame: "mm_inv mgr R \<Longrightarrow> (p, 4096) \<in> R \<Longrightarrow> table_frame p"
  using mm_inv_page(1,5) [of mgr R p 4096] by (simp add: table_frame_def)

lemma data_write:
  assumes "mm_inv mgr R" and "(q, 4096) \<in> R" and "(p, 4096) \<in> R" and "p \<noteq> q"
    and "index_ok i" and "unat d < 4096"
  shows "p + d \<noteq> entry q i"
proof -
  have f: "table_frame q" "table_frame p" using mm_frame [OF assms(1)] assms(2,3) by auto
  show ?thesis
    using in_page [OF f assms(6)] page_offset_less [OF f(1) f(1) assms(5)] assms(4) by auto
qed

text \<open>At most \<open>n\<close> page tables were added; nothing else changed.\<close>

definition grown ::
  "u64 \<Rightarrow> nat \<Rightarrow> kstate \<Rightarrow> u64 set \<Rightarrow> region set \<Rightarrow> kstate \<Rightarrow> u64 set \<Rightarrow> region set \<Rightarrow> bool" where
  "grown pgd n ks T R ks' T' R' \<longleftrightarrow> vm_inv ks' pgd T' R' \<and> T \<subseteq> T' \<and> R \<subseteq> R' \<and>
     T' \<inter> {p. (p, 4096) \<in> R} \<subseteq> T \<and> (\<forall>u. descriptor (mem ks') pgd u = descriptor (mem ks) pgd u) \<and>
     ref_counts (mm ks') = ref_counts (mm ks) \<and> data_kept ks ks' T R \<and>
     records ks' \<le> records ks + n \<and> spare R \<le> spare R' + n"

lemma grown_refl: "vm_inv ks pgd T R \<Longrightarrow> grown pgd 0 ks T R ks T R"
  by (simp add: grown_def data_kept_def)

lemma grown_data:
  assumes "grown pgd n ks T R ks1 T1 R1" and "data_kept ks1 ks2 T1 R1"
  shows "data_kept ks ks2 T R"
  using assms unfolding grown_def data_kept_def by (metis (no_types, lifting) IntI mem_Collect_eq subsetD)

lemma grown_trans:
  assumes 1: "grown pgd n ks T R ks1 T1 R1" and 2: "grown pgd m ks1 T1 R1 ks2 T2 R2"
  shows "grown pgd (n + m) ks T R ks2 T2 R2"
proof -
  have "data_kept ks ks2 T R" using grown_data [OF 1] 2 by (simp add: grown_def)
  moreover have "T2 \<inter> {p. (p, 4096) \<in> R} \<subseteq> T" using 1 2 unfolding grown_def by blast
  ultimately show ?thesis using 1 2 unfolding grown_def by auto
qed

lemma grown_more: "grown pgd n ks T R ks' T' R' \<Longrightarrow> n \<le> m \<Longrightarrow> grown pgd m ks T R ks' T' R'"
  by (auto simp: grown_def)

lemma grown_inv: "grown pgd n ks T R ks' T' R' \<Longrightarrow> vm_inv ks' pgd T' R'"
  by (simp add: grown_def)

lemma hang_data_kept:
  assumes "mm_inv mgr (insert (f, 4096) R)" and "(q, 4096) \<in> R" and "q \<in> T" and "(f, 4096) \<notin> R"
    and "index_ok i" and "mem ks2 = hang q i f (mem ks)"
  shows "data_kept ks ks2 T R"
  unfolding data_kept_def assms(6)
proof (intro allI impI, elim conjE)
  fix p d assume p: "(p, 4096) \<in> R" "p \<notin> T" "unat (d :: u64) < 4096"
  have "p + d \<noteq> entry q i" using data_write [OF assms(1)] assms(2,3,5) p by auto
  moreover have "\<not> p + d - f < 4096"
    using in_page [OF mm_frame [OF assms(1)] mm_frame [OF assms(1)] p(3)] p(1) assms(4) by auto
  ultimately show "hang q i f (mem ks) (p + d) = mem ks (p + d)" by (simp add: hang_def)
qed

lemma table_step:
  assumes V: "vm_inv ks pgd T R" and xs: "path (xs @ [i])" "table_at (mem ks) pgd xs = Some q"
    and inv: "PD_INVALID (mem ks (entry q i))" and room: "records ks < 1000"
  shows "(\<exists>f ks1. with_mm (get_free_page True) ks = Inr (f, ks1) \<and>
      grown pgd 1 ks T R (store (entry q i) (f OR PD_TABLE) (clear_page f ks1))
        (insert f T) (insert (f, 4096) R) \<and>
      table_at (mem (store (entry q i) (f OR PD_TABLE) (clear_page f ks1))) pgd (xs @ [i]) = Some f) \<or>
    (\<exists>msg. with_mm (get_free_page True) ks = Inl (Panic msg)) \<and> spare R = 0"
proof -
  have M: "mm_inv (mm ks) R" and t: "tree_ok (mem ks) pgd T" and TR: "\<And>p. p \<in> T \<Longrightarrow> (p, 4096) \<in> R"
    using V by (auto simp: vm_inv_def)
  have "\<not> table_full (kasan (mm ks))" using not_full_card room M by (simp add: mm_inv_def)
  from get_free_page_inv [OF M this, of True] show ?thesis
  proof (elim disjE exE conjE)
    fix f mm'
    assume g: "get_free_page True (mm ks) = Inr (f, mm')" "(f, 4096) \<notin> R"
      and M': "mm_inv mm' (insert (f, 4096) R)" and rc: "ref_counts mm' = ref_counts (mm ks)"
      and tr: "tracked (kasan mm') = insert f (tracked (kasan (mm ks)))"
    let ?ks2 = "store (entry q i) (f OR PD_TABLE) (clear_page f (ks\<lparr>mm := mm'\<rparr>))"
    have f: "table_frame f" "f \<notin> T" using mm_frame [OF M'] g(2) TR by auto
    have px: "path xs" "index_ok i" using xs(1) path_prefix path_mid [of xs i "[]"] by auto
    have q: "q \<in> T" using tree_okD(2) [OF t px(1) xs(2)] .
    have m: "mem ?ks2 = hang q i f (mem ks)"
      by (simp add: store_def clear_page_def hang_def PAGE_SIZE_def cong: if_cong)
    have "vm_inv ?ks2 pgd (insert f T) (insert (f, 4096) R)"
      using M' TR hang_tree [OF t xs inv f] unfolding vm_inv_def m
      by (auto simp: store_def clear_page_def)
    moreover have "records ?ks2 \<le> records ks + 1"
      using card_insert_le_m1 [of "Suc (records ks)" "tracked (kasan (mm ks))" f]
      by (simp add: store_def clear_page_def tr)
    moreover have "insert f T \<inter> {p. (p, 4096) \<in> R} \<subseteq> T" using g(2) by auto
    moreover have "ref_counts (mm ?ks2) = ref_counts (mm ks)" using rc by (simp add: store_def clear_page_def)
    moreover note hang_data_kept [OF M' TR [OF q] q g(2) px(2) m]
    ultimately have "grown pgd 1 ks T R ?ks2 (insert f T) (insert (f, 4096) R)"
      unfolding grown_def m using spare_insert [OF M'] hang_descriptor [OF t xs inv f] by auto
    moreover have "table_at (mem ?ks2) pgd (xs @ [i]) = Some f"
      unfolding m using hang_tables [OF t xs inv f xs(1)] by simp
    ultimately show ?thesis using g(1) by (auto simp: with_mm_def)
  qed (simp add: with_mm_def)
qed

lemma walk_levels_create:
  assumes "vm_inv ks pgd T R" and "path (xs @ is)" and "table_at (mem ks) pgd xs = Some pt"
    and "records ks + length is \<le> 1000"
  shows "(\<exists>q ks' T' R'. walk_levels is pt True ks = Inr (Some q, ks') \<and>
      grown pgd (length is) ks T R ks' T' R' \<and> table_at (mem ks') pgd (xs @ is) = Some q) \<or>
    (\<exists>msg. walk_levels is pt True ks = Inl (Panic msg)) \<and> spare R < length is"
  using assms
proof (induction "is" arbitrary: xs pt ks T R)
  case Nil
  then show ?case using grown_refl [OF Nil.prems(1)] by auto
next
  case (Cons i "is")
  have path: "path ((xs @ [i]) @ is)" "path (xs @ [i])"
    using Cons.prems(2) path_prefix [of "xs @ [i]" "is"] by simp_all
  show ?case
  proof (cases "PD_INVALID (mem ks (entry pt i))")
    case False
    have "table_at (mem ks) pgd (xs @ [i]) = Some (mem ks (entry pt i) AND PD_PAGE_MASK)"
      using Cons.prems(3) False by (simp add: table_at_append)
    from Cons.IH [OF Cons.prems(1) path(1) this] show ?thesis
      using Cons.prems(4) False grown_more [of _ "length is" _ _ _ _ _ _ "Suc (length is)"] by fastforce
  next
    case True
    have "records ks < 1000" using Cons.prems(4) by simp
    from table_step [OF Cons.prems(1) path(2) Cons.prems(3) True this] show ?thesis
    proof (elim disjE exE conjE)
      fix f ks1
      let ?ks2 = "store (entry pt i) (f OR PD_TABLE) (clear_page f ks1)"
      assume g: "with_mm (get_free_page True) ks = Inr (f, ks1)"
        and G: "grown pgd 1 ks T R ?ks2 (insert f T) (insert (f, 4096) R)"
        and at: "table_at (mem ?ks2) pgd (xs @ [i]) = Some f"
      have w: "walk_levels (i # is) pt True ks = walk_levels is f True ?ks2" using True g by simp
      have c: "records ?ks2 + length is \<le> 1000" "spare R \<le> spare (insert (f, 4096) R) + 1"
        using Cons.prems(4) G by (auto simp: grown_def)
      from Cons.IH [OF grown_inv [OF G] path(1) at c(1)] show ?thesis
        unfolding w using grown_trans [OF G] c(2) by fastforce
    qed (simp add: True)
  qed
qed

lemma walk_levels_lookup: "walk_levels is pt False ks = Inr (table_at (mem ks) pt is, ks)"
  by (induction "is" arbitrary: pt) auto

lemma walk_lookup: "walk pgd v False ks = Inr (pte_slot (mem ks) pgd v, ks)"
  by (simp add: walk_def walk_levels_lookup pte_slot_def v_path_def)

lemma walk_create:
  assumes V: "vm_inv ks pgd T R" and "records ks + 3 \<le> 1000"
  shows "(\<exists>a ks' T' R'. walk pgd v True ks = Inr (Some a, ks') \<and> grown pgd 3 ks T R ks' T' R' \<and>
      pte_slot (mem ks') pgd v = Some a) \<or>
    (\<exists>msg. walk pgd v True ks = Inl (Panic msg)) \<and> spare R < 3"
proof -
  have "path ([] @ v_path v)" "records ks + length (v_path v) \<le> 1000" using assms(2) by simp_all
  from walk_levels_create [OF V this(1) _ this(2), of pgd, simplified] show ?thesis
    by (fastforce simp: walk_def v_path_def pte_slot_def)
qed


subsection \<open>Reference counts of frames\<close>

definition zone_frame :: "u64 \<Rightarrow> bool" where
  "zone_frame p \<longleftrightarrow> is_aligned p \<and> 0x10000000 \<le> unat p \<and> unat p < 0x10200000"

definition bump :: "int \<Rightarrow> u64 \<Rightarrow> int list \<Rightarrow> int list" where
  "bump d p c = c[page_number p := int32 (c ! page_number p + d)]"

lemma add_count:
  assumes "mm_inv mgr R" and "zone_frame p"
  shows "\<exists>n. add_page_ref_count d p mgr = Inr (n, mgr\<lparr>ref_counts := bump d p (ref_counts mgr)\<rparr>)"
    and "get_page_ref_count p mgr = Inr (ref_counts mgr ! page_number p)"
    and "mm_inv (mgr\<lparr>ref_counts := bump d p (ref_counts mgr)\<rparr>) R"
  using assms ref_idx [of mgr p]
  by (auto simp: mm_inv_def zone_frame_def add_page_ref_count_def get_page_ref_count_def bump_def)

definition counted :: "int \<Rightarrow> u64 \<Rightarrow> kstate \<Rightarrow> kstate" where
  "counted d p ks = ks\<lparr>mm := (mm ks)\<lparr>ref_counts := bump d p (ref_counts (mm ks))\<rparr>\<rparr>"

lemma counted_simps [simp]:
  "mem (counted d p ks) = mem ks" "ref_counts (mm (counted d p ks)) = bump d p (ref_counts (mm ks))"
  "kasan (mm (counted d p ks)) = kasan (mm ks)"
  by (simp_all add: counted_def)

lemma with_count:
  assumes "mm_inv (mm ks) R" and "zone_frame p"
  shows "bindE (with_mm (add_page_ref_count d p) ks) (\<lambda>(_, ks). f ks) = f (counted d p ks)"
  using add_count(1) [OF assms, of d] by (auto simp: with_mm_def counted_def)

lemma add_count_outside:
  assumes "mm_inv mgr R" and "\<not> zone_frame p"
  shows "\<exists>msg. add_page_ref_count d p mgr = Inl (Panic msg)"
  using assms
  by (auto simp: mm_inv_def zone_frame_def add_page_ref_count_def get_page_ref_idx_def
      word_less_nat_alt word_le_nat_alt)

lemma live_zone_frame:
  assumes "mm_inv mgr R" and "(p, 4096) \<in> R"
  shows "zone_frame p"
proof -
  note B = mm_inv_page [OF assms]
  have "0x10000000 \<le> unat p" using nat_mono [OF B(3)] by simp
  then show ?thesis using B(1,5) unfolding zone_frame_def by blast
qed

lemma slot_write:
  assumes V: "vm_inv ks pgd T R" and a: "pte_slot (mem ks) pgd v = Some a"
  shows "vm_inv (store a w ks) pgd T R" and "data_kept ks (store a w ks) T R"
    and "pte_slot (mem (store a w ks)) pgd u = pte_slot (mem ks) pgd u"
    and "descriptor (mem (store a w ks)) pgd u =
      (if same_page u v then w else descriptor (mem ks) pgd u)"
proof -
  have t: "tree_ok (mem ks) pgd T" and M: "mm_inv (mm ks) R" and TR: "(\<lambda>p. (p, 4096)) ` T \<subseteq> R"
    using V by (auto simp: vm_inv_def)
  note L = leaf_write_descriptor [OF t a]
  show "vm_inv (store a w ks) pgd T R" using V L(1) by (simp add: vm_inv_def store_def)
  show "pte_slot (mem (store a w ks)) pgd u = pte_slot (mem ks) pgd u"
    "descriptor (mem (store a w ks)) pgd u = (if same_page u v then w else descriptor (mem ks) pgd u)"
    using L(2,3) by (simp_all add: store_def)
  obtain q where q: "table_at (mem ks) pgd (v_path v) = Some q" "a = entry q (PTE_INDEX v)"
    using a by (auto simp: pte_slot_def)
  have "q \<in> T" using tree_okD(2) [OF t v_path_ok(1) q(1)] .
  then have "p + d \<noteq> a" if "(p, 4096) \<in> R" "p \<notin> T" "unat d < 4096" for p d
    using data_write [OF M _ that(1) _ v_path_ok(3) that(3), of q v] that(2) TR q(2) by auto
  then show "data_kept ks (store a w ks) T R" by (auto simp: data_kept_def store_def)
qed

lemma counted_inv:
  assumes "vm_inv ks pgd T R" and "zone_frame p"
  shows "vm_inv (counted d p ks) pgd T R"
  using assms add_count(3) by (simp add: vm_inv_def counted_def)

lemma slot_descriptor: "pte_slot m pgd v = Some a \<Longrightarrow> descriptor m pgd v = m a"
  by (simp add: descriptor_def)

lemma slot_exists: "descriptor m pgd v \<noteq> 0 \<Longrightarrow> pte_slot m pgd v \<noteq> None"
  by (cases "pte_slot m pgd v") (auto simp: descriptor_def)

lemma same_page_refl [simp]: "same_page v v"
  by (simp add: same_page_def)


subsection \<open>The address space\<close>

text \<open>The word \<open>map\<close> stores: a writable page is marked as copy-on-write.\<close>

definition mapped_word :: "u64 \<Rightarrow> u64 \<Rightarrow> u64" where
  "mapped_word p attr = p OR (if attr AND PD_RDONLY = 0 then attr OR PD_COW_PAGE else attr)"

lemma map_page_word:
  "map_page pgd v p attr ks =
     bindE (walk pgd v True ks) (\<lambda>(pte, ks).
     case pte of
       None \<Rightarrow> Inl NullDeref
     | Some pte \<Rightarrow>
         if \<not> PD_INVALID (mem ks pte) then Inl (Panic ''VMMap::map: already mapped'')
         else bindE (with_mm (add_page_ref_count 1 p) (store pte (mapped_word p attr) ks)) (\<lambda>(_, ks). Inr ks))"
  unfolding map_page_def mapped_word_def Let_def inc_page_ref_count_def by (rule refl)

text \<open>The successful outcome of \<open>map\<close>.\<close>

definition page_mapped ::
  "u64 \<Rightarrow> u64 \<Rightarrow> u64 \<Rightarrow> u64 \<Rightarrow> kstate \<Rightarrow> u64 set \<Rightarrow> region set \<Rightarrow> kstate \<Rightarrow> u64 set \<Rightarrow> region set \<Rightarrow> bool" where
  "page_mapped pgd v p attr ks T R ks' T' R' \<longleftrightarrow> vm_inv ks' pgd T' R' \<and> T \<subseteq> T' \<and> R \<subseteq> R' \<and>
     T' \<inter> {p. (p, 4096) \<in> R} \<subseteq> T \<and>
     (\<forall>u. descriptor (mem ks') pgd u =
       (if same_page u v then mapped_word p attr else descriptor (mem ks) pgd u)) \<and>
     ref_counts (mm ks') = bump 1 p (ref_counts (mm ks)) \<and> data_kept ks ks' T R \<and>
     records ks' \<le> records ks + 3 \<and> spare R \<le> spare R' + 3"

lemma map_page_cases:
  assumes V: "vm_inv ks pgd T R" and room: "records ks + 3 \<le> 1000"
    and p: "zone_frame p" and attr: "attr AND PD_PAGE_MASK = 0"
  shows "if \<not> PD_INVALID (descriptor (mem ks) pgd v) then \<exists>msg. map_page pgd v p attr ks = Inl (Panic msg)
    else (\<exists>ks' T' R'. map_page pgd v p attr ks = Inr ks' \<and> page_mapped pgd v p attr ks T R ks' T' R' \<and>
        get_physical_address pgd v ks' = Inr (p + PAGE_OFFSET v)) \<or>
      (\<exists>msg. map_page pgd v p attr ks = Inl (Panic msg)) \<and> spare R < 3"
  using walk_create [OF V room, of v]
proof (elim disjE exE conjE)
  fix a ks1 T' R'
  assume w: "walk pgd v True ks = Inr (Some a, ks1)" and G: "grown pgd 3 ks T R ks1 T' R'"
    and a: "pte_slot (mem ks1) pgd v = Some a"
  have d: "\<And>u. descriptor (mem ks1) pgd u = descriptor (mem ks) pgd u" using G by (simp add: grown_def)
  have da: "mem ks1 a = descriptor (mem ks) pgd v" using slot_descriptor [OF a] d by simp
  show ?thesis
  proof (cases "PD_INVALID (descriptor (mem ks) pgd v)")
    case False
    then show ?thesis using w da by (simp add: map_page_def)
  next
    case True
    let ?ks2 = "store a (mapped_word p attr) ks1"
    let ?ks3 = "counted 1 p ?ks2"
    note S = slot_write [OF grown_inv [OF G] a, of "mapped_word p attr"]
    have M: "mm_inv (mm ?ks2) R'" using S(1) by (simp add: vm_inv_def)
    have "map_page pgd v p attr ks = Inr ?ks3"
      using w True da with_count [OF M p, of 1 Inr] by (simp add: map_page_word)
    moreover have "data_kept ks1 ?ks3 T' R'" using S(2) by (simp add: data_kept_def)
    then have "data_kept ks ?ks3 T R" by (rule grown_data [OF G])
    then have "page_mapped pgd v p attr ks T R ?ks3 T' R'"
      using G counted_inv [OF S(1) p, of 1] S(4) d unfolding page_mapped_def grown_def
      by (simp add: store_def)
    moreover have "mapped_word p attr AND PD_PAGE_MASK = p"
      using p attr unfolding mapped_word_def
      by (intro descriptor_frame)
        (auto simp: zone_frame_def table_frame_def bit.conj_disj_distrib2 PD_COW_PAGE_def PD_PAGE_MASK_def)
    then have "get_physical_address pgd v ?ks3 = Inr (p + PAGE_OFFSET v)"
      using S(3,4) [of v] a slot_descriptor [of "mem ?ks2" pgd v a]
      by (simp add: get_physical_address_def walk_lookup)
    ultimately show ?thesis using True by auto
  qed
qed (simp add: map_page_def)

text \<open>C7: \<open>map\<close> implements an update of the abstract address space. On a page that has a valid
  descriptor it panics. Otherwise it creates
  the tables it needs, the descriptor of exactly the page of \<open>v\<close> becomes the frame with its
  attributes, every other virtual page keeps its descriptor, the frame's reference count grows by
  one and no other count changes, no live page frame that is not a page table is written, and
  \<open>get_physical_address\<close> then translates \<open>v\<close> to the frame plus the page offset; it panics only when
  fewer than three page frames are free.\<close>

theorem map_refines:
  assumes V: "vm_inv ks pgd T R" and room: "records ks + 3 \<le> 1000"
    and p: "zone_frame p" and attr: "attr AND PD_PAGE_MASK = 0"
  shows "if \<not> PD_INVALID (descriptor (mem ks) pgd v) then \<exists>msg. map_page pgd v p attr ks = Inl (Panic msg)
    else (\<exists>ks' T' R'. map_page pgd v p attr ks = Inr ks' \<and> vm_inv ks' pgd T' R' \<and> T \<subseteq> T' \<and> R \<subseteq> R' \<and>
        (\<forall>u. descriptor (mem ks') pgd u =
          (if same_page u v then mapped_word p attr else descriptor (mem ks) pgd u)) \<and>
        ref_counts (mm ks') = bump 1 p (ref_counts (mm ks)) \<and> data_kept ks ks' T R \<and>
        get_physical_address pgd v ks' = Inr (p + PAGE_OFFSET v)) \<or>
      (\<exists>msg. map_page pgd v p attr ks = Inl (Panic msg)) \<and> spare R < 3"
proof (cases "PD_INVALID (descriptor (mem ks) pgd v)")
  case False
  then show ?thesis using map_page_cases [OF assms, of v] by simp
next
  case True
  then show ?thesis
    using map_page_cases [OF assms, of v] unfolding page_mapped_def by (simp split del: if_split) blast
qed

text \<open>C8: \<open>unmap\<close> implements a removal from the abstract address space: without a table for the
  page it panics; otherwise the descriptor of exactly the page of \<open>v\<close> becomes 0, all other pages keep
  theirs, the set of tables and the live page frames stay, the count of the frame that was mapped
  drops by one, and \<open>get_physical_address\<close> of \<open>v\<close> is the bare page offset. When the removed word does
  not name a frame of the zone (as for a page that is not mapped), it panics.\<close>

theorem unmap_refines:
  assumes V: "vm_inv ks pgd T R"
  shows "let p = descriptor (mem ks) pgd v AND PD_PAGE_MASK in
    if pte_slot (mem ks) pgd v = None \<or> \<not> zone_frame p then \<exists>msg. unmap pgd v ks = Inl (Panic msg)
    else \<exists>ks'. unmap pgd v ks = Inr ks' \<and> vm_inv ks' pgd T R \<and>
      (\<forall>u. descriptor (mem ks') pgd u = (if same_page u v then 0 else descriptor (mem ks) pgd u)) \<and>
      ref_counts (mm ks') = bump (-1) p (ref_counts (mm ks)) \<and> data_kept ks ks' T R \<and>
      get_physical_address pgd v ks' = Inr (PAGE_OFFSET v)"
proof (cases "pte_slot (mem ks) pgd v")
  case None
  then show ?thesis by (simp add: Let_def unmap_def walk_lookup)
next
  case (Some a)
  let ?p = "descriptor (mem ks) pgd v AND PD_PAGE_MASK" and ?ks = "store a 0 ks"
  note S = slot_write [OF V Some, of 0]
  have M: "mm_inv (mm ?ks) R" using S(1) by (simp add: vm_inv_def)
  have u: "unmap pgd v ks = bindE (with_mm (add_page_ref_count (-1) ?p) ?ks) (\<lambda>(_, ks). Inr ks)"
    using Some slot_descriptor [OF Some] by (simp add: unmap_def walk_lookup dec_page_ref_count_def Let_def)
  show ?thesis
  proof (cases "zone_frame ?p")
    case False
    then show ?thesis unfolding u using add_count_outside [OF M False, of "-1"] Some
      by (auto simp: with_mm_def Let_def)
  next
    case True
    have g: "get_physical_address pgd v (counted (-1) ?p ?ks) = Inr (PAGE_OFFSET v)"
      using S(3,4) [of v] Some slot_descriptor [of "mem ?ks" pgd v a]
      by (simp add: get_physical_address_def walk_lookup)
    have "data_kept ks (counted (-1) ?p ?ks) T R" using S(2) by (simp add: data_kept_def)
    with g show ?thesis
      unfolding u using True Some with_count [OF M True, of "-1" Inr] counted_inv [OF S(1) True] S(4)
      by (simp add: Let_def store_def)
  qed
qed


subsection \<open>Copy on write\<close>

lemma tree_agree:
  assumes t: "tree_ok m pgd T" and e: "\<And>q i. q \<in> T \<Longrightarrow> index_ok i \<Longrightarrow> m' (entry q i) = m (entry q i)"
  shows "tree_ok m' pgd T" and "pte_slot m' pgd u = pte_slot m pgd u"
    and "descriptor m' pgd u = descriptor m pgd u"
proof -
  have at: "table_at m' pgd xs = table_at m pgd xs" if "path xs" for xs
  proof (rule table_at_cong)
    fix ys i zs q assume "xs = ys @ i # zs" "table_at m pgd ys = Some q"
    then show "m' (entry q i) = m (entry q i)"
      using e [of q i] that path_prefix [of ys "i # zs"] path_mid [of ys i zs] tree_okD(2) [OF t] by auto
  qed
  then show "tree_ok m' pgd T" using t unfolding tree_ok_def by (metis (no_types, lifting))
  show s: "pte_slot m' pgd u = pte_slot m pgd u" for u
    using at [of "v_path u"] by (simp add: pte_slot_def)
  have "m' a = m a" if "pte_slot m pgd u = Some a" for a
    using that e tree_okD(2) [OF t v_path_ok(1)] by (auto simp: pte_slot_def)
  then show "descriptor m' pgd u = descriptor m pgd u"
    by (simp add: descriptor_def s split: option.splits)
qed

text \<open>Filling a fresh frame that is no table leaves the address space and all other frames alone.\<close>

lemma copy_page_keeps:
  assumes V: "vm_inv ks pgd T (insert (f, 4096) R)" and f: "f \<notin> T" "(f, 4096) \<notin> R"
  shows "vm_inv (copy_page f p ks) pgd T (insert (f, 4096) R)"
    and "data_kept ks (copy_page f p ks) T R"
    and "pte_slot (mem (copy_page f p ks)) pgd u = pte_slot (mem ks) pgd u"
    and "descriptor (mem (copy_page f p ks)) pgd u = descriptor (mem ks) pgd u"
    and "unat d < 4096 \<Longrightarrow> mem (copy_page f p ks) (f + d) = mem ks (p + d)"
proof -
  have t: "tree_ok (mem ks) pgd T" and M: "mm_inv (mm ks) (insert (f, 4096) R)"
    using V by (auto simp: vm_inv_def)
  have F: "table_frame f" using mm_frame [OF M] by simp
  have e: "mem (copy_page f p ks) (entry q i) = mem ks (entry q i)" if "q \<in> T" "index_ok i" for q i
    using page_offset_less [OF F tree_okD(1) [OF t that(1)] that(2)] that(1) f(1)
    by (auto simp: copy_page_def PAGE_SIZE_def)
  note A = tree_agree [OF t, of "mem (copy_page f p ks)"]
  show "vm_inv (copy_page f p ks) pgd T (insert (f, 4096) R)"
    using V A(1) e by (simp add: vm_inv_def copy_page_def)
  show "pte_slot (mem (copy_page f p ks)) pgd u = pte_slot (mem ks) pgd u"
    "descriptor (mem (copy_page f p ks)) pgd u = descriptor (mem ks) pgd u"
    using A(2,3) e by auto
  have "mem (copy_page f p ks) (q + d) = mem ks (q + d)" if "(q, 4096) \<in> R" "unat d < 4096" for q d
    using in_page [OF F mm_frame [OF M] that(2)] that(1) f(2)
    by (auto simp: copy_page_def PAGE_SIZE_def)
  then show "data_kept ks (copy_page f p ks) T R" by (auto simp: data_kept_def)
  show "mem (copy_page f p ks) (f + d) = mem ks (p + d)" if "unat d < 4096"
    using that by (simp add: copy_page_def PAGE_SIZE_def word_less_nat_alt)
qed

lemma store_simps [simp]:
  "store a w2 (store a w1 ks) = store a w2 ks" "mem (store a w ks) a = w" "mm (store a w ks) = mm ks"
  by (simp_all add: store_def)

lemma take_page:
  assumes V: "vm_inv ks pgd T R" and room: "records ks < 1000"
  shows "(\<exists>f ks1. with_mm (get_free_page True) ks = Inr (f, ks1) \<and> mem ks1 = mem ks \<and> f \<notin> T \<and>
      (f, 4096) \<notin> R \<and> vm_inv ks1 pgd T (insert (f, 4096) R) \<and>
      ref_counts (mm ks1) = ref_counts (mm ks) \<and> records ks1 \<le> Suc (records ks) \<and>
      spare R \<le> Suc (spare (insert (f, 4096) R))) \<or>
    (\<exists>msg. with_mm (get_free_page True) ks = Inl (Panic msg)) \<and> spare R = 0"
proof -
  have M: "mm_inv (mm ks) R" and TR: "\<And>p. p \<in> T \<Longrightarrow> (p, 4096) \<in> R" using V by (auto simp: vm_inv_def)
  have "\<not> table_full (kasan (mm ks))" using not_full_card room M by (simp add: mm_inv_def)
  from get_free_page_inv [OF M this, of True] show ?thesis
    using V TR spare_insert by (fastforce simp: with_mm_def vm_inv_def intro: card_insert_le_m1)
qed

text \<open>The word the fault handler stores for a page it has copied to \<open>f\<close>, and the one it stores for
  a page that is not shared.\<close>

definition copied_word :: "u64 \<Rightarrow> u64 \<Rightarrow> u64" where
  "copied_word f w = (f OR (w AND PD_ATTR_MASK)) AND NOT PD_RDONLY"

definition writable_word :: "u64 \<Rightarrow> u64" where
  "writable_word w = (w AND NOT PD_COW_PAGE) AND NOT PD_RDONLY"

text \<open>C9: The copy-on-write fault handler isolates the faulting address space. When the frame is
  not shared the page just becomes writable. When it is shared, the page moves to a fresh frame
  that holds the same contents and has the attributes of the old one without the read-only bit,
  the counts of the old and the new frame change by one, and in both cases every other virtual
  page, every other live page frame (the shared frame among them) and the tables are unchanged. It panics only when a frame is needed
  and none is free.\<close>

theorem copy_on_write:
  assumes V: "vm_inv ks pgd T R" and room: "records ks < 1000"
    and s: "pte_slot (mem ks) pgd v \<noteq> None"
    and p: "p = descriptor (mem ks) pgd v AND PD_PAGE_MASK" "(p, 4096) \<in> R" "p \<notin> T"
  shows "if ref_counts (mm ks) ! page_number p = 1
    then \<exists>ks'. copy_page_frame pgd v ks = Inr ks' \<and> vm_inv ks' pgd T R \<and> mm ks' = mm ks \<and>
      data_kept ks ks' T R \<and> (\<forall>u. descriptor (mem ks') pgd u =
        (if same_page u v then writable_word (descriptor (mem ks) pgd v) else descriptor (mem ks) pgd u))
    else (\<exists>f ks'. copy_page_frame pgd v ks = Inr ks' \<and> (f, 4096) \<notin> R \<and>
        vm_inv ks' pgd T (insert (f, 4096) R) \<and> data_kept ks ks' T R \<and>
        (\<forall>d. unat d < 4096 \<longrightarrow> mem ks' (f + d) = mem ks (p + d)) \<and>
        (\<forall>u. descriptor (mem ks') pgd u =
          (if same_page u v then copied_word f (descriptor (mem ks) pgd v) else descriptor (mem ks) pgd u)) \<and>
        ref_counts (mm ks') = bump 1 f (bump (-1) p (ref_counts (mm ks)))) \<or>
      (\<exists>msg. copy_page_frame pgd v ks = Inl (Panic msg)) \<and> spare R = 0"
proof -
  obtain a where a: "pte_slot (mem ks) pgd v = Some a" using s by blast
  have M: "mm_inv (mm ks) R" using V by (simp add: vm_inv_def)
  have z: "zone_frame p" using live_zone_frame [OF M p(2)] .
  have da: "mem ks a = descriptor (mem ks) pgd v" using slot_descriptor [OF a] by simp
  have unf: "copy_page_frame pgd v ks =
    (if ref_counts (mm ks) ! page_number p = 1
     then Inr (store a (writable_word (descriptor (mem ks) pgd v)) ks)
     else bindE (with_mm (get_free_page True) ks) (\<lambda>(f, ks1).
       let ks2 = store a (copied_word f (descriptor (mem ks) pgd v)) (copy_page f p ks1)
       in bindE (with_mm (add_page_ref_count (-1) p) ks2) (\<lambda>(_, ks).
          bindE (with_mm (add_page_ref_count 1 f) ks) (\<lambda>(_, ks). Inr ks))))"
    unfolding copy_page_frame_def walk_lookup a bindE_simps prod.case option.case da Let_def
      p(1) [symmetric] add_count(2) [OF M z] writable_word_def copied_word_def store_simps
      inc_page_ref_count_def dec_page_ref_count_def by (rule refl)
  show ?thesis
  proof (cases "ref_counts (mm ks) ! page_number p = 1")
    case True
    then show ?thesis using unf slot_write [OF V a] by simp
  next
    case False
    from take_page [OF V room] show ?thesis
    proof (elim disjE exE conjE)
      fix f ks1
      assume g: "with_mm (get_free_page True) ks = Inr (f, ks1)" "mem ks1 = mem ks"
        and f: "f \<notin> T" "(f, 4096) \<notin> R" and V1: "vm_inv ks1 pgd T (insert (f, 4096) R)"
        and rc: "ref_counts (mm ks1) = ref_counts (mm ks)"
      let ?w = "copied_word f (descriptor (mem ks) pgd v)"
      let ?ks2 = "store a ?w (copy_page f p ks1)"
      note C = copy_page_keeps [OF V1 f]
      have a2: "pte_slot (mem (copy_page f p ks1)) pgd v = Some a" using C(3) g(2) a by simp
      note S = slot_write [OF C(1) a2]
      have M2: "mm_inv (mm ?ks2) (insert (f, 4096) R)" using S(1) by (simp add: vm_inv_def)
      have zf: "zone_frame f" using live_zone_frame [OF M2] by simp
      have V3: "vm_inv (counted (-1) p ?ks2) pgd T (insert (f, 4096) R)" by (rule counted_inv [OF S(1) z])
      then have M3: "mm_inv (mm (counted (-1) p ?ks2)) (insert (f, 4096) R)" by (simp add: vm_inv_def)
      let ?ks4 = "counted 1 f (counted (-1) p ?ks2)"
      have "copy_page_frame pgd v ks = Inr ?ks4"
        using unf False g(1) with_count [OF M3 zf, of 1 Inr] with_count [OF M2 z, of "-1"
          "\<lambda>ks. bindE (with_mm (add_page_ref_count 1 f) ks) (\<lambda>(_, ks). Inr ks)"] by simp
      moreover have "vm_inv ?ks4 pgd T (insert (f, 4096) R)" by (rule counted_inv [OF V3 zf])
      moreover have "data_kept ks ?ks4 T R"
        using C(2) S(2) g(2) by (auto simp: data_kept_def)
      moreover have "mem ?ks4 (f + d) = mem ks (p + d)" if "unat d < 4096" for d
        using C(5) [OF that] S(2) that f(1) g(2) by (auto simp: data_kept_def)
      ultimately show ?thesis
        using False f(2) S(4) C(4) g(2) rc by (auto simp: copy_page_def)
    qed (use unf False in simp)
  qed
qed



subsection \<open>A fresh address space\<close>

text \<open>The memory before the first allocation reads as zero here.\<close>

definition boot :: "kerror + kstate" where
  "boot = bindE (MemoryManager 0x40000000 (\<lambda>_. \<lparr>ch_next = 0, ch_index = 0, ch_prev_chunk_size = 0\<rparr>))
     (\<lambda>m. Inr \<lparr>mem = (\<lambda>_. 0), mm = m\<rparr>)"

lemma cleared_tree:
  assumes "table_frame f" and "\<And>i. index_ok i \<Longrightarrow> m (entry f i) = 0"
  shows "tree_ok m f {f}" and "descriptor m f v = 0"
proof -
  have "path xs \<Longrightarrow> table_at m f xs = (if xs = [] then Some f else None)" for xs
    using assms(2) by (cases xs) (auto simp: path_def PD_INVALID_def)
  note T = this
  show "tree_ok m f {f}" using T assms(1) by (auto simp: tree_ok_def split: if_splits)
  have "v_path v \<noteq> []" by (simp add: v_path_def)
  then show "descriptor m f v = 0" using T [OF v_path_ok(1)] by (simp add: descriptor_def pte_slot_def)
qed

lemma VMMap_inv:
  assumes M: "mm_inv (mm ks) R" and room: "records ks < 1000" and "0 < spare R"
  obtains f ks' where "VMMap ks = Inr (f, ks')" and "(f, 4096) \<notin> R"
    and "vm_inv ks' f {f} (insert (f, 4096) R)" and "\<And>v. descriptor (mem ks') f v = 0"
    and "ref_counts (mm ks') = ref_counts (mm ks)" and "records ks' \<le> Suc (records ks)"
    and "spare R \<le> Suc (spare (insert (f, 4096) R))"
proof -
  have "\<not> table_full (kasan (mm ks))" using not_full_card room M by (simp add: mm_inv_def)
  from get_free_page_inv [OF M this, of True] assms(3) obtain f mm' where
    g: "get_free_page True (mm ks) = Inr (f, mm')" "(f, 4096) \<notin> R" "mm_inv mm' (insert (f, 4096) R)"
      "ref_counts mm' = ref_counts (mm ks)" "tracked (kasan mm') = insert f (tracked (kasan (mm ks)))"
    by auto
  let ?ks = "clear_page f (ks\<lparr>mm := mm'\<rparr>)"
  have f: "table_frame f" "f \<noteq> 0" using mm_frame [OF g(3)] mm_inv_page(2) [OF g(3)] by auto
  have e: "mem ?ks (entry f i) = 0" if "index_ok i" for i
    using clear_page_entry [OF f(1) f(1) that] by simp
  have "vm_inv ?ks f {f} (insert (f, 4096) R)"
    using g(3) cleared_tree(1) [of f "mem ?ks"] f(1) e by (simp add: vm_inv_def clear_page_def)
  moreover have "VMMap ks = Inr (f, ?ks)" using g(1) f(2) by (simp add: VMMap_def with_mm_def)
  moreover have "records ?ks \<le> Suc (records ks)"
    using card_insert_le_m1 [of "Suc (records ks)" "tracked (kasan (mm ks))" f]
    by (simp add: clear_page_def g(5))
  ultimately show thesis
    using that g(2,4) cleared_tree(2) [of f "mem ?ks"] f(1) e spare_insert [OF g(3)] by (auto simp: clear_page_def)
qed

text \<open>An address space with one page mapped, on freshly booted memory.\<close>

lemma booted:
  obtains ks0 pgd ks where "boot = Inr ks0" and "VMMap ks0 = Inr (pgd, ks)"
    and "vm_inv ks pgd {pgd} {(pgd, 4096)}" and "\<And>v. descriptor (mem ks) pgd v = 0"
    and "ref_counts (mm ks) = replicate 512 0" and "records ks \<le> 1" and "511 \<le> spare {(pgd, 4096)}"
proof -
  obtain m where m: "MemoryManager 0x40000000
    (\<lambda>_. \<lparr>ch_next = 0, ch_index = 0, ch_prev_chunk_size = 0\<rparr>) = Inr m" "mm_inv m {}"
    using MemoryManager_inv by blast
  have "kasan m = AddressSanitizer" "ref_counts m = replicate 512 0"
    using m(1) by (auto simp: MemoryManager_def bindE_eq_Inr MAX_ORDER_NR_PAGES_def)
  moreover from this obtain f ks' where "VMMap \<lparr>mem = (\<lambda>_. 0), mm = m\<rparr> = Inr (f, ks')"
    "vm_inv ks' f {f} {(f, 4096)}" "\<And>v. descriptor (mem ks') f v = 0"
    "ref_counts (mm ks') = ref_counts m" "records ks' \<le> 1" "511 \<le> spare {(f, 4096)}"
    using VMMap_inv [of "\<lparr>mem = (\<lambda>_. 0), mm = m\<rparr>" "{}"] m(2) spare_empty
    by (auto simp: tracked_initial)
  ultimately show thesis using that [of "\<lparr>mem = (\<lambda>_. 0), mm = m\<rparr>" f ks'] m(1) by (simp add: boot_def)
qed


lemma map_page_fresh:
  assumes "vm_inv ks pgd T R" and "records ks + 3 \<le> 1000" and "3 \<le> spare R"
    and "zone_frame p" and "attr AND PD_PAGE_MASK = 0" and "descriptor (mem ks) pgd v = 0"
  obtains ks' T' R' where "map_page pgd v p attr ks = Inr ks'"
    and "page_mapped pgd v p attr ks T R ks' T' R'"
proof -
  have "PD_INVALID (descriptor (mem ks) pgd v)" using assms(6) by (simp add: PD_INVALID_def)
  with map_page_cases [OF assms(1,2,4,5), of v] assms(3) that show thesis by auto
qed

theorem map_refines_witness:
  "\<exists>ks0 pgd ks ks'. boot = Inr ks0 \<and> VMMap ks0 = Inr (pgd, ks) \<and>
     map_page pgd 0x400123 0x10100000 USER_PAGE_RW ks = Inr ks' \<and>
     get_physical_address pgd 0x400123 ks' = Inr 0x10100123"
proof -
  obtain ks0 pgd ks where b: "boot = Inr ks0" "VMMap ks0 = Inr (pgd, ks)"
    "vm_inv ks pgd {pgd} {(pgd, 4096)}" "\<And>v. descriptor (mem ks) pgd v = 0" "records ks \<le> 1"
    "511 \<le> spare {(pgd, 4096)}" by (rule booted) blast
  have "zone_frame 0x10100000" by (simp add: zone_frame_def is_aligned_def)
  moreover have "USER_PAGE_RW AND PD_PAGE_MASK = 0" by code_simp
  moreover have "(0x10100000 :: u64) + PAGE_OFFSET 0x400123 = 0x10100123" by code_simp
  ultimately show ?thesis
    using map_refines [OF b(3), of "0x10100000" USER_PAGE_RW "0x400123"] b by (auto simp: PD_INVALID_def)
qed


lemma mapped_word_RW:
  assumes "zone_frame p"
  shows "mapped_word p USER_PAGE_RW AND PD_PAGE_MASK = p" and "mapped_word p USER_PAGE_RW \<noteq> 0"
proof -
  have "(USER_PAGE_RW OR PD_COW_PAGE) AND PD_PAGE_MASK = 0" "USER_PAGE_RW AND PD_RDONLY = 0"
    by code_simp+
  then show w: "mapped_word p USER_PAGE_RW AND PD_PAGE_MASK = p"
    using assms descriptor_frame [of p] by (auto simp: mapped_word_def zone_frame_def table_frame_def)
  then show "mapped_word p USER_PAGE_RW \<noteq> 0" using assms by (auto simp: zone_frame_def)
qed

text \<open>A data frame mapped at two addresses.\<close>

lemma shared_page:
  obtains ks0 pgd ks1 p ks2 ks3 ks4 T R where "boot = Inr ks0" and "VMMap ks0 = Inr (pgd, ks1)"
    and "with_mm (get_free_page True) ks1 = Inr (p, ks2)"
    and "map_page pgd 0x400000 p USER_PAGE_RW ks2 = Inr ks3"
    and "map_page pgd 0x401000 p USER_PAGE_RW ks3 = Inr ks4"
    and "vm_inv ks4 pgd T R" and "(p, 4096) \<in> R" and "p \<notin> T" and "records ks4 < 1000" and "0 < spare R"
    and "descriptor (mem ks4) pgd 0x400000 = mapped_word p USER_PAGE_RW"
    and "descriptor (mem ks4) pgd 0x401000 = mapped_word p USER_PAGE_RW"
    and "ref_counts (mm ks4) ! page_number p = 2"
proof -
  obtain ks0 pgd ks1 where b: "boot = Inr ks0" "VMMap ks0 = Inr (pgd, ks1)"
    "vm_inv ks1 pgd {pgd} {(pgd, 4096)}" "\<And>v. descriptor (mem ks1) pgd v = 0" "records ks1 \<le> 1"
    "ref_counts (mm ks1) = replicate 512 0" "511 \<le> spare {(pgd, 4096)}" by (rule booted) blast
  have M1: "mm_inv (mm ks1) {(pgd, 4096)}" using b(3) by (simp add: vm_inv_def)
  obtain p ks2 where p: "with_mm (get_free_page True) ks1 = Inr (p, ks2)" "mem ks2 = mem ks1"
    "p \<notin> {pgd}" "vm_inv ks2 pgd {pgd} {(p, 4096), (pgd, 4096)}" "ref_counts (mm ks2) = ref_counts (mm ks1)"
    "records ks2 \<le> Suc (records ks1)" "spare {(pgd, 4096)} \<le> Suc (spare {(p, 4096), (pgd, 4096)})"
    using take_page [OF b(3)] b(5,7) by auto
  have M2: "mm_inv (mm ks2) {(p, 4096), (pgd, 4096)}" using p(4) by (simp add: vm_inv_def)
  have z: "zone_frame p" using live_zone_frame [OF M2] by simp
  have a: "USER_PAGE_RW AND PD_PAGE_MASK = 0" by code_simp
  obtain ks3 T3 R3 where m3: "map_page pgd 0x400000 p USER_PAGE_RW ks2 = Inr ks3"
    "page_mapped pgd 0x400000 p USER_PAGE_RW ks2 {pgd} {(p, 4096), (pgd, 4096)} ks3 T3 R3"
    using map_page_fresh [OF p(4) _ _ z a, of "0x400000"] p b by auto
  have np: "\<not> same_page 0x401000 0x400000" by code_simp
  have d3: "descriptor (mem ks3) pgd 0x401000 = 0" using m3(2) np b(4) p(2) by (simp add: page_mapped_def)
  have V3: "vm_inv ks3 pgd T3 R3" "records ks3 \<le> 5" "500 \<le> spare R3" "(p, 4096) \<in> R3" "p \<notin> T3"
    using m3(2) p b(5,7) by (auto simp: page_mapped_def)
  obtain ks4 T4 R4 where m4: "map_page pgd 0x401000 p USER_PAGE_RW ks3 = Inr ks4"
    "page_mapped pgd 0x401000 p USER_PAGE_RW ks3 T3 R3 ks4 T4 R4"
    using map_page_fresh [OF V3(1) _ _ z a d3] V3(2,3) by auto
  have np': "\<not> same_page 0x400000 0x401000" by code_simp
  have "page_number p < 512" using ref_idx(2) [of "mm ks2" p] M2 z by (auto simp: mm_inv_def zone_frame_def)
  then have "ref_counts (mm ks4) ! page_number p = 2"
    using m4(2) m3(2) p(5) b(6) by (simp add: page_mapped_def bump_def int32_id)
  then show thesis
    using that [OF b(1,2) p(1) m3(1) m4(1), of T4 R4] m4(2) m3(2) V3 np' by (auto simp: page_mapped_def)
qed

theorem unmap_refines_witness:
  "\<exists>ks0 pgd ks1 p ks2 ks3 ks4 ks5. boot = Inr ks0 \<and> VMMap ks0 = Inr (pgd, ks1) \<and>
     with_mm (get_free_page True) ks1 = Inr (p, ks2) \<and>
     map_page pgd 0x400000 p USER_PAGE_RW ks2 = Inr ks3 \<and>
     map_page pgd 0x401000 p USER_PAGE_RW ks3 = Inr ks4 \<and> unmap pgd 0x400000 ks4 = Inr ks5 \<and>
     descriptor (mem ks5) pgd 0x400000 = 0 \<and>
     descriptor (mem ks5) pgd 0x401000 = mapped_word p USER_PAGE_RW"
proof (rule shared_page)
  fix ks0 pgd ks1 p ks2 ks3 ks4 T R
  assume s: "boot = Inr ks0" "VMMap ks0 = Inr (pgd, ks1)" "with_mm (get_free_page True) ks1 = Inr (p, ks2)"
    "map_page pgd 0x400000 p USER_PAGE_RW ks2 = Inr ks3" "map_page pgd 0x401000 p USER_PAGE_RW ks3 = Inr ks4"
    and V: "vm_inv ks4 pgd T R" and p: "(p, 4096) \<in> R"
    and d: "descriptor (mem ks4) pgd 0x400000 = mapped_word p USER_PAGE_RW"
      "descriptor (mem ks4) pgd 0x401000 = mapped_word p USER_PAGE_RW"
  have M: "mm_inv (mm ks4) R" using V by (simp add: vm_inv_def)
  note w = mapped_word_RW [OF live_zone_frame [OF M p]]
  have "pte_slot (mem ks4) pgd 0x400000 \<noteq> None" using d(1) w(2) by (intro slot_exists) simp
  moreover have "\<not> same_page 0x401000 0x400000" by code_simp
  moreover obtain ks5 where "unmap pgd 0x400000 ks4 = Inr ks5" "\<forall>u. descriptor (mem ks5) pgd u =
      (if same_page u 0x400000 then 0 else descriptor (mem ks4) pgd u)"
    using unmap_refines [OF V, of "0x400000"] live_zone_frame [OF M p] w(1) d(1) calculation(1)
    by (auto simp: Let_def)
  ultimately have "unmap pgd 0x400000 ks4 = Inr ks5" "descriptor (mem ks5) pgd 0x400000 = 0"
    "descriptor (mem ks5) pgd 0x401000 = mapped_word p USER_PAGE_RW" using d(2) by simp_all
  with s show ?thesis by blast
qed

theorem copy_on_write_witness:
  "\<exists>ks0 pgd ks1 p ks2 ks3 ks4 f ks5. boot = Inr ks0 \<and> VMMap ks0 = Inr (pgd, ks1) \<and>
     with_mm (get_free_page True) ks1 = Inr (p, ks2) \<and>
     map_page pgd 0x400000 p USER_PAGE_RW ks2 = Inr ks3 \<and>
     map_page pgd 0x401000 p USER_PAGE_RW ks3 = Inr ks4 \<and> copy_page_frame pgd 0x400000 ks4 = Inr ks5 \<and>
     f \<noteq> p \<and> descriptor (mem ks5) pgd 0x400000 = copied_word f (mapped_word p USER_PAGE_RW) \<and>
     descriptor (mem ks5) pgd 0x401000 = mapped_word p USER_PAGE_RW \<and> mem ks5 (f + 8) = mem ks4 (p + 8)"
proof (rule shared_page)
  fix ks0 pgd ks1 p ks2 ks3 ks4 T R
  assume s: "boot = Inr ks0" "VMMap ks0 = Inr (pgd, ks1)" "with_mm (get_free_page True) ks1 = Inr (p, ks2)"
    "map_page pgd 0x400000 p USER_PAGE_RW ks2 = Inr ks3" "map_page pgd 0x401000 p USER_PAGE_RW ks3 = Inr ks4"
    and V: "vm_inv ks4 pgd T R" and p: "(p, 4096) \<in> R" "p \<notin> T" "records ks4 < 1000" "0 < spare R"
    and d: "descriptor (mem ks4) pgd 0x400000 = mapped_word p USER_PAGE_RW"
      "descriptor (mem ks4) pgd 0x401000 = mapped_word p USER_PAGE_RW"
    and rc: "ref_counts (mm ks4) ! page_number p = 2"
  have M: "mm_inv (mm ks4) R" using V by (simp add: vm_inv_def)
  note w = mapped_word_RW [OF live_zone_frame [OF M p(1)]]
  have "pte_slot (mem ks4) pgd 0x400000 \<noteq> None" using d(1) w(2) by (intro slot_exists) simp
  from copy_on_write [OF V p(3) this _ p(1,2)] w(1) d rc p(4) obtain f ks5 where
    "copy_page_frame pgd 0x400000 ks4 = Inr ks5" "(f, 4096) \<notin> R"
    and m: "\<forall>d. unat d < 4096 \<longrightarrow> mem ks5 (f + d) = mem ks4 (p + d)"
    and "\<forall>u. descriptor (mem ks5) pgd u = (if same_page u 0x400000
      then copied_word f (mapped_word p USER_PAGE_RW) else descriptor (mem ks4) pgd u)" by auto
  moreover have "\<not> same_page 0x401000 0x400000" by code_simp
  moreover have "mem ks5 (f + 8) = mem ks4 (p + 8)" using m by simp
  moreover have "f \<noteq> p" using p(1) calculation(2) by blast
  ultimately have "copy_page_frame pgd 0x400000 ks4 = Inr ks5 \<and> f \<noteq> p \<and>
      descriptor (mem ks5) pgd 0x400000 = copied_word f (mapped_word p USER_PAGE_RW) \<and>
      descriptor (mem ks5) pgd 0x401000 = mapped_word p USER_PAGE_RW \<and> mem ks5 (f + 8) = mem ks4 (p + 8)"
    using d(2) by simp
  with s show ?thesis by blast
qed

end
