(* ===== verification/RingBuffer.thy ===== *)
theory RingBuffer
  imports Kernel_Prelude
begin

text \<open>
  The class template of \<^verbatim>\<open>include/lib/RingBuffer.h\<close>. The indices are \<open>int\<close>, the size and the
  capacity \<open>size_t\<close>; \<open>make_unique\<close> fills the array with the default value \<open>d\<close> of the element type.
\<close>

record 'a ring_buffer =
  rb_data :: "'a list"
  rb_head :: int
  rb_tail :: int
  rb_size :: u64
  rb_capacity :: u64

definition DEFAULT_CAPACITY :: int where
  "DEFAULT_CAPACITY = 32"

definition RingBuffer :: "'a \<Rightarrow> int \<Rightarrow> 'a ring_buffer" where
  "RingBuffer d capacity =
     \<lparr>rb_data = replicate (nat capacity) d, rb_head = 0, rb_tail = 0, rb_size = 0,
      rb_capacity = word_of_int capacity\<rparr>"

definition rb_nth :: "u64 \<Rightarrow> 'a ring_buffer \<Rightarrow> kerror + 'a" where
  "rb_nth i rb = aget (rb_data rb) (uint i)"

definition full :: "'a ring_buffer \<Rightarrow> bool" where
  "full rb \<longleftrightarrow> srem (rb_tail rb + 1) (int32 (uint (rb_capacity rb))) = rb_head rb"

definition is_empty :: "'a ring_buffer \<Rightarrow> bool" where
  "is_empty rb \<longleftrightarrow> rb_tail rb = rb_head rb"

text \<open>\<open>(i + 1) % _capacity\<close>, computed as \<open>size_t\<close>.\<close>

definition advance :: "int \<Rightarrow> 'a ring_buffer \<Rightarrow> int" where
  "advance i rb = int32 (uint ((word_of_int (i + 1) :: u64) mod rb_capacity rb))"

definition push :: "'a \<Rightarrow> 'a ring_buffer \<Rightarrow> kerror + 'a ring_buffer" where
  "push v rb =
     bindE (aset (rb_data rb) (rb_tail rb) v) (\<lambda>d.
     let rb = rb\<lparr>rb_data := d\<rparr>;
         rb = (if full rb then rb\<lparr>rb_head := advance (rb_head rb) rb\<rparr> else rb);
         rb = rb\<lparr>rb_tail := advance (rb_tail rb) rb\<rparr>
     in Inr (if rb_size rb < rb_capacity rb then rb\<lparr>rb_size := rb_size rb + 1\<rparr> else rb))"

definition pop :: "'a ring_buffer \<Rightarrow> 'a ring_buffer" where
  "pop rb =
     (let rb = rb\<lparr>rb_head := advance (rb_head rb) rb\<rparr>
      in if rb_size rb > 0 then rb\<lparr>rb_size := rb_size rb - 1\<rparr> else rb)"

definition rb_clear :: "'a ring_buffer \<Rightarrow> 'a ring_buffer" where
  "rb_clear rb = rb\<lparr>rb_tail := 0, rb_head := 0, rb_size := 0\<rparr>"

definition rb_front :: "'a ring_buffer \<Rightarrow> kerror + 'a" where
  "rb_front rb = aget (rb_data rb) (rb_head rb)"

definition rb_back :: "'a ring_buffer \<Rightarrow> kerror + 'a" where
  "rb_back rb =
     (if rb_tail rb - 1 < 0 then aget (rb_data rb) (uint (rb_capacity rb - 1))
      else aget (rb_data rb) (rb_tail rb - 1))"


subsection \<open>The queue a buffer holds\<close>

definition cap :: "'a ring_buffer \<Rightarrow> nat" where
  "cap rb = length (rb_data rb)"

definition rb_inv :: "'a ring_buffer \<Rightarrow> bool" where
  "rb_inv rb \<longleftrightarrow> 0 < cap rb \<and> cap rb < 2 ^ 31 \<and> rb_capacity rb = of_nat (cap rb) \<and>
     0 \<le> rb_head rb \<and> rb_head rb < int (cap rb) \<and> 0 \<le> rb_tail rb \<and> rb_tail rb < int (cap rb)"

definition pending :: "'a ring_buffer \<Rightarrow> nat" where
  "pending rb = nat ((rb_tail rb - rb_head rb) mod int (cap rb))"

text \<open>The elements from the head up to the tail, oldest first.\<close>

definition view :: "nat \<Rightarrow> nat \<Rightarrow> 'a list \<Rightarrow> 'a list" where
  "view h k d = map (\<lambda>i. d ! ((h + i) mod length d)) [0..<k]"

definition queue :: "'a ring_buffer \<Rightarrow> 'a list" where
  "queue rb = view (nat (rb_head rb)) (pending rb) (rb_data rb)"

lemma view_simps:
  "length (view h k d) = k" "view h 0 d = []"
  "view h (Suc k) d = view h k d @ [d ! ((h + k) mod length d)]"
  by (simp_all add: view_def)

lemma view_tl: "view (Suc h mod length d) k d = tl (view h (Suc k) d)"
proof -
  have "tl (view h (Suc k) d) = map (\<lambda>i. d ! ((h + i) mod length d)) [Suc 0..<Suc k]"
    by (simp add: view_def upt_conv_Cons del: upt_Suc)
  also have "\<dots> = map (\<lambda>i. d ! ((h + Suc i) mod length d)) [0..<k]"
    by (simp add: map_Suc_upt [symmetric] del: upt_Suc)
  also have "\<dots> = view (Suc h mod length d) k d" by (simp add: view_def mod_add_left_eq)
  finally show ?thesis by simp
qed

lemma mod_shift_inj:
  assumes "(h + i) mod c = (h + j) mod c" and "i < c" and "j < (c :: nat)"
  shows "i = j"
proof -
  have "int (h + i) mod int c = int (h + j) mod int c" using assms(1) by (metis of_nat_mod)
  then have "int c dvd int i - int j" by (simp add: mod_eq_dvd_iff)
  moreover have "\<bar>int i - int j\<bar> < int c" using assms(2,3) by linarith
  ultimately show ?thesis using zdvd_imp_le [of "int c" "\<bar>int i - int j\<bar>"] by (cases "i = j") auto
qed

lemma view_update:
  assumes "k < length d"
  shows "view h k (d[(h + k) mod length d := v]) = view h k d"
    and "d[(h + k) mod length d := v] ! ((h + k) mod length d) = v"
proof -
  have "(h + k) mod length d \<noteq> (h + i) mod length d" if "i < k" for i
    using mod_shift_inj [of h k "length d" i] that assms by auto
  then show "view h k (d[(h + k) mod length d := v]) = view h k d" by (simp add: view_def)
  show "d[(h + k) mod length d := v] ! ((h + k) mod length d) = v"
    using assms by (intro nth_list_update_eq mod_less_divisor) auto
qed

lemma rb_invD:
  assumes "rb_inv rb"
  shows "0 < cap rb" "cap rb < 2 ^ 31" "uint (rb_capacity rb) = int (cap rb)"
    "0 \<le> rb_head rb" "rb_head rb < int (cap rb)" "0 \<le> rb_tail rb" "rb_tail rb < int (cap rb)"
    "pending rb < cap rb"
  using assms by (auto simp: rb_inv_def unsigned_of_nat take_bit_nat_eq_self pending_def nat_less_iff)

lemma rb_inv_initial:
  assumes "0 < n" and "n < 2 ^ 31"
  shows "rb_inv (RingBuffer d (int n))" and "queue (RingBuffer d (int n)) = []"
  using assms by (simp_all add: rb_inv_def RingBuffer_def cap_def queue_def pending_def view_simps)

lemma advance_inv:
  assumes "rb_inv rb" and "0 \<le> i" and "i < int (cap rb)"
  shows "advance i rb = (i + 1) mod int (cap rb)"
proof -
  note c = rb_invD [OF assms(1)]
  have "uint (word_of_int (i + 1) :: u64) = i + 1"
    unfolding uint_word_of_int_eq by (rule take_bit_int_eq_self) (use assms c(2) in simp_all)
  then have "uint ((word_of_int (i + 1) :: u64) mod rb_capacity rb) = (i + 1) mod int (cap rb)"
    using c(3) by (simp add: uint_mod)
  moreover have "(i + 1) mod int (cap rb) < int (cap rb)" "0 \<le> (i + 1) mod int (cap rb)" using c by simp_all
  then have "int32 ((i + 1) mod int (cap rb)) = (i + 1) mod int (cap rb)"
    using c(2) by (intro int32_id) simp_all
  ultimately show ?thesis unfolding advance_def by simp
qed

lemma tail_pos:
  assumes "rb_inv rb"
  shows "nat (rb_tail rb) = (nat (rb_head rb) + pending rb) mod cap rb"
proof -
  note c = rb_invD [OF assms]
  have "int ((nat (rb_head rb) + pending rb) mod cap rb) =
    (rb_head rb + (rb_tail rb - rb_head rb) mod int (cap rb)) mod int (cap rb)"
    using c by (simp add: pending_def of_nat_mod)
  also have "\<dots> = rb_tail rb" using c by (simp add: mod_simps)
  finally show ?thesis by linarith
qed

lemma full_iff:
  assumes "rb_inv rb"
  shows "full rb \<longleftrightarrow> Suc (pending rb) = cap rb"
proof -
  note c = rb_invD [OF assms]
  have "full rb \<longleftrightarrow> (rb_tail rb + 1) mod int (cap rb) = rb_head rb mod int (cap rb)"
    using c by (simp add: full_def int32_id)
  also have "\<dots> \<longleftrightarrow> ((rb_tail rb - rb_head rb) mod int (cap rb) + 1) mod int (cap rb) = 0"
    by (simp add: mod_eq_dvd_iff mod_eq_0_iff_dvd mod_simps algebra_simps)
  also have "(rb_tail rb - rb_head rb) mod int (cap rb) + 1 = int (Suc (pending rb))"
    using c by (simp add: pending_def)
  also have "int (Suc (pending rb)) mod int (cap rb) = 0 \<longleftrightarrow> Suc (pending rb) = cap rb"
    using c(8) by (cases "Suc (pending rb) = cap rb") (simp_all add: zmod_int [symmetric] del: of_nat_Suc)
  finally show ?thesis .
qed


lemma pending_shift:
  assumes "rb_inv rb"
  shows "((rb_tail rb + 1) mod int (cap rb) - rb_head rb) mod int (cap rb) = int (Suc (pending rb)) mod int (cap rb)"
    and "((rb_tail rb + 1) mod int (cap rb) - (rb_head rb + 1) mod int (cap rb)) mod int (cap rb) = int (pending rb)"
    and "(rb_tail rb - (rb_head rb + 1) mod int (cap rb)) mod int (cap rb) = (int (pending rb) - 1) mod int (cap rb)"
proof -
  have p: "int (pending rb) = (rb_tail rb - rb_head rb) mod int (cap rb)"
    using rb_invD [OF assms] by (simp add: pending_def)
  have "((rb_tail rb + 1) mod int (cap rb) - rb_head rb) mod int (cap rb) =
    (rb_tail rb - rb_head rb + 1) mod int (cap rb)" by (simp add: mod_simps algebra_simps)
  also have "\<dots> = (int (pending rb) + 1) mod int (cap rb)" unfolding p by (simp add: mod_simps)
  finally show "((rb_tail rb + 1) mod int (cap rb) - rb_head rb) mod int (cap rb) =
    int (Suc (pending rb)) mod int (cap rb)" by (simp add: add.commute)
  show "((rb_tail rb + 1) mod int (cap rb) - (rb_head rb + 1) mod int (cap rb)) mod int (cap rb) = int (pending rb)"
    unfolding p by (simp add: mod_simps)
  have "(rb_tail rb - (rb_head rb + 1) mod int (cap rb)) mod int (cap rb) =
    (rb_tail rb - rb_head rb - 1) mod int (cap rb)" by (simp add: mod_simps algebra_simps)
  then show "(rb_tail rb - (rb_head rb + 1) mod int (cap rb)) mod int (cap rb) =
    (int (pending rb) - 1) mod int (cap rb)" unfolding p by (simp add: mod_simps)
qed

lemma nat_succ_mod: "0 \<le> i \<Longrightarrow> nat ((i + 1) mod int c) = Suc (nat i) mod c"
  by (simp add: nat_mod_distrib Suc_nat_eq_nat_zadd1 add.commute)

lemma push_queue:
  assumes I: "rb_inv rb"
  obtains rb' where "push v rb = Inr rb'" and "rb_inv rb'" and "cap rb' = cap rb"
    and "queue rb' = (if full rb then tl (queue rb @ [v]) else queue rb @ [v])"
    and "rb_size rb' = (if rb_size rb < rb_capacity rb then rb_size rb + 1 else rb_size rb)"
    and "\<not> full rb \<Longrightarrow> rb_head rb' = rb_head rb"
proof -
  note c = rb_invD [OF I]
  let ?d = "(rb_data rb)[nat (rb_tail rb) := v]"
  let ?h = "if full rb then (rb_head rb + 1) mod int (cap rb) else rb_head rb"
  let ?t = "(rb_tail rb + 1) mod int (cap rb)"
  let ?s = "if rb_size rb < rb_capacity rb then rb_size rb + 1 else rb_size rb"
  let ?rb = "rb\<lparr>rb_data := ?d, rb_head := ?h, rb_tail := ?t, rb_size := ?s\<rparr>"
  have f: "full (rb\<lparr>rb_data := ?d\<rparr>) = full rb" by (simp add: full_def)
  have "push v rb = Inr ?rb"
    using c f advance_inv [OF I c(4,5)] advance_inv [OF I c(6,7)]
    by (simp add: push_def cap_def Let_def advance_def)
  moreover have "rb_inv ?rb" "cap ?rb = cap rb" using I by (auto simp: rb_inv_def cap_def)
  moreover have "queue ?rb = (if full rb then tl (queue rb @ [v]) else queue rb @ [v])"
  proof -
    have V: "view (nat (rb_head rb)) (Suc (pending rb)) ?d = queue rb @ [v]"
      using view_update [of "pending rb" "rb_data rb" "nat (rb_head rb)" v] c(8)
      by (simp add: tail_pos [OF I] queue_def view_simps cap_def)
    show ?thesis
    proof (cases "full rb")
      case True
      then have "pending ?rb = pending rb" using pending_shift(2) [OF I] by (simp add: pending_def cap_def)
      then show ?thesis
        using True view_tl [of "nat (rb_head rb)" ?d "pending rb"] V nat_succ_mod [OF c(4), of "cap rb"]
        by (simp add: queue_def cap_def)
    next
      case False
      then have "Suc (pending rb) < cap rb" using full_iff [OF I] c(8) by simp
      moreover have "pending ?rb = nat (int (Suc (pending rb)) mod int (cap rb))"
        unfolding pending_def [of ?rb] using False pending_shift(1) [OF I]
        by (simp add: cap_def del: of_nat_Suc)
      ultimately have "pending ?rb = Suc (pending rb)" by (simp del: of_nat_Suc)
      then show ?thesis using False V by (simp add: queue_def)
    qed
  qed
  ultimately show thesis using that by simp
qed

lemma pop_queue:
  assumes I: "rb_inv rb"
  shows "rb_inv (pop rb)" and "cap (pop rb) = cap rb" and "queue rb \<noteq> [] \<Longrightarrow> queue (pop rb) = tl (queue rb)"
    and "queue rb = [] \<Longrightarrow> length (queue (pop rb)) = cap rb - 1"
proof -
  note c = rb_invD [OF I]
  have h: "rb_head (pop rb) = (rb_head rb + 1) mod int (cap rb)" "rb_data (pop rb) = rb_data rb"
    "rb_tail (pop rb) = rb_tail rb" "rb_capacity (pop rb) = rb_capacity rb"
    using advance_inv [OF I c(4,5)] by (auto simp: pop_def Let_def)
  show "rb_inv (pop rb)" "cap (pop rb) = cap rb" using I h by (auto simp: rb_inv_def cap_def)
  have p: "pending (pop rb) = nat ((int (pending rb) - 1) mod int (cap rb))"
    using pending_shift(3) [OF I] h by (simp add: pending_def cap_def)
  show "queue (pop rb) = tl (queue rb)" if "queue rb \<noteq> []"
  proof -
    have "pending rb \<noteq> 0" using that by (auto simp: queue_def view_def)
    then obtain k where k: "pending rb = Suc k" by (cases "pending rb") auto
    then have "pending (pop rb) = k" using p c(8) by simp
    then show ?thesis
      using k h view_tl [of "nat (rb_head rb)" "rb_data rb" k] nat_succ_mod [OF c(4), of "cap rb"]
      by (simp add: queue_def cap_def)
  qed
  show "length (queue (pop rb)) = cap rb - 1" if "queue rb = []"
  proof -
    have "pending rb = 0" using that by (simp add: queue_def view_def)
    then have "pending (pop rb) = nat ((-1) mod int (cap rb))" using p by simp
    also have "\<dots> = cap rb - 1" using c(1) by (simp add: zmod_minus1 nat_diff_distrib)
    finally show ?thesis by (simp add: queue_def view_simps)
  qed
qed


text \<open>C22: The ring buffer is a bounded queue of \<open>capacity - 1\<close> elements. On a well-formed buffer
  \<open>push\<close> never fails, appends the value and, when the buffer is full, drops the oldest one; \<open>pop\<close> of
  a non-empty buffer removes the oldest; \<open>front\<close> and \<open>back\<close> read the oldest and the newest; the
  buffer is \<open>empty\<close> exactly when the queue is. All operations keep the buffer well formed, but a
  \<open>pop\<close> of an empty buffer makes it full.\<close>

theorem bounded_queue:
  assumes I: "rb_inv rb"
  shows "(\<exists>rb'. push v rb = Inr rb' \<and> rb_inv rb' \<and>
      queue rb' = (if length (queue rb) = cap rb - 1 then tl (queue rb @ [v]) else queue rb @ [v])) \<and>
    rb_inv (pop rb) \<and> (is_empty rb \<longleftrightarrow> queue rb = []) \<and>
    (if queue rb = [] then length (queue (pop rb)) = cap rb - 1
     else queue (pop rb) = tl (queue rb) \<and> rb_front rb = Inr (hd (queue rb)) \<and> rb_back rb = Inr (last (queue rb)))"
proof -
  note c = rb_invD [OF I]
  have len: "length (queue rb) = pending rb" by (simp add: queue_def view_simps)
  have "full rb \<longleftrightarrow> length (queue rb) = cap rb - 1" using full_iff [OF I] len c(1) by auto
  moreover obtain rb' where "push v rb = Inr rb'" "rb_inv rb'"
    "queue rb' = (if full rb then tl (queue rb @ [v]) else queue rb @ [v])" using push_queue [OF I] by metis
  moreover have "is_empty rb \<longleftrightarrow> pending rb = 0"
    using c mod_eq_dvd_iff [of "rb_tail rb" "int (cap rb)" "rb_head rb"]
    by (auto simp: is_empty_def pending_def mod_eq_0_iff_dvd nat_eq_iff)
  moreover have "rb_front rb = Inr (hd (queue rb)) \<and> rb_back rb = Inr (last (queue rb))" if "queue rb \<noteq> []"
  proof -
    have "pending rb \<noteq> 0" using that unfolding len [symmetric] by simp
    then obtain k where k: "pending rb = Suc k" by (cases "pending rb") auto
    have "hd (queue rb) = rb_data rb ! nat (rb_head rb)"
      using k c by (simp add: queue_def view_def hd_map cap_def nat_less_iff del: upt_Suc)
    moreover have "last (queue rb) = rb_data rb ! ((nat (rb_head rb) + k) mod cap rb)"
      using k by (simp add: queue_def view_simps cap_def)
    moreover have "(nat (rb_head rb) + k) mod cap rb = (if rb_tail rb = 0 then cap rb - 1 else nat (rb_tail rb) - 1)"
      using tail_pos [OF I] k c(1,4,6) by (auto simp: mod_Suc split: if_splits)
    moreover have "uint (rb_capacity rb - 1) = int (cap rb) - 1"
      using c(1,3) by (simp add: uint_sub_if' uint_1)
    ultimately show ?thesis
      using c by (auto simp: rb_front_def rb_back_def cap_def nat_diff_distrib of_nat_diff)
  qed
  ultimately show ?thesis using pop_queue [OF I] len by auto
qed

theorem bounded_queue_witness:
  "\<exists>rb. push (7 :: nat) (RingBuffer 0 4) = Inr rb \<and> queue rb = [7]"
  using bounded_queue [OF rb_inv_initial(1), of 4 7 0] rb_inv_initial(2) [of 4 0]
  by (auto simp: cap_def RingBuffer_def)

end
