(* ===== verification/TaskletScheduler.thy ===== *)
theory TaskletScheduler
  imports RingBuffer
begin

text \<open>
  The deferred work of \<^verbatim>\<open>include/kernel/TaskletScheduler.h\<close> over the ring buffer. A tasklet is
  represented by its handler; calling it appends the handler to \<open>handled\<close>, the record of the handlers
  called so far. An entry of the queue is a \<open>UniquePtr\<close>, null after \<open>reset\<close>.
\<close>

record 'h tasklet_scheduler =
  tasklet_queue :: "'h option ring_buffer"
  handled :: "'h list"

definition TaskletScheduler :: "'h tasklet_scheduler" where
  "TaskletScheduler = \<lparr>tasklet_queue = RingBuffer None DEFAULT_CAPACITY, handled = []\<rparr>"

definition handle_tasklet :: "u64 \<Rightarrow> 'h tasklet_scheduler \<Rightarrow> kerror + 'h tasklet_scheduler" where
  "handle_tasklet i ts =
     bindE (rb_nth i (tasklet_queue ts)) (\<lambda>t.
     case t of
       None \<Rightarrow> Inl NullDeref
     | Some h \<Rightarrow>
         bindE (aset (rb_data (tasklet_queue ts)) (uint i) None) (\<lambda>d.
         Inr (ts\<lparr>tasklet_queue := (tasklet_queue ts)\<lparr>rb_data := d\<rparr>, handled := handled ts @ [h]\<rparr>)))"

definition finish_all :: "'h tasklet_scheduler \<Rightarrow> kerror + 'h tasklet_scheduler" where
  "finish_all ts =
     bindE (forE (map of_nat [0..<unat (rb_size (tasklet_queue ts))]) handle_tasklet ts) (\<lambda>ts.
     Inr (ts\<lparr>tasklet_queue := rb_clear (tasklet_queue ts)\<rparr>))"

definition add_tasklet :: "'h \<Rightarrow> 'h tasklet_scheduler \<Rightarrow> kerror + 'h tasklet_scheduler" where
  "add_tasklet handler ts =
     bindE (if full (tasklet_queue ts) then finish_all ts else Inr ts) (\<lambda>ts.
     bindE (push (Some handler) (tasklet_queue ts)) (\<lambda>q. Inr (ts\<lparr>tasklet_queue := q\<rparr>)))"


subsection \<open>Every tasklet runs once, in order\<close>

text \<open>The operations of a run: scheduling a handler, or finishing all of them.\<close>

datatype 'h tasklet_op = Add 'h | Finish

fun run_tasklets :: "'h tasklet_op list \<Rightarrow> 'h tasklet_scheduler \<Rightarrow> kerror + 'h tasklet_scheduler" where
  "run_tasklets [] ts = Inr ts"
| "run_tasklets (Add h # ops) ts = bindE (add_tasklet h ts) (run_tasklets ops)"
| "run_tasklets (Finish # ops) ts = bindE (finish_all ts) (run_tasklets ops)"

fun added :: "'h tasklet_op list \<Rightarrow> 'h list" where
  "added [] = []"
| "added (Add h # ops) = h # added ops"
| "added (Finish # ops) = added ops"

text \<open>The buffer never wraps, so the entries waiting are the first ones of the array.\<close>

definition waiting :: "'h tasklet_scheduler \<Rightarrow> 'h list \<Rightarrow> bool" where
  "waiting ts hs \<longleftrightarrow>
     (let q = tasklet_queue ts in rb_inv q \<and> cap q = 32 \<and> rb_head q = 0 \<and> queue q = map Some hs \<and>
      rb_size q = of_nat (length hs) \<and> length hs < 32)"

lemma queue_at_start:
  assumes "rb_inv q" and "rb_head q = 0" and "i < length (queue q)"
  shows "rb_data q ! i = queue q ! i"
  using assms rb_invD(8) [OF assms(1)] by (simp add: queue_def view_def cap_def)

lemma handle_first:
  assumes "length d = 32" and "take k d = replicate k None" and "k + length hs \<le> 32"
    and "\<And>i. i < length hs \<Longrightarrow> d ! (k + i) = Some (hs ! i)"
  shows "\<exists>d'. forE (map of_nat [k..<k + length hs]) handle_tasklet
      \<lparr>tasklet_queue = q\<lparr>rb_data := d\<rparr>, handled = r\<rparr> =
    Inr \<lparr>tasklet_queue = q\<lparr>rb_data := d'\<rparr>, handled = r @ hs\<rparr> \<and> length d' = 32"
  using assms
proof (induction hs arbitrary: k d r)
  case (Cons h hs)
  have k: "k < 32" "uint (of_nat k :: u64) = int k"
    using Cons.prems(3) by (simp_all add: unsigned_of_nat take_bit_nat_eq_self)
  have dk: "d ! k = Some h" using Cons.prems(4) [of 0] by simp
  have step: "handle_tasklet (of_nat k) \<lparr>tasklet_queue = q\<lparr>rb_data := d\<rparr>, handled = r\<rparr> =
    Inr \<lparr>tasklet_queue = q\<lparr>rb_data := d[k := None]\<rparr>, handled = r @ [h]\<rparr>"
    using k dk Cons.prems(1) by (simp add: handle_tasklet_def rb_nth_def)
  have "take (Suc k) (d[k := None]) = replicate (Suc k) None"
    using Cons.prems(1,2) k(1) by (simp add: take_Suc_conv_app_nth replicate_append_same)
  moreover have "(d[k := None]) ! (Suc k + i) = Some (hs ! i)" if "i < length hs" for i
    using Cons.prems(4) [of "Suc i"] that by simp
  ultimately obtain d' where "forE (map of_nat [Suc k..<Suc k + length hs]) handle_tasklet
      \<lparr>tasklet_queue = q\<lparr>rb_data := d[k := None]\<rparr>, handled = r @ [h]\<rparr> =
    Inr \<lparr>tasklet_queue = q\<lparr>rb_data := d'\<rparr>, handled = (r @ [h]) @ hs\<rparr>" "length d' = 32"
    using Cons.IH [of "d[k := None]" "Suc k" "r @ [h]"] Cons.prems(1,3) by auto
  then show ?case using step by (intro exI [of _ d']) (simp add: upt_conv_Cons del: upt_Suc)
qed auto

lemma finish_all_runs:
  assumes "waiting ts hs"
  shows "\<exists>ts'. finish_all ts = Inr ts' \<and> waiting ts' [] \<and> handled ts' = handled ts @ hs"
proof -
  let ?q = "tasklet_queue ts"
  have q: "rb_inv ?q" "cap ?q = 32" "rb_head ?q = 0" "queue ?q = map Some hs"
    "rb_size ?q = of_nat (length hs)" "length hs < 32" using assms by (auto simp: waiting_def Let_def)
  have "rb_data ?q ! i = Some (hs ! i)" if "i < length hs" for i
    using queue_at_start [OF q(1,3)] q(4) that by simp
  then obtain d where d: "forE (map of_nat [0..<length hs]) handle_tasklet
      \<lparr>tasklet_queue = ?q, handled = handled ts\<rparr> =
    Inr \<lparr>tasklet_queue = ?q\<lparr>rb_data := d\<rparr>, handled = handled ts @ hs\<rparr>" "length d = 32"
    using handle_first [of "rb_data ?q" 0 hs ?q "handled ts"] q(2,6) by (auto simp: cap_def)
  have "\<lparr>tasklet_queue = ?q, handled = handled ts\<rparr> = ts" by simp
  then have f: "forE (map of_nat [0..<length hs]) handle_tasklet ts =
    Inr \<lparr>tasklet_queue = ?q\<lparr>rb_data := d\<rparr>, handled = handled ts @ hs\<rparr>" using d(1) by metis
  have "unat (rb_size ?q) = length hs" using q(5,6) by (simp add: unat_of_nat)
  then have "finish_all ts = Inr \<lparr>tasklet_queue = rb_clear (?q\<lparr>rb_data := d\<rparr>), handled = handled ts @ hs\<rparr>"
    using f by (simp add: finish_all_def)
  moreover have "waiting \<lparr>tasklet_queue = rb_clear (?q\<lparr>rb_data := d\<rparr>), handled = handled ts @ hs\<rparr> []"
    using q(1,2) d(2)
    by (auto simp: waiting_def Let_def rb_clear_def rb_inv_def cap_def queue_def pending_def view_def)
  ultimately show ?thesis by auto
qed

lemma add_tasklet_waits:
  assumes "waiting ts hs"
  shows "\<exists>ts' hs'. add_tasklet h ts = Inr ts' \<and> waiting ts' hs' \<and> handled ts' @ hs' = handled ts @ hs @ [h]"
proof -
  have room: "\<exists>ts1 hs1. (if full (tasklet_queue ts) then finish_all ts else Inr ts) = Inr ts1 \<and>
    waiting ts1 hs1 \<and> handled ts1 @ hs1 = handled ts @ hs \<and> length hs1 < 31"
  proof (cases "full (tasklet_queue ts)")
    case True
    then show ?thesis using finish_all_runs [OF assms] by auto
  next
    case False
    have q: "rb_inv (tasklet_queue ts)" "cap (tasklet_queue ts) = 32" "length hs < 32"
      "length (queue (tasklet_queue ts)) = length hs" using assms by (auto simp: waiting_def Let_def)
    then have "length hs < 31" using False full_iff [OF q(1)] by (auto simp: queue_def view_def)
    then show ?thesis using False assms by auto
  qed
  then obtain ts1 hs1 where 1: "(if full (tasklet_queue ts) then finish_all ts else Inr ts) = Inr ts1"
    "waiting ts1 hs1" "handled ts1 @ hs1 = handled ts @ hs" "length hs1 < 31" by blast
  let ?q = "tasklet_queue ts1"
  have q: "rb_inv ?q" "cap ?q = 32" "rb_head ?q = 0" "queue ?q = map Some hs1"
    "rb_size ?q = of_nat (length hs1)" using 1(2) by (auto simp: waiting_def Let_def)
  have nf: "\<not> full ?q" using full_iff [OF q(1)] q(2,4) 1(4) by (auto simp: queue_def view_def dest: arg_cong [of _ _ length])
  have "rb_capacity ?q = 32" using q(1,2) by (simp add: rb_inv_def)
  then have "rb_size ?q < rb_capacity ?q" using q(5) 1(4) by (simp add: word_less_nat_alt unat_of_nat)
  moreover obtain q' where "push (Some h) ?q = Inr q'" "rb_inv q'" "cap q' = cap ?q"
    "queue q' = (if full ?q then tl (queue ?q @ [Some h]) else queue ?q @ [Some h])"
    "rb_size q' = (if rb_size ?q < rb_capacity ?q then rb_size ?q + 1 else rb_size ?q)"
    "rb_head q' = rb_head ?q" using push_queue [OF q(1)] nf by metis
  ultimately have "add_tasklet h ts = Inr (ts1\<lparr>tasklet_queue := q'\<rparr>)"
    "waiting (ts1\<lparr>tasklet_queue := q'\<rparr>) (hs1 @ [h])"
    using 1 q nf by (simp_all add: add_tasklet_def waiting_def Let_def add.commute)
  then show ?thesis using 1(3) by (intro exI [of _ "ts1\<lparr>tasklet_queue := q'\<rparr>"] exI [of _ "hs1 @ [h]"]) simp
qed

lemma run_tasklets_order:
  "waiting ts hs \<Longrightarrow> \<exists>ts' hs'. run_tasklets ops ts = Inr ts' \<and> waiting ts' hs' \<and>
     handled ts' @ hs' = handled ts @ hs @ added ops"
proof (induction ops arbitrary: ts hs)
  case (Cons op ops)
  show ?case
  proof (cases op)
    case (Add h)
    obtain ts1 hs1 where "add_tasklet h ts = Inr ts1" "waiting ts1 hs1" "handled ts1 @ hs1 = handled ts @ hs @ [h]"
      using add_tasklet_waits [OF Cons.prems] by blast
    moreover from this obtain ts' hs' where "run_tasklets ops ts1 = Inr ts'" "waiting ts' hs'"
      "handled ts' @ hs' = (handled ts1 @ hs1) @ added ops" using Cons.IH [of ts1 hs1] by auto
    ultimately show ?thesis using Add by (intro exI [of _ ts'] exI [of _ hs']) simp
  next
    case Finish
    obtain ts1 where "finish_all ts = Inr ts1" "waiting ts1 []" "handled ts1 = handled ts @ hs"
      using finish_all_runs [OF Cons.prems] by blast
    then show ?thesis using Cons.IH [of ts1 "[]"] Finish by auto
  qed
qed auto

text \<open>C21: Starting from a fresh scheduler, every sequence of \<open>add_tasklet\<close> and \<open>finish_all\<close> runs
  without an error, and after a final \<open>finish_all\<close> the handlers called are exactly those added, each
  once and in the order they were added.\<close>

theorem tasklets_run_in_order:
  "\<exists>ts. run_tasklets (ops @ [Finish]) TaskletScheduler = Inr ts \<and> handled ts = added ops"
proof -
  have "waiting TaskletScheduler []"
    using rb_inv_initial [of 32 None]
    by (simp add: waiting_def TaskletScheduler_def DEFAULT_CAPACITY_def Let_def cap_def RingBuffer_def)
  then obtain ts hs where r: "run_tasklets ops TaskletScheduler = Inr ts" "waiting ts hs" "handled ts @ hs = added ops"
    using run_tasklets_order [of TaskletScheduler "[]" ops] by (auto simp: TaskletScheduler_def)
  have "run_tasklets (xs @ ys) t = bindE (run_tasklets xs t) (run_tasklets ys)" for xs ys :: "'a tasklet_op list" and t
    by (induction xs t rule: run_tasklets.induct) (auto simp: bindE_assoc bindE_def split: sum.splits)
  then show ?thesis using r finish_all_runs [OF r(2)] by auto
qed

end
