(* ===== verification/Deque.thy ===== *)
theory Deque
  imports Kernel_Prelude
begin

text \<open>
  The class template of \<^verbatim>\<open>include/lib/Deque.h\<close>: a growable array. \<open>d\<close> is the default value of the
  element type, with which \<open>make_unique\<close> fills a new array. A moved-from element keeps its value
  here; the source never reads one.
\<close>

record 'a deque =
  dq_data :: "'a list"
  dq_size :: u64
  dq_capacity :: u64

definition DEFAULT_SIZE :: u64 where
  "DEFAULT_SIZE = 4"

definition Deque :: "'a \<Rightarrow> int \<Rightarrow> 'a deque" where
  "Deque d init_capacity =
     \<lparr>dq_data = replicate (nat init_capacity) d, dq_size = 0, dq_capacity = word_of_int init_capacity\<rparr>"

definition dq_nth :: "u64 \<Rightarrow> 'a deque \<Rightarrow> kerror + 'a" where
  "dq_nth i q = aget (dq_data q) (uint i)"

definition dq_put :: "u64 \<Rightarrow> 'a \<Rightarrow> 'a deque \<Rightarrow> kerror + 'a deque" where
  "dq_put i v q = bindE (aset (dq_data q) (uint i) v) (\<lambda>xs. Inr (q\<lparr>dq_data := xs\<rparr>))"

definition dq_move :: "int \<Rightarrow> int \<Rightarrow> 'a list \<Rightarrow> 'a list \<Rightarrow> kerror + 'a list" where
  "dq_move i j src dst = bindE (aget src j) (aset dst i)"

definition dq_resize :: "'a \<Rightarrow> u64 \<Rightarrow> bool \<Rightarrow> 'a deque \<Rightarrow> kerror + 'a deque" where
  "dq_resize d new_capacity migrate_data q =
     (let c = max DEFAULT_SIZE new_capacity; new_data = replicate (unat c) d in
      bindE (if migrate_data
             then forE (map int [0..<unat (dq_size q)]) (\<lambda>i. dq_move i i (dq_data q)) new_data
             else Inr new_data) (\<lambda>xs.
      Inr (q\<lparr>dq_data := xs, dq_capacity := c\<rparr>)))"

text \<open>The values of the counter of the shifting loop of \<open>insert\<close>: from \<open>i\<close> down to \<open>index + 1\<close>.\<close>

definition downto :: "int \<Rightarrow> int \<Rightarrow> int list" where
  "downto i index = rev [index + 1..i]"

definition dq_insert :: "'a \<Rightarrow> int \<Rightarrow> 'a \<Rightarrow> 'a deque \<Rightarrow> kerror + 'a deque" where
  "dq_insert d index v q =
     bindE (if dq_size q = dq_capacity q then dq_resize d (dq_capacity q * 2) True q else Inr q) (\<lambda>q.
     bindE (forE (downto (int32 (uint (dq_size q))) index) (\<lambda>i xs. dq_move i (i - 1) xs xs) (dq_data q)) (\<lambda>xs.
     bindE (aset xs index v) (\<lambda>xs.
     Inr (q\<lparr>dq_data := xs, dq_size := dq_size q + 1\<rparr>))))"

definition dq_erase :: "'a \<Rightarrow> int \<Rightarrow> 'a deque \<Rightarrow> kerror + 'a deque" where
  "dq_erase d index q =
     bindE (forE [index..int32 (uint (dq_size q)) - 2] (\<lambda>i xs. dq_move i (i + 1) xs xs) (dq_data q)) (\<lambda>xs.
     let q = q\<lparr>dq_data := xs, dq_size := dq_size q - 1\<rparr> in
     if dq_size q \<le> dq_capacity q div 4 then dq_resize d (dq_capacity q div 2) True q else Inr q)"

definition push_back :: "'a \<Rightarrow> 'a \<Rightarrow> 'a deque \<Rightarrow> kerror + 'a deque" where
  "push_back d v q = dq_insert d (int32 (uint (dq_size q))) v q"

definition push_front :: "'a \<Rightarrow> 'a \<Rightarrow> 'a deque \<Rightarrow> kerror + 'a deque" where
  "push_front d v q = dq_insert d 0 v q"

definition pop_back :: "'a \<Rightarrow> 'a deque \<Rightarrow> kerror + 'a deque" where
  "pop_back d q = dq_erase d (int32 (uint (dq_size q - 1))) q"

definition pop_front :: "'a \<Rightarrow> 'a deque \<Rightarrow> kerror + 'a deque" where
  "pop_front d q = dq_erase d 0 q"

text \<open>The search loops look at the entries from index \<open>i\<close> on, \<open>n\<close> of them.\<close>

primrec dq_search :: "nat \<Rightarrow> nat \<Rightarrow> 'a \<Rightarrow> 'a list \<Rightarrow> kerror + nat option" where
  "dq_search 0 i v xs = Inr None"
| "dq_search (Suc n) i v xs =
     bindE (aget xs (int i)) (\<lambda>x. if x = v then Inr (Some i) else dq_search n (Suc i) v xs)"

definition dq_remove :: "'a \<Rightarrow> 'a \<Rightarrow> 'a deque \<Rightarrow> kerror + 'a deque" where
  "dq_remove d v q =
     bindE (dq_search (unat (dq_size q)) 0 v (dq_data q)) (\<lambda>r.
     case r of None \<Rightarrow> Inr q | Some i \<Rightarrow> dq_erase d (int32 (int i)) q)"

definition dq_find :: "'a \<Rightarrow> 'a deque \<Rightarrow> kerror + int" where
  "dq_find v q =
     bindE (dq_search (unat (dq_size q)) 0 v (dq_data q)) (\<lambda>r.
     Inr (case r of None \<Rightarrow> -1 | Some i \<Rightarrow> int32 (int i)))"

definition dq_clear :: "'a \<Rightarrow> 'a deque \<Rightarrow> kerror + 'a deque" where
  "dq_clear d q = bindE (dq_resize d DEFAULT_SIZE False q) (\<lambda>q. Inr (q\<lparr>dq_size := 0\<rparr>))"

text \<open>Copy assignment of \<open>r\<close> to \<open>q\<close>, and move assignment, which clears the source.\<close>

definition dq_assign :: "'a \<Rightarrow> 'a deque \<Rightarrow> 'a deque \<Rightarrow> kerror + 'a deque" where
  "dq_assign d r q =
     bindE (dq_resize d (dq_capacity r) True q) (\<lambda>q.
     bindE (forE (map int [0..<unat (dq_size r)]) (\<lambda>i. dq_move i i (dq_data r)) (dq_data q)) (\<lambda>xs.
     Inr (q\<lparr>dq_data := xs, dq_size := dq_size r, dq_capacity := dq_capacity r\<rparr>)))"

definition dq_move_assign :: "'a \<Rightarrow> 'a deque \<Rightarrow> kerror + ('a deque \<times> 'a deque)" where
  "dq_move_assign d r = bindE (dq_clear d r) (\<lambda>r'. Inr (r, r'))"

definition dq_empty :: "'a deque \<Rightarrow> bool" where
  "dq_empty q \<longleftrightarrow> dq_size q = 0"

definition dq_front :: "'a deque \<Rightarrow> kerror + 'a" where
  "dq_front q = aget (dq_data q) 0"

definition dq_back :: "'a deque \<Rightarrow> kerror + 'a" where
  "dq_back q = aget (dq_data q) (uint (dq_size q - 1))"


subsection \<open>The list a deque holds\<close>

definition dq_len :: "'a deque \<Rightarrow> nat" where
  "dq_len q = unat (dq_size q)"

definition elems :: "'a deque \<Rightarrow> 'a list" where
  "elems q = take (dq_len q) (dq_data q)"

definition dq_inv :: "'a deque \<Rightarrow> bool" where
  "dq_inv q \<longleftrightarrow> dq_len q \<le> length (dq_data q) \<and> 4 \<le> length (dq_data q) \<and> length (dq_data q) < 2 ^ 30 \<and>
     dq_capacity q = of_nat (length (dq_data q))"

lemma dq_invD:
  assumes "dq_inv q"
  shows "unat (dq_capacity q) = length (dq_data q)" "length (elems q) = dq_len q"
    "int32 (uint (dq_size q)) = int (dq_len q)" "dq_len q < 2 ^ 30" "dq_size q = of_nat (dq_len q)"
proof -
  show "unat (dq_capacity q) = length (dq_data q)" "length (elems q) = dq_len q" "dq_len q < 2 ^ 30"
    using assms by (auto simp: dq_inv_def elems_def unat_of_nat)
  show "dq_size q = of_nat (dq_len q)" by (simp add: dq_len_def)
  have "uint (dq_size q) = int (dq_len q)" by (simp add: dq_len_def)
  then show "int32 (uint (dq_size q)) = int (dq_len q)"
    using \<open>dq_len q < 2 ^ 30\<close> by (simp add: int32_id)
qed

text \<open>The migration loop copies a prefix.\<close>

lemma migrate:
  assumes "n \<le> length src" and "n \<le> length dst"
  shows "forE (map int [0..<n]) (\<lambda>i. dq_move i i src) dst = Inr (take n src @ drop n dst)"
  using assms
proof (induction n)
  case (Suc n)
  then have "forE (map int [0..<n]) (\<lambda>i. dq_move i i src) dst = Inr (take n src @ drop n dst)" by simp
  moreover have "dq_move (int n) (int n) src (take n src @ drop n dst) = Inr (take (Suc n) src @ drop (Suc n) dst)"
    using Suc.prems
    by (simp add: dq_move_def list_update_append take_Suc_conv_app_nth Cons_nth_drop_Suc [symmetric])
  ultimately show ?case using Suc.prems by (simp add: forE_append)
qed simp

lemma dq_resize_elems:
  assumes "dq_inv q" and "unat c < 2 ^ 30" and "dq_len q \<le> unat c \<or> dq_len q \<le> 4"
  obtains q' where "dq_resize d c True q = Inr q'" and "dq_inv q'" and "elems q' = elems q"
    and "length (dq_data q') = max 4 (unat c)"
proof -
  let ?c = "max DEFAULT_SIZE c"
  have c: "unat ?c = max 4 (unat c)" by (simp add: DEFAULT_SIZE_def max_def word_le_nat_alt)
  have n: "unat (dq_size q) \<le> length (dq_data q)" "unat (dq_size q) \<le> unat ?c"
    using assms(1,3) c by (auto simp: dq_inv_def dq_len_def)
  let ?q = "q\<lparr>dq_data := take (unat (dq_size q)) (dq_data q) @ drop (unat (dq_size q)) (replicate (unat ?c) d),
    dq_capacity := ?c\<rparr>"
  have r: "dq_resize d c True q = Inr ?q"
    using migrate [of "unat (dq_size q)" "dq_data q" "replicate (unat ?c) d"] n
    by (simp add: dq_resize_def Let_def)
  have l: "length (dq_data ?q) = max 4 (unat c)" using n c by simp
  have "?c = of_nat (max 4 (unat c))" using c by (metis unat_eq_of_nat word_of_unat)
  then have "dq_inv ?q" unfolding dq_inv_def l using n c assms(2) by (simp add: dq_len_def)
  moreover have "elems ?q = elems q" using n by (simp add: elems_def dq_len_def)
  ultimately show thesis using that r l by blast
qed


lemma shift_up:
  assumes "i \<le> n" and "n < length xs"
  shows "forE (downto (int n) (int i)) (\<lambda>i xs. dq_move i (i - 1) xs xs) xs =
    Inr (take (Suc i) xs @ drop i (take n xs) @ drop (Suc n) xs)"
  using assms
proof (induction n arbitrary: xs)
  case 0
  then show ?case by (simp add: downto_def)
next
  case (Suc n)
  show ?case
  proof (cases "i = Suc n")
    case True
    then show ?thesis by (simp add: downto_def)
  next
    case False
    then have i: "i \<le> n" using Suc.prems(1) by simp
    let ?xs = "xs[Suc n := xs ! n]"
    have "downto (int (Suc n)) (int i) = int (Suc n) # downto (int n) (int i)"
      using i by (simp add: downto_def upto_rec2 add.commute)
    moreover have "dq_move (int (Suc n)) (int (Suc n) - 1) xs xs = Inr ?xs"
      using Suc.prems(2) by (simp add: dq_move_def nat_add_distrib)
    moreover have "forE (downto (int n) (int i)) (\<lambda>i xs. dq_move i (i - 1) xs xs) ?xs =
      Inr (take (Suc i) ?xs @ drop i (take n ?xs) @ drop (Suc n) ?xs)"
      using Suc.IH [of ?xs] i Suc.prems(2) by simp
    moreover have "take (Suc i) ?xs = take (Suc i) xs" "take n ?xs = take n xs"
      "drop (Suc n) ?xs = xs ! n # drop (Suc (Suc n)) xs"
      using i Suc.prems(2) by (simp_all add: drop_update_swap Cons_nth_drop_Suc [symmetric])
    moreover have "drop i (take (Suc n) xs) = drop i (take n xs) @ [xs ! n]"
      using i Suc.prems(2) by (simp add: take_Suc_conv_app_nth)
    ultimately show ?thesis by simp
  qed
qed

lemma shift_down:
  assumes "n = i + 1 + k" and "n \<le> length xs"
  shows "forE [int i..int n - 2] (\<lambda>i xs. dq_move i (i + 1) xs xs) xs =
    Inr (take i xs @ drop (Suc i) (take n xs) @ drop (n - 1) xs)"
  using assms
proof (induction k arbitrary: i xs)
  case (Suc k)
  let ?xs = "xs[i := xs ! Suc i]"
  have "[int i..int n - 2] = int i # [int (Suc i)..int n - 2]"
    using Suc.prems(1) by (simp add: upto_rec1 add.commute)
  moreover have "dq_move (int i) (int i + 1) xs xs = Inr ?xs"
    using Suc.prems by (simp add: dq_move_def nat_add_distrib)
  moreover have "forE [int (Suc i)..int n - 2] (\<lambda>i xs. dq_move i (i + 1) xs xs) ?xs =
    Inr (take (Suc i) ?xs @ drop (Suc (Suc i)) (take n ?xs) @ drop (n - 1) ?xs)"
    using Suc.IH [of "Suc i" ?xs] Suc.prems by simp
  moreover have "take (Suc i) ?xs = take i xs @ [xs ! Suc i]"
    using Suc.prems by (simp add: take_Suc_conv_app_nth)
  moreover have "drop (Suc (Suc i)) (take n ?xs) = drop (Suc (Suc i)) (take n xs)"
    "drop (n - 1) ?xs = drop (n - 1) xs"
    using Suc.prems(1) by (simp_all add: drop_take)
  moreover have "drop (Suc i) (take n xs) = xs ! Suc i # drop (Suc (Suc i)) (take n xs)"
    using Suc.prems by (subst Cons_nth_drop_Suc [symmetric]) simp_all
  ultimately show ?case by simp
qed simp

lemma take_prefix: "length xs = n \<Longrightarrow> take n (xs @ ys) = xs"
  by auto

lemma dq_room:
  assumes I: "dq_inv q" and small: "length (dq_data q) < 2 ^ 29"
  obtains q' where "(if dq_size q = dq_capacity q then dq_resize d (dq_capacity q * 2) True q else Inr q) = Inr q'"
    and "dq_inv q'" and "elems q' = elems q" and "dq_len q' = dq_len q" and "dq_len q < length (dq_data q')"
    and "length (dq_data q') \<le> 2 * length (dq_data q)"
proof (cases "dq_size q = dq_capacity q")
  case True
  have c: "unat (dq_capacity q) = length (dq_data q)" using dq_invD(1) [OF I] .
  have two: "unat (dq_capacity q * 2) = 2 * length (dq_data q)"
    using c small by (simp add: unat_mult_lem [THEN iffD1] mult.commute)
  have l: "dq_len q = length (dq_data q)" using True c by (simp add: dq_len_def)
  obtain q' where q': "dq_resize d (dq_capacity q * 2) True q = Inr q'" "dq_inv q'" "elems q' = elems q"
    "length (dq_data q') = max 4 (unat (dq_capacity q * 2))"
    using dq_resize_elems [OF I, of "dq_capacity q * 2" d] two small l by auto
  have "dq_len q' = dq_len q" using q'(3) dq_invD(2) [OF I] dq_invD(2) [OF q'(2)] by metis
  moreover have "dq_len q < length (dq_data q')" "length (dq_data q') \<le> 2 * length (dq_data q)"
    using q'(4) two l I by (auto simp: dq_inv_def)
  ultimately show thesis using that q' True by simp
next
  case False
  have "dq_len q \<noteq> length (dq_data q)"
    using False I dq_invD(1,5) [OF I] by (metis word_of_unat)
  then show thesis using that [of q] False I by (auto simp: dq_inv_def)
qed

lemma dq_insert_elems:
  assumes I: "dq_inv q" and small: "length (dq_data q) < 2 ^ 29" and i: "i \<le> dq_len q"
  obtains q' where "dq_insert d (int i) v q = Inr q'" and "dq_inv q'"
    and "elems q' = take i (elems q) @ v # drop i (elems q)" and "length (dq_data q') \<le> 2 * length (dq_data q)"
proof (rule dq_room [OF I small, of d])
  fix q1 assume q1: "(if dq_size q = dq_capacity q then dq_resize d (dq_capacity q * 2) True q else Inr q) = Inr q1"
    "dq_inv q1" "elems q1 = elems q" "dq_len q1 = dq_len q" "dq_len q < length (dq_data q1)"
    "length (dq_data q1) \<le> 2 * length (dq_data q)"
  let ?n = "dq_len q" and ?xs = "dq_data q1"
  let ?ys = "take i ?xs @ v # drop i (take ?n ?xs) @ drop (Suc ?n) ?xs"
  let ?q = "q1\<lparr>dq_data := ?ys, dq_size := dq_size q1 + 1\<rparr>"
  have "forE (downto (int ?n) (int i)) (\<lambda>i xs. dq_move i (i - 1) xs xs) ?xs =
    Inr (take (Suc i) ?xs @ drop i (take ?n ?xs) @ drop (Suc ?n) ?xs)"
    by (rule shift_up) (use i q1(5) in auto)
  moreover have "aset (take (Suc i) ?xs @ drop i (take ?n ?xs) @ drop (Suc ?n) ?xs) (int i) v = Inr ?ys"
    using i q1(5) by (simp add: list_update_append take_Suc_conv_app_nth)
  ultimately have "dq_insert d (int i) v q = Inr ?q"
    using q1(1,4) dq_invD(3) [OF q1(2)] by (simp add: dq_insert_def)
  moreover have l: "dq_len ?q = Suc ?n"
    using dq_invD(4) [OF q1(2)] q1(4) unat_add_small [of "dq_size q1" 1] by (simp add: dq_len_def)
  have len: "length ?ys = length ?xs" using i q1(5) by simp
  then have d: "length (dq_data ?q) = length ?xs" by simp
  have "dq_inv ?q" unfolding dq_inv_def l d using q1(2,5) by (simp add: dq_inv_def)
  moreover have "elems ?q = take i (elems q) @ v # drop i (elems q)"
  proof -
    let ?zs = "take i ?xs @ v # drop i (take ?n ?xs)"
    have z: "length ?zs = Suc ?n" using i q1(5) by simp
    have dq: "dq_data ?q = ?zs @ drop (Suc ?n) ?xs" by simp
    have "elems ?q = ?zs" unfolding elems_def l dq by (rule take_prefix [OF z])
    then show ?thesis using i by (simp only: q1(3) [symmetric]) (simp add: elems_def q1(4) min_def)
  qed
  ultimately show thesis using that q1(6) len by simp
qed

lemma dq_erase_elems:
  assumes I: "dq_inv q" and i: "i < dq_len q"
  obtains q' where "dq_erase d (int i) q = Inr q'" and "dq_inv q'"
    and "elems q' = take i (elems q) @ drop (Suc i) (elems q)" and "length (dq_data q') \<le> length (dq_data q)"
proof -
  let ?n = "dq_len q" and ?xs = "dq_data q"
  let ?ys = "take i ?xs @ drop (Suc i) (take ?n ?xs) @ drop (?n - 1) ?xs"
  let ?q = "q\<lparr>dq_data := ?ys, dq_size := dq_size q - 1\<rparr>"
  have n: "?n \<le> length ?xs" "4 \<le> length ?xs" using I by (auto simp: dq_inv_def)
  have f: "forE [int i..int ?n - 2] (\<lambda>i xs. dq_move i (i + 1) xs xs) ?xs = Inr ?ys"
    by (rule shift_down [of _ _ "?n - 1 - i"]) (use i n in auto)
  have "dq_size q \<noteq> 0" using i by (auto simp: dq_len_def)
  then have l: "dq_len ?q = ?n - 1" by (simp add: dq_len_def unat_minus_one)
  have len: "length ?ys = length ?xs" using i n by simp
  have J: "dq_inv ?q" unfolding dq_inv_def l using I len by (auto simp: dq_inv_def)
  let ?zs = "take i ?xs @ drop (Suc i) (take ?n ?xs)"
  have z: "length ?zs = ?n - 1" using i n by simp
  have dq: "dq_data ?q = ?zs @ drop (?n - 1) ?xs" by simp
  have "elems ?q = ?zs" unfolding elems_def l dq by (rule take_prefix [OF z])
  then have e: "elems ?q = take i (elems q) @ drop (Suc i) (elems q)"
    using i by (simp add: elems_def min_def)
  have er: "dq_erase d (int i) q = (if dq_size ?q \<le> dq_capacity ?q div 4
    then dq_resize d (dq_capacity ?q div 2) True ?q else Inr ?q)"
    using f dq_invD(3) [OF I] by (simp add: dq_erase_def Let_def)
  show thesis
  proof (cases "dq_size ?q \<le> dq_capacity ?q div 4")
    case True
    have c: "unat (dq_capacity ?q) = length ?xs" using dq_invD(1) [OF I] by simp
    then have h: "unat (dq_capacity ?q div 2) = length ?xs div 2" "unat (dq_capacity ?q div 4) = length ?xs div 4"
      by (simp_all add: unat_div)
    then have "dq_len ?q \<le> length ?xs div 4" using True by (simp add: dq_len_def word_le_nat_alt)
    then have "dq_len ?q \<le> unat (dq_capacity ?q div 2)" unfolding h by simp
    moreover have "unat (dq_capacity ?q div 2) < 2 ^ 30" unfolding h using I by (auto simp: dq_inv_def)
    ultimately obtain q' where "dq_resize d (dq_capacity ?q div 2) True ?q = Inr q'" "dq_inv q'" "elems q' = elems ?q"
      "length (dq_data q') = max 4 (unat (dq_capacity ?q div 2))"
      using dq_resize_elems [OF J, of "dq_capacity ?q div 2" d] by metis
    then show thesis using that True er e h n by auto
  next
    case False
    then show thesis using that er J e len by simp
  qed
qed


lemma dq_search_spec:
  assumes "i + n \<le> length xs"
  shows "dq_search n i v xs = Inr (if v \<in> set (take n (drop i xs))
    then Some (i + (LEAST k. k < n \<and> xs ! (i + k) = v)) else None)"
  using assms
proof (induction n arbitrary: i)
  case (Suc n)
  have d: "take (Suc n) (drop i xs) = xs ! i # take n (drop (Suc i) xs)"
    using Suc.prems by (simp add: Cons_nth_drop_Suc [symmetric])
  show ?case
  proof (cases "xs ! i = v")
    case True
    then have "(LEAST k. k < Suc n \<and> xs ! (i + k) = v) = 0" by (intro Least_eq_0) simp
    then show ?thesis using True d Suc.prems by simp
  next
    case False
    have "dq_search (Suc n) i v xs = dq_search n (Suc i) v xs" using False Suc.prems by simp
    moreover have "(LEAST k. k < Suc n \<and> xs ! (i + k) = v) = Suc (LEAST k. k < n \<and> xs ! (Suc i + k) = v)"
      if "v \<in> set (take n (drop (Suc i) xs))"
    proof -
      from that obtain k where "k < n" "xs ! (Suc i + k) = v"
        using Suc.prems by (auto simp: in_set_conv_nth)
      then have ex: "Suc k < Suc n \<and> xs ! (i + Suc k) = v" by simp
      have "(LEAST k. k < Suc n \<and> xs ! (i + k) = v) = Suc (LEAST k. Suc k < Suc n \<and> xs ! (i + Suc k) = v)"
        by (rule Least_Suc [of _ "Suc k"]) (use ex False in auto)
      then show ?thesis by simp
    qed
    ultimately show ?thesis using Suc.IH [of "Suc i"] Suc.prems d False by simp
  qed
qed simp

lemma dq_search_elems:
  assumes "dq_inv q"
  obtains (found) k where "dq_search (dq_len q) 0 v (dq_data q) = Inr (Some k)" "k < dq_len q"
      "elems q ! k = v" "v \<notin> set (take k (elems q))"
    | (absent) "dq_search (dq_len q) 0 v (dq_data q) = Inr None" "v \<notin> set (elems q)"
proof (cases "v \<in> set (elems q)")
  case True
  define k where "k = (LEAST k. k < dq_len q \<and> dq_data q ! k = v)"
  have n: "dq_len q \<le> length (dq_data q)" using assms by (simp add: dq_inv_def)
  have "\<exists>k. k < dq_len q \<and> dq_data q ! k = v" using True n by (auto simp: elems_def in_set_conv_nth)
  from LeastI_ex [OF this] have k: "k < dq_len q" "dq_data q ! k = v" unfolding k_def by blast+
  have min: "j < k \<Longrightarrow> \<not> (j < dq_len q \<and> dq_data q ! j = v)" for j
    unfolding k_def by (rule not_less_Least)
  have "v \<notin> set (take k (elems q))"
  proof
    assume "v \<in> set (take k (elems q))"
    then obtain j where "j < k" "j < dq_len q" "dq_data q ! j = v"
      using n by (auto simp: elems_def in_set_conv_nth)
    then show False using min by blast
  qed
  moreover have "dq_search (dq_len q) 0 v (dq_data q) = Inr (Some k)"
    using dq_search_spec [of 0 "dq_len q" "dq_data q" v] True n by (simp add: elems_def k_def)
  ultimately show thesis using found k by (simp add: elems_def)
next
  case False
  then show thesis using absent dq_search_spec [of 0 "dq_len q" "dq_data q" v] assms
    by (simp add: elems_def dq_inv_def)
qed

lemma take_drop_remove1:
  "k < length xs \<Longrightarrow> xs ! k = v \<Longrightarrow> v \<notin> set (take k xs) \<Longrightarrow> take k xs @ drop (Suc k) xs = remove1 v xs"
  by (subst (3) id_take_nth_drop [of k xs]) (simp_all add: remove1_append)

text \<open>C23: The deque implements a list. On a well-formed deque (below \<open>2 ^ 29\<close> slots) insertion at an
  index, at the back and at the front, removal at an index, at the back and at the front, removal
  of the first occurrence of a value, and the search for it all return, keep the deque well formed
  and have the effect of the list operation, growing and shrinking the array as needed.\<close>

theorem deque_refines_list:
  assumes I: "dq_inv q" and small: "length (dq_data q) < 2 ^ 29"
  shows "(\<forall>i \<le> dq_len q. \<exists>q'. dq_insert d (int i) v q = Inr q' \<and> dq_inv q' \<and>
      elems q' = take i (elems q) @ v # drop i (elems q)) \<and>
    (\<forall>i < dq_len q. \<exists>q'. dq_erase d (int i) q = Inr q' \<and> dq_inv q' \<and>
      elems q' = take i (elems q) @ drop (Suc i) (elems q)) \<and>
    (\<exists>q'. push_back d v q = Inr q' \<and> dq_inv q' \<and> elems q' = elems q @ [v]) \<and>
    (\<exists>q'. push_front d v q = Inr q' \<and> dq_inv q' \<and> elems q' = v # elems q) \<and>
    (elems q \<noteq> [] \<longrightarrow> (\<exists>q'. pop_back d q = Inr q' \<and> dq_inv q' \<and> elems q' = butlast (elems q)) \<and>
       (\<exists>q'. pop_front d q = Inr q' \<and> dq_inv q' \<and> elems q' = tl (elems q))) \<and>
    (\<exists>q'. dq_remove d v q = Inr q' \<and> dq_inv q' \<and> elems q' = remove1 v (elems q)) \<and>
    (\<exists>r. dq_find v q = Inr r \<and> (if v \<in> set (elems q) then 0 \<le> r \<and> nat r < dq_len q \<and>
       elems q ! nat r = v \<and> v \<notin> set (take (nat r) (elems q)) else r = -1))"
proof (intro conjI allI impI)
  have len: "length (elems q) = dq_len q" using dq_invD(2) [OF I] .
  note ins = dq_insert_elems [OF I small] and er = dq_erase_elems [OF I]
  show insert: "\<exists>q'. dq_insert d (int i) v q = Inr q' \<and> dq_inv q' \<and> elems q' = take i (elems q) @ v # drop i (elems q)"
    if "i \<le> dq_len q" for i using ins [OF that, of d v] by metis
  show erase: "\<exists>q'. dq_erase d (int i) q = Inr q' \<and> dq_inv q' \<and> elems q' = take i (elems q) @ drop (Suc i) (elems q)"
    if "i < dq_len q" for i using er [OF that, of d] by metis
  show "\<exists>q'. push_back d v q = Inr q' \<and> dq_inv q' \<and> elems q' = elems q @ [v]"
    using insert [of "dq_len q"] len dq_invD(3) [OF I] by (simp add: push_back_def)
  show "\<exists>q'. push_front d v q = Inr q' \<and> dq_inv q' \<and> elems q' = v # elems q"
    using insert [of 0] by (simp add: push_front_def)
  show "\<exists>q'. pop_front d q = Inr q' \<and> dq_inv q' \<and> elems q' = tl (elems q)" if "elems q \<noteq> []"
    using erase [of 0] that len by (cases "elems q") (auto simp: pop_front_def)
  show "\<exists>q'. pop_back d q = Inr q' \<and> dq_inv q' \<and> elems q' = butlast (elems q)" if "elems q \<noteq> []"
  proof -
    have n: "0 < dq_len q" using that len by (cases "elems q") auto
    then have "dq_size q \<noteq> 0" by (auto simp: dq_len_def)
    then have "uint (dq_size q - 1) = int (dq_len q - 1)"
      using unat_minus_one [of "dq_size q"] by (metis dq_len_def uint_nat)
    then have "int32 (uint (dq_size q - 1)) = int (dq_len q - 1)"
      using dq_invD(4) [OF I] by (simp add: int32_id)
    then show ?thesis using erase [of "dq_len q - 1"] n len by (simp add: pop_back_def butlast_conv_take)
  qed
  show "\<exists>q'. dq_remove d v q = Inr q' \<and> dq_inv q' \<and> elems q' = remove1 v (elems q)"
  proof (rule dq_search_elems [OF I, of v])
    fix k assume k: "dq_search (dq_len q) 0 v (dq_data q) = Inr (Some k)" "k < dq_len q" "elems q ! k = v"
      "v \<notin> set (take k (elems q))"
    then show ?thesis using erase [OF k(2)] take_drop_remove1 [of k "elems q" v] len dq_invD(4) [OF I]
      by (auto simp: dq_remove_def dq_len_def [symmetric] int32_id)
  qed (use I in \<open>auto simp: dq_remove_def dq_len_def [symmetric] remove1_idem\<close>)
  show "\<exists>r. dq_find v q = Inr r \<and> (if v \<in> set (elems q) then 0 \<le> r \<and> nat r < dq_len q \<and>
       elems q ! nat r = v \<and> v \<notin> set (take (nat r) (elems q)) else r = -1)"
    by (rule dq_search_elems [OF I, of v])
      (use len dq_invD(4) [OF I] in \<open>auto simp: dq_find_def dq_len_def [symmetric] int32_id dest: nth_mem\<close>)
qed

theorem deque_refines_list_witness:
  "\<exists>q. push_back 0 (7 :: nat) (Deque 0 4) = Inr q \<and> elems q = [7]"
proof -
  have "dq_inv (Deque (0 :: nat) 4)" by (simp add: dq_inv_def Deque_def dq_len_def)
  moreover have "elems (Deque (0 :: nat) 4) = []" by (simp add: elems_def Deque_def dq_len_def)
  ultimately show ?thesis using deque_refines_list [of "Deque (0 :: nat) 4" 0 7] by (auto simp: Deque_def)
qed

end
