(* ===== verification/TimerMultiplexer.thy ===== *)
theory TimerMultiplexer
  imports Deque
begin

text \<open>
  The core timer of \<^verbatim>\<open>kernel/Timer.cc\<close> and the software timers of \<^verbatim>\<open>kernel/TimerMultiplexer.cc\<close> over
  the deque. Of the timer's system registers the model keeps the count \<open>CNTP_TVAL_EL0\<close> last written.
  Calling the callback of an event appends it to \<open>fired\<close>; a callback does not add timers itself.
\<close>

record arm_core_timer =
  is_enabled :: bool
  interval :: u32
  jiffies :: u32
  cntp_tval :: u64

definition ARMCoreTimer :: arm_core_timer where
  "ARMCoreTimer = \<lparr>is_enabled = False, interval = 1, jiffies = 0, cntp_tval = 0\<rparr>"

definition arrange_next_timer_irq_after :: "u32 \<Rightarrow> arm_core_timer \<Rightarrow> arm_core_timer" where
  "arrange_next_timer_irq_after second t = t\<lparr>cntp_tval := 0x0ffff\<rparr>"

definition enable :: "arm_core_timer \<Rightarrow> arm_core_timer" where
  "enable t =
     (if is_enabled t then t else (arrange_next_timer_irq_after (interval t) t)\<lparr>is_enabled := True\<rparr>)"

definition disable :: "arm_core_timer \<Rightarrow> arm_core_timer" where
  "disable t = (if \<not> is_enabled t then t else t\<lparr>is_enabled := False\<rparr>)"

definition core_tick :: "arm_core_timer \<Rightarrow> arm_core_timer" where
  "core_tick t = (arrange_next_timer_irq_after (interval t) t)\<lparr>jiffies := jiffies t + 1\<rparr>"

record 'c event =
  callback :: 'c
  timeout :: u32

record 'c timer_multiplexer =
  core :: arm_core_timer
  events :: "'c event deque"
  fired :: "'c list"

definition TimerMultiplexer :: "'c event \<Rightarrow> 'c timer_multiplexer" where
  "TimerMultiplexer d = \<lparr>core = ARMCoreTimer, events = Deque d (uint DEFAULT_SIZE), fired = []\<rparr>"

text \<open>The body of the loop of \<open>tick\<close> at index \<open>i\<close>; it returns the index after a possible \<open>i--\<close>.\<close>

definition tick_body ::
  "'c event \<Rightarrow> u64 \<Rightarrow> 'c timer_multiplexer \<Rightarrow> kerror + (u64 \<times> 'c timer_multiplexer)" where
  "tick_body d i tm =
     bindE (dq_nth i (events tm)) (\<lambda>ev.
     bindE (dq_put i (ev\<lparr>timeout := timeout ev - 1\<rparr>) (events tm)) (\<lambda>q.
     bindE (if timeout ev = 0
            then bindE (dq_erase d (int32 (uint i)) q) (\<lambda>q.
                 Inr (i - 1, tm\<lparr>events := q, fired := fired tm @ [callback ev]\<rparr>))
            else Inr (i, tm\<lparr>events := q\<rparr>)) (\<lambda>(i, tm).
     if dq_empty (events tm)
     then bindE (dq_clear d (events tm)) (\<lambda>q. Inr (i, tm\<lparr>events := q, core := disable (core tm)\<rparr>))
     else Inr (i, tm))))"

partial_function (option) tick_loop ::
  "'c event \<Rightarrow> u64 \<Rightarrow> 'c timer_multiplexer \<Rightarrow> (kerror + 'c timer_multiplexer) option" where
  "tick_loop d i tm =
     (if i < dq_size (events tm)
      then case tick_body d i tm of
             Inl e \<Rightarrow> Some (Inl e)
           | Inr r \<Rightarrow> tick_loop d (fst r + 1) (snd r)
      else Some (Inr tm))"

definition tick :: "'c event \<Rightarrow> 'c timer_multiplexer \<Rightarrow> kerror + 'c timer_multiplexer" where
  "tick d tm = bindE (returned (tick_loop d 0 (tm\<lparr>core := core_tick (core tm)\<rparr>))) (\<lambda>r. r)"

definition add_timer :: "'c event \<Rightarrow> 'c \<Rightarrow> u32 \<Rightarrow> 'c timer_multiplexer \<Rightarrow> kerror + 'c timer_multiplexer" where
  "add_timer d cb secs tm =
     bindE (push_back d \<lparr>callback = cb, timeout = secs\<rparr> (events tm)) (\<lambda>q.
     Inr (tm\<lparr>events := q, core := enable (core tm)\<rparr>))"


subsection \<open>What a tick does\<close>

abbreviation timers :: "'c timer_multiplexer \<Rightarrow> 'c event list" where
  "timers tm \<equiv> elems (events tm)"

definition due :: "'c event \<Rightarrow> bool" where
  "due ev \<longleftrightarrow> timeout ev = 0"

definition count_down :: "'c event \<Rightarrow> 'c event" where
  "count_down ev = ev\<lparr>timeout := timeout ev - 1\<rparr>"

lemma dq_put_elems:
  assumes I: "dq_inv q" and i: "i < dq_len q"
  shows "\<exists>q'. dq_put (of_nat i) v q = Inr q' \<and> dq_inv q' \<and> elems q' = (elems q)[i := v] \<and>
    dq_len q' = dq_len q \<and> length (dq_data q') = length (dq_data q)"
    and "dq_nth (of_nat i) q = Inr (elems q ! i)"
    and "int32 (uint (of_nat i :: u64)) = int i" and "(of_nat i :: u64) < dq_size q"
proof -
  have b: "i < 2 ^ 30" "dq_len q \<le> length (dq_data q)" using i dq_invD(4) [OF I] I by (auto simp: dq_inv_def)
  have u: "uint (of_nat i :: u64) = int i"
    using b(1) by (simp add: unsigned_of_nat take_bit_nat_eq_self)
  let ?q = "q\<lparr>dq_data := (dq_data q)[i := v]\<rparr>"
  have "dq_put (of_nat i) v q = Inr ?q" using u i b by (simp add: dq_put_def)
  moreover have "dq_inv ?q" "elems ?q = (elems q)[i := v]" "dq_len ?q = dq_len q"
    using I by (auto simp: dq_inv_def elems_def dq_len_def take_update_swap)
  ultimately show "\<exists>q'. dq_put (of_nat i) v q = Inr q' \<and> dq_inv q' \<and> elems q' = (elems q)[i := v] \<and>
    dq_len q' = dq_len q \<and> length (dq_data q') = length (dq_data q)" by auto
  show "dq_nth (of_nat i) q = Inr (elems q ! i)" using u i b by (simp add: dq_nth_def elems_def)
  show "int32 (uint (of_nat i :: u64)) = int i" unfolding u using b(1) by (simp add: int32_id)
  show "(of_nat i :: u64) < dq_size q"
    using i b(1) unat_of_nat_small [of i] by (simp add: word_less_nat_alt dq_len_def)
qed

lemma dq_clear_elems:
  "dq_inv q \<Longrightarrow> \<exists>q'. dq_clear d q = Inr q' \<and> dq_inv q' \<and> elems q' = [] \<and> length (dq_data q') = 4"
  by (simp add: dq_clear_def dq_resize_def DEFAULT_SIZE_def Let_def dq_inv_def elems_def dq_len_def)

lemma tick_body_spec:
  assumes I: "dq_inv (events tm)" and e: "timers tm = xs @ ev # ys"
  shows "\<exists>i' tm'. tick_body d (of_nat (length xs)) tm = Inr (i', tm') \<and> dq_inv (events tm') \<and>
    length (dq_data (events tm')) \<le> length (dq_data (events tm)) \<and>
    (if due ev then timers tm' = xs @ ys \<and> i' + 1 = of_nat (length xs) \<and> fired tm' = fired tm @ [callback ev] \<and>
        core tm' = (if xs @ ys = [] then disable (core tm) else core tm)
     else timers tm' = xs @ count_down ev # ys \<and> i' = of_nat (length xs) \<and> fired tm' = fired tm \<and>
        core tm' = core tm)"
proof -
  let ?i = "length xs" and ?q = "events tm"
  have i: "?i < dq_len ?q" using dq_invD(2) [OF I] e by simp
  note P = dq_put_elems [OF I i]
  obtain q1 where q1: "dq_put (of_nat ?i) (count_down ev) ?q = Inr q1" "dq_inv q1"
    "elems q1 = xs @ count_down ev # ys" "dq_len q1 = dq_len ?q" "length (dq_data q1) = length (dq_data ?q)"
    using P(1) [of "count_down ev"] e by auto
  have nth: "dq_nth (of_nat ?i) ?q = Inr ev" using P(2) e by simp
  have empty: "dq_empty q \<longleftrightarrow> elems q = []" if "dq_inv q" for q :: "'a event deque"
    using dq_invD(2) [OF that] by (auto simp: dq_empty_def dq_len_def unat_eq_zero [symmetric])
  show ?thesis
  proof (cases "due ev")
    case True
    obtain q2 where q2: "dq_erase d (int ?i) q1 = Inr q2" "dq_inv q2" "elems q2 = xs @ ys"
      "length (dq_data q2) \<le> length (dq_data q1)"
      using dq_erase_elems [OF q1(2), of ?i d] i q1(3,4) by (auto simp: append_eq_conv_conj)
    show ?thesis
    proof (cases "xs @ ys = []")
      case none: True
      obtain q3 where "dq_clear d q2 = Inr q3" "dq_inv q3" "elems q3 = []" "length (dq_data q3) = 4"
        using dq_clear_elems [OF q2(2)] by blast
      moreover have "4 \<le> length (dq_data ?q)" using I by (simp add: dq_inv_def)
      ultimately show ?thesis
        using nth q1 q2 P(3) empty [OF q2(2)] True none
        by (simp add: tick_body_def due_def count_down_def)
    next
      case False
      then show ?thesis
        using nth q1 q2 P(3) empty [OF q2(2)] True by (auto simp: tick_body_def due_def count_down_def)
    qed
  next
    case False
    then show ?thesis
      using nth q1 empty [OF q1(2)] by (simp add: tick_body_def due_def count_down_def)
  qed
qed

lemma tick_loop_spec:
  assumes "dq_inv (events tm)" and "timers tm = xs @ ys"
  shows "\<exists>tm'. tick_loop d (of_nat (length xs)) tm = Some (Inr tm') \<and> dq_inv (events tm') \<and>
    length (dq_data (events tm')) \<le> length (dq_data (events tm)) \<and>
    timers tm' = xs @ map count_down (filter (\<lambda>e. \<not> due e) ys) \<and>
    fired tm' = fired tm @ map callback (filter due ys) \<and>
    core tm' = (if ys \<noteq> [] \<and> timers tm' = [] then disable (core tm) else core tm)"
  using assms
proof (induction ys arbitrary: xs tm)
  case Nil
  have "dq_len (events tm) = length xs" using dq_invD(2) [OF Nil.prems(1)] Nil.prems(2) by simp
  then have "\<not> of_nat (length xs) < dq_size (events tm)"
    using dq_invD(5) [OF Nil.prems(1)] by simp
  then show ?case using Nil.prems by (subst tick_loop.simps) simp
next
  case (Cons ev ys)
  have "length xs < dq_len (events tm)" using dq_invD(2) [OF Cons.prems(1)] Cons.prems(2) by simp
  then have lt: "of_nat (length xs) < dq_size (events tm)" by (rule dq_put_elems(4) [OF Cons.prems(1)])
  obtain i' tm1 where b: "tick_body d (of_nat (length xs)) tm = Inr (i', tm1)" "dq_inv (events tm1)"
    "length (dq_data (events tm1)) \<le> length (dq_data (events tm))"
    "if due ev then timers tm1 = xs @ ys \<and> i' + 1 = of_nat (length xs) \<and> fired tm1 = fired tm @ [callback ev] \<and>
        core tm1 = (if xs @ ys = [] then disable (core tm) else core tm)
     else timers tm1 = xs @ count_down ev # ys \<and> i' = of_nat (length xs) \<and> fired tm1 = fired tm \<and> core tm1 = core tm"
    using tick_body_spec [OF Cons.prems] by blast
  have step: "tick_loop d (of_nat (length xs)) tm = tick_loop d (i' + 1) tm1"
    using lt b(1) by (subst tick_loop.simps) simp
  show ?case
  proof (cases "due ev")
    case True
    then show ?thesis
      using Cons.IH [of tm1 xs] b step by (cases "ys = []") (auto intro: le_trans)
  next
    case False
    then have i: "i' + 1 = of_nat (length (xs @ [count_down ev]))" using b(4) by (simp add: add.commute)
    obtain tm' where "tick_loop d (i' + 1) tm1 = Some (Inr tm')" "dq_inv (events tm')"
      "length (dq_data (events tm')) \<le> length (dq_data (events tm1))"
      "timers tm' = (xs @ [count_down ev]) @ map count_down (filter (\<lambda>e. \<not> due e) ys)"
      "fired tm' = fired tm1 @ map callback (filter due ys)" "core tm' = core tm1"
      unfolding i using Cons.IH [of tm1 "xs @ [count_down ev]"] b False by auto
    then show ?thesis unfolding step using b False by auto
  qed
qed


lemma tick_spec:
  assumes "dq_inv (events tm)"
  shows "\<exists>tm'. tick d tm = Inr tm' \<and> dq_inv (events tm') \<and>
    length (dq_data (events tm')) \<le> length (dq_data (events tm)) \<and>
    timers tm' = map count_down (filter (\<lambda>e. \<not> due e) (timers tm)) \<and>
    fired tm' = fired tm @ map callback (filter due (timers tm)) \<and>
    jiffies (core tm') = jiffies (core tm) + 1 \<and>
    (is_enabled (core tm') \<longleftrightarrow> is_enabled (core tm) \<and> (timers tm = [] \<or> timers tm' \<noteq> []))"
  using tick_loop_spec [of "tm\<lparr>core := core_tick (core tm)\<rparr>" "[]" "timers tm" d] assms
  by (auto simp: tick_def core_tick_def disable_def arrange_next_timer_irq_after_def)

primrec ticks :: "nat \<Rightarrow> 'c event \<Rightarrow> 'c timer_multiplexer \<Rightarrow> kerror + 'c timer_multiplexer" where
  "ticks 0 d tm = Inr tm"
| "ticks (Suc n) d tm = bindE (ticks n d tm) (tick d)"

text \<open>The events with \<open>n\<close> ticks left.\<close>

definition left_after :: "nat \<Rightarrow> 'c event list \<Rightarrow> 'c event list" where
  "left_after n es = map (\<lambda>e. e\<lparr>timeout := timeout e - of_nat n\<rparr>) (filter (\<lambda>e. n \<le> unat (timeout e)) es)"

lemma left_after_tick:
  "filter due (left_after n es) = map (\<lambda>e. e\<lparr>timeout := 0\<rparr>) (filter (\<lambda>e. unat (timeout e) = n) es)"
  "map count_down (filter (\<lambda>e. \<not> due e) (left_after n es)) = left_after (Suc n) es"
proof -
  have z: "timeout e = of_nat n \<longleftrightarrow> unat (timeout e) = n" if "n \<le> unat (timeout e)" for e :: "'a event"
  proof -
    have "unat (timeout e) < 2 ^ 32" using unsigned_less [of "timeout e"] by simp
    then have "unat (of_nat n :: u32) = n" using that by (simp add: unat_of_nat)
    then show ?thesis using word_unat_eq_iff [of "timeout e" "of_nat n"] by simp
  qed
  then have hit: "timeout e = of_nat n \<and> n \<le> unat (timeout e) \<longleftrightarrow> unat (timeout e) = n"
    and miss: "timeout e \<noteq> of_nat n \<and> n \<le> unat (timeout e) \<longleftrightarrow> Suc n \<le> unat (timeout e)" for e :: "'a event"
    by (metis order_refl, metis Suc_leD Suc_le_eq le_neq_implies_less less_irrefl)
  have "filter due (left_after n es) = map (\<lambda>e. e\<lparr>timeout := timeout e - of_nat n\<rparr>)
    (filter (\<lambda>e. unat (timeout e) = n) es)"
    unfolding left_after_def filter_map filter_filter
    by (rule arg_cong [of _ _ "map _"], rule filter_cong) (simp_all add: due_def hit conj_commute)
  also have "\<dots> = map (\<lambda>e. e\<lparr>timeout := 0\<rparr>) (filter (\<lambda>e. unat (timeout e) = n) es)"
    by (rule map_cong) (auto simp: hit [symmetric])
  finally show "filter due (left_after n es) = map (\<lambda>e. e\<lparr>timeout := 0\<rparr>) (filter (\<lambda>e. unat (timeout e) = n) es)" .
  have "filter (\<lambda>e. \<not> due e) (left_after n es) = map (\<lambda>e. e\<lparr>timeout := timeout e - of_nat n\<rparr>)
    (filter (\<lambda>e. Suc n \<le> unat (timeout e)) es)"
    unfolding left_after_def filter_map filter_filter
    by (rule arg_cong [of _ _ "map _"], rule filter_cong) (use miss in \<open>auto simp: due_def\<close>)
  then show "map count_down (filter (\<lambda>e. \<not> due e) (left_after n es)) = left_after (Suc n) es"
    by (simp add: left_after_def count_down_def algebra_simps)
qed

lemma left_after_0: "left_after 0 es = es"
  by (simp add: left_after_def)

text \<open>C20: Software timers fire on time, once and in order: after \<open>n\<close> ticks no error has occurred, the
  callbacks called are those of the events with timeout 0, then those with timeout 1, and so on up
  to \<open>n - 1\<close>, each group in the order of registration, and the events still waiting are the others,
  with \<open>n\<close> subtracted from their timeouts. In particular an event with timeout \<open>t\<close> fires in tick
  \<open>t + 1\<close>.\<close>

theorem timers_fire:
  assumes "dq_inv (events tm)"
  shows "\<exists>tm'. ticks n d tm = Inr tm' \<and> dq_inv (events tm') \<and> timers tm' = left_after n (timers tm) \<and>
    fired tm' = fired tm @ concat (map (\<lambda>k. map callback (filter (\<lambda>e. unat (timeout e) = k) (timers tm))) [0..<n])"
proof (induction n)
  case 0
  then show ?case using assms by (simp add: left_after_0)
next
  case (Suc n)
  then obtain tm1 where 1: "ticks n d tm = Inr tm1" "dq_inv (events tm1)" "timers tm1 = left_after n (timers tm)"
    "fired tm1 = fired tm @ concat (map (\<lambda>k. map callback (filter (\<lambda>e. unat (timeout e) = k) (timers tm))) [0..<n])"
    by blast
  then show ?case using tick_spec [OF 1(2), of d] by (auto simp: left_after_tick comp_def)
qed

theorem timers_fire_witness:
  "\<exists>tm1 tm2. add_timer \<lparr>callback = ''none'', timeout = 0\<rparr> ''beep'' 2
      (TimerMultiplexer \<lparr>callback = ''none'', timeout = 0\<rparr>) = Inr tm1 \<and>
    ticks 3 \<lparr>callback = ''none'', timeout = 0\<rparr> tm1 = Inr tm2 \<and> fired tm2 = [''beep'']"
proof -
  let ?d = "\<lparr>callback = ''none'', timeout = 0\<rparr>" and ?e = "\<lparr>callback = ''beep'', timeout = 2\<rparr>"
  let ?q = "events (TimerMultiplexer ?d)"
  have q: "dq_inv ?q" "elems ?q = []" "length (dq_data ?q) < 2 ^ 29" "dq_size ?q = 0" "dq_len ?q = 0"
    by (simp_all add: TimerMultiplexer_def Deque_def dq_inv_def elems_def dq_len_def DEFAULT_SIZE_def)
  obtain q' where "dq_insert ?d (int 0) ?e ?q = Inr q'" "dq_inv q'" "elems q' = [?e]"
    using dq_insert_elems [OF q(1,3), of 0 ?d ?e] q(2) by auto
  then have "push_back ?d ?e ?q = Inr q'" "dq_inv q'" "elems q' = [?e]"
    using q(4) by (simp_all add: push_back_def int32_id)
  then show ?thesis
    using timers_fire [of "TimerMultiplexer ?d\<lparr>events := q', core := enable ARMCoreTimer\<rparr>" 3 ?d]
    by (auto simp: add_timer_def TimerMultiplexer_def upt_rec)
qed

end
