(* ===== verification/CString.thy ===== *)
theory CString
  imports Kernel_Prelude
begin

text \<open>
  The routines of \<^verbatim>\<open>lib/CString.cc\<close> over a byte-addressed memory. A pointer is an address, \<open>char\<close>
  is unsigned as on AArch64, and a loop that runs to a terminating zero byte is a partial function:
  \<open>None\<close> is a scan that never finds one.
\<close>

type_synonym bytes = "u64 \<Rightarrow> u8"


subsection \<open>Blocks of memory\<close>

primrec memcpy_loop :: "nat \<Rightarrow> u64 \<Rightarrow> u64 \<Rightarrow> bytes \<Rightarrow> bytes" where
  "memcpy_loop 0 dest_p src_p m = m"
| "memcpy_loop (Suc n) dest_p src_p m = memcpy_loop n (dest_p + 1) (src_p + 1) (m(dest_p := m src_p))"

definition memcpy :: "u64 \<Rightarrow> u64 \<Rightarrow> u64 \<Rightarrow> bytes \<Rightarrow> bytes" where
  "memcpy dest src n m = memcpy_loop (unat n) dest src m"

primrec memset_loop :: "nat \<Rightarrow> u64 \<Rightarrow> u8 \<Rightarrow> bytes \<Rightarrow> bytes" where
  "memset_loop 0 dest_p v m = m"
| "memset_loop (Suc n) dest_p v m = memset_loop n (dest_p + 1) v (m(dest_p := v))"

definition memset :: "u64 \<Rightarrow> u8 \<Rightarrow> u64 \<Rightarrow> bytes \<Rightarrow> bytes" where
  "memset dest v n m = memset_loop (unat n) dest v m"

primrec memcmp_loop :: "nat \<Rightarrow> u64 \<Rightarrow> u64 \<Rightarrow> bytes \<Rightarrow> int" where
  "memcmp_loop 0 p1 p2 m = 0"
| "memcmp_loop (Suc n) p1 p2 m =
     (if m p1 \<noteq> m p2 then if m p1 < m p2 then -1 else 1
      else memcmp_loop n (p1 + 1) (p2 + 1) m)"

definition memcmp :: "u64 \<Rightarrow> u64 \<Rightarrow> u64 \<Rightarrow> bytes \<Rightarrow> int" where
  "memcmp ptr1 ptr2 num m = memcmp_loop (unat num) ptr1 ptr2 m"


subsection \<open>Strings\<close>

partial_function (option) strlen_loop :: "bytes \<Rightarrow> u64 \<Rightarrow> u64 \<Rightarrow> u64 option" where
  "strlen_loop m s len = (if m s = 0 then Some len else strlen_loop m (s + 1) (len + 1))"

definition strlen :: "u64 \<Rightarrow> bytes \<Rightarrow> u64 option" where
  "strlen s m = strlen_loop m s 0"

partial_function (option) strcmp_loop :: "bytes \<Rightarrow> u64 \<Rightarrow> u64 \<Rightarrow> int option" where
  "strcmp_loop m s1 s2 =
     (if m s1 \<noteq> 0 \<or> m s2 \<noteq> 0
      then if m s1 = m s2 then strcmp_loop m (s1 + 1) (s2 + 1) else Some (uint (m s1) - uint (m s2))
      else Some 0)"

definition strcmp :: "u64 \<Rightarrow> u64 \<Rightarrow> bytes \<Rightarrow> int option" where
  "strcmp s1 s2 m = strcmp_loop m s1 s2"

primrec strncmp_loop :: "nat \<Rightarrow> u64 \<Rightarrow> u64 \<Rightarrow> bytes \<Rightarrow> int" where
  "strncmp_loop 0 s1 s2 m = 0"
| "strncmp_loop (Suc n) s1 s2 m =
     (if m s1 \<noteq> 0 \<or> m s2 \<noteq> 0
      then if m s1 = m s2 then strncmp_loop n (s1 + 1) (s2 + 1) m else uint (m s1) - uint (m s2)
      else 0)"

definition strncmp :: "u64 \<Rightarrow> u64 \<Rightarrow> u64 \<Rightarrow> bytes \<Rightarrow> int" where
  "strncmp s1 s2 n m = strncmp_loop (unat n) s1 s2 m"

partial_function (option) strcpy_loop :: "u64 \<Rightarrow> u64 \<Rightarrow> bytes \<Rightarrow> bytes option" where
  "strcpy_loop dest src m =
     (if m src \<noteq> 0 then strcpy_loop (dest + 1) (src + 1) (m(dest := m src)) else Some (m(dest := 0)))"

definition strcpy :: "u64 \<Rightarrow> u64 \<Rightarrow> bytes \<Rightarrow> bytes option" where
  "strcpy dest src m = strcpy_loop dest src m"

primrec strncpy_loop :: "nat \<Rightarrow> u64 \<Rightarrow> u64 \<Rightarrow> bytes \<Rightarrow> bytes" where
  "strncpy_loop 0 dest src m = m(dest := 0)"
| "strncpy_loop (Suc n) dest src m =
     (if m src \<noteq> 0 then strncpy_loop n (dest + 1) (src + 1) (m(dest := m src)) else m(dest := 0))"

definition strncpy :: "u64 \<Rightarrow> u64 \<Rightarrow> u64 \<Rightarrow> bytes \<Rightarrow> bytes" where
  "strncpy dest src n m = strncpy_loop (unat n) dest src m"

definition strcat :: "u64 \<Rightarrow> u64 \<Rightarrow> bytes \<Rightarrow> bytes option" where
  "strcat dest src m = Option.bind (strlen dest m) (\<lambda>n. strcpy_loop (dest + n) src m)"

text \<open>\<open>strstr\<close>: the inner loop compares the needle from index \<open>j\<close> on, the outer one tries the
  offsets from \<open>i\<close> on. The sizes are \<open>int\<close>.\<close>

primrec matched :: "nat \<Rightarrow> u64 \<Rightarrow> u64 \<Rightarrow> bytes \<Rightarrow> bool" where
  "matched 0 h n m = True"
| "matched (Suc k) h n m = (if m h \<noteq> m n then False else matched k (h + 1) (n + 1) m)"

function strstr_loop :: "int \<Rightarrow> int \<Rightarrow> u64 \<Rightarrow> u64 \<Rightarrow> int \<Rightarrow> bytes \<Rightarrow> u64" where
  "strstr_loop hs ns haystack needle i m =
     (if i \<le> hs - ns
      then if matched (nat ns) (haystack + word_of_int i) needle m then haystack + word_of_int i
           else strstr_loop hs ns haystack needle (i + 1) m
      else 0)"
  by pat_completeness auto
termination by (relation "measure (\<lambda>(hs, ns, h, n, i, m). nat (hs - ns + 1 - i))") auto

declare strstr_loop.simps [simp del]

definition strstr :: "u64 \<Rightarrow> u64 \<Rightarrow> bytes \<Rightarrow> u64 option" where
  "strstr haystack needle m =
     Option.bind (strlen haystack m) (\<lambda>hn. Option.bind (strlen needle m) (\<lambda>nn.
     let hs = int32 (uint hn); ns = int32 (uint nn) in
     Some (if ns = 0 then 0 else strstr_loop hs ns haystack needle 0 m)))"


subsection \<open>Numbers\<close>

definition is_digit :: "u8 \<Rightarrow> bool" where
  "is_digit c \<longleftrightarrow> 0x30 \<le> c \<and> c \<le> 0x39"

definition is_alphanumeric :: "u8 \<Rightarrow> bool" where
  "is_alphanumeric c \<longleftrightarrow> 0x30 \<le> c \<and> c \<le> 0x39 \<or> 0x41 \<le> c \<and> c \<le> 0x46 \<or> 0x61 \<le> c \<and> c \<le> 0x66"

definition to_decimal :: "u8 \<Rightarrow> int" where
  "to_decimal c =
     (if is_digit c then uint c - 0x30
      else if 0x41 \<le> c \<and> c \<le> 0x46 then uint c - 0x41 + 10
      else if 0x61 \<le> c \<and> c \<le> 0x66 then uint c - 0x61 + 10
      else 0)"

definition INT_MAX :: int where "INT_MAX = 2 ^ 31 - 1"
definition INT_MIN :: int where "INT_MIN = - (2 ^ 31)"

definition is_valid :: "int \<Rightarrow> u8 \<Rightarrow> bool" where
  "is_valid base = (if base = 10 then is_digit else is_alphanumeric)"

partial_function (option) skip_spaces :: "bytes \<Rightarrow> u64 \<Rightarrow> u64 option" where
  "skip_spaces m s = (if m s = 0x20 then skip_spaces m (s + 1) else Some s)"

text \<open>The digit loop with \<open>n\<close> characters left; \<open>Inl\<close> is the early return on overflow.\<close>

primrec atoi_loop :: "nat \<Rightarrow> int \<Rightarrow> bool \<Rightarrow> u64 \<Rightarrow> int \<Rightarrow> bytes \<Rightarrow> int + int" where
  "atoi_loop 0 base is_negative p result m = Inr result"
| "atoi_loop (Suc n) base is_negative p result m =
     (if \<not> is_valid base (m p) then Inr result
      else if result > INT_MAX div base then Inl (if is_negative then INT_MIN else INT_MAX)
      else
        let result = int32 (result * base); next_digit = to_decimal (m p) in
        if result > INT_MAX - next_digit then Inl (if is_negative then INT_MIN else INT_MAX)
        else atoi_loop n base is_negative (p + 1) (int32 (result + next_digit)) m)"

definition atoi :: "u64 \<Rightarrow> int \<Rightarrow> bytes \<Rightarrow> int option" where
  "atoi str base m =
     Option.bind (skip_spaces m str) (\<lambda>s.
     Option.bind (strlen s m) (\<lambda>len.
     if m s \<noteq> 0x2b \<and> m s \<noteq> 0x2d \<and> \<not> is_valid base (m s) then Some 0
     else
       let is_negative = (m s = 0x2d);
           ptr = (if m s = 0x2d \<or> m s = 0x2b then 1 else 0)
       in Some (case atoi_loop (nat (int32 (uint len) - ptr)) base is_negative (s + word_of_int ptr) 0 m of
                  Inl r \<Rightarrow> r
                | Inr result \<Rightarrow> if is_negative then - result else result)))"

end
