(* ===== verification/CStringTheorems.thy ===== *)
theory CStringTheorems
  imports CString "HOL-Library.Sublist"
begin

text \<open>
  The string routines of \<open>CString\<close> against lists of bytes: \<open>cstr m p s\<close> says that the bytes at \<open>p\<close>
  are the non-zero bytes \<open>s\<close> followed by a zero.
\<close>

primrec cstr :: "bytes \<Rightarrow> u64 \<Rightarrow> u8 list \<Rightarrow> bool" where
  "cstr m p [] \<longleftrightarrow> m p = 0"
| "cstr m p (c # s) \<longleftrightarrow> m p = c \<and> c \<noteq> 0 \<and> cstr m (p + 1) s"

lemma cstr_nth: "cstr m p s \<Longrightarrow> i < length s \<Longrightarrow> m (p + of_nat i) = s ! i"
proof (induction s arbitrary: p i)
  case (Cons c s)
  then show ?case by (cases i) (auto simp: add.assoc [symmetric])
qed simp

lemma cstr_end: "cstr m p s \<Longrightarrow> m (p + of_nat (length s)) = 0"
  by (induction s arbitrary: p) (auto simp: add.assoc [symmetric])

lemma cstr_no_zero: "cstr m p s \<Longrightarrow> 0 \<notin> set s"
  by (induction s arbitrary: p) auto

lemma cstr_append: "cstr m p (s @ t) \<Longrightarrow> cstr m (p + of_nat (length s)) t"
  by (induction s arbitrary: p) (auto simp: add.assoc [symmetric])

lemma strlen_loop_cstr: "cstr m p s \<Longrightarrow> strlen_loop m p n = Some (n + of_nat (length s))"
  by (induction s arbitrary: p n) (subst strlen_loop.simps, simp)+

lemma strlen_cstr: "cstr m p s \<Longrightarrow> strlen p m = Some (of_nat (length s))"
  by (simp add: strlen_def strlen_loop_cstr)


subsection \<open>Comparison\<close>

lemma strcmp_loop_cstr:
  assumes "cstr m p s" and "cstr m q t"
  shows "\<exists>r. strcmp_loop m p q = Some r \<and> (r = 0 \<longleftrightarrow> s = t) \<and> (r < 0 \<longleftrightarrow> (s, t) \<in> lexord {(a, b). a < b})"
  using assms
proof (induction s arbitrary: p q t)
  case Nil
  then show ?case
  proof (cases t)
    case (Cons d t')
    have "0 < uint d" using Nil.prems Cons by (simp add: word_neq_0_conv word_less_def)
    then show ?thesis using Nil.prems Cons by (subst strcmp_loop.simps) auto
  qed (subst strcmp_loop.simps, simp)
next
  case (Cons c s)
  show ?case
  proof (cases t)
    case Nil
    have "0 < uint c" using Cons.prems by (simp add: word_neq_0_conv word_less_def)
    then show ?thesis using Cons.prems Nil by (subst strcmp_loop.simps) auto
  next
    case t: (Cons d t')
    show ?thesis
    proof (cases "c = d")
      case True
      then show ?thesis
        using Cons.IH [of "p + 1" "q + 1" t'] Cons.prems t by (subst strcmp_loop.simps) auto
    next
      case False
      then have "uint c \<noteq> uint d" by (simp add: word_uint_eq_iff)
      with False show ?thesis
        using Cons.prems t by (subst strcmp_loop.simps) (auto simp: word_less_def)
    qed
  qed
qed

text \<open>C24: \<open>strcmp\<close> returns on every two terminated strings: 0 exactly on equal strings, and a
  negative number exactly when the first is smaller in the lexicographic order of the bytes.\<close>

theorem strcmp_orders:
  assumes "cstr m p s" and "cstr m q t"
  shows "\<exists>r. strcmp p q m = Some r \<and> (r = 0 \<longleftrightarrow> s = t) \<and>
    (r < 0 \<longleftrightarrow> (s, t) \<in> lexord {(a, b). a < b})"
  using strcmp_loop_cstr [OF assms] by (simp add: strcmp_def)

theorem strcmp_orders_witness:
  "\<exists>r < 0. strcmp 0x100 0x200 (\<lambda>a. if a = 0x100 then 0x61 else if a = 0x200 then 0x62 else 0) = Some r"
  using strcmp_orders [of "\<lambda>a. if a = 0x100 then 0x61 else if a = 0x200 then 0x62 else 0" "0x100" "[0x61]"
      "0x200" "[0x62]"]
  by auto


subsection \<open>Search\<close>

lemma matched_iff: "matched k h n m \<longleftrightarrow> (\<forall>j < k. m (h + of_nat j) = m (n + of_nat j))"
proof (induction k arbitrary: h n)
  case (Suc k)
  have "(\<forall>j < Suc k. m (h + of_nat j) = m (n + of_nat j)) \<longleftrightarrow>
    m h = m n \<and> (\<forall>j < k. m (h + 1 + of_nat j) = m (n + 1 + of_nat j))"
    by (auto simp: less_Suc_eq_0_disj add.assoc)
  then show ?case using Suc by simp
qed simp

lemma matched_prefix:
  assumes "cstr m h xs" and "cstr m n ys" and "i + length ys \<le> length xs"
  shows "matched (length ys) (h + of_nat i) n m \<longleftrightarrow> prefix ys (drop i xs)"
proof -
  have "m (h + of_nat i + of_nat j) = xs ! (i + j)" "m (n + of_nat j) = ys ! j" if "j < length ys" for j
    using cstr_nth [OF assms(1), of "i + j"] cstr_nth [OF assms(2), of j] that assms(3)
    by (auto simp: add.assoc)
  then have "matched (length ys) (h + of_nat i) n m \<longleftrightarrow> (\<forall>j < length ys. xs ! (i + j) = ys ! j)"
    by (simp add: matched_iff)
  also have "\<dots> \<longleftrightarrow> take (length ys) (drop i xs) = ys"
    using assms(3) by (auto simp: list_eq_iff_nth_eq)
  also have "\<dots> \<longleftrightarrow> prefix ys (drop i xs)"
    by (metis append_eq_conv_conj append_take_drop_id prefix_def)
  finally show ?thesis .
qed

lemma strstr_loop_first:
  assumes "cstr m h xs" and "cstr m n ys" and "ys \<noteq> []"
    and "\<forall>j < i. \<not> prefix ys (drop j xs)"
  shows "(\<exists>k. prefix ys (drop k xs) \<and> (\<forall>j < k. \<not> prefix ys (drop j xs)) \<and>
      strstr_loop (int (length xs)) (int (length ys)) h n (int i) m = h + of_nat k) \<or>
    (\<forall>k. \<not> prefix ys (drop k xs)) \<and>
      strstr_loop (int (length xs)) (int (length ys)) h n (int i) m = 0"
  using assms(4)
proof (induction "length xs - i" arbitrary: i rule: less_induct)
  case less
  show ?case
  proof (cases "i + length ys \<le> length xs")
    case False
    have "\<not> prefix ys (drop k xs)" for k
      using less.prems False prefix_length_le [of ys "drop k xs"] assms(3) by (cases "k < i") auto
    then show ?thesis using False by (simp add: strstr_loop.simps [of _ _ _ _ "int i"])
  next
    case True
    note M = matched_prefix [OF assms(1,2) True]
    show ?thesis
    proof (cases "prefix ys (drop i xs)")
      case hit: True
      then have "strstr_loop (int (length xs)) (int (length ys)) h n (int i) m = h + of_nat i"
        using True M by (subst strstr_loop.simps) simp
      then show ?thesis using hit less.prems by blast
    next
      case miss: False
      have dec: "length xs - Suc i < length xs - i" using True assms(3) by (cases ys) auto
      have none: "\<forall>j < Suc i. \<not> prefix ys (drop j xs)" using less.prems miss less_Suc_eq by blast
      have step: "strstr_loop (int (length xs)) (int (length ys)) h n (int i) m =
        strstr_loop (int (length xs)) (int (length ys)) h n (int (Suc i)) m"
        using True miss M by (subst strstr_loop.simps) (simp add: add.commute)
      show ?thesis unfolding step by (rule less.hyps [OF dec none])
    qed
  qed
qed

lemma int32_length: "length xs < 2 ^ 31 \<Longrightarrow> int32 (uint (of_nat (length xs) :: u64)) = int (length xs)"
  by (simp add: int32_id uint_word_of_int take_bit_eq_mod unsigned_of_nat)

text \<open>C25: \<open>strstr\<close> returns the address of the first occurrence of the needle, and null exactly when
  the needle does not occur (or is empty), for terminated strings shorter than \<open>2 ^ 31\<close>.\<close>

theorem strstr_first:
  assumes "cstr m h xs" and "cstr m n ys" and "length xs < 2 ^ 31" and "length ys < 2 ^ 31"
  shows "if ys = [] then strstr h n m = Some 0
    else if \<exists>k. prefix ys (drop k xs)
    then \<exists>k. strstr h n m = Some (h + of_nat k) \<and> prefix ys (drop k xs) \<and>
      (\<forall>j < k. \<not> prefix ys (drop j xs))
    else strstr h n m = Some 0"
proof (cases "ys = []")
  case False
  have "strstr h n m = Some (strstr_loop (int (length xs)) (int (length ys)) h n (int 0) m)"
    using assms False by (simp add: strstr_def strlen_cstr int32_length)
  then show ?thesis using strstr_loop_first [OF assms(1,2) False, of 0] False by auto
next
  case True
  then have "strlen n m = Some 0" using strlen_cstr [OF assms(2)] by simp
  then show ?thesis using True assms(1) by (simp add: strstr_def strlen_cstr int32_id)
qed

definition mem_of :: "u8 list \<Rightarrow> bytes" where
  "mem_of bs a = (if unat a < length bs then bs ! unat a else 0)"

theorem strstr_first_witness:
  "\<exists>k. strstr 0 6 (mem_of [1, 2, 1, 3, 2, 0, 1, 3]) = Some (of_nat k) \<and> prefix [1, 3] (drop k [1, 2, 1, 3, 2 :: u8])"
proof -
  have "cstr (mem_of [1, 2, 1, 3, 2, 0, 1, 3]) 0 [1, 2, 1, 3, 2]" by (simp add: mem_of_def)
  moreover have "cstr (mem_of [1, 2, 1, 3, 2, 0, 1, 3]) 6 [1, 3]" by (simp add: mem_of_def)
  moreover have "\<exists>k. prefix [1, 3] (drop k [1, 2, 1, 3, 2 :: u8])" by (rule exI [of _ 2]) simp
  ultimately show ?thesis
    using strstr_first [of "mem_of [1, 2, 1, 3, 2, 0, 1, 3]" 0 "[1, 2, 1, 3, 2]" 6 "[1, 3]"] by auto
qed



subsection \<open>Numbers\<close>

definition digits_value :: "int \<Rightarrow> int \<Rightarrow> u8 list \<Rightarrow> int" where
  "digits_value base v ds = foldl (\<lambda>v c. v * base + to_decimal c) v ds"

lemma to_decimal_bounds: "0 \<le> to_decimal c" "to_decimal c < 16"
  by (auto simp: to_decimal_def is_digit_def word_le_def)

lemma digits_value_ge:
  assumes "1 \<le> base" and "0 \<le> v" and "\<forall>c \<in> set ds. is_valid base c"
  shows "v \<le> digits_value base v ds"
  using assms(2,3)
proof (induction ds arbitrary: v)
  case (Cons c ds)
  have "v \<le> v * base" using mult_left_mono [OF assms(1) Cons.prems(1)] by simp
  moreover have "0 \<le> to_decimal c" by (rule to_decimal_bounds)
  ultimately have "v \<le> v * base + to_decimal c" "0 \<le> v * base + to_decimal c" using Cons.prems(1) by linarith+
  then show ?case using Cons.IH [of "v * base + to_decimal c"] Cons.prems(2) by (simp add: digits_value_def)
qed (simp add: digits_value_def)

lemma atoi_loop_value:
  assumes b: "base = 10 \<or> base = 16" and "cstr m p s" and "0 \<le> r" and "r \<le> INT_MAX"
  shows "atoi_loop (length s) base neg p r m =
    (let v = digits_value base r (takeWhile (is_valid base) s) in
     if INT_MAX < v then Inl (if neg then INT_MIN else INT_MAX) else Inr v)"
  using assms(2-4)
proof (induction s arbitrary: p r)
  case Nil
  then show ?case by (simp add: digits_value_def Let_def)
next
  case (Cons c s)
  show ?case
  proof (cases "is_valid base c")
    case False
    then show ?thesis using Cons.prems by (simp add: digits_value_def Let_def)
  next
    case True
    let ?w = "r * base + to_decimal c" and ?ds = "takeWhile (is_valid base) s"
    have d: "0 \<le> to_decimal c" "to_decimal c < 16" using to_decimal_bounds True by auto
    have w: "0 \<le> ?w" using Cons.prems(2) b d(1) by auto
    have le: "?w \<le> digits_value base ?w ?ds"
      by (rule digits_value_ge) (use b w in \<open>auto dest: set_takeWhileD\<close>)
    have unf: "digits_value base r (takeWhile (is_valid base) (c # s)) = digits_value base ?w ?ds"
      using True by (simp add: digits_value_def)
    have m: "m p = c" using Cons.prems(1) by simp
    have div: "INT_MAX div base < r \<longleftrightarrow> INT_MAX < r * base" using b by (auto simp: INT_MAX_def)
    show ?thesis
    proof (cases "INT_MAX < ?w")
      case big: True
      then have "INT_MAX div base < r \<or> INT_MAX - to_decimal c < int32 (r * base)"
        using div Cons.prems(2) b by (auto simp: int32_id INT_MAX_def)
      then show ?thesis unfolding unf Let_def using big le True m by auto
    next
      case small: False
      then have "\<not> INT_MAX div base < r" "int32 (r * base) = r * base" "int32 ?w = ?w"
        using div d(1) w Cons.prems(2) b by (auto simp: int32_id INT_MAX_def)
      then show ?thesis
        using Cons.IH [of "p + 1" ?w] Cons.prems(1) small w True m unf by (simp add: Let_def)
    qed
  qed
qed

lemma skip_spaces_cstr:
  "cstr m p (replicate k 0x20 @ s) \<Longrightarrow> (s = [] \<or> hd s \<noteq> 0x20) \<Longrightarrow> skip_spaces m p = Some (p + of_nat k)"
proof (induction k arbitrary: p)
  case 0
  then show ?case by (cases s) (subst skip_spaces.simps, simp)+
next
  case (Suc k)
  then show ?case by (subst skip_spaces.simps) (simp add: add.assoc)
qed

text \<open>C26: \<open>atoi\<close> in base 10 or 16 reads blanks, an optional sign and the longest run of digits, and
  returns its value clamped to the range of \<open>int\<close>: no input overflows, and an input without digits
  is 0.\<close>

theorem atoi_clamps:
  assumes "base = 10 \<or> base = 16" and "cstr m str (replicate k 0x20 @ sg @ s)"
    and "sg = [] \<or> sg = [0x2b] \<or> sg = [0x2d]"
    and "s = [] \<or> sg \<noteq> [] \<or> hd s \<notin> {0x20, 0x2b, 0x2d}" and "length (sg @ s) < 2 ^ 31"
  shows "atoi str base m =
    Some (let v = digits_value base 0 (takeWhile (is_valid base) s) in
          if sg = [0x2d] then max INT_MIN (- v) else min INT_MAX v)"
proof -
  let ?p = "str + of_nat k" and ?v = "digits_value base 0 (takeWhile (is_valid base) s)"
  have c: "cstr m ?p (sg @ s)" using cstr_append [OF assms(2)] by simp
  have "sg @ s = [] \<or> hd (sg @ s) \<noteq> 0x20" using assms(3,4) by auto
  then have sk: "skip_spaces m str = Some ?p" by (rule skip_spaces_cstr [OF assms(2)])
  have len: "int32 (uint (of_nat (length (sg @ s)) :: u64)) = int (length (sg @ s))"
    by (rule int32_length [OF assms(5)])
  have "0 \<le> ?v" by (rule digits_value_ge) (use assms(1) in \<open>auto dest: set_takeWhileD\<close>)
  then have clamp: "INT_MAX < ?v \<Longrightarrow> max INT_MIN (- ?v) = INT_MIN" "\<not> INT_MAX < ?v \<Longrightarrow> max INT_MIN (- ?v) = - ?v"
    by (auto simp: INT_MAX_def INT_MIN_def)
  have nv: "\<not> is_valid base 0x2b" "\<not> is_valid base 0x2d" "\<not> is_valid base 0"
    by (auto simp: is_valid_def is_digit_def is_alphanumeric_def)
  note A = atoi_def sk strlen_cstr [OF c] len Let_def
  show ?thesis
  proof (cases "sg = []")
    case False
    then obtain x where x: "sg = [x]" "x = 0x2b \<or> x = 0x2d" using assms(3) by auto
    then have "cstr m (?p + 1) s" "m ?p = x" using c by auto
    then have "atoi str base m = Some (case atoi_loop (length s) base (x = 0x2d) (?p + 1) 0 m of
        Inl r \<Rightarrow> r | Inr result \<Rightarrow> if x = 0x2d then - result else result)"
      using x len [unfolded x(1), simplified] by (auto simp: A)
    moreover have "atoi_loop (length s) base (x = 0x2d) (?p + 1) 0 m =
      (if INT_MAX < ?v then Inl (if x = 0x2d then INT_MIN else INT_MAX) else Inr ?v)"
      using atoi_loop_value [OF assms(1) \<open>cstr m (?p + 1) s\<close>, of 0] by (simp add: INT_MAX_def Let_def)
    ultimately show ?thesis using x clamp by (cases "INT_MAX < ?v") (auto simp: Let_def)
  next
    case sg: True
    show ?thesis
    proof (cases "s \<noteq> [] \<and> is_valid base (hd s)")
      case True
      then have "m ?p = hd s" "hd s \<noteq> 0x2b" "hd s \<noteq> 0x2d" using c sg nv by (cases s; auto)+
      then show ?thesis using atoi_loop_value [OF assms(1), of m ?p s 0 False] c sg True
        len [unfolded sg, simplified] by (simp add: A INT_MAX_def)
    next
      case False
      then have "takeWhile (is_valid base) s = []" by (cases s) auto
      moreover have "m ?p \<noteq> 0x2b \<and> m ?p \<noteq> 0x2d \<and> \<not> is_valid base (m ?p)"
        using False c sg assms(4) nv by (cases s) auto
      ultimately show ?thesis using sg by (simp add: A digits_value_def INT_MAX_def)
    qed
  qed
qed

theorem atoi_clamps_witness:
  "atoi 0 10 (mem_of [0x20, 0x2d, 0x34, 0x32, 0x78]) = Some (- 42) \<and>
   atoi 0 16 (mem_of [0x38, 0x30, 0x30, 0x30, 0x30, 0x30, 0x30, 0x30]) = Some INT_MAX"
proof -
  have "cstr (mem_of [0x20, 0x2d, 0x34, 0x32, 0x78]) 0 (replicate 1 0x20 @ [0x2d] @ [0x34, 0x32, 0x78])"
    by (simp add: mem_of_def)
  from atoi_clamps [OF _ this, of 10]
  have "atoi 0 10 (mem_of [0x20, 0x2d, 0x34, 0x32, 0x78]) = Some (- 42)"
    by (simp add: digits_value_def is_valid_def is_digit_def to_decimal_def INT_MIN_def)
  moreover have "cstr (mem_of [0x38, 0x30, 0x30, 0x30, 0x30, 0x30, 0x30, 0x30]) 0
      (replicate 0 0x20 @ [] @ [0x38, 0x30, 0x30, 0x30, 0x30, 0x30, 0x30, 0x30])"
    by (simp add: mem_of_def)
  from atoi_clamps [OF _ this, of 16]
  have "atoi 0 16 (mem_of [0x38, 0x30, 0x30, 0x30, 0x30, 0x30, 0x30, 0x30]) = Some INT_MAX"
    by (simp add: digits_value_def is_valid_def is_digit_def is_alphanumeric_def to_decimal_def INT_MAX_def)
  ultimately show ?thesis ..
qed

end
