(* ===== verification/Printf.thy ===== *)
theory Printf
  imports CStringTheorems
begin

text \<open>
  The formatter of \<^verbatim>\<open>lib/printf.cc\<close>. A buffer or an output stream is the list of the bytes written;
  a format string is the list of its bytes before the terminating zero, so that reading at the end
  gives 0. The variable arguments are raw 64-bit words, and \<open>str\<close> gives the string at an address.
  Division by 0 gives 0, as the \<open>udiv\<close> instruction does.
\<close>

definition digit_char :: "int \<Rightarrow> bool \<Rightarrow> u8" where
  "digit_char dgt uc = word_of_int (dgt + (if dgt < 10 then 0x30 else (if uc then 0x41 else 0x61) - 10))"

text \<open>\<open>uli2a\<close> divides a 64-bit number by a 32-bit scale \<open>d\<close>.\<close>

partial_function (option) uli2a_scale :: "u64 \<Rightarrow> u32 \<Rightarrow> u32 \<Rightarrow> u32 option" where
  "uli2a_scale num base d =
     (if num div ucast d \<ge> ucast base then uli2a_scale num base (d * base) else Some d)"

partial_function (option) uli2a_digits :: "u64 \<Rightarrow> u32 \<Rightarrow> u32 \<Rightarrow> bool \<Rightarrow> nat \<Rightarrow> u8 list \<Rightarrow> u8 list option" where
  "uli2a_digits num base d uc n bf =
     (if d \<noteq> 0 then
        let dgt = int32 (uint (num div ucast d)); num = num mod ucast d; d = d div base in
        if n \<noteq> 0 \<or> dgt > 0 \<or> d = 0
        then uli2a_digits num base d uc (Suc n) (bf @ [digit_char dgt uc])
        else uli2a_digits num base d uc n bf
      else Some bf)"

definition uli2a :: "u64 \<Rightarrow> u32 \<Rightarrow> bool \<Rightarrow> u8 list option" where
  "uli2a num base uc = Option.bind (uli2a_scale num base 1) (\<lambda>d. uli2a_digits num base d uc 0 [])"

definition li2a :: "int \<Rightarrow> u8 list option" where
  "li2a num =
     (if num < 0 then map_option (\<lambda>s. 0x2d # s) (uli2a (word_of_int (- num)) 10 False)
      else uli2a (word_of_int num) 10 False)"

partial_function (option) ui2a_scale :: "u32 \<Rightarrow> u32 \<Rightarrow> u32 \<Rightarrow> u32 option" where
  "ui2a_scale num base d = (if num div d \<ge> base then ui2a_scale num base (d * base) else Some d)"

partial_function (option) ui2a_digits :: "u32 \<Rightarrow> u32 \<Rightarrow> u32 \<Rightarrow> bool \<Rightarrow> nat \<Rightarrow> u8 list \<Rightarrow> u8 list option" where
  "ui2a_digits num base d uc n bf =
     (if d \<noteq> 0 then
        let dgt = int32 (uint (num div d)); num = num mod d; d = d div base in
        if n \<noteq> 0 \<or> dgt > 0 \<or> d = 0
        then ui2a_digits num base d uc (Suc n) (bf @ [digit_char dgt uc])
        else ui2a_digits num base d uc n bf
      else Some bf)"

definition ui2a :: "u32 \<Rightarrow> u32 \<Rightarrow> bool \<Rightarrow> u8 list option" where
  "ui2a num base uc = Option.bind (ui2a_scale num base 1) (\<lambda>d. ui2a_digits num base d uc 0 [])"

definition i2a :: "int \<Rightarrow> u8 list option" where
  "i2a num =
     (if num < 0 then map_option (\<lambda>s. 0x2d # s) (ui2a (word_of_int (int32 (- num))) 10 False)
      else ui2a (word_of_int num) 10 False)"

definition a2d :: "u8 \<Rightarrow> int" where
  "a2d ch =
     (if 0x30 \<le> ch \<and> ch \<le> 0x39 then uint ch - 0x30
      else if 0x61 \<le> ch \<and> ch \<le> 0x66 then uint ch - 0x61 + 10
      else if 0x41 \<le> ch \<and> ch \<le> 0x46 then uint ch - 0x41 + 10
      else -1)"

text \<open>\<open>*p++\<close> on the rest of a format string.\<close>

fun next_char :: "u8 list \<Rightarrow> u8 \<times> u8 list" where
  "next_char [] = (0, [])"
| "next_char (c # cs) = (c, cs)"

text \<open>The loop of \<open>a2i\<close>; it returns the character it stopped at, the rest and the number.\<close>

function a2i :: "u8 \<Rightarrow> u8 list \<Rightarrow> int \<Rightarrow> int \<Rightarrow> u8 \<times> u8 list \<times> int" where
  "a2i ch p base num =
     (if a2d ch \<ge> 0 \<and> \<not> a2d ch > base
      then a2i (fst (next_char p)) (snd (next_char p)) base (int32 (num * base + a2d ch))
      else (ch, p, num))"
  by pat_completeness auto
termination
proof (relation "measure (\<lambda>(ch, p, base, num). 2 * length p + (if a2d ch \<ge> 0 then 1 else 0))", goal_cases)
  case (2 ch p base num)
  then show ?case by (cases p) (auto simp: a2d_def)
qed simp

declare a2i.simps [simp del]

text \<open>\<open>putchw\<close>: pad the string \<open>bf\<close> to width \<open>n\<close>.\<close>

definition putchw :: "int \<Rightarrow> bool \<Rightarrow> u8 list \<Rightarrow> u8 list" where
  "putchw n z bf = replicate (nat (n - int (length bf))) (if z then 0x30 else 0x20) @ bf"

lemma next_char_rest: "length (snd (next_char p)) \<le> length p"
  by (cases p) auto

lemma a2i_rest: "length (fst (snd (a2i ch p base num))) \<le> length p"
proof (induction ch p base num rule: a2i.induct)
  case (1 ch p base num)
  show ?case
  proof (cases "a2d ch \<ge> 0 \<and> \<not> a2d ch > base")
    case True
    have "length (fst (snd (a2i ch p base num))) \<le> length (snd (next_char p))"
      using 1 [OF True] True by (simp add: a2i.simps [of ch p])
    then show ?thesis using next_char_rest [of p] by simp
  qed (auto simp: a2i.simps [of ch p])
qed

text \<open>What follows a \<open>%\<close>: the zero flag, the width, the \<open>l\<close> modifier and the conversion character.\<close>

definition directive :: "u8 list \<Rightarrow> bool \<times> int \<times> bool \<times> u8 \<times> u8 list" where
  "directive fmt =
     (let (ch, fmt) = next_char fmt;
          lz = (ch = 0x30);
          (ch, fmt) = (if lz then next_char fmt else (ch, fmt));
          (ch, fmt, w) = (if 0x30 \<le> ch \<and> ch \<le> 0x39 then a2i ch fmt 10 0 else (ch, fmt, 0));
          lng = (ch = 0x6c);
          (ch, fmt) = (if lng then next_char fmt else (ch, fmt))
      in (lz, w, lng, ch, fmt))"

lemma directive_rest: "directive fmt = (lz, w, lng, ch, fmt') \<Longrightarrow> length fmt' \<le> length fmt"
proof -
  define f1 where "f1 = next_char fmt"
  define f2 where "f2 = (if fst f1 = 0x30 then next_char (snd f1) else f1)"
  define f3 where "f3 = (if 0x30 \<le> fst f2 \<and> fst f2 \<le> 0x39 then a2i (fst f2) (snd f2) 10 0 else (fst f2, snd f2, 0))"
  define f4 where "f4 = (if fst f3 = 0x6c then next_char (fst (snd f3)) else (fst f3, fst (snd f3)))"
  have "length (snd f2) \<le> length fmt"
    using next_char_rest [of fmt] next_char_rest [of "snd f1"] unfolding f2_def f1_def by auto
  moreover have "length (fst (snd f3)) \<le> length (snd f2)" unfolding f3_def using a2i_rest by simp
  moreover have "length (snd f4) \<le> length (fst (snd f3))" unfolding f4_def using next_char_rest by simp
  moreover assume "directive fmt = (lz, w, lng, ch, fmt')"
  then have "fmt' = snd f4"
    by (auto simp: directive_def f4_def f3_def f2_def f1_def Let_def case_prod_unfold split: if_splits)
  ultimately show "length fmt' \<le> length fmt" by simp
qed

text \<open>One conversion: the conversion character, its arguments and flags; it returns the bytes
  written and the arguments left. A missing argument reads past the argument list.\<close>

definition conversion ::
  "(u64 \<Rightarrow> u8 list) \<Rightarrow> u8 \<Rightarrow> bool \<Rightarrow> bool \<Rightarrow> int \<Rightarrow> u64 list \<Rightarrow> kerror + (u8 list \<times> u64 list)" where
  "conversion str ch lng lz w va =
     (if ch \<in> {0x75, 0x64, 0x78, 0x58, 0x70, 0x63, 0x73} then
        case va of
          [] \<Rightarrow> Inl OutOfBounds
        | a # va \<Rightarrow>
            if ch = 0x75 then
              bindE (returned (if lng then uli2a a 10 False else ui2a (ucast a) 10 False)) (\<lambda>bf.
              Inr (putchw w lz bf, va))
            else if ch = 0x64 then
              bindE (returned (if lng then li2a (sint a) else i2a (sint (ucast a :: u32)))) (\<lambda>bf.
              Inr (putchw w lz bf, va))
            else if ch = 0x78 \<or> ch = 0x58 then
              bindE (returned (if lng then uli2a a 16 (ch = 0x58) else ui2a (ucast a) 16 (ch = 0x58))) (\<lambda>bf.
              Inr (putchw w lz bf, va))
            else if ch = 0x70 then
              bindE (returned (ui2a (ucast (drop_bit 32 a)) 16 False)) (\<lambda>hi.
              bindE (returned (ui2a (ucast a) 16 False)) (\<lambda>lo.
              Inr (putchw 8 True hi @ putchw 8 True lo, va)))
            else if ch = 0x63 then Inr ([ucast a], va)
            else Inr (putchw w False (str a), va)
      else if ch = 0x25 then Inr ([ch], va)
      else Inr ([], va))"

function tfp_format :: "(u64 \<Rightarrow> u8 list) \<Rightarrow> u8 list \<Rightarrow> u64 list \<Rightarrow> kerror + u8 list" where
  "tfp_format str [] va = Inr []"
| "tfp_format str (ch # fmt) va =
     (if ch = 0 then Inr []
      else if ch \<noteq> 0x25 then bindE (tfp_format str fmt va) (\<lambda>out. Inr (ch # out))
      else
        case directive fmt of (lz, w, lng, ch, fmt) \<Rightarrow>
        if ch = 0 then Inr []
        else bindE (conversion str ch lng lz w va) (\<lambda>(out, va).
             bindE (tfp_format str fmt va) (\<lambda>out'. Inr (out @ out'))))"
  by pat_completeness auto
termination
  by (relation "measure (\<lambda>(str, fmt, va). length fmt)")
    (auto simp: less_Suc_eq_le dest: directive_rest [OF sym])

definition tfp_sprintf :: "(u64 \<Rightarrow> u8 list) \<Rightarrow> u8 list \<Rightarrow> u64 list \<Rightarrow> kerror + u8 list" where
  "tfp_sprintf str fmt va = bindE (tfp_format str fmt va) (\<lambda>out. Inr (out @ [0]))"



subsection \<open>Printed numbers read back\<close>

lemma unat32: "n < 2 ^ 32 \<Longrightarrow> unat (of_nat n :: u32) = n"
  by (simp add: unat_of_nat)

lemma scale_spec:
  assumes B: "2 \<le> B" "B < 2 ^ 32" and x: "x < 2 ^ 32" and "B ^ j \<le> max 1 x"
  shows "\<exists>k. ui2a_scale (of_nat x) (of_nat B) (of_nat (B ^ j)) = Some (of_nat (B ^ k)) \<and>
    x < B ^ Suc k \<and> (k = 0 \<or> B ^ k \<le> x)"
  using assms(4)
proof (induction "x - B ^ j" arbitrary: j rule: less_induct)
  case less
  have d: "B ^ j < 2 ^ 32" "0 < B ^ j" using less.prems x B(1) by (auto simp: max_def split: if_splits)
  have "unat ((of_nat x :: u32) div of_nat (B ^ j)) = x div B ^ j"
    using unat32 [OF x] unat32 [OF d(1)] by (simp add: unat_div del: of_nat_power)
  then have cond: "(of_nat B :: u32) \<le> of_nat x div of_nat (B ^ j) \<longleftrightarrow> B ^ Suc j \<le> x"
    using unat32 [OF B(2)] d(2)
    by (simp add: word_le_nat_alt less_eq_div_iff_mult_less_eq mult.commute del: of_nat_power)
  show ?case
  proof (cases "B ^ Suc j \<le> x")
    case True
    have "B ^ j < B ^ Suc j" using B(1) d(2) by simp
    then have "x - B ^ Suc j < x - B ^ j" using True by linarith
    moreover have "B ^ Suc j \<le> max 1 x" using True by simp
    moreover have "ui2a_scale (of_nat x) (of_nat B) (of_nat (B ^ j)) =
      ui2a_scale (of_nat x) (of_nat B) (of_nat (B ^ Suc j))"
      using True cond by (subst ui2a_scale.simps) (simp add: mult.commute)
    ultimately show ?thesis using less.hyps by metis
  next
    case False
    then have "ui2a_scale (of_nat x) (of_nat B) (of_nat (B ^ j)) = Some (of_nat (B ^ j))"
      using cond by (subst ui2a_scale.simps) simp
    moreover have "j = 0 \<or> B ^ j \<le> x"
      using less.prems B(1) self_le_power [of B j] by (auto simp: max_def split: if_splits)
    ultimately show ?thesis using False by (intro exI [of _ j]) simp
  qed
qed

lemma digit_char_spec:
  assumes "0 \<le> g" and "g < base" and "base = 10 \<or> base = 16"
  shows "is_valid base (digit_char g uc)" and "to_decimal (digit_char g uc) = g" and "digit_char g uc \<noteq> 0"
proof -
  have "g \<in> {0..15}" using assms by auto
  then have g: "g \<in> {0, 1, 2, 3, 4, 5, 6, 7, 8, 9, 10, 11, 12, 13, 14, 15}" by (simp add: atLeastAtMost_iff) presburger
  then show "is_valid base (digit_char g uc)" "to_decimal (digit_char g uc) = g" "digit_char g uc \<noteq> 0"
    using assms(2,3)
    by (elim insertE emptyE; cases uc; auto simp: digit_char_def is_valid_def is_digit_def is_alphanumeric_def to_decimal_def)+
qed

lemma digits_value_append: "digits_value b v (xs @ ys) = digits_value b (digits_value b v xs) ys"
  by (simp add: digits_value_def)

lemma digits_spec:
  assumes B: "B = 10 \<or> B = 16" and "x < B ^ Suc k" and "B ^ k < 2 ^ 32" and "x < 2 ^ 32"
    and "n \<noteq> 0 \<or> k = 0 \<or> B ^ k \<le> x"
  shows "\<exists>ds. ui2a_digits (of_nat x) (of_nat B) (of_nat (B ^ k)) uc n bf = Some (bf @ ds) \<and>
    length ds = Suc k \<and> (\<forall>c \<in> set ds. is_valid (int B) c \<and> c \<noteq> 0) \<and>
    (\<forall>v. digits_value (int B) v ds = v * int B ^ Suc k + int x)"
  using assms(2-5)
proof (induction k arbitrary: x n bf)
  case 0
  let ?g = "digit_char (int x) uc"
  have x: "x < B" "x < 2 ^ 31" using 0 B by auto
  have "uint (of_nat x :: u32) = int x" using unat32 [OF 0(3)] by (simp add: uint_nat)
  then have u: "int32 (uint ((of_nat x :: u32) div 1)) = int x" using x(2) by (simp add: int32_id)
  have one: "(1 :: u32) div of_nat B = 0" using B by auto
  have "ui2a_digits (of_nat x) (of_nat B) 1 uc n bf = Some (bf @ [?g])"
    using u one by (subst ui2a_digits.simps, subst ui2a_digits.simps) (simp add: Let_def)
  moreover have "is_valid (int B) ?g" "?g \<noteq> 0" "to_decimal ?g = int x"
    using digit_char_spec [of "int x" "int B" uc] B x(1) by auto
  ultimately show ?case by (intro exI [of _ "[?g]"]) (simp add: digits_value_def)
next
  case (Suc k)
  let ?d = "B ^ Suc k" and ?q = "x div B ^ Suc k" and ?r = "x mod B ^ Suc k"
  let ?g = "digit_char (int ?q) uc"
  have q: "?q < B" "?q < 2 ^ 31" using Suc.prems(1) B by (auto simp: less_mult_imp_div_less mult.commute)
  have dk: "B ^ k < 2 ^ 32" "unat (of_nat ?d :: u32) = ?d" "(of_nat ?d :: u32) \<noteq> 0"
    using Suc.prems(2) B unat32 [OF Suc.prems(2)] by (auto simp: unat_eq_zero [symmetric] simp del: of_nat_power)
  have ux: "unat (of_nat x :: u32) = x" by (rule unat32 [OF Suc.prems(3)])
  have div: "uint ((of_nat x :: u32) div of_nat ?d) = int ?q"
    unfolding uint_nat by (simp add: unat_div ux dk(2) del: of_nat_power power_Suc)
  have mod: "(of_nat x :: u32) mod of_nat ?d = of_nat ?r"
    by (rule word_unat_eq_iff [THEN iffD2])
      (use Suc.prems(3) in \<open>simp add: unat_mod ux dk(2) unat32 le_less_trans [OF mod_less_eq_dividend] del: of_nat_power power_Suc\<close>)
  have uB: "unat (of_nat B :: u32) = B" using B by (intro unat32) auto
  have "?d div B = B ^ k" using B by auto
  then have nx: "(of_nat ?d :: u32) div of_nat B = of_nat (B ^ k)"
    by (simp only: word_unat_eq_iff unat_div dk(2) uB unat32 [OF dk(1)])
  have "n \<noteq> 0 \<or> 0 < int ?q" using Suc.prems(4) B by (auto simp: div_greater_zero_iff)
  then have step: "ui2a_digits (of_nat x) (of_nat B) (of_nat ?d) uc n bf =
    ui2a_digits (of_nat ?r) (of_nat B) (of_nat (B ^ k)) uc (Suc n) (bf @ [?g])"
    using dk(3) div mod nx q(2) by (subst ui2a_digits.simps) (auto simp: Let_def int32_id simp del: of_nat_power power_Suc)
  have r: "?r < B ^ Suc k" "?r < 2 ^ 32" using B le_less_trans [OF mod_less_eq_dividend Suc.prems(3)] by auto
  have "Suc n \<noteq> 0 \<or> k = 0 \<or> B ^ k \<le> ?r" by simp
  from Suc.IH [OF r(1) dk(1) r(2) this, of "bf @ [?g]"] obtain ds where ds: "ui2a_digits (of_nat ?r) (of_nat B) (of_nat (B ^ k)) uc (Suc n) (bf @ [?g]) =
      Some ((bf @ [?g]) @ ds)" "length ds = Suc k" "\<forall>c \<in> set ds. is_valid (int B) c \<and> c \<noteq> 0"
    "\<forall>v. digits_value (int B) v ds = v * int B ^ Suc k + int ?r"
    by blast
  have g: "is_valid (int B) ?g" "?g \<noteq> 0" "to_decimal ?g = int ?q"
    using digit_char_spec [of "int ?q" "int B" uc] B q(1) by auto
  have "int ?q * int B ^ Suc k + int ?r = int x"
    by (metis div_mult_mod_eq of_nat_add of_nat_mult of_nat_power)
  then have "digits_value (int B) v (?g # ds) = v * int B ^ Suc (Suc k) + int x" for v
    using ds(4) g(3) digits_value_append [of "int B" v "[?g]" ds]
    by (simp add: digits_value_def [of _ _ "[_]"] algebra_simps)
  then show ?case using step ds g by (intro exI [of _ "?g # ds"]) simp
qed

lemma ui2a_spec:
  assumes B: "B = 10 \<or> B = 16" and x: "x < 2 ^ 32"
  shows "\<exists>ds. ui2a (of_nat x) (of_nat B) uc = Some ds \<and> ds \<noteq> [] \<and>
    (\<forall>c \<in> set ds. is_valid (int B) c \<and> c \<noteq> 0) \<and> digits_value (int B) 0 ds = int x \<and> length ds \<le> 32"
proof -
  have "2 \<le> B" "B < 2 ^ 32" using B by auto
  from scale_spec [OF this x, of 0]
  obtain k where k: "ui2a_scale (of_nat x) (of_nat B) 1 = Some (of_nat (B ^ k))" "x < B ^ Suc k" "k = 0 \<or> B ^ k \<le> x"
    unfolding power_0 of_nat_1 by auto
  have b: "B ^ k < 2 ^ 32" using k(3) x by auto
  have "2 ^ k \<le> B ^ k" using B by (intro power_mono) auto
  then have "k < 32" using b by (metis le_less_trans nat_power_less_imp_less zero_less_numeral)
  then show ?thesis
    using digits_spec [OF B k(2) b x, of 0 uc "[]"] k by (auto simp: ui2a_def)
qed


lemma cstr_mem_of:
  assumes "0 \<notin> set s" and "length s < 2 ^ 64"
  shows "cstr (mem_of s) 0 s"
proof -
  have "cstr (mem_of s) (of_nat k) (drop k s)" if "k \<le> length s" for k
    using that
  proof (induction "length s - k" arbitrary: k)
    case 0
    then have "k = length s" by simp
    then show ?case using assms(2) unat_of_nat_small [of k] by (simp add: mem_of_def)
  next
    case (Suc n)
    then have k: "k < length s" by simp
    have "cstr (mem_of s) (of_nat (Suc k)) (drop (Suc k) s)" using Suc.hyps(1) [of "Suc k"] Suc.hyps(2) k by simp
    moreover have "mem_of s (of_nat k) = s ! k"
      using k assms(2) unat_of_nat_small [of k] by (simp add: mem_of_def)
    moreover have "s ! k \<noteq> 0" using assms(1) k by (metis nth_mem)
    ultimately show ?case using k by (simp add: Cons_nth_drop_Suc [symmetric] add.commute)
  qed
  from this [of 0] show ?thesis by simp
qed

text \<open>C27: A number printed with \<open>%d\<close> reads back: for every 32-bit \<open>int\<close>, including the smallest one,
  \<open>i2a\<close> returns a string, and \<open>atoi\<close> of that string is the number.\<close>

theorem i2a_atoi:
  assumes "- (2 ^ 31) \<le> n" and "n < 2 ^ 31"
  shows "\<exists>s. i2a n = Some s \<and> atoi 0 10 (mem_of s) = Some n"
proof -
  let ?x = "nat \<bar>n\<bar>"
  have x: "?x < 2 ^ 32" using assms by simp
  obtain ds where ds: "ui2a (of_nat ?x) 10 False = Some ds" "ds \<noteq> []" "\<forall>c \<in> set ds. is_valid 10 c \<and> c \<noteq> 0"
    "digits_value 10 0 ds = int ?x" "length ds \<le> 32"
    using ui2a_spec [of 10 ?x False] x by auto
  have tw: "takeWhile (is_valid 10) ds = ds" using ds(3) by (simp add: takeWhile_eq_all_conv)
  have z: "0 \<notin> set ds" using ds(3) by auto
  have hd: "hd ds \<notin> {0x20, 0x2b, 0x2d}"
    using ds(2,3) by (cases ds) (auto simp: is_valid_def is_digit_def)
  show ?thesis
  proof (cases "n < 0")
    case True
    have "(word_of_int (int32 (- n)) :: u32) = of_nat ?x"
    proof (cases "n = - (2 ^ 31)")
      case True
      then show ?thesis by (simp add: int32_def signed_take_bit_def mask_eq_exp_minus_1)
    next
      case False
      then show ?thesis using True assms by (simp add: int32_id of_nat_nat)
    qed
    then have i: "i2a n = Some (0x2d # ds)" using True ds(1) by (simp add: i2a_def)
    have "cstr (mem_of (0x2d # ds)) 0 (replicate 0 0x20 @ [0x2d] @ ds)"
      using cstr_mem_of [of "0x2d # ds"] z ds(5) by simp
    from atoi_clamps [OF _ this, of 10] have "atoi 0 10 (mem_of (0x2d # ds)) = Some n"
      using ds(4,5) tw True assms by (simp add: Let_def INT_MIN_def max_def)
    then show ?thesis using i by blast
  next
    case False
    then have "(word_of_int n :: u32) = of_nat ?x" by (simp add: of_nat_nat)
    then have i: "i2a n = Some ds" using False ds(1) by (simp add: i2a_def)
    have "cstr (mem_of ds) 0 (replicate 0 0x20 @ [] @ ds)" using cstr_mem_of [of ds] z ds(5) by simp
    from atoi_clamps [OF _ this, of 10] have "atoi 0 10 (mem_of ds) = Some n"
      using ds(4,5) tw hd False assms by (simp add: Let_def INT_MAX_def min_def)
    then show ?thesis using i by blast
  qed
qed

theorem i2a_atoi_witness: "\<exists>s. i2a (- 2147483648) = Some s \<and> atoi 0 10 (mem_of s) = Some (- 2147483648)"
  using i2a_atoi [of "- 2147483648"] by simp

text \<open>A 64-bit number that needs nine hexadecimal digits is printed as the empty string.\<close>

lemma uli2a_wide: "uli2a 0x100000000 16 False = Some []"
  by (simp add: uli2a_def uli2a_scale.simps uli2a_digits.simps)

end
