(* ===== verification/KList.thy ===== *)
theory KList
  imports Kernel_Prelude
begin

text \<open>
  The doubly linked list of the kernel (\<open>include/lib/List.h\<close>): a ring of heap nodes through a
  sentinel node that the list owns. A pointer is \<open>None\<close> (null) or the address of a node. The
  heap hands out addresses it never reuses, so that an access to a deleted node is visible as
  the error \<open>UseAfterFree\<close>; what the allocators promise about real addresses is proved with
  them.

  \<open>owns h l xs F\<close> relates the heap \<open>h\<close> and the list object \<open>l\<close> to the sequence \<open>xs\<close> of its
  elements: the nodes of \<open>l\<close> form a ring that holds \<open>xs\<close>, and the rest of the heap is \<open>F\<close>.
  Every operation is shown to have its list effect and to leave \<open>F\<close> alone.

  The copy operations and the \<open>const\<close> searches and traversals are templates that no call can
  instantiate (the \<open>const\<close> iterators they need are commented out) and have no model.
\<close>


subsection \<open>Nodes and the heap\<close>

type_synonym ptr = "nat option"

record 'a node =
  node_prev :: ptr
  node_next :: ptr
  node_data :: 'a

record 'a heap =
  cells :: "nat \<Rightarrow> 'a node option"
  fresh :: nat

definition load :: "'a heap \<Rightarrow> ptr \<Rightarrow> kerror + 'a node" where
  "load h p =
     (case p of
        None \<Rightarrow> Inl NullDeref
      | Some a \<Rightarrow> (case cells h a of None \<Rightarrow> Inl UseAfterFree | Some n \<Rightarrow> Inr n))"

definition store :: "'a heap \<Rightarrow> ptr \<Rightarrow> ('a node \<Rightarrow> 'a node) \<Rightarrow> kerror + 'a heap" where
  "store h p f = bindE (load h p) (\<lambda>n. Inr (h\<lparr>cells := (cells h)(the p \<mapsto> f n)\<rparr>))"

definition alloc_node :: "'a heap \<Rightarrow> 'a node \<Rightarrow> ptr \<times> 'a heap" where
  "alloc_node h n =
     (Some (fresh h), h\<lparr>cells := (cells h)(fresh h \<mapsto> n), fresh := Suc (fresh h)\<rparr>)"

definition delete_node :: "'a heap \<Rightarrow> ptr \<Rightarrow> kerror + 'a heap" where
  "delete_node h p =
     (if p = None then Inr h
      else bindE (load h p) (\<lambda>_. Inr (h\<lparr>cells := (cells h)(the p := None)\<rparr>)))"

definition Node :: "'a \<Rightarrow> 'a heap \<Rightarrow> ptr \<times> 'a heap" where
  "Node d h =
     alloc_node h \<lparr>node_prev = Some (fresh h), node_next = Some (fresh h), node_data = d\<rparr>"

definition Node_from :: "'a \<Rightarrow> 'a heap \<Rightarrow> ptr \<times> 'a heap" where
  "Node_from v h = alloc_node h \<lparr>node_prev = None, node_next = None, node_data = v\<rparr>"


subsection \<open>The list object and its links\<close>

record klist =
  list_head :: ptr
  list_size :: u64

text \<open>The element of the sentinel is the default value \<open>d\<close> of the element type.\<close>

definition List :: "'a \<Rightarrow> 'a heap \<Rightarrow> 'a heap \<times> klist" where
  "List d h = (let (p, h) = Node d h in (h, \<lparr>list_head = p, list_size = 0\<rparr>))"

definition is_list_add_valid :: "'a heap \<Rightarrow> ptr \<Rightarrow> ptr \<Rightarrow> ptr \<Rightarrow> kerror + bool" where
  "is_list_add_valid h new_node prev nxt =
     bindE (load h nxt) (\<lambda>n.
     if node_prev n \<noteq> prev then Inr False
     else bindE (load h prev) (\<lambda>p.
       Inr (node_next p = nxt \<and> new_node \<noteq> prev \<and> new_node \<noteq> nxt)))"

definition is_list_del_entry_valid :: "'a heap \<Rightarrow> ptr \<Rightarrow> kerror + bool" where
  "is_list_del_entry_valid h entry =
     bindE (load h entry) (\<lambda>e.
     bindE (load h (node_prev e)) (\<lambda>p.
     if node_next p \<noteq> entry then Inr False
     else bindE (load h (node_next e)) (\<lambda>n. Inr (node_prev n = entry))))"

definition list_add :: "'a heap \<Rightarrow> klist \<Rightarrow> ptr \<Rightarrow> ptr \<Rightarrow> ptr \<Rightarrow> kerror + 'a heap \<times> klist" where
  "list_add h l new_node prev nxt =
     bindE (is_list_add_valid h new_node prev nxt) (\<lambda>ok.
     if \<not> ok then Inr (h, l)
     else
       bindE (store h nxt (node_prev_update (\<lambda>_. new_node))) (\<lambda>h.
       bindE (store h new_node (node_next_update (\<lambda>_. nxt))) (\<lambda>h.
       bindE (store h new_node (node_prev_update (\<lambda>_. prev))) (\<lambda>h.
       bindE (store h prev (node_next_update (\<lambda>_. new_node))) (\<lambda>h.
       Inr (h, l\<lparr>list_size := list_size l + 1\<rparr>))))))"

definition list_del :: "'a heap \<Rightarrow> ptr \<Rightarrow> ptr \<Rightarrow> kerror + 'a heap" where
  "list_del h prev nxt =
     bindE (store h nxt (node_prev_update (\<lambda>_. prev))) (\<lambda>h.
     store h prev (node_next_update (\<lambda>_. nxt)))"

definition list_del_entry :: "'a heap \<Rightarrow> klist \<Rightarrow> ptr \<Rightarrow> kerror + 'a heap \<times> klist" where
  "list_del_entry h l entry =
     bindE (is_list_del_entry_valid h entry) (\<lambda>ok.
     if \<not> ok then Inr (h, l)
     else
       bindE (load h entry) (\<lambda>e.
       bindE (list_del h (node_prev e) (node_next e)) (\<lambda>h.
       bindE (store h entry (node_prev_update (\<lambda>_. None))) (\<lambda>h.
       bindE (store h entry (node_next_update (\<lambda>_. None))) (\<lambda>h.
       bindE (delete_node h entry) (\<lambda>h.
       Inr (h, l\<lparr>list_size := list_size l - 1\<rparr>)))))))"


subsection \<open>Operations\<close>

definition list_push_back :: "'a \<Rightarrow> 'a heap \<Rightarrow> klist \<Rightarrow> kerror + 'a heap \<times> klist" where
  "list_push_back v h l =
     (let (n, h) = Node_from v h in
      bindE (load h (list_head l)) (\<lambda>s. list_add h l n (node_prev s) (list_head l)))"

definition list_push_front :: "'a \<Rightarrow> 'a heap \<Rightarrow> klist \<Rightarrow> kerror + 'a heap \<times> klist" where
  "list_push_front v h l =
     (let (n, h) = Node_from v h in
      bindE (load h (list_head l)) (\<lambda>s. list_add h l n (list_head l) (node_next s)))"

definition list_pop_back :: "'a heap \<Rightarrow> klist \<Rightarrow> kerror + 'a heap \<times> klist" where
  "list_pop_back h l = bindE (load h (list_head l)) (\<lambda>s. list_del_entry h l (node_prev s))"

definition list_pop_front :: "'a heap \<Rightarrow> klist \<Rightarrow> kerror + 'a heap \<times> klist" where
  "list_pop_front h l = bindE (load h (list_head l)) (\<lambda>s. list_del_entry h l (node_next s))"

primrec erase_walk :: "nat \<Rightarrow> 'a heap \<Rightarrow> ptr \<Rightarrow> kerror + ptr" where
  "erase_walk 0 h node = Inr node"
| "erase_walk (Suc i) h node = bindE (load h node) (\<lambda>n. erase_walk i h (node_next n))"

text \<open>\<open>while (index--)\<close> ends after as many rounds as \<open>index\<close> has as a 32-bit number.\<close>

definition list_erase :: "int \<Rightarrow> 'a heap \<Rightarrow> klist \<Rightarrow> kerror + 'a heap \<times> klist" where
  "list_erase index h l =
     bindE (load h (list_head l)) (\<lambda>s.
     bindE (erase_walk (unat (of_int index :: u32)) h (node_next s)) (\<lambda>node.
     list_del_entry h l node))"

partial_function (option) list_remove_loop ::
  "'a \<Rightarrow> 'a heap \<Rightarrow> klist \<Rightarrow> ptr \<Rightarrow> (kerror + 'a heap \<times> klist) option" where
  "list_remove_loop val h l node =
     (if node = list_head l then Some (Inr (h, l))
      else case load h node of
        Inl e \<Rightarrow> Some (Inl e)
      | Inr n \<Rightarrow> if node_data n = val then Some (list_del_entry h l node)
                 else list_remove_loop val h l (node_next n))"

definition list_remove :: "'a \<Rightarrow> 'a heap \<Rightarrow> klist \<Rightarrow> kerror + 'a heap \<times> klist" where
  "list_remove val h l =
     bindE (load h (list_head l)) (\<lambda>s.
     bindE (returned (list_remove_loop val h l (node_next s))) (\<lambda>r. r))"

partial_function (option) remove_if_loop ::
  "('a \<Rightarrow> bool) \<Rightarrow> bool \<Rightarrow> 'a heap \<Rightarrow> klist \<Rightarrow> ptr \<Rightarrow> (kerror + 'a heap \<times> klist) option" where
  "remove_if_loop predicate check_all h l node =
     (if node = list_head l then Some (Inr (h, l))
      else case load h node of
        Inl e \<Rightarrow> Some (Inl e)
      | Inr n \<Rightarrow>
          if predicate (node_data n) then
            (case list_del_entry h l node of
               Inl e \<Rightarrow> Some (Inl e)
             | Inr (h, l) \<Rightarrow>
                 if \<not> check_all then Some (Inr (h, l))
                 else case load h node of
                   Inl e \<Rightarrow> Some (Inl e)
                 | Inr n \<Rightarrow> remove_if_loop predicate check_all h l (node_next n))
          else remove_if_loop predicate check_all h l (node_next n))"

definition remove_if ::
  "('a \<Rightarrow> bool) \<Rightarrow> bool \<Rightarrow> 'a heap \<Rightarrow> klist \<Rightarrow> kerror + 'a heap \<times> klist" where
  "remove_if predicate check_all h l =
     bindE (load h (list_head l)) (\<lambda>s.
     bindE (returned (remove_if_loop predicate check_all h l (node_next s))) (\<lambda>r. r))"

text \<open>An iterator is the node it stands at and its index.\<close>

record list_iterator =
  it_current :: ptr
  it_index :: u64

definition it_begin :: "'a heap \<Rightarrow> klist \<Rightarrow> kerror + list_iterator" where
  "it_begin h l =
     bindE (load h (list_head l)) (\<lambda>s. Inr \<lparr>it_current = node_next s, it_index = 0\<rparr>)"

text \<open>The constructor of an iterator ignores the index it is given and starts from 0.\<close>

definition it_end :: "klist \<Rightarrow> list_iterator" where
  "it_end l = \<lparr>it_current = list_head l, it_index = 0\<rparr>"

definition it_next :: "'a heap \<Rightarrow> list_iterator \<Rightarrow> kerror + list_iterator" where
  "it_next h it =
     bindE (load h (it_current it)) (\<lambda>n.
     Inr \<lparr>it_current = node_next n, it_index = it_index it + 1\<rparr>)"

definition it_prev :: "'a heap \<Rightarrow> list_iterator \<Rightarrow> kerror + list_iterator" where
  "it_prev h it =
     bindE (load h (it_current it)) (\<lambda>n.
     Inr \<lparr>it_current = node_prev n, it_index = it_index it - 1\<rparr>)"

definition it_deref :: "'a heap \<Rightarrow> list_iterator \<Rightarrow> kerror + 'a" where
  "it_deref h it = bindE (load h (it_current it)) (\<lambda>n. Inr (node_data n))"

definition it_eq :: "list_iterator \<Rightarrow> list_iterator \<Rightarrow> bool" where
  "it_eq i j = (it_current i = it_current j)"

definition is_end :: "klist \<Rightarrow> list_iterator \<Rightarrow> bool" where
  "is_end l it = (it_current it = list_head l)"

partial_function (option) find_if_loop ::
  "('a \<Rightarrow> bool) \<Rightarrow> 'a heap \<Rightarrow> klist \<Rightarrow> list_iterator \<Rightarrow> (kerror + list_iterator) option" where
  "find_if_loop predicate h l it =
     (if it_eq it (it_end l) then Some (Inr (it_end l))
      else case it_deref h it of
        Inl e \<Rightarrow> Some (Inl e)
      | Inr x \<Rightarrow>
          if predicate x then Some (Inr it)
          else case it_next h it of
            Inl e \<Rightarrow> Some (Inl e)
          | Inr it \<Rightarrow> find_if_loop predicate h l it)"

definition find_if :: "('a \<Rightarrow> bool) \<Rightarrow> 'a heap \<Rightarrow> klist \<Rightarrow> kerror + list_iterator" where
  "find_if predicate h l =
     bindE (it_begin h l) (\<lambda>it.
     bindE (returned (find_if_loop predicate h l it)) (\<lambda>r. r))"

text \<open>The callback receives the element by reference: it may replace it and change a state.\<close>

partial_function (option) for_each_loop ::
  "('a \<Rightarrow> 's \<Rightarrow> 'a \<times> 's) \<Rightarrow> klist \<Rightarrow> 'a heap \<Rightarrow> 's \<Rightarrow> ptr \<Rightarrow> (kerror + 'a heap \<times> 's) option" where
  "for_each_loop callback l h s node =
     (if node = list_head l then Some (Inr (h, s))
      else case load h node of
        Inl e \<Rightarrow> Some (Inl e)
      | Inr n \<Rightarrow>
          (let (x, s) = callback (node_data n) s;
               h = h\<lparr>cells := (cells h)(the node \<mapsto> n\<lparr>node_data := x\<rparr>)\<rparr> in
           for_each_loop callback l h s (node_next n)))"

definition for_each ::
  "('a \<Rightarrow> 's \<Rightarrow> 'a \<times> 's) \<Rightarrow> klist \<Rightarrow> 'a heap \<Rightarrow> 's \<Rightarrow> kerror + 'a heap \<times> 's" where
  "for_each callback l h s =
     bindE (load h (list_head l)) (\<lambda>n.
     bindE (returned (for_each_loop callback l h s (node_next n))) (\<lambda>r. r))"

definition list_empty :: "'a heap \<Rightarrow> klist \<Rightarrow> kerror + bool" where
  "list_empty h l = bindE (load h (list_head l)) (\<lambda>s. Inr (node_next s = list_head l))"

definition list_front :: "'a heap \<Rightarrow> klist \<Rightarrow> kerror + 'a" where
  "list_front h l =
     bindE (load h (list_head l)) (\<lambda>s. bindE (load h (node_next s)) (\<lambda>n. Inr (node_data n)))"

definition list_back :: "'a heap \<Rightarrow> klist \<Rightarrow> kerror + 'a" where
  "list_back h l =
     bindE (load h (list_head l)) (\<lambda>s. bindE (load h (node_prev s)) (\<lambda>n. Inr (node_data n)))"

partial_function (option) clear_loop ::
  "'a heap \<Rightarrow> klist \<Rightarrow> (kerror + 'a heap \<times> klist) option" where
  "clear_loop h l =
     (case list_empty h l of
        Inl e \<Rightarrow> Some (Inl e)
      | Inr b \<Rightarrow>
          if b then Some (Inr (h, l))
          else case list_pop_front h l of
            Inl e \<Rightarrow> Some (Inl e)
          | Inr r \<Rightarrow> clear_loop (fst r) (snd r))"

definition list_clear :: "'a heap \<Rightarrow> klist \<Rightarrow> kerror + 'a heap \<times> klist" where
  "list_clear h l = bindE (returned (clear_loop h l)) (\<lambda>r. r)"

text \<open>The destructor deletes the nodes, then its member \<open>_head\<close> deletes the sentinel.\<close>

partial_function (option) delete_loop ::
  "ptr \<Rightarrow> 'a heap \<Rightarrow> ptr \<Rightarrow> (kerror + 'a heap) option" where
  "delete_loop sentinel h p =
     (if p = sentinel then Some (Inr h)
      else case load h p of
        Inl e \<Rightarrow> Some (Inl e)
      | Inr n \<Rightarrow>
          (case delete_node h p of
             Inl e \<Rightarrow> Some (Inl e)
           | Inr h \<Rightarrow> delete_loop sentinel h (node_next n)))"

definition List_destroy :: "'a heap \<Rightarrow> klist \<Rightarrow> kerror + 'a heap" where
  "List_destroy h l =
     bindE (load h (list_head l)) (\<lambda>s.
     bindE (returned (delete_loop (list_head l) h (node_next s))) (\<lambda>r.
     bindE r (\<lambda>h. delete_node h (list_head l))))"

text \<open>Move assignment exchanges the rings; the size of the source is set to 0.\<close>

definition list_move_assign :: "klist \<Rightarrow> klist \<Rightarrow> klist \<times> klist" where
  "list_move_assign l r =
     (\<lparr>list_head = list_head r, list_size = list_size r\<rparr>,
      \<lparr>list_head = list_head l, list_size = 0\<rparr>)"

definition List_move :: "'a \<Rightarrow> 'a heap \<Rightarrow> klist \<Rightarrow> 'a heap \<times> klist \<times> klist" where
  "List_move d h r = (let (h, l) = List d h in (h, list_move_assign l r))"

end
