(* ===== verification/KListTheorems.thy ===== *)
theory KListTheorems
  imports KList
begin

text \<open>
  What the list operations do: on a list that owns its ring, each of them runs without error,
  has its effect on the sequence of elements, keeps the ring and its size, and touches no
  other cell of the heap. Programs of list operations and the destructor compose these facts.
\<close>


subsection \<open>Paths of nodes\<close>

fun path :: "(nat \<Rightarrow> ptr) \<Rightarrow> (nat \<Rightarrow> ptr) \<Rightarrow> nat \<Rightarrow> nat list \<Rightarrow> nat \<Rightarrow> bool" where
  "path nx pv a [] b = (nx a = Some b \<and> pv b = Some a)"
| "path nx pv a (p # ps) b = (nx a = Some p \<and> pv p = Some a \<and> path nx pv p ps b)"

lemma path_append: "path nx pv a (ps @ p # qs) b = (path nx pv a ps p \<and> path nx pv p qs b)"
  by (induction ps arbitrary: a) auto

lemma path_cong:
  "(\<And>x. x \<in> set (a # ps) \<Longrightarrow> nx x = nx' x) \<Longrightarrow> (\<And>x. x \<in> set (b # ps) \<Longrightarrow> pv x = pv' x) \<Longrightarrow>
   path nx pv a ps b = path nx' pv' a ps b"
  by (induction ps arbitrary: a) auto

lemma path_first: "path nx pv a ps b \<Longrightarrow> nx a = Some (hd (ps @ [b]))"
  by (cases ps) auto

lemma path_last: "path nx pv a ps b \<Longrightarrow> pv b = Some (last (a # ps))"
  by (induction ps arbitrary: a) auto

lemma path_insert:
  assumes "path nx pv a (ps @ qs) b" and "distinct (a # ps @ qs)" and "b \<notin> set (ps @ qs)"
    and "n \<notin> set (a # b # ps @ qs)"
  shows "path (nx(n := Some (hd (qs @ [b])), last (a # ps) := Some n))
              (pv(hd (qs @ [b]) := Some n, n := Some (last (a # ps)))) a (ps @ n # qs) b"
  using assms
proof (induction ps arbitrary: a)
  case Nil
  show ?case
  proof (cases qs)
    case (Cons q qs')
    with Nil have "path nx pv q qs' b" by simp
    then have "path (nx(n := Some q, a := Some n)) (pv(q := Some n, n := Some a)) q qs' b"
      using Nil.prems Cons by (subst path_cong [where nx' = nx and pv' = pv]) auto
    with Nil Cons show ?thesis by (auto simp: fun_upd_def)
  qed (use Nil in auto)
next
  case (Cons c ps)
  moreover have "hd (qs @ [b]) \<in> set (b # qs)" by (cases qs) auto
  ultimately show ?case by auto
qed

lemma path_delete:
  assumes "path nx pv a (ps @ e # qs) b" and "distinct (a # ps @ e # qs)"
    and "b \<notin> set (ps @ e # qs)"
  shows "path (nx(last (a # ps) := Some (hd (qs @ [b])), e := None))
              (pv(hd (qs @ [b]) := Some (last (a # ps)), e := None)) a (ps @ qs) b"
  using assms
proof (induction ps arbitrary: a)
  case Nil
  show ?case
  proof (cases qs)
    case (Cons q qs')
    with Nil have "path nx pv q qs' b" by simp
    then have "path (nx(a := Some q, e := None)) (pv(q := Some a, e := None)) q qs' b"
      using Nil.prems Cons by (subst path_cong [where nx' = nx and pv' = pv]) auto
    with Nil Cons show ?thesis by (auto simp: fun_upd_def)
  qed (use Nil in auto)
next
  case (Cons c ps)
  moreover have "hd (qs @ [b]) \<in> set (b # qs)" by (cases qs) auto
  ultimately show ?case by auto
qed

definition nx :: "'a heap \<Rightarrow> nat \<Rightarrow> ptr" where
  "nx h x = Option.bind (cells h x) node_next"

definition pv :: "'a heap \<Rightarrow> nat \<Rightarrow> ptr" where
  "pv h x = Option.bind (cells h x) node_prev"

definition dat :: "'a heap \<Rightarrow> nat \<Rightarrow> 'a option" where
  "dat h x = map_option node_data (cells h x)"

lemma nx_SomeD: "nx h x = Some y \<Longrightarrow> \<exists>n. cells h x = Some n \<and> node_next n = Some y"
  by (cases "cells h x") (auto simp: nx_def)

lemma pv_SomeD: "pv h x = Some y \<Longrightarrow> \<exists>n. cells h x = Some n \<and> node_prev n = Some y"
  by (cases "cells h x") (auto simp: pv_def)

lemma load_Some [simp]: "cells h a = Some n \<Longrightarrow> load h (Some a) = Inr n"
  by (simp add: load_def)

lemma load_gone [simp]: "cells h a = None \<Longrightarrow> load h (Some a) = Inl UseAfterFree"
  by (simp add: load_def)

lemma load_nx: "nx h a = Some b \<Longrightarrow> \<exists>n. load h (Some a) = Inr n \<and> node_next n = Some b"
  using nx_SomeD by fastforce

lemma load_pv: "pv h a = Some b \<Longrightarrow> \<exists>n. load h (Some a) = Inr n \<and> node_prev n = Some b"
  using pv_SomeD by fastforce


subsection \<open>Linking and unlinking a node\<close>

lemma list_add_run:
  assumes "nx h p = Some q" and "pv h q = Some p" and "cells h n = Some x" and "n \<noteq> p" "n \<noteq> q"
  shows "\<exists>h'. list_add h l (Some n) (Some p) (Some q) = Inr (h', l\<lparr>list_size := list_size l + 1\<rparr>)
           \<and> nx h' = (nx h)(n := Some q, p := Some n) \<and> pv h' = (pv h)(q := Some n, n := Some p)
           \<and> dat h' = dat h \<and> fresh h' = fresh h \<and> (\<forall>y. y \<notin> {p, q, n} \<longrightarrow> cells h' y = cells h y)"
proof -
  obtain np where p: "cells h p = Some np" "node_next np = Some q"
    using nx_SomeD [OF assms(1)] by blast
  obtain nq where q: "cells h q = Some nq" "node_prev nq = Some p"
    using pv_SomeD [OF assms(2)] by blast
  show ?thesis
    using p q assms(3-5)
    by (auto simp: list_add_def is_list_add_valid_def store_def load_def nx_def pv_def dat_def
        fun_eq_iff)
qed

lemma list_del_entry_run:
  assumes "nx h p = Some e" "pv h e = Some p" and "nx h e = Some q" "pv h q = Some e"
    and "e \<noteq> p" "e \<noteq> q"
  shows "\<exists>h'. list_del_entry h l (Some e) = Inr (h', l\<lparr>list_size := list_size l - 1\<rparr>)
           \<and> nx h' = (nx h)(p := Some q, e := None) \<and> pv h' = (pv h)(q := Some p, e := None)
           \<and> dat h' = (dat h)(e := None) \<and> fresh h' = fresh h \<and> cells h' e = None
           \<and> (\<forall>y. y \<notin> {p, q, e} \<longrightarrow> cells h' y = cells h y)"
proof -
  obtain np where p: "cells h p = Some np" "node_next np = Some e"
    using nx_SomeD [OF assms(1)] by blast
  obtain ne where e: "cells h e = Some ne" "node_prev ne = Some p" "node_next ne = Some q"
    using pv_SomeD [OF assms(2)] nx_SomeD [OF assms(3)] by auto
  obtain nq where q: "cells h q = Some nq" "node_prev nq = Some e"
    using pv_SomeD [OF assms(4)] by blast
  show ?thesis
    using p q e assms(5,6)
    by (auto simp: list_del_entry_def is_list_del_entry_valid_def list_del_def delete_node_def
        store_def load_def nx_def pv_def dat_def fun_eq_iff)
qed


subsection \<open>Ownership\<close>

definition owns_at ::
  "'a heap \<Rightarrow> klist \<Rightarrow> nat \<Rightarrow> nat list \<Rightarrow> 'a list \<Rightarrow> (nat \<Rightarrow> 'a node option) \<Rightarrow> bool" where
  "owns_at h l a ps xs F \<longleftrightarrow>
     list_head l = Some a \<and> path (nx h) (pv h) a ps a \<and> distinct (a # ps) \<and>
     map (dat h) ps = map Some xs \<and> list_size l = of_nat (length xs) \<and>
     (\<forall>x. if x \<in> set (a # ps) then F x = None else cells h x = F x) \<and>
     (\<forall>x \<ge> fresh h. cells h x = None)"

definition owns :: "'a heap \<Rightarrow> klist \<Rightarrow> 'a list \<Rightarrow> (nat \<Rightarrow> 'a node option) \<Rightarrow> bool" where
  "owns h l xs F \<longleftrightarrow> (\<exists>a ps. owns_at h l a ps xs F)"

lemma ownsI: "owns_at h l a ps xs F \<Longrightarrow> owns h l xs F"
  unfolding owns_def by blast

lemma owns_at_length: "owns_at h l a ps xs F \<Longrightarrow> length ps = length xs"
  by (auto simp: owns_at_def dest: arg_cong [where f = length])

lemma owns_at_load:
  assumes "owns_at h l a ps xs F"
  shows "\<exists>n. load h (list_head l) = Inr n \<and> node_next n = Some (hd (ps @ [a])) \<and>
           node_prev n = Some (last (a # ps))"
proof -
  have "nx h a = Some (hd (ps @ [a]))" "pv h a = Some (last (a # ps))"
    using assms path_first path_last by (fastforce simp: owns_at_def)+
  then show ?thesis using load_nx load_pv assms by (fastforce simp: owns_at_def)
qed

lemma owns_at_allocated:
  assumes "owns_at h l a ps xs F" and "x \<in> set (a # ps)"
  shows "cells h x \<noteq> None" and "x < fresh h"
proof -
  have "cells h a \<noteq> None" using owns_at_load [OF assms(1)] assms(1)
    by (auto simp: owns_at_def load_def split: option.splits)
  moreover have "x \<in> set ps \<Longrightarrow> cells h x \<noteq> None"
  proof -
    assume "x \<in> set ps"
    then have "dat h x \<in> set (map (dat h) ps)" by simp
    then have "dat h x \<in> set (map Some xs)" using assms(1) by (simp only: owns_at_def)
    then show ?thesis by (auto simp: dat_def)
  qed
  ultimately show c: "cells h x \<noteq> None" using assms(2) by auto
  show "x < fresh h"
  proof (rule ccontr)
    assume "\<not> x < fresh h"
    then have "cells h x = None" using assms(1) by (simp add: owns_at_def)
    with c show False by simp
  qed
qed

lemma owns_at_change:
  assumes own: "owns_at h l a us xs F"
    and "path (nx h') (pv h') a vs a" "distinct (a # vs)" "map (dat h') vs = map Some ws"
    and "list_head l' = list_head l" "list_size l' = of_nat (length ws)"
    and same: "\<And>x. x \<notin> set (a # us @ vs) \<Longrightarrow> cells h' x = cells h x"
    and gone: "\<And>x. x \<in> set us \<Longrightarrow> x \<notin> set vs \<Longrightarrow> cells h' x = None"
    and new: "\<And>x. x \<in> set vs \<Longrightarrow> x \<notin> set us \<Longrightarrow> cells h x = None"
    and fresh: "fresh h \<le> fresh h'" "\<And>x. x \<in> set vs \<Longrightarrow> x < fresh h'"
  shows "owns_at h' l' a vs ws F"
proof -
  have F: "if x \<in> set (a # us) then F x = None else cells h x = F x" for x
    using own unfolding owns_at_def by blast
  have "if x \<in> set (a # vs) then F x = None else cells h' x = F x" for x
    using F [of x] same [of x] gone [of x] new [of x] by (auto split: if_splits)
  moreover have "cells h' x = None" if "fresh h' \<le> x" for x
  proof -
    have "x \<notin> set (a # us)" "x \<notin> set vs"
      using owns_at_allocated(2) [OF own, of x] fresh that by fastforce+
    then have "cells h' x = cells h x" using same by simp
    then show ?thesis using own fresh(1) that by (simp add: owns_at_def)
  qed
  ultimately show ?thesis using assms(2-6) own by (simp add: owns_at_def)
qed

lemma ring_link:
  assumes "path f g a (ps @ qs) a"
  shows "f (last (a # ps)) = Some (hd (qs @ [a])) \<and> g (hd (qs @ [a])) = Some (last (a # ps))"
proof (cases ps rule: rev_cases)
  case Nil
  then show ?thesis using assms by (cases qs) auto
next
  case (snoc ps' p)
  then have "path f g p qs a" using assms by (auto simp: path_append)
  then show ?thesis using snoc by (cases qs) auto
qed

lemma ring_ends: "last (a # ps) \<in> set (a # ps)" "hd (qs @ [a]) \<in> set (a # qs)"
  by (cases qs; auto)+

lemma owns_at_insert:
  assumes own: "owns_at h l a (ps @ qs) (xs @ ys) F" and len: "length ps = length xs"
  shows "\<exists>h' l'. list_add (snd (Node_from v h)) l (Some (fresh h)) (Some (last (a # ps)))
             (Some (hd (qs @ [a]))) = Inr (h', l') \<and> owns_at h' l' a (ps @ fresh h # qs) (xs @ v # ys) F"
proof -
  define n h1 where "n = fresh h" and "h1 = snd (Node_from v h)"
  define p q where "p = last (a # ps)" and "q = hd (qs @ [a])"
  have new: "n \<notin> set (a # ps @ qs)" using owns_at_allocated(2) [OF own] n_def by auto
  have ends: "p \<in> set (a # ps @ qs)" "q \<in> set (a # ps @ qs)"
    using ring_ends(1) [of a ps] ring_ends(2) [of qs a] unfolding p_def q_def by auto
  have f: "nx h1 = (nx h)(n := None)" "pv h1 = (pv h)(n := None)" "dat h1 = (dat h)(n := Some v)"
    "cells h1 n \<noteq> None" "fresh h1 = Suc n" "\<And>x. x \<noteq> n \<Longrightarrow> cells h1 x = cells h x"
    by (auto simp: h1_def n_def Node_from_def alloc_node_def nx_def pv_def dat_def fun_eq_iff)
  have path: "path (nx h) (pv h) a (ps @ qs) a" and d: "distinct (a # ps @ qs)"
    using own by (auto simp: owns_at_def)
  have "nx h1 p = Some q" "pv h1 q = Some p"
    using ring_link [OF path] f new ends unfolding p_def q_def by auto
  moreover have "n \<noteq> p" "n \<noteq> q" using new ends by auto
  ultimately obtain h' where r: "list_add h1 l (Some n) (Some p) (Some q) =
        Inr (h', l\<lparr>list_size := list_size l + 1\<rparr>)"
      "nx h' = (nx h1)(n := Some q, p := Some n)" "pv h' = (pv h1)(q := Some n, n := Some p)"
      "dat h' = dat h1" "fresh h' = fresh h1" "\<And>y. y \<notin> {p, q, n} \<Longrightarrow> cells h' y = cells h1 y"
    using list_add_run [of h1 p q n] f(4) by (metis option.exhaust)
  have "map (dat h) ps = map Some xs" "map (dat h) qs = map Some ys"
    using own len by (auto simp: owns_at_def)
  then have m: "map (dat h') (ps @ n # qs) = map Some (xs @ v # ys)"
    using f(3) r(4) new by simp
  have "owns_at h' (l\<lparr>list_size := list_size l + 1\<rparr>) a (ps @ n # qs) (xs @ v # ys) F"
  proof (rule owns_at_change [OF own _ _ m])
    show "path (nx h') (pv h') a (ps @ n # qs) a"
      using path_insert [OF path d, of n] d new r(2,3) f(1,2) unfolding p_def q_def by simp
    show "cells h' x = cells h x" if "x \<notin> set (a # (ps @ qs) @ ps @ n # qs)" for x
      using r(6) [of x] f(6) [of x] ends that by auto
    show "x < fresh h'" if "x \<in> set (ps @ n # qs)" for x
      using owns_at_allocated(2) [OF own, of x] that r(5) f(5) n_def by auto
  qed (use own new d n_def f(5) r(5) in \<open>auto simp: owns_at_def\<close>)
  then show ?thesis using r(1) unfolding n_def h1_def p_def q_def by blast
qed

lemma owns_at_delete:
  assumes own: "owns_at h l a (ps @ e # qs) (xs @ y # ys) F" and len: "length ps = length xs"
  shows "\<exists>h' l'. list_del_entry h l (Some e) = Inr (h', l') \<and> owns_at h' l' a (ps @ qs) (xs @ ys) F
           \<and> cells h' e = None"
proof -
  define p q where "p = last (a # ps)" and "q = hd (qs @ [a])"
  have ends: "p \<in> set (a # ps @ qs)" "q \<in> set (a # ps @ qs)"
    using ring_ends(1) [of a ps] ring_ends(2) [of qs a] unfolding p_def q_def by auto
  have path: "path (nx h) (pv h) a (ps @ e # qs) a" and d: "distinct (a # ps @ e # qs)"
    using own by (auto simp: owns_at_def)
  have "nx h p = Some e" "pv h e = Some p" "nx h e = Some q" "pv h q = Some e"
    using ring_link [OF path] ring_link [of _ _ a "ps @ [e]" qs] path unfolding p_def q_def by auto
  moreover have "e \<noteq> p" "e \<noteq> q" using d ends by auto
  ultimately obtain h' where r: "list_del_entry h l (Some e) =
        Inr (h', l\<lparr>list_size := list_size l - 1\<rparr>)"
      "nx h' = (nx h)(p := Some q, e := None)" "pv h' = (pv h)(q := Some p, e := None)"
      "dat h' = (dat h)(e := None)" "fresh h' = fresh h" "cells h' e = None"
      "\<And>y. y \<notin> {p, q, e} \<Longrightarrow> cells h' y = cells h y"
    using list_del_entry_run [of h p e q l] by blast
  have "map (dat h) ps = map Some xs" "map (dat h) qs = map Some ys"
    using own len by (auto simp: owns_at_def)
  then have m: "map (dat h') (ps @ qs) = map Some (xs @ ys)" using r(4) d by simp
  have "owns_at h' (l\<lparr>list_size := list_size l - 1\<rparr>) a (ps @ qs) (xs @ ys) F"
  proof (rule owns_at_change [OF own _ _ m])
    show "path (nx h') (pv h') a (ps @ qs) a"
      using path_delete [OF path d] d r(2,3) unfolding p_def q_def by simp
    show "cells h' x = cells h x" if "x \<notin> set (a # (ps @ e # qs) @ ps @ qs)" for x
      using r(7) [of x] ends that by auto
    show "x < fresh h'" if "x \<in> set (ps @ qs)" for x
      using owns_at_allocated(2) [OF own, of x] that r(5) by auto
  qed (use own d r(5,6) in \<open>auto simp: owns_at_def\<close>)
  then show ?thesis using r(1,6) by blast
qed


subsection \<open>The operations\<close>

lemma List_owns:
  assumes "\<forall>x \<ge> fresh h. cells h x = None"
  shows "owns (fst (List d h)) (snd (List d h)) [] (cells h)"
proof -
  have "owns_at (fst (List d h)) (snd (List d h)) (fresh h) [] [] (cells h)"
    using assms by (auto simp: owns_at_def List_def Node_def alloc_node_def nx_def pv_def)
  then show ?thesis unfolding owns_def by blast
qed

lemma load_sentinel_new:
  assumes "owns_at h l a ps xs F"
  shows "load (snd (Node_from v h)) (list_head l) = load h (list_head l)"
  using owns_at_allocated(2) [OF assms, of a] assms
  by (auto simp: owns_at_def load_def Node_from_def alloc_node_def)

lemma push_back_owns:
  assumes "owns h l xs F"
  shows "\<exists>h' l'. list_push_back v h l = Inr (h', l') \<and> owns h' l' (xs @ [v]) F"
proof -
  obtain a ps where own: "owns_at h l a ps xs F" using assms unfolding owns_def by blast
  obtain h' l' where "list_add (snd (Node_from v h)) l (Some (fresh h)) (Some (last (a # ps)))
      (Some a) = Inr (h', l')" "owns_at h' l' a (ps @ [fresh h]) (xs @ [v]) F"
    using owns_at_insert [of h l a ps "[]" xs "[]" F v] own owns_at_length [OF own] by auto
  moreover obtain n where "load h (list_head l) = Inr n" "node_prev n = Some (last (a # ps))"
    using owns_at_load [OF own] by blast
  moreover have "list_head l = Some a" using own by (simp add: owns_at_def)
  ultimately show ?thesis
    using load_sentinel_new [OF own, of v] unfolding owns_def list_push_back_def
    by (fastforce simp: Node_from_def alloc_node_def)
qed

lemma push_front_owns:
  assumes "owns h l xs F"
  shows "\<exists>h' l'. list_push_front v h l = Inr (h', l') \<and> owns h' l' (v # xs) F"
proof -
  obtain a ps where own: "owns_at h l a ps xs F" using assms unfolding owns_def by blast
  obtain h' l' where "list_add (snd (Node_from v h)) l (Some (fresh h)) (Some a)
      (Some (hd (ps @ [a]))) = Inr (h', l')" "owns_at h' l' a (fresh h # ps) (v # xs) F"
    using owns_at_insert [of h l a "[]" ps "[]" xs F v] own by auto
  moreover obtain n where "load h (list_head l) = Inr n" "node_next n = Some (hd (ps @ [a]))"
    using owns_at_load [OF own] by blast
  moreover have "list_head l = Some a" using own by (simp add: owns_at_def)
  ultimately show ?thesis
    using load_sentinel_new [OF own, of v] unfolding owns_def list_push_front_def
    by (fastforce simp: Node_from_def alloc_node_def)
qed

lemma pop_front_owns:
  assumes "owns h l (x # xs) F"
  shows "\<exists>h' l'. list_pop_front h l = Inr (h', l') \<and> owns h' l' xs F"
proof -
  obtain a ps where own: "owns_at h l a ps (x # xs) F" using assms unfolding owns_def by blast
  then obtain e qs where ps: "ps = e # qs" using owns_at_length by (cases ps) fastforce+
  then obtain h' l' where "list_del_entry h l (Some e) = Inr (h', l')" "owns_at h' l' a qs xs F"
    using owns_at_delete [of h l a "[]" e qs "[]" x xs F] own by auto
  then show ?thesis
    using owns_at_load [OF own] ps unfolding owns_def list_pop_front_def by fastforce
qed

lemma pop_back_owns:
  assumes "owns h l (xs @ [x]) F"
  shows "\<exists>h' l'. list_pop_back h l = Inr (h', l') \<and> owns h' l' xs F"
proof -
  obtain a ps where own: "owns_at h l a ps (xs @ [x]) F" using assms unfolding owns_def by blast
  then obtain e qs where ps: "ps = qs @ [e]"
    using owns_at_length by (cases ps rule: rev_cases) fastforce+
  then have "length qs = length xs" using owns_at_length [OF own] by simp
  then obtain h' l' where "list_del_entry h l (Some e) = Inr (h', l')" "owns_at h' l' a qs xs F"
    using owns_at_delete [of h l a qs e "[]" xs x "[]" F] own ps by auto
  then show ?thesis
    using owns_at_load [OF own] ps unfolding owns_def list_pop_back_def by fastforce
qed

lemma owns_at_node:
  assumes own: "owns_at h l a (ps @ e # qs) (xs @ y # ys) F" and len: "length ps = length xs"
  shows "\<exists>n. load h (Some e) = Inr n \<and> node_next n = Some (hd (qs @ [a])) \<and> node_data n = y"
    and "Some e \<noteq> list_head l"
proof -
  have path: "path (nx h) (pv h) a (ps @ e # qs) a" and d: "distinct (a # ps @ e # qs)"
    using own by (auto simp: owns_at_def)
  have "nx h e = Some (hd (qs @ [a]))" using ring_link [of _ _ a "ps @ [e]" qs] path by auto
  then obtain n where n: "cells h e = Some n" "node_next n = Some (hd (qs @ [a]))"
    using nx_SomeD by blast
  have "map (dat h) (e # qs) = map Some (y # ys)" using own len by (auto simp: owns_at_def)
  then have "node_data n = y" using n by (simp add: dat_def)
  with n show "\<exists>n. load h (Some e) = Inr n \<and> node_next n = Some (hd (qs @ [a])) \<and> node_data n = y"
    by auto
  show "Some e \<noteq> list_head l" using own by (auto simp: owns_at_def)
qed

lemma owns_at_split:
  assumes "owns_at h l a ps (xs @ ys) F"
  obtains qs rs where "ps = qs @ rs" "length qs = length xs" "length rs = length ys"
  using owns_at_length [OF assms] that [of "take (length xs) ps" "drop (length xs) ps"] by auto

lemma erase_walk_owns:
  assumes "owns_at h l a (ps @ qs) (xs @ ys) F" and "length ps = length xs" and "i \<le> length ys"
  shows "erase_walk i h (Some (hd (qs @ [a]))) = Inr (Some (hd (drop i qs @ [a])))"
  using assms
proof (induction i arbitrary: ps qs xs ys)
  case (Suc i)
  then obtain y ys' where ys: "ys = y # ys'" by (cases ys) auto
  then obtain e qs' where qs: "qs = e # qs'"
    using Suc.prems(2) owns_at_length [OF Suc.prems(1)] by (cases qs) auto
  obtain n where "load h (Some e) = Inr n" "node_next n = Some (hd (qs' @ [a]))"
    using owns_at_node(1) [of h l a ps e qs' xs y ys' F] Suc.prems(1,2) unfolding ys qs by auto
  then show ?case using Suc.IH [of "ps @ [e]" qs' "xs @ [y]" ys'] Suc.prems ys qs by simp
qed simp

lemma erase_owns:
  assumes "owns h l xs F" and "0 \<le> i" "i < int (length xs)" "i < 2 ^ 32"
  shows "\<exists>h' l'. list_erase i h l = Inr (h', l') \<and>
           owns h' l' (take (nat i) xs @ drop (Suc (nat i)) xs) F"
proof -
  obtain a ps where own: "owns_at h l a ps xs F" using assms(1) unfolding owns_def by blast
  define k where "k = nat i"
  have k: "k < length xs" "k < length ps"
    using assms(2,3) owns_at_length [OF own] by (simp_all add: k_def)
  have "uint (of_int i :: u32) = i" using assms(2,4) by (simp add: uint_word_of_int_eq take_bit_int_eq_self)
  then have i: "unat (of_int i :: u32) = k" unfolding k_def by (simp only: unat_eq_nat_uint)
  have walk: "erase_walk k h (Some (hd (ps @ [a]))) = Inr (Some (ps ! k))"
    using erase_walk_owns [of h l a "[]" ps "[]" xs F k] own k by (auto simp: hd_append hd_drop_conv_nth)
  have "owns_at h l a (take k ps @ ps ! k # drop (Suc k) ps) (take k xs @ xs ! k # drop (Suc k) xs) F"
    using own k by (simp add: id_take_nth_drop [symmetric])
  then obtain h' l' where "list_del_entry h l (Some (ps ! k)) = Inr (h', l')"
      "owns h' l' (take k xs @ drop (Suc k) xs) F"
    using owns_at_delete [of h l a "take k ps" "ps ! k" "drop (Suc k) ps" "take k xs" "xs ! k"
        "drop (Suc k) xs" F] k unfolding owns_def by auto
  then show ?thesis
    using owns_at_load [OF own] walk i unfolding list_erase_def by (auto simp: k_def)
qed

text \<open>The loops visit the nodes in order; \<open>tail_cases\<close> is one round of each.\<close>

lemma tail_cases:
  assumes "owns_at h l a (ps @ qs) (xs @ ys) F" and "length ps = length xs"
  obtains (finish) "qs = []" "ys = []" "Some (hd (qs @ [a])) = list_head l"
    | (node) e qs' y ys' n where "qs = e # qs'" "ys = y # ys'" "load h (Some e) = Inr n"
        "node_next n = Some (hd (qs' @ [a]))" "node_data n = y" "Some e \<noteq> list_head l"
proof (cases ys)
  case Nil
  then have "qs = []" using owns_at_length [OF assms(1)] assms(2) by simp
  then show ?thesis using finish Nil assms(1) by (simp add: owns_at_def)
next
  case (Cons y ys')
  then obtain e qs' where "qs = e # qs'"
    using owns_at_length [OF assms(1)] assms(2) by (cases qs) auto
  then show ?thesis
    using node Cons owns_at_node [of h l a ps e qs' xs y ys' F] assms by blast
qed

lemma remove_loop_owns:
  assumes "owns_at h l a (ps @ qs) (xs @ ys) F" and "length ps = length xs"
  shows "\<exists>h' l'. list_remove_loop v h l (Some (hd (qs @ [a]))) = Some (Inr (h', l')) \<and>
           owns h' l' (xs @ remove1 v ys) F"
  using assms
proof (induction ys arbitrary: ps qs xs)
  case Nil
  then show ?case
    by (cases rule: tail_cases [OF Nil]) (auto simp: list_remove_loop.simps owns_def)
next
  case (Cons y ys)
  from Cons.prems show ?case
  proof (cases rule: tail_cases)
    case (node e qs' y' ys' n)
    then have own: "owns_at h l a (ps @ e # qs') (xs @ y # ys) F" using Cons.prems by simp
    show ?thesis
    proof (cases "y = v")
      case True
      then show ?thesis
        using owns_at_delete [OF own Cons.prems(2)] node
        by (auto simp: list_remove_loop.simps owns_def)
    next
      case False
      then show ?thesis
        using Cons.IH [of "ps @ [e]" qs' "xs @ [y]"] own Cons.prems(2) node
        by (auto simp: list_remove_loop.simps [of v h l "Some e"])
    qed
  qed simp
qed

lemma remove_owns:
  assumes "owns h l xs F"
  shows "\<exists>h' l'. list_remove v h l = Inr (h', l') \<and> owns h' l' (remove1 v xs) F"
proof -
  obtain a ps where own: "owns_at h l a ps xs F" using assms unfolding owns_def by blast
  then obtain h' l' where "list_remove_loop v h l (Some (hd (ps @ [a]))) = Some (Inr (h', l'))"
      "owns h' l' (remove1 v xs) F"
    using remove_loop_owns [of h l a "[]" ps "[]" xs F v] by auto
  then show ?thesis using owns_at_load [OF own] unfolding list_remove_def by auto
qed

text \<open>
  \<open>remove_if\<close> removes the first element that satisfies the predicate. With \<open>check_all\<close> it
  goes on from the node it has just deleted.
\<close>

definition remove_first :: "('a \<Rightarrow> bool) \<Rightarrow> 'a list \<Rightarrow> 'a list" where
  "remove_first P xs = takeWhile (\<lambda>x. \<not> P x) xs @ tl (dropWhile (\<lambda>x. \<not> P x) xs)"

lemma remove_if_loop_owns:
  assumes "owns_at h l a (ps @ qs) (xs @ ys) F" and "length ps = length xs"
  shows "if check_all \<and> (\<exists>y \<in> set ys. P y)
         then remove_if_loop P check_all h l (Some (hd (qs @ [a]))) = Some (Inl UseAfterFree)
         else \<exists>h' l'. remove_if_loop P check_all h l (Some (hd (qs @ [a]))) = Some (Inr (h', l')) \<and>
           owns h' l' (xs @ remove_first P ys) F"
  using assms
proof (induction ys arbitrary: ps qs xs)
  case Nil
  then show ?case
    by (cases rule: tail_cases [OF Nil])
      (auto simp: remove_if_loop.simps owns_def remove_first_def)
next
  case (Cons y ys)
  from Cons.prems show ?case
  proof (cases rule: tail_cases)
    case (node e qs' y' ys' n)
    then have own: "owns_at h l a (ps @ e # qs') (xs @ y # ys) F" using Cons.prems by simp
    show ?thesis
    proof (cases "P y")
      case True
      then show ?thesis
        using owns_at_delete [OF own Cons.prems(2)] node
        by (auto simp: remove_if_loop.simps remove_first_def intro: ownsI)
    next
      case False
      then have "remove_if_loop P check_all h l (Some (hd (qs @ [a]))) =
          remove_if_loop P check_all h l (Some (hd (qs' @ [a])))"
        using node by (subst remove_if_loop.simps) simp
      then show ?thesis
        using Cons.IH [of "ps @ [e]" qs' "xs @ [y]"] own Cons.prems(2) False
        by (cases check_all; cases "\<exists>x \<in> set ys. P x") (simp_all add: remove_first_def)
    qed
  qed simp
qed

lemma remove_if_owns:
  assumes "owns h l xs F"
  shows "if check_all \<and> (\<exists>y \<in> set xs. P y) then remove_if P check_all h l = Inl UseAfterFree
         else \<exists>h' l'. remove_if P check_all h l = Inr (h', l') \<and> owns h' l' (remove_first P xs) F"
proof -
  obtain a ps where own: "owns_at h l a ps xs F" using assms unfolding owns_def by blast
  then show ?thesis
    using owns_at_load [OF own] remove_if_loop_owns [of h l a "[]" ps "[]" xs F check_all P]
    unfolding remove_if_def by (auto split: if_splits)
qed

lemma empty_owns:
  assumes "owns h l xs F"
  shows "list_empty h l = Inr (xs = [])"
proof -
  obtain a ps where own: "owns_at h l a ps xs F" using assms unfolding owns_def by blast
  then have "hd (ps @ [a]) = a \<longleftrightarrow> xs = []"
    using owns_at_length [OF own] by (cases ps) (auto simp: owns_at_def)
  then show ?thesis
    using owns_at_load [OF own] own unfolding list_empty_def by (auto simp: owns_at_def)
qed

lemma front_owns:
  assumes "owns h l (x # xs) F"
  shows "list_front h l = Inr x"
proof -
  obtain a ps where own: "owns_at h l a ps (x # xs) F" using assms unfolding owns_def by blast
  from own have "owns_at h l a ([] @ ps) ([] @ (x # xs)) F" by simp
  then show ?thesis
    by (cases rule: tail_cases) (use owns_at_load [OF own] in \<open>auto simp: list_front_def\<close>)
qed

lemma back_owns:
  assumes "owns h l (xs @ [x]) F"
  shows "list_back h l = Inr x"
proof -
  obtain a ps where own: "owns_at h l a ps (xs @ [x]) F" using assms unfolding owns_def by blast
  then obtain e qs where ps: "ps = qs @ [e]"
    using owns_at_length by (cases ps rule: rev_cases) fastforce+
  then have "length qs = length xs" using owns_at_length [OF own] by simp
  then show ?thesis
    using owns_at_node(1) [of h l a qs e "[]" xs x "[]" F] owns_at_load [OF own] own ps
    by (auto simp: list_back_def)
qed

lemma clear_owns:
  assumes "owns h l xs F"
  shows "\<exists>h' l'. list_clear h l = Inr (h', l') \<and> owns h' l' [] F"
proof -
  have "\<exists>h' l'. clear_loop h l = Some (Inr (h', l')) \<and> owns h' l' [] F"
    using assms
  proof (induction xs arbitrary: h l)
    case Nil
    then show ?case by (subst clear_loop.simps) (simp add: empty_owns [OF Nil])
  next
    case (Cons x xs)
    obtain h1 l1 where "list_pop_front h l = Inr (h1, l1)" "owns h1 l1 xs F"
      using pop_front_owns [OF Cons.prems] by blast
    then show ?case
      using Cons.IH by (subst clear_loop.simps) (simp add: empty_owns [OF Cons.prems])
  qed
  then show ?thesis by (auto simp: list_clear_def)
qed


text \<open>The iterator stands at the first element of \<open>ys\<close> with \<open>P\<close>, counted from \<open>k\<close>, or at the end.\<close>

definition found ::
  "('a \<Rightarrow> bool) \<Rightarrow> nat \<Rightarrow> 'a list \<Rightarrow> 'a heap \<Rightarrow> klist \<Rightarrow> list_iterator \<Rightarrow> bool" where
  "found P k ys h l it \<longleftrightarrow>
     (if \<exists>y \<in> set ys. P y
      then it_deref h it = Inr (hd (filter P ys)) \<and> \<not> is_end l it \<and>
        it_index it = of_nat (k + length (takeWhile (\<lambda>y. \<not> P y) ys))
      else is_end l it)"

lemma found_Cons: "\<not> P y \<Longrightarrow> found P k (y # ys) h l it = found P (Suc k) ys h l it"
  by (simp add: found_def)

lemma find_if_loop_owns:
  assumes "owns_at h l a (ps @ qs) (xs @ ys) F" and "length ps = length xs"
    and "it_current it = Some (hd (qs @ [a]))" and "it_index it = of_nat (length xs)"
  shows "\<exists>it'. find_if_loop P h l it = Some (Inr it') \<and> found P (length xs) ys h l it'"
  using assms
proof (induction ys arbitrary: ps qs xs it)
  case Nil
  then show ?case
    by (cases rule: tail_cases [OF Nil(1,2)])
      (auto simp: find_if_loop.simps it_eq_def it_end_def is_end_def found_def)
next
  case (Cons y ys)
  from Cons.prems(1,2) show ?case
  proof (cases rule: tail_cases)
    case (node e qs' y' ys' n)
    then have own: "owns_at h l a (ps @ e # qs') (xs @ y # ys) F" using Cons.prems by simp
    have it: "it_current it = Some e" using Cons.prems(3) node by simp
    show ?thesis
    proof (cases "P y")
      case True
      then show ?thesis using node it Cons.prems(4)
        by (auto simp: find_if_loop.simps it_eq_def it_end_def it_deref_def is_end_def found_def)
    next
      case False
      define it2 where "it2 = \<lparr>it_current = node_next n, it_index = it_index it + 1\<rparr>"
      have "find_if_loop P h l it = find_if_loop P h l it2"
        using node it False
        by (subst find_if_loop.simps)
          (simp add: it_eq_def it_end_def it_deref_def it_next_def it2_def)
      moreover have "it_current it2 = Some (hd (qs' @ [a]))"
          "it_index it2 = of_nat (length (xs @ [y]))"
        using node Cons.prems(4) by (simp_all add: it2_def add.commute)
      ultimately show ?thesis
        using Cons.IH [of "ps @ [e]" qs' "xs @ [y]" it2] own Cons.prems(2) found_Cons [of P y, OF False]
        by simp
    qed
  qed simp
qed

lemma find_if_owns:
  assumes "owns h l xs F"
  shows "\<exists>it. find_if P h l = Inr it \<and> found P 0 xs h l it"
proof -
  obtain a ps where own: "owns_at h l a ps xs F" using assms unfolding owns_def by blast
  then obtain n where n: "load h (list_head l) = Inr n" "node_next n = Some (hd (ps @ [a]))"
    using owns_at_load by blast
  define it where "it = \<lparr>it_current = node_next n, it_index = 0\<rparr>"
  have "find_if P h l = bindE (returned (find_if_loop P h l it)) (\<lambda>r. r)"
    using n by (simp add: find_if_def it_begin_def it_def)
  then show ?thesis
    using find_if_loop_owns [of h l a "[]" ps "[]" xs F it P] own n it_def by auto
qed

fun map_state :: "('a \<Rightarrow> 's \<Rightarrow> 'a \<times> 's) \<Rightarrow> 'a list \<Rightarrow> 's \<Rightarrow> 'a list \<times> 's" where
  "map_state f [] s = ([], s)"
| "map_state f (x # xs) s =
     (let (y, s) = f x s; (ys, s) = map_state f xs s in (y # ys, s))"

lemma owns_at_write:
  assumes own: "owns_at h l a (ps @ e # qs) (xs @ y # ys) F" and len: "length ps = length xs"
    and "load h (Some e) = Inr n"
  shows "owns_at (h\<lparr>cells := (cells h)(e \<mapsto> n\<lparr>node_data := v\<rparr>)\<rparr>) l a (ps @ e # qs) (xs @ v # ys) F"
    (is "owns_at ?h _ _ _ _ _")
proof (rule owns_at_change [OF own])
  have e: "cells h e = Some n" using assms(3) by (auto simp: load_def split: option.splits)
  have "nx ?h = nx h" "pv ?h = pv h" "dat ?h = (dat h)(e := Some v)"
    using e by (auto simp: nx_def pv_def dat_def fun_eq_iff)
  then show "path (nx ?h) (pv ?h) a (ps @ e # qs) a"
      "map (dat ?h) (ps @ e # qs) = map Some (xs @ v # ys)"
    using own len by (auto simp: owns_at_def)
  show "x < fresh ?h" if "x \<in> set (ps @ e # qs)" for x
    using owns_at_allocated(2) [OF own, of x] that by auto
qed (use own in \<open>auto simp: owns_at_def\<close>)

lemma for_each_loop_owns:
  assumes "owns_at h l a (ps @ qs) (xs @ ys) F" and "length ps = length xs"
  shows "\<exists>h'. for_each_loop f l h s (Some (hd (qs @ [a]))) = Some (Inr (h', snd (map_state f ys s))) \<and>
           owns h' l (xs @ fst (map_state f ys s)) F"
  using assms
proof (induction ys arbitrary: ps qs xs h s)
  case Nil
  then show ?case
    by (cases rule: tail_cases [OF Nil]) (auto simp: for_each_loop.simps intro: ownsI)
next
  case (Cons y ys)
  from Cons.prems show ?case
  proof (cases rule: tail_cases)
    case (node e qs' y' ys' n)
    obtain v t where f: "f y s = (v, t)" by force
    define h2 where "h2 = h\<lparr>cells := (cells h)(e \<mapsto> n\<lparr>node_data := v\<rparr>)\<rparr>"
    have "owns_at h2 l a ((ps @ [e]) @ qs') ((xs @ [v]) @ ys) F"
      using owns_at_write [of h l a ps e qs' xs y ys F n v] Cons.prems node h2_def by simp
    moreover have "for_each_loop f l h s (Some (hd (qs @ [a]))) =
        for_each_loop f l h2 t (Some (hd (qs' @ [a])))"
      using node f h2_def by (subst for_each_loop.simps) simp
    ultimately show ?thesis
      using Cons.IH [of h2 "ps @ [e]" qs' "xs @ [v]" t] Cons.prems(2) f
      by (auto simp: case_prod_beta)
  qed simp
qed

lemma for_each_owns:
  assumes "owns h l xs F"
  shows "\<exists>h'. for_each f l h s = Inr (h', snd (map_state f xs s)) \<and>
           owns h' l (fst (map_state f xs s)) F"
proof -
  obtain a ps where own: "owns_at h l a ps xs F" using assms unfolding owns_def by blast
  then show ?thesis
    using owns_at_load [OF own] for_each_loop_owns [of h l a "[]" ps "[]" xs F f s]
    unfolding for_each_def by auto
qed

text \<open>The destructor frees the ring, whatever the links of the freed nodes become.\<close>

fun visits :: "(nat \<Rightarrow> ptr) \<Rightarrow> ptr \<Rightarrow> nat list \<Rightarrow> nat \<Rightarrow> bool" where
  "visits f p [] b = (p = Some b)"
| "visits f p (x # xs) b = (p = Some x \<and> visits f (f x) xs b)"

lemma path_visits: "path f g a ps b \<Longrightarrow> visits f (f a) ps b"
  by (induction ps arbitrary: a) auto

lemma visits_update: "x \<notin> set xs \<Longrightarrow> visits (f(x := v)) p xs b = visits f p xs b"
  by (induction xs arbitrary: p) auto

lemma delete_loop_frees:
  assumes "visits (nx h) p ps a" and "distinct ps" "a \<notin> set ps" and "\<forall>x \<in> set ps. cells h x \<noteq> None"
  shows "\<exists>h'. delete_loop (Some a) h p = Some (Inr h') \<and>
           cells h' = (\<lambda>x. if x \<in> set ps then None else cells h x)"
  using assms
proof (induction ps arbitrary: h p)
  case (Cons x ps)
  then obtain n where n: "cells h x = Some n" by auto
  define h2 where "h2 = h\<lparr>cells := (cells h)(x := None)\<rparr>"
  have "nx h2 = (nx h)(x := None)" "nx h x = node_next n"
    using n by (auto simp: h2_def nx_def fun_eq_iff)
  then have "visits (nx h2) (node_next n) ps a" using Cons.prems by (simp add: visits_update)
  moreover have "delete_loop (Some a) h p = delete_loop (Some a) h2 (node_next n)"
    using Cons.prems n by (subst delete_loop.simps) (auto simp: delete_node_def h2_def)
  moreover have "\<forall>y \<in> set ps. cells h2 y \<noteq> None" using Cons.prems by (auto simp: h2_def)
  ultimately obtain h' where "delete_loop (Some a) h p = Some (Inr h')"
      "cells h' = (\<lambda>y. if y \<in> set ps then None else cells h2 y)"
    using Cons.IH [of h2 "node_next n"] Cons.prems by auto
  then show ?case by (auto simp: h2_def)
qed (simp add: delete_loop.simps)

lemma destroy_owns:
  assumes "owns h l xs F"
  shows "\<exists>h'. List_destroy h l = Inr h' \<and> cells h' = F"
proof -
  obtain a ps where own: "owns_at h l a ps xs F" using assms unfolding owns_def by blast
  then have head: "list_head l = Some a" by (simp add: owns_at_def)
  have d: "distinct (a # ps)" using own by (simp add: owns_at_def)
  obtain n where n: "load h (list_head l) = Inr n" "node_next n = Some (hd (ps @ [a]))"
    using owns_at_load [OF own] by blast
  have "visits (nx h) (Some (hd (ps @ [a]))) ps a"
    using own path_visits path_first by (fastforce simp: owns_at_def)
  moreover have "\<forall>x \<in> set ps. cells h x \<noteq> None" using owns_at_allocated(1) [OF own] by auto
  ultimately obtain h1 where h1: "delete_loop (Some a) h (Some (hd (ps @ [a]))) = Some (Inr h1)"
      "cells h1 = (\<lambda>x. if x \<in> set ps then None else cells h x)"
    using delete_loop_frees [of h _ ps a] d by auto
  have "cells h1 a \<noteq> None" using h1(2) d owns_at_allocated(1) [OF own, of a] by simp
  then have "List_destroy h l = Inr (h1\<lparr>cells := (cells h1)(a := None)\<rparr>)"
    using n h1(1) head by (auto simp: List_destroy_def delete_node_def load_def split: option.splits)
  moreover have "(cells h1)(a := None) = F"
    using own unfolding owns_at_def h1(2) by (auto simp: fun_eq_iff)
  ultimately show ?thesis by auto
qed

text \<open>A list constructed by moving takes over the ring; the source is left with an empty one.\<close>

lemma move_owns:
  assumes own: "owns h r xs F" and "List_move d h r = (h', l, r')"
  shows "owns h' l xs (F(fresh h := cells h' (fresh h)))" and "list_empty h' r' = Inr True"
    and "list_size r' = 0"
proof -
  obtain a ps where own: "owns_at h r a ps xs F" using assms(1) unfolding owns_def by blast
  have new: "fresh h \<notin> set (a # ps)" using owns_at_allocated(2) [OF own] by auto
  define n where "n = \<lparr>node_prev = Some (fresh h), node_next = Some (fresh h), node_data = d\<rparr>"
  have h': "h' = h\<lparr>cells := (cells h)(fresh h \<mapsto> n), fresh := Suc (fresh h)\<rparr>"
    and l: "list_head l = list_head r" "list_size l = list_size r"
    and r': "list_head r' = Some (fresh h)" "list_size r' = 0"
    using assms(2)
    by (auto simp: List_move_def List_def Node_def alloc_node_def list_move_assign_def n_def)
  have c: "cells h' = (cells h)(fresh h \<mapsto> n)" "fresh h' = Suc (fresh h)" by (simp_all add: h')
  have f: "nx h' = (nx h)(fresh h := Some (fresh h))" "pv h' = (pv h)(fresh h := Some (fresh h))"
    "dat h' = (dat h)(fresh h := Some d)"
    by (auto simp: h' n_def nx_def pv_def dat_def fun_eq_iff)
  have "path (nx h') (pv h') a ps a = path (nx h) (pv h) a ps a"
    using new f(1,2) by (intro path_cong) auto
  moreover have "map (dat h') ps = map Some xs" using new own f(3) by (simp add: owns_at_def)
  ultimately have "owns_at h' l a ps xs (F(fresh h := cells h' (fresh h)))"
    using own l new c by (simp add: owns_at_def)
  then show "owns h' l xs (F(fresh h := cells h' (fresh h)))" by (rule ownsI)
  show "list_empty h' r' = Inr True" using r' by (simp add: list_empty_def h' n_def load_def)
  show "list_size r' = 0" by (rule r'(2))
qed


subsection \<open>Programs of list operations\<close>

datatype 'a list_op =
    Push_back 'a
  | Push_front 'a
  | Pop_back
  | Pop_front
  | Erase int
  | Remove 'a
  | Remove_if "'a \<Rightarrow> bool" bool
  | Clear

fun run_op :: "'a list_op \<Rightarrow> 'a heap \<times> klist \<Rightarrow> kerror + 'a heap \<times> klist" where
  "run_op (Push_back v) (h, l) = list_push_back v h l"
| "run_op (Push_front v) (h, l) = list_push_front v h l"
| "run_op Pop_back (h, l) = list_pop_back h l"
| "run_op Pop_front (h, l) = list_pop_front h l"
| "run_op (Erase i) (h, l) = list_erase i h l"
| "run_op (Remove v) (h, l) = list_remove v h l"
| "run_op (Remove_if P all) (h, l) = remove_if P all h l"
| "run_op Clear (h, l) = list_clear h l"

text \<open>What the operation means for the sequence; \<open>None\<close> where the caller must not use it.\<close>

fun op_spec :: "'a list_op \<Rightarrow> 'a list \<Rightarrow> 'a list option" where
  "op_spec (Push_back v) xs = Some (xs @ [v])"
| "op_spec (Push_front v) xs = Some (v # xs)"
| "op_spec Pop_back xs = (if xs = [] then None else Some (butlast xs))"
| "op_spec Pop_front xs = (if xs = [] then None else Some (tl xs))"
| "op_spec (Erase i) xs =
     (if 0 \<le> i \<and> i < int (length xs) \<and> i < 2 ^ 31
      then Some (take (nat i) xs @ drop (Suc (nat i)) xs) else None)"
| "op_spec (Remove v) xs = Some (remove1 v xs)"
| "op_spec (Remove_if P all) xs =
     (if all \<and> (\<exists>x \<in> set xs. P x) then None else Some (remove_first P xs))"
| "op_spec Clear xs = Some []"

fun ops_spec :: "'a list_op list \<Rightarrow> 'a list \<Rightarrow> 'a list option" where
  "ops_spec [] xs = Some xs"
| "ops_spec (op # ops) xs = Option.bind (op_spec op xs) (ops_spec ops)"

lemma run_op_owns:
  assumes own: "owns h l xs F" and spec: "op_spec op xs = Some ys"
  shows "\<exists>h' l'. run_op op (h, l) = Inr (h', l') \<and> owns h' l' ys F"
proof (cases op)
  case Pop_back
  then show ?thesis using pop_back_owns own spec by (cases xs rule: rev_cases) auto
next
  case Pop_front
  then show ?thesis using pop_front_owns own spec by (cases xs) auto
next
  case (Erase i)
  then have "0 \<le> i" "i < int (length xs)" "i < 2 ^ 32"
    "ys = take (nat i) xs @ drop (Suc (nat i)) xs"
    using spec by (auto split: if_splits)
  then show ?thesis using erase_owns [OF own] Erase by simp
next
  case (Remove_if P all)
  then show ?thesis using remove_if_owns [OF own, of all P] spec by (auto split: if_splits)
qed (use push_back_owns [OF own] push_front_owns [OF own] remove_owns [OF own]
      clear_owns [OF own] spec in auto)

lemma run_ops_owns:
  assumes "owns h l xs F" and "ops_spec ops xs = Some ys"
  shows "\<exists>h' l'. forE ops run_op (h, l) = Inr (h', l') \<and> owns h' l' ys F"
  using assms
proof (induction ops arbitrary: h l xs)
  case (Cons op ops)
  then obtain zs where "op_spec op xs = Some zs" "ops_spec ops zs = Some ys"
    by (auto simp: bind_eq_Some_conv)
  then show ?case using Cons.IH run_op_owns [OF Cons.prems(1)] by fastforce
qed auto

lemma map_state_collect:
  "map_state (\<lambda>x acc. (x, acc @ [x])) xs acc = (xs, acc @ xs)"
  by (induction xs arbitrary: acc) auto

lemma owns_size: "owns h l xs F \<Longrightarrow> list_size l = of_nat (length xs)"
  by (auto simp: owns_def owns_at_def)

text \<open>C28: Every program of list operations that pops only non-empty lists, erases only indices
  of elements and does not let \<open>remove_if\<close> go on after a removal runs without error from a
  newly constructed list. The list then has the size and holds, from front to back, exactly the
  elements the same program leaves in a sequence, and its destructor frees every node the
  program allocated and nothing else.\<close>

theorem list_programs:
  assumes "\<forall>x \<ge> fresh h. cells h x = None" and "ops_spec ops [] = Some xs"
  shows "\<exists>h1 l1. forE ops run_op (List d h) = Inr (h1, l1) \<and>
     list_size l1 = of_nat (length xs) \<and> list_empty h1 l1 = Inr (xs = []) \<and>
     (\<exists>h2. for_each (\<lambda>x acc. (x, acc @ [x])) l1 h1 [] = Inr (h2, xs)) \<and>
     (\<exists>h3. List_destroy h1 l1 = Inr h3 \<and> cells h3 = cells h)"
proof -
  obtain h0 l0 where new: "List d h = (h0, l0)" by force
  then have "owns h0 l0 [] (cells h)" using List_owns [OF assms(1), of d] by simp
  then obtain h1 l1 where "forE ops run_op (h0, l0) = Inr (h1, l1)" and own: "owns h1 l1 xs (cells h)"
    using run_ops_owns assms(2) by blast
  moreover have "\<exists>h2. for_each (\<lambda>x acc. (x, acc @ [x])) l1 h1 [] = Inr (h2, xs)"
    using for_each_owns [OF own, of "\<lambda>x acc. (x, acc @ [x])" "[]"]
    by (auto simp: map_state_collect)
  ultimately show ?thesis
    using new owns_size [OF own] empty_owns [OF own] destroy_owns [OF own] by auto
qed

theorem list_programs_witness:
  "\<exists>h1 l1. forE [Push_back (1 :: int), Push_back 2, Push_front 3, Erase 1, Remove 3, Push_back 4, Pop_back]
       run_op (List (0 :: int) \<lparr>cells = (\<lambda>_. None), fresh = 1\<rparr>) = Inr (h1, l1) \<and>
     list_size l1 = of_nat (length [2 :: int]) \<and> list_empty h1 l1 = Inr ([2] = ([] :: int list)) \<and>
     (\<exists>h2. for_each (\<lambda>x acc. (x, acc @ [x])) l1 h1 [] = Inr (h2, [2 :: int])) \<and>
     (\<exists>h3. List_destroy h1 l1 = Inr h3 \<and> cells h3 = (\<lambda>_. None))"
  using list_programs [of "\<lparr>cells = (\<lambda>_. None), fresh = 1\<rparr>" "[Push_back (1 :: int), Push_back 2,
      Push_front 3, Erase 1, Remove 3, Push_back 4, Pop_back]" "[2]" 0] by simp

text \<open>C29: The list does not guard its pop operations: on an empty list \<open>pop_front\<close> and
  \<open>pop_back\<close> unlink and delete the sentinel itself and make the size wrap around to \<open>2\<^sup>64 - 1\<close>.
  From then on \<open>push_back\<close>, \<open>push_front\<close>, \<open>pop_front\<close>, \<open>pop_back\<close>, \<open>empty\<close> and the destructor all access
  the deleted sentinel.\<close>

theorem pop_empty_frees_sentinel:
  assumes "owns h l [] F"
  shows "\<exists>h' l'. list_pop_front h l = Inr (h', l') \<and> list_pop_back h l = Inr (h', l') \<and>
     list_size l' = - 1 \<and> cells h' = F \<and>
     list_push_back v h' l' = Inl UseAfterFree \<and> list_push_front v h' l' = Inl UseAfterFree \<and>
     list_pop_front h' l' = Inl UseAfterFree \<and> list_pop_back h' l' = Inl UseAfterFree \<and>
     list_empty h' l' = Inl UseAfterFree \<and> List_destroy h' l' = Inl UseAfterFree"
proof -
  obtain a ps where own: "owns_at h l a ps [] F" using assms unfolding owns_def by blast
  then have ps: "ps = []" using owns_at_length by force
  then obtain n where n: "cells h a = Some n" "node_next n = Some a" "node_prev n = Some a"
    and l: "list_head l = Some a" "list_size l = 0"
    using own nx_SomeD [of h a a] pv_SomeD [of h a a] by (auto simp: owns_at_def)
  define h' where "h' = h\<lparr>cells := (cells h)(a := None)\<rparr>"
  have del: "list_del_entry h l (Some a) = Inr (h', l\<lparr>list_size := - 1\<rparr>)"
    using n l by (simp add: list_del_entry_def is_list_del_entry_valid_def list_del_def store_def
        delete_node_def load_def h'_def)
  have F: "cells h' = F" using own ps unfolding owns_at_def h'_def by (auto simp: fun_eq_iff)
  have bound: "a < fresh h" using owns_at_allocated(2) [OF own] by simp
  have "load h' (Some a) = Inl UseAfterFree" "load (snd (Node_from v h')) (Some a) = Inl UseAfterFree"
    using bound by (simp_all add: h'_def load_def Node_from_def alloc_node_def)
  then show ?thesis
    using del n l F
    by (auto simp: list_pop_front_def list_pop_back_def list_push_back_def list_push_front_def
        list_empty_def List_destroy_def Node_from_def alloc_node_def)
qed

theorem pop_empty_frees_sentinel_witness:
  "\<exists>h l F h' l'. owns h l [] F \<and> list_pop_front h l = Inr (h', l') \<and>
     list_push_back (7 :: int) h' l' = Inl UseAfterFree"
proof -
  let ?h = "\<lparr>cells = (\<lambda>_. None), fresh = 1\<rparr> :: int heap"
  have "owns (fst (List (0 :: int) ?h)) (snd (List 0 ?h)) [] (cells ?h)" by (rule List_owns) simp
  with pop_empty_frees_sentinel [OF this, of 7] show ?thesis by blast
qed

end
