(* ===== verification/SmartPtr.thy ===== *)
theory SmartPtr
  imports Kernel_Prelude
begin

text \<open>
  The owning pointers of the kernel: \<open>SharedPtr\<close> and \<open>WeakPtr\<close> with their control blocks
  (\<open>include/lib/SharedPtr.h\<close>, \<open>include/lib/WeakPtr.h\<close>) and \<open>UniquePtr\<close>
  (\<open>include/lib/UniquePtr.h\<close>).

  The heap holds control blocks and objects by address. Addresses are never reused, so that
  an access to a deleted block or object, and a second \<open>delete\<close>, is the error
  \<open>UseAfterFree\<close>. An object is represented by the one member these classes touch, the
  \<open>_weak_this\<close> pointer of \<open>EnableSharedFromThis\<close>; for a type without that base class it stays
  null. Whether the type has the base class (\<open>if constexpr\<close> in the code) is the argument
  \<open>esft\<close>.
\<close>


subsection \<open>Control blocks and objects\<close>

record control_block =
  cb_p :: "nat option"
  cb_use_count :: int
  cb_use_count_weak :: int

record shared_ptr =
  sp_ctrl :: "nat option"
  sp_alias :: "nat option"

record weak_ptr =
  wp_ctrl :: "nat option"

record ptr_heap =
  ctrls :: "nat \<Rightarrow> control_block option"
  objs :: "nat \<Rightarrow> weak_ptr option"
  next_ctrl :: nat
  next_obj :: nat

definition load_ctrl :: "ptr_heap \<Rightarrow> nat option \<Rightarrow> kerror + control_block" where
  "load_ctrl h p =
     (case p of
        None \<Rightarrow> Inl NullDeref
      | Some c \<Rightarrow> (case ctrls h c of None \<Rightarrow> Inl UseAfterFree | Some b \<Rightarrow> Inr b))"

definition store_ctrl ::
  "ptr_heap \<Rightarrow> nat option \<Rightarrow> (control_block \<Rightarrow> control_block) \<Rightarrow> kerror + ptr_heap" where
  "store_ctrl h p f =
     bindE (load_ctrl h p) (\<lambda>b. Inr (h\<lparr>ctrls := (ctrls h)(the p \<mapsto> f b)\<rparr>))"

definition new_ctrl :: "ptr_heap \<Rightarrow> control_block \<Rightarrow> nat option \<times> ptr_heap" where
  "new_ctrl h b =
     (Some (next_ctrl h),
      h\<lparr>ctrls := (ctrls h)(next_ctrl h \<mapsto> b), next_ctrl := Suc (next_ctrl h)\<rparr>)"

definition new_object :: "ptr_heap \<Rightarrow> nat \<times> ptr_heap" where
  "new_object h =
     (next_obj h,
      h\<lparr>objs := (objs h)(next_obj h \<mapsto> \<lparr>wp_ctrl = None\<rparr>), next_obj := Suc (next_obj h)\<rparr>)"

text \<open>
  The pair of the heap and the \<open>_ctrl\<close> member after \<open>maybe_delete_ctrl_block\<close>; the two
  classes have a copy of it each.
\<close>

definition maybe_delete_ctrl_block :: "ptr_heap \<Rightarrow> nat option \<Rightarrow> kerror + ptr_heap \<times> nat option" where
  "maybe_delete_ctrl_block h ctrl =
     (if ctrl = None then Inr (h, ctrl)
      else bindE (load_ctrl h ctrl) (\<lambda>b.
        if cb_use_count b + cb_use_count_weak b = 0 then
          bindE (store_ctrl h ctrl (cb_use_count_weak_update (\<lambda>_. - 1))) (\<lambda>h.
          Inr (h\<lparr>ctrls := (ctrls h)(the ctrl := None)\<rparr>, None))
        else Inr (h, ctrl)))"

definition weak_maybe_delete_ctrl_block ::
  "ptr_heap \<Rightarrow> nat option \<Rightarrow> kerror + ptr_heap \<times> nat option" where
  "weak_maybe_delete_ctrl_block h ctrl =
     (if ctrl = None then Inr (h, ctrl)
      else bindE (load_ctrl h ctrl) (\<lambda>b.
        if cb_use_count b + cb_use_count_weak b = 0 then
          bindE (store_ctrl h ctrl (cb_use_count_weak_update (\<lambda>_. - 1))) (\<lambda>h.
          Inr (h\<lparr>ctrls := (ctrls h)(the ctrl := None)\<rparr>, None))
        else Inr (h, ctrl)))"


subsection \<open>Weak pointers\<close>

definition WeakPtr :: weak_ptr where
  "WeakPtr = \<lparr>wp_ctrl = None\<rparr>"

definition inc_use_count_weak :: "ptr_heap \<Rightarrow> weak_ptr \<Rightarrow> kerror + ptr_heap" where
  "inc_use_count_weak h w =
     (if wp_ctrl w = None then Inr h
      else store_ctrl h (wp_ctrl w) (\<lambda>b. b\<lparr>cb_use_count_weak := int32 (cb_use_count_weak b + 1)\<rparr>))"

definition dec_use_count_weak :: "ptr_heap \<Rightarrow> weak_ptr \<Rightarrow> kerror + ptr_heap \<times> weak_ptr" where
  "dec_use_count_weak h w =
     (if wp_ctrl w = None then Inr (h, w)
      else bindE (load_ctrl h (wp_ctrl w)) (\<lambda>b.
        if cb_use_count_weak b > 0 then
          bindE (store_ctrl h (wp_ctrl w)
              (\<lambda>b. b\<lparr>cb_use_count_weak := cb_use_count_weak b - 1\<rparr>)) (\<lambda>h.
          bindE (weak_maybe_delete_ctrl_block h (wp_ctrl w)) (\<lambda>(h, ctrl).
          Inr (h, w\<lparr>wp_ctrl := ctrl\<rparr>)))
        else Inr (h, w)))"

definition WeakPtr_from :: "ptr_heap \<Rightarrow> shared_ptr \<Rightarrow> kerror + ptr_heap \<times> weak_ptr" where
  "WeakPtr_from h r =
     (let w = \<lparr>wp_ctrl = sp_ctrl r\<rparr> in bindE (inc_use_count_weak h w) (\<lambda>h. Inr (h, w)))"

definition WeakPtr_destroy :: "ptr_heap \<Rightarrow> weak_ptr \<Rightarrow> kerror + ptr_heap" where
  "WeakPtr_destroy h w = bindE (dec_use_count_weak h w) (\<lambda>(h, w). Inr h)"

definition WeakPtr_copy :: "ptr_heap \<Rightarrow> weak_ptr \<Rightarrow> kerror + ptr_heap \<times> weak_ptr" where
  "WeakPtr_copy h r =
     (let w = \<lparr>wp_ctrl = wp_ctrl r\<rparr> in bindE (inc_use_count_weak h w) (\<lambda>h. Inr (h, w)))"

text \<open>The conditional \<open>dec_use_count_weak\<close> both assignments start with.\<close>

definition weak_give_up :: "ptr_heap \<Rightarrow> weak_ptr \<Rightarrow> kerror + ptr_heap \<times> weak_ptr" where
  "weak_give_up h w =
     (if wp_ctrl w = None then Inr (h, w)
      else bindE (load_ctrl h (wp_ctrl w)) (\<lambda>b.
        if cb_use_count_weak b > 0 then dec_use_count_weak h w else Inr (h, w)))"

definition weak_assign :: "ptr_heap \<Rightarrow> weak_ptr \<Rightarrow> weak_ptr \<Rightarrow> kerror + ptr_heap \<times> weak_ptr" where
  "weak_assign h w r =
     bindE (weak_give_up h w) (\<lambda>(h, w).
     let w = w\<lparr>wp_ctrl := wp_ctrl r\<rparr> in
     bindE (inc_use_count_weak h w) (\<lambda>h. Inr (h, w)))"

definition WeakPtr_move :: "weak_ptr \<Rightarrow> weak_ptr \<times> weak_ptr" where
  "WeakPtr_move r = (\<lparr>wp_ctrl = wp_ctrl r\<rparr>, r\<lparr>wp_ctrl := None\<rparr>)"

definition weak_move_assign ::
  "ptr_heap \<Rightarrow> weak_ptr \<Rightarrow> weak_ptr \<Rightarrow> kerror + ptr_heap \<times> weak_ptr \<times> weak_ptr" where
  "weak_move_assign h w r =
     bindE (weak_give_up h w) (\<lambda>(h, w).
     Inr (h, w\<lparr>wp_ctrl := wp_ctrl r\<rparr>, r\<lparr>wp_ctrl := None\<rparr>))"

definition weak_reset :: "ptr_heap \<Rightarrow> weak_ptr \<Rightarrow> kerror + ptr_heap \<times> weak_ptr" where
  "weak_reset h w = dec_use_count_weak h w"

definition weak_use_count :: "ptr_heap \<Rightarrow> weak_ptr \<Rightarrow> kerror + int" where
  "weak_use_count h w =
     (if wp_ctrl w = None then Inr 0
      else bindE (load_ctrl h (wp_ctrl w)) (\<lambda>b. Inr (cb_use_count b)))"

definition expired :: "ptr_heap \<Rightarrow> weak_ptr \<Rightarrow> kerror + bool" where
  "expired h w = bindE (weak_use_count h w) (\<lambda>n. Inr (n = 0))"


subsection \<open>Shared pointers\<close>

text \<open>
  \<open>delete p\<close> runs the destructor of the object, which destroys its member \<open>_weak_this\<close>.
\<close>

definition delete_object :: "ptr_heap \<Rightarrow> nat option \<Rightarrow> kerror + ptr_heap" where
  "delete_object h p =
     (case p of
        None \<Rightarrow> Inr h
      | Some obj \<Rightarrow>
          (case objs h obj of
             None \<Rightarrow> Inl UseAfterFree
           | Some weak_this \<Rightarrow>
               bindE (WeakPtr_destroy h weak_this) (\<lambda>h.
               Inr (h\<lparr>objs := (objs h)(obj := None)\<rparr>))))"

definition inc_use_count :: "ptr_heap \<Rightarrow> shared_ptr \<Rightarrow> kerror + ptr_heap" where
  "inc_use_count h s =
     (if sp_ctrl s = None then Inr h
      else store_ctrl h (sp_ctrl s) (\<lambda>b. b\<lparr>cb_use_count := int32 (cb_use_count b + 1)\<rparr>))"

definition maybe_delete_p :: "ptr_heap \<Rightarrow> shared_ptr \<Rightarrow> kerror + ptr_heap" where
  "maybe_delete_p h s =
     (if sp_ctrl s = None then Inr h
      else bindE (load_ctrl h (sp_ctrl s)) (\<lambda>b.
        if cb_use_count b = 0 then
          bindE (delete_object h (cb_p b)) (\<lambda>h.
          store_ctrl h (sp_ctrl s) (cb_p_update (\<lambda>_. None)))
        else Inr h))"

definition dec_use_count :: "ptr_heap \<Rightarrow> shared_ptr \<Rightarrow> kerror + ptr_heap \<times> shared_ptr" where
  "dec_use_count h s =
     (if sp_ctrl s = None then Inr (h, s)
      else bindE (load_ctrl h (sp_ctrl s)) (\<lambda>b.
        if cb_use_count b > 0 then
          bindE (store_ctrl h (sp_ctrl s) (\<lambda>b. b\<lparr>cb_use_count := cb_use_count b - 1\<rparr>)) (\<lambda>h.
          bindE (maybe_delete_p h s) (\<lambda>h.
          bindE (maybe_delete_ctrl_block h (sp_ctrl s)) (\<lambda>(h, ctrl).
          Inr (h, s\<lparr>sp_ctrl := ctrl\<rparr>))))
        else Inr (h, s)))"

definition SharedPtr :: shared_ptr where
  "SharedPtr = \<lparr>sp_ctrl = None, sp_alias = None\<rparr>"

text \<open>
  \<open>_ctrl->p->_weak_this = *this\<close> converts \<open>*this\<close> to a \<open>WeakPtr\<close> and move-assigns it.
\<close>

definition maybe_enable_shared_from_this ::
  "bool \<Rightarrow> ptr_heap \<Rightarrow> shared_ptr \<Rightarrow> kerror + ptr_heap" where
  "maybe_enable_shared_from_this esft h s =
     (if \<not> esft then Inr h
      else bindE (load_ctrl h (sp_ctrl s)) (\<lambda>b.
        bindE (WeakPtr_from h s) (\<lambda>(h, tmp).
        case cb_p b of
          None \<Rightarrow> Inl NullDeref
        | Some obj \<Rightarrow>
            (case objs h obj of
               None \<Rightarrow> Inl UseAfterFree
             | Some weak_this \<Rightarrow>
                 bindE (weak_move_assign h weak_this tmp) (\<lambda>(h, weak_this, tmp).
                 WeakPtr_destroy (h\<lparr>objs := (objs h)(obj \<mapsto> weak_this)\<rparr>) tmp)))))"

definition SharedPtr_raw ::
  "bool \<Rightarrow> ptr_heap \<Rightarrow> nat option \<Rightarrow> kerror + ptr_heap \<times> shared_ptr" where
  "SharedPtr_raw esft h p =
     (let (ctrl, h) = new_ctrl h \<lparr>cb_p = p, cb_use_count = 1, cb_use_count_weak = 0\<rparr>;
          s = \<lparr>sp_ctrl = ctrl, sp_alias = None\<rparr> in
      bindE (maybe_enable_shared_from_this esft h s) (\<lambda>h. Inr (h, s)))"

definition make_shared :: "bool \<Rightarrow> ptr_heap \<Rightarrow> kerror + ptr_heap \<times> shared_ptr" where
  "make_shared esft h = (let (p, h) = new_object h in SharedPtr_raw esft h (Some p))"

definition SharedPtr_weak :: "ptr_heap \<Rightarrow> weak_ptr \<Rightarrow> kerror + ptr_heap \<times> shared_ptr" where
  "SharedPtr_weak h r =
     (let s = \<lparr>sp_ctrl = wp_ctrl r, sp_alias = None\<rparr> in
      bindE (inc_use_count h s) (\<lambda>h. Inr (h, s)))"

definition lock :: "ptr_heap \<Rightarrow> weak_ptr \<Rightarrow> kerror + ptr_heap \<times> shared_ptr" where
  "lock h w =
     bindE (expired h w) (\<lambda>dead. if dead then Inr (h, SharedPtr) else SharedPtr_weak h w)"

definition shared_from_this :: "ptr_heap \<Rightarrow> nat \<Rightarrow> kerror + ptr_heap \<times> shared_ptr" where
  "shared_from_this h this =
     (case objs h this of None \<Rightarrow> Inl UseAfterFree | Some weak_this \<Rightarrow> lock h weak_this)"

definition SharedPtr_alias ::
  "ptr_heap \<Rightarrow> shared_ptr \<Rightarrow> nat option \<Rightarrow> kerror + ptr_heap \<times> shared_ptr" where
  "SharedPtr_alias h r alias_ptr =
     (let s = \<lparr>sp_ctrl = sp_ctrl r, sp_alias = alias_ptr\<rparr> in
      bindE (inc_use_count h s) (\<lambda>h. Inr (h, s)))"

definition SharedPtr_destroy :: "ptr_heap \<Rightarrow> shared_ptr \<Rightarrow> kerror + ptr_heap" where
  "SharedPtr_destroy h s = bindE (dec_use_count h s) (\<lambda>(h, s). Inr h)"

text \<open>
  The destructor of \<open>SharedPtr<T[]>\<close> calls \<open>dec_use_count\<close>, and then the destructor of its
  base class \<open>SharedPtr<T>\<close> calls it again.
\<close>

definition SharedPtr_array_destroy :: "ptr_heap \<Rightarrow> shared_ptr \<Rightarrow> kerror + ptr_heap" where
  "SharedPtr_array_destroy h s =
     bindE (dec_use_count h s) (\<lambda>(h, s). SharedPtr_destroy h s)"

definition SharedPtr_copy :: "ptr_heap \<Rightarrow> shared_ptr \<Rightarrow> kerror + ptr_heap \<times> shared_ptr" where
  "SharedPtr_copy h r =
     (let s = \<lparr>sp_ctrl = sp_ctrl r, sp_alias = sp_alias r\<rparr> in
      bindE (inc_use_count h s) (\<lambda>h. Inr (h, s)))"

definition SharedPtr_move :: "shared_ptr \<Rightarrow> shared_ptr \<times> shared_ptr" where
  "SharedPtr_move r =
     (\<lparr>sp_ctrl = sp_ctrl r, sp_alias = sp_alias r\<rparr>, r\<lparr>sp_ctrl := None, sp_alias := None\<rparr>)"

text \<open>
  \<open>swap\<close> moves \<open>t1\<close> to a temporary, \<open>t2\<close> to \<open>t1\<close> and the temporary to \<open>t2\<close>. Each target is
  empty when it is assigned to, so neither assignment resets it.
\<close>

definition shared_swap :: "shared_ptr \<Rightarrow> shared_ptr \<Rightarrow> shared_ptr \<times> shared_ptr" where
  "shared_swap t1 t2 =
     (let (tmp, t1) = SharedPtr_move t1; (t1, t2) = SharedPtr_move t2;
          (t2, tmp) = SharedPtr_move tmp in (t1, t2))"

definition shared_reset ::
  "bool \<Rightarrow> ptr_heap \<Rightarrow> shared_ptr \<Rightarrow> nat option \<Rightarrow> kerror + ptr_heap \<times> shared_ptr" where
  "shared_reset esft h s p =
     bindE (SharedPtr_raw esft h p) (\<lambda>(h, tmp).
     let (tmp, s) = shared_swap tmp s in
     bindE (SharedPtr_destroy h tmp) (\<lambda>h. Inr (h, s)))"

text \<open>The conditional \<open>reset()\<close> both assignments start with.\<close>

definition give_up :: "bool \<Rightarrow> ptr_heap \<Rightarrow> shared_ptr \<Rightarrow> kerror + ptr_heap \<times> shared_ptr" where
  "give_up esft h s =
     (if sp_ctrl s = None then Inr (h, s)
      else bindE (load_ctrl h (sp_ctrl s)) (\<lambda>b.
        if cb_use_count b > 0 then shared_reset esft h s None else Inr (h, s)))"

text \<open>Copy assignment from another variable.\<close>

definition shared_assign ::
  "bool \<Rightarrow> ptr_heap \<Rightarrow> shared_ptr \<Rightarrow> shared_ptr \<Rightarrow> kerror + ptr_heap \<times> shared_ptr" where
  "shared_assign esft h s r =
     bindE (give_up esft h s) (\<lambda>(h, s).
     let s = s\<lparr>sp_ctrl := sp_ctrl r, sp_alias := sp_alias r\<rparr> in
     bindE (inc_use_count h s) (\<lambda>h. Inr (h, s)))"

text \<open>Copy assignment of a variable to itself: \<open>r\<close> is \<open>*this\<close> after the reset.\<close>

definition shared_self_assign ::
  "bool \<Rightarrow> ptr_heap \<Rightarrow> shared_ptr \<Rightarrow> kerror + ptr_heap \<times> shared_ptr" where
  "shared_self_assign esft h s =
     bindE (give_up esft h s) (\<lambda>(h, s).
     let s = s\<lparr>sp_ctrl := sp_ctrl s, sp_alias := sp_alias s\<rparr> in
     bindE (inc_use_count h s) (\<lambda>h. Inr (h, s)))"

definition shared_move_assign ::
  "bool \<Rightarrow> ptr_heap \<Rightarrow> shared_ptr \<Rightarrow> shared_ptr \<Rightarrow> kerror + ptr_heap \<times> shared_ptr \<times> shared_ptr" where
  "shared_move_assign esft h s r =
     bindE (give_up esft h s) (\<lambda>(h, s).
     Inr (h, s\<lparr>sp_ctrl := sp_ctrl r, sp_alias := sp_alias r\<rparr>, r\<lparr>sp_ctrl := None, sp_alias := None\<rparr>))"

definition shared_get :: "ptr_heap \<Rightarrow> shared_ptr \<Rightarrow> kerror + nat option" where
  "shared_get h s =
     (if sp_alias s \<noteq> None then Inr (sp_alias s)
      else if sp_ctrl s = None then Inr None
      else bindE (load_ctrl h (sp_ctrl s)) (\<lambda>b. Inr (cb_p b)))"

text \<open>The pointer casts share ownership under another type; \<open>cast\<close> is what \<open>dynamic_cast\<close> returns.\<close>

definition static_pointer_cast :: "ptr_heap \<Rightarrow> shared_ptr \<Rightarrow> kerror + ptr_heap \<times> shared_ptr" where
  "static_pointer_cast h r = bindE (shared_get h r) (\<lambda>p. SharedPtr_alias h r p)"

definition dynamic_pointer_cast ::
  "(nat option \<Rightarrow> nat option) \<Rightarrow> ptr_heap \<Rightarrow> shared_ptr \<Rightarrow> kerror + ptr_heap \<times> shared_ptr" where
  "dynamic_pointer_cast cast h r =
     bindE (shared_get h r) (\<lambda>q.
     case cast q of
       None \<Rightarrow> Inr (h, SharedPtr)
     | Some p \<Rightarrow> SharedPtr_alias h r (Some p))"

definition shared_use_count :: "ptr_heap \<Rightarrow> shared_ptr \<Rightarrow> kerror + int" where
  "shared_use_count h s =
     (if sp_ctrl s = None then Inr 0
      else bindE (load_ctrl h (sp_ctrl s)) (\<lambda>b. Inr (cb_use_count b)))"

definition shared_eq :: "shared_ptr \<Rightarrow> shared_ptr \<Rightarrow> bool" where
  "shared_eq s r = (sp_ctrl s = sp_ctrl r)"


subsection \<open>Unique pointers\<close>

text \<open>A \<open>UniquePtr\<close> is its member \<open>_p\<close>.\<close>

type_synonym unique_ptr = "nat option"

definition unique_release :: "unique_ptr \<Rightarrow> nat option \<times> unique_ptr" where
  "unique_release u = (u, None)"

definition unique_reset ::
  "ptr_heap \<Rightarrow> unique_ptr \<Rightarrow> nat option \<Rightarrow> kerror + ptr_heap \<times> unique_ptr" where
  "unique_reset h u p =
     (if u = p then Inr (h, u) else bindE (delete_object h u) (\<lambda>h. Inr (h, p)))"

definition UniquePtr_destroy :: "ptr_heap \<Rightarrow> unique_ptr \<Rightarrow> kerror + ptr_heap" where
  "UniquePtr_destroy h u = bindE (unique_reset h u None) (\<lambda>(h, u). Inr h)"

definition UniquePtr_move :: "unique_ptr \<Rightarrow> unique_ptr \<times> unique_ptr" where
  "UniquePtr_move r = unique_release r"

definition unique_move_assign ::
  "ptr_heap \<Rightarrow> unique_ptr \<Rightarrow> unique_ptr \<Rightarrow> kerror + ptr_heap \<times> unique_ptr \<times> unique_ptr" where
  "unique_move_assign h u r =
     (let (p, r) = unique_release r in
      bindE (unique_reset h u p) (\<lambda>(h, u). Inr (h, u, r)))"

text \<open>Move assignment of a variable to itself: \<open>r.release()\<close> empties \<open>*this\<close> first.\<close>

definition unique_self_move_assign ::
  "ptr_heap \<Rightarrow> unique_ptr \<Rightarrow> kerror + ptr_heap \<times> unique_ptr" where
  "unique_self_move_assign h u = (let (p, u) = unique_release u in unique_reset h u p)"

definition make_unique :: "ptr_heap \<Rightarrow> ptr_heap \<times> unique_ptr" where
  "make_unique h = (let (p, h) = new_object h in (h, Some p))"

definition SharedPtr_unique :: "ptr_heap \<Rightarrow> unique_ptr \<Rightarrow> ptr_heap \<times> shared_ptr \<times> unique_ptr" where
  "SharedPtr_unique h r =
     (let (p, r) = unique_release r;
          (ctrl, h) = new_ctrl h \<lparr>cb_p = p, cb_use_count = 1, cb_use_count_weak = 0\<rparr> in
      (h, \<lparr>sp_ctrl = ctrl, sp_alias = None\<rparr>, r))"

end
