(* ===== verification/SmartPtrTheorems.thy ===== *)
theory SmartPtrTheorems
  imports SmartPtr
begin

text \<open>
  What the owning pointers guarantee to the code that uses them. The heap invariant \<open>hinv\<close>
  says that the counts of every control block are the numbers of shared and weak pointers to
  it and that every live object has exactly one owner. A client is a set of pointer variables;
  its steps are the constructors, assignments and destructors. Every reachable client is
  shown to run on without error, with objects deleted exactly when the last owner goes.
\<close>


subsection \<open>The heap invariant\<close>

definition holds :: "ptr_heap \<Rightarrow> nat \<Rightarrow> nat \<Rightarrow> bool" where
  "holds h c obj \<longleftrightarrow> (\<exists>b. ctrls h c = Some b \<and> cb_p b = Some obj)"

definition counts_ok :: "ptr_heap \<Rightarrow> (nat \<Rightarrow> nat) \<Rightarrow> (nat \<Rightarrow> nat) \<Rightarrow> nat \<Rightarrow> bool" where
  "counts_ok h S W c \<longleftrightarrow>
     (case ctrls h c of
        None \<Rightarrow> S c = 0 \<and> W c = 0
      | Some b \<Rightarrow>
          (0 < S c + W c \<longrightarrow> cb_use_count b = int (S c) \<and> cb_use_count_weak b = int (W c)) \<and>
          (S c = 0 \<longrightarrow> cb_p b = None))"

definition object_ok :: "ptr_heap \<Rightarrow> (nat \<Rightarrow> nat) \<Rightarrow> nat \<Rightarrow> bool" where
  "object_ok h U obj \<longleftrightarrow>
     (objs h obj = None \<or> objs h obj = Some \<lparr>wp_ctrl = None\<rparr>) \<and>
     (objs h obj = None \<longleftrightarrow> U obj = 0 \<and> (\<forall>c. \<not> holds h c obj)) \<and> U obj \<le> 1 \<and>
     (\<forall>c. holds h c obj \<longrightarrow> U obj = 0 \<and> (\<forall>c'. holds h c' obj \<longrightarrow> c' = c))"

definition hinv :: "ptr_heap \<Rightarrow> (nat \<Rightarrow> nat) \<Rightarrow> (nat \<Rightarrow> nat) \<Rightarrow> (nat \<Rightarrow> nat) \<Rightarrow> bool" where
  "hinv h S W U \<longleftrightarrow>
     (\<forall>c. counts_ok h S W c) \<and> (\<forall>obj. object_ok h U obj) \<and>
     (\<forall>c \<ge> next_ctrl h. ctrls h c = None) \<and> (\<forall>obj \<ge> next_obj h. objs h obj = None)"

lemma hinv_block:
  assumes "hinv h S W U" and "0 < S c + W c"
  obtains b where "ctrls h c = Some b" "cb_use_count b = int (S c)"
    "cb_use_count_weak b = int (W c)" "S c = 0 \<Longrightarrow> cb_p b = None"
proof -
  have "counts_ok h S W c" using assms(1) by (simp add: hinv_def)
  then show ?thesis using that assms(2) by (auto simp: counts_ok_def split: option.splits)
qed

lemma counts_ok_cong:
  "ctrls h' c = ctrls h c \<Longrightarrow> S' c = S c \<Longrightarrow> W' c = W c \<Longrightarrow> counts_ok h S W c \<Longrightarrow> counts_ok h' S' W' c"
  by (simp add: counts_ok_def split: option.splits)

lemma object_ok_cong:
  "objs h' obj = objs h obj \<Longrightarrow> (\<And>c. holds h' c obj = holds h c obj) \<Longrightarrow> U' obj = U obj \<Longrightarrow>
   object_ok h U obj \<Longrightarrow> object_ok h' U' obj"
  unfolding object_ok_def by metis

lemma hinvD:
  assumes "hinv h S W U"
  shows "counts_ok h S W c" "object_ok h U obj"
    "next_ctrl h \<le> c \<Longrightarrow> ctrls h c = None" "next_obj h \<le> obj \<Longrightarrow> objs h obj = None"
  using assms by (simp_all add: hinv_def)

text \<open>Replacing a block by one with the same object keeps the ownership of objects.\<close>

lemma hinv_set_counts:
  assumes inv: "hinv h S W U" and c: "ctrls h c = Some b" and p: "cb_p b' = cb_p b"
    and "counts_ok (h\<lparr>ctrls := (ctrls h)(c \<mapsto> b')\<rparr>) (S(c := m)) (W(c := n)) c"
  shows "hinv (h\<lparr>ctrls := (ctrls h)(c \<mapsto> b')\<rparr>) (S(c := m)) (W(c := n)) U" (is "hinv ?h _ _ _")
proof -
  have holds: "holds ?h = holds h" using c p by (auto simp: holds_def fun_eq_iff)
  have "counts_ok ?h (S(c := m)) (W(c := n)) d" for d
  proof (cases "d = c")
    case False
    then show ?thesis by (intro counts_ok_cong [OF _ _ _ hinvD(1) [OF inv]]) auto
  qed (use assms(4) in simp)
  moreover have "object_ok ?h U obj" for obj
    by (rule object_ok_cong [OF _ _ _ hinvD(2) [OF inv]]) (simp_all add: holds)
  moreover have "c < next_ctrl h" using inv c by (metis hinv_def leI option.distinct(1))
  ultimately show ?thesis using inv by (auto simp: hinv_def)
qed

lemma hinv_inc_shared:
  assumes inv: "hinv h S W U" and "0 < S c" and "S c + 1 < 2 ^ 31"
  shows "\<exists>h'. inc_use_count h \<lparr>sp_ctrl = Some c, sp_alias = a\<rparr> = Inr h' \<and>
           hinv h' (S(c := Suc (S c))) W U"
proof -
  obtain b where b: "ctrls h c = Some b" "cb_use_count b = int (S c)"
      "cb_use_count_weak b = int (W c)"
    using hinv_block [of h S W U c] inv assms(2) by auto
  have "int32 (int (S c) + 1) = int (S c) + 1" using assms(3) by (intro int32_id) auto
  moreover have "W(c := W c) = W" by simp
  ultimately show ?thesis
    using hinv_set_counts [OF inv b(1), of "b\<lparr>cb_use_count := int (S c) + 1\<rparr>" "Suc (S c)" "W c"] b
    by (auto simp: inc_use_count_def store_ctrl_def load_ctrl_def counts_ok_def)
qed

lemma hinv_inc_weak:
  assumes inv: "hinv h S W U" and "0 < S c + W c" and "W c + 1 < 2 ^ 31"
  shows "\<exists>h'. inc_use_count_weak h \<lparr>wp_ctrl = Some c\<rparr> = Inr h' \<and> hinv h' S (W(c := Suc (W c))) U"
proof -
  obtain b where b: "ctrls h c = Some b" "cb_use_count b = int (S c)"
      "cb_use_count_weak b = int (W c)" "S c = 0 \<Longrightarrow> cb_p b = None"
    using hinv_block [of h S W U c] inv assms(2) by metis
  have "int32 (int (W c) + 1) = int (W c) + 1" using assms(3) by (intro int32_id) auto
  moreover have "S(c := S c) = S" by simp
  ultimately show ?thesis
    using hinv_set_counts [OF inv b(1), of "b\<lparr>cb_use_count_weak := int (W c) + 1\<rparr>" "S c" "Suc (W c)"] b
    by (auto simp: inc_use_count_weak_def store_ctrl_def load_ctrl_def counts_ok_def)
qed

text \<open>Deleting a block that no pointer refers to and that holds no object.\<close>

lemma hinv_free_block:
  assumes inv: "hinv h S W U" and "ctrls h c = Some b" "cb_p b = None" and "S c = 0" "W c = 0"
  shows "hinv (h\<lparr>ctrls := (ctrls h)(c := None)\<rparr>) S W U" (is "hinv ?h _ _ _")
proof -
  have "holds ?h = holds h" using assms(2,3) by (auto simp: holds_def fun_eq_iff)
  then have "object_ok ?h U obj" for obj
    by (intro object_ok_cong [OF _ _ _ hinvD(2) [OF inv]]) simp_all
  moreover have "counts_ok ?h S W d" for d
  proof (cases "d = c")
    case False
    then show ?thesis by (intro counts_ok_cong [OF _ _ _ hinvD(1) [OF inv]]) auto
  qed (simp add: counts_ok_def assms(4,5))
  ultimately show ?thesis using inv by (auto simp: hinv_def)
qed

lemma hinv_dec_weak:
  assumes inv: "hinv h S W U" and pos: "0 < W c"
  shows "\<exists>h' w'. dec_use_count_weak h \<lparr>wp_ctrl = Some c\<rparr> = Inr (h', w') \<and>
           hinv h' S (W(c := W c - 1)) U"
proof -
  obtain b where b: "ctrls h c = Some b" "cb_use_count b = int (S c)"
      "cb_use_count_weak b = int (W c)" "S c = 0 \<Longrightarrow> cb_p b = None"
    using hinv_block [of h S W U c] inv pos by (metis add_pos_pos add_is_0 neq0_conv)
  define b' where "b' = b\<lparr>cb_use_count_weak := int (W c) - 1\<rparr>"
  define h1 where "h1 = h\<lparr>ctrls := (ctrls h)(c \<mapsto> b')\<rparr>"
  have "S(c := S c) = S" by simp
  then have h1: "hinv h1 S (W(c := W c - 1)) U"
    using hinv_set_counts [OF inv b(1), of b' "S c" "W c - 1"] b pos
    by (auto simp: counts_ok_def h1_def b'_def)
  show ?thesis
  proof (cases "S c = 0 \<and> W c = 1")
    case True
    then have "dec_use_count_weak h \<lparr>wp_ctrl = Some c\<rparr> =
        Inr (h1\<lparr>ctrls := (ctrls h1)(c := None)\<rparr>, \<lparr>wp_ctrl = None\<rparr>)"
      using b by (simp add: dec_use_count_weak_def weak_maybe_delete_ctrl_block_def store_ctrl_def
          load_ctrl_def h1_def b'_def)
    then show ?thesis
      using hinv_free_block [OF h1, of c b'] True b(4) by (simp add: h1_def b'_def)
  next
    case False
    then have "dec_use_count_weak h \<lparr>wp_ctrl = Some c\<rparr> = Inr (h1, \<lparr>wp_ctrl = Some c\<rparr>)"
      using b pos by (auto simp: dec_use_count_weak_def weak_maybe_delete_ctrl_block_def
          store_ctrl_def load_ctrl_def h1_def b'_def)
    then show ?thesis using h1 by blast
  qed
qed

text \<open>The last shared pointer of a block goes: its object, if any, is deleted.\<close>

definition without :: "(nat \<Rightarrow> weak_ptr option) \<Rightarrow> nat option \<Rightarrow> nat \<Rightarrow> weak_ptr option" where
  "without os p = (case p of None \<Rightarrow> os | Some obj \<Rightarrow> os(obj := None))"

lemma hinv_drop_object:
  assumes inv: "hinv h S W U" and c: "ctrls h c = Some b" and "0 < S c"
    and b': "cb_p b' = None" "cb_use_count b' = 0" "cb_use_count_weak b' = int (W c)"
  shows "hinv (h\<lparr>objs := without (objs h) (cb_p b), ctrls := (ctrls h)(c \<mapsto> b')\<rparr>) (S(c := 0)) W U"
    (is "hinv ?h _ _ _")
proof -
  have "counts_ok ?h (S(c := 0)) W d" for d
  proof (cases "d = c")
    case False
    then show ?thesis by (intro counts_ok_cong [OF _ _ _ hinvD(1) [OF inv]]) auto
  qed (use b' in \<open>simp add: counts_ok_def\<close>)
  moreover have "object_ok ?h U obj" for obj
  proof (cases "cb_p b = Some obj")
    case True
    then have "holds h c obj" using c by (auto simp: holds_def)
    then have "U obj = 0" "\<And>c'. holds h c' obj \<Longrightarrow> c' = c"
      using hinvD(2) [OF inv, of obj] by (auto simp: object_ok_def)
    then show ?thesis using True b' by (auto simp: object_ok_def holds_def without_def)
  next
    case False
    then show ?thesis
      using c b'(1)
      by (intro object_ok_cong [OF _ _ _ hinvD(2) [OF inv]])
        (auto simp: holds_def without_def split: option.splits)
  qed
  moreover have "c < next_ctrl h" using inv c by (metis hinv_def leI option.distinct(1))
  ultimately show ?thesis
    using hinvD(3,4) [OF inv] by (auto simp: hinv_def without_def split: option.splits)
qed

lemma delete_object_plain:
  "(\<And>obj. p = Some obj \<Longrightarrow> objs h obj = Some \<lparr>wp_ctrl = None\<rparr>) \<Longrightarrow>
   delete_object h p = Inr (h\<lparr>objs := without (objs h) p\<rparr>)"
  by (cases p) (simp_all add: delete_object_def WeakPtr_destroy_def dec_use_count_weak_def without_def)

lemma hinv_object:
  "hinv h S W U \<Longrightarrow> holds h c obj \<or> 0 < U obj \<Longrightarrow> objs h obj = Some \<lparr>wp_ctrl = None\<rparr>"
  using hinvD(2) [of h S W U obj] by (auto simp: object_ok_def)

lemma hinv_dec_shared:
  assumes inv: "hinv h S W U" and pos: "0 < S c"
  shows "\<exists>h' s'. dec_use_count h \<lparr>sp_ctrl = Some c, sp_alias = a\<rparr> = Inr (h', s') \<and>
           hinv h' (S(c := S c - 1)) W U"
proof -
  obtain b where b: "ctrls h c = Some b" "cb_use_count b = int (S c)"
      "cb_use_count_weak b = int (W c)"
    using hinv_block [of h S W U c] inv pos by auto
  define b1 where "b1 = b\<lparr>cb_use_count := int (S c) - 1\<rparr>"
  define h1 where "h1 = h\<lparr>ctrls := (ctrls h)(c \<mapsto> b1)\<rparr>"
  show ?thesis
  proof (cases "S c = 1")
    case False
    have "W(c := W c) = W" by simp
    then have "hinv h1 (S(c := S c - 1)) W U"
      using hinv_set_counts [OF inv b(1), of b1 "S c - 1" "W c"] b pos False
      by (auto simp: counts_ok_def h1_def b1_def)
    moreover have "dec_use_count h \<lparr>sp_ctrl = Some c, sp_alias = a\<rparr> =
        Inr (h1, \<lparr>sp_ctrl = Some c, sp_alias = a\<rparr>)"
      using b pos False by (auto simp: dec_use_count_def maybe_delete_p_def
          maybe_delete_ctrl_block_def store_ctrl_def load_ctrl_def h1_def b1_def)
    ultimately show ?thesis by blast
  next
    case True
    define b2 where "b2 = b1\<lparr>cb_p := None\<rparr>"
    define h2 where "h2 = h\<lparr>objs := without (objs h) (cb_p b), ctrls := (ctrls h)(c \<mapsto> b2)\<rparr>"
    have h2: "hinv h2 (S(c := S c - 1)) W U"
      using hinv_drop_object [OF inv b(1) pos, of b2] b True by (simp add: h2_def b2_def b1_def)
    have "objs h obj = Some \<lparr>wp_ctrl = None\<rparr>" if "cb_p b = Some obj" for obj
      using hinv_object [OF inv, of c] that b(1) by (auto simp: holds_def)
    then have "delete_object h1 (cb_p b) = Inr (h1\<lparr>objs := without (objs h) (cb_p b)\<rparr>)"
      using delete_object_plain [of "cb_p b" h1] by (simp add: h1_def)
    then have d: "dec_use_count h \<lparr>sp_ctrl = Some c, sp_alias = a\<rparr> =
        bindE (maybe_delete_ctrl_block h2 (Some c)) (\<lambda>(h, ctrl). Inr (h, \<lparr>sp_ctrl = ctrl, sp_alias = a\<rparr>))"
      using b True by (simp add: dec_use_count_def maybe_delete_p_def store_ctrl_def load_ctrl_def
          h1_def b1_def h2_def b2_def)
    show ?thesis
    proof (cases "W c = 0")
      case w: True
      have "hinv (h2\<lparr>ctrls := (ctrls h2)(c := None)\<rparr>) (S(c := S c - 1)) W U"
        using hinv_free_block [OF h2, of c b2] True w by (simp add: h2_def b2_def)
      then show ?thesis
        using d b True w by (simp add: maybe_delete_ctrl_block_def store_ctrl_def load_ctrl_def
            h2_def b2_def b1_def)
    next
      case False
      then show ?thesis
        using d b True h2 by (simp add: maybe_delete_ctrl_block_def load_ctrl_def h2_def b2_def b1_def)
    qed
  qed
qed

text \<open>A new block takes over the object \<open>p\<close>, which a unique pointer gave up.\<close>

lemma hinv_new_block:
  assumes inv: "hinv h S W U" and p: "\<And>obj. p = Some obj \<Longrightarrow> U obj = 1"
    and U': "U' = (case p of None \<Rightarrow> U | Some obj \<Rightarrow> U(obj := 0))"
  shows "hinv (snd (new_ctrl h \<lparr>cb_p = p, cb_use_count = 1, cb_use_count_weak = 0\<rparr>))
           (S(next_ctrl h := 1)) W U'"
proof -
  define n where "n = next_ctrl h"
  define h' where "h' = snd (new_ctrl h \<lparr>cb_p = p, cb_use_count = 1, cb_use_count_weak = 0\<rparr>)"
  have n: "ctrls h n = None" "S n = 0" "W n = 0"
    using hinvD(1,3) [OF inv, of n] by (simp_all add: n_def counts_ok_def)
  have h: "ctrls h' = (ctrls h)(n \<mapsto> \<lparr>cb_p = p, cb_use_count = 1, cb_use_count_weak = 0\<rparr>)"
      "objs h' = objs h" "next_ctrl h' = Suc n" "next_obj h' = next_obj h"
    by (simp_all add: h'_def new_ctrl_def n_def)
  have holds: "holds h' c obj \<longleftrightarrow> holds h c obj \<or> (c = n \<and> p = Some obj)" for c obj
    using n(1) by (auto simp: holds_def h(1))
  have "counts_ok h' (S(n := 1)) W c" for c
  proof (cases "c = n")
    case False
    then show ?thesis by (intro counts_ok_cong [OF _ _ _ hinvD(1) [OF inv]]) (auto simp: h)
  qed (use n in \<open>simp add: counts_ok_def h\<close>)
  moreover have "object_ok h' U' obj" for obj
  proof (cases "p = Some obj")
    case True
    then have "U' obj = 0" "U obj = 1" using p U' by auto
    moreover have "\<not> holds h c obj" for c
      using hinvD(2) [OF inv, of obj] \<open>U obj = 1\<close> by (auto simp: object_ok_def)
    ultimately show ?thesis
      using hinvD(2) [OF inv, of obj] True by (auto simp: object_ok_def holds h(2))
  next
    case False
    then show ?thesis
      by (intro object_ok_cong [OF _ _ _ hinvD(2) [OF inv]])
        (auto simp: holds h(2) U' split: option.splits)
  qed
  ultimately have "hinv h' (S(n := 1)) W U'" using hinvD(3,4) [OF inv] by (auto simp: hinv_def h n_def)
  then show ?thesis by (simp add: h'_def n_def)
qed

lemma hinv_new_object:
  assumes inv: "hinv h S W U" and "new_object h = (obj, h')"
  shows "hinv h' S W (U(obj := 1))" and "U obj = 0"
proof -
  have o: "objs h obj = None" "obj = next_obj h"
    and h: "ctrls h' = ctrls h" "objs h' = (objs h)(obj \<mapsto> \<lparr>wp_ctrl = None\<rparr>)"
      "next_ctrl h' = next_ctrl h" "next_obj h' = Suc obj"
    using assms(2) hinvD(4) [OF inv, of obj] by (auto simp: new_object_def)
  then have none: "U obj = 0" "\<And>c. \<not> holds h c obj"
    using hinvD(2) [OF inv, of obj] by (auto simp: object_ok_def)
  have holds: "holds h' = holds h" by (simp add: holds_def h(1) fun_eq_iff)
  have "counts_ok h' S W c" for c
    by (rule counts_ok_cong [OF _ _ _ hinvD(1) [OF inv]]) (simp_all add: h)
  moreover have "object_ok h' (U(obj := 1)) x" for x
  proof (cases "x = obj")
    case False
    then show ?thesis
      by (intro object_ok_cong [OF _ _ _ hinvD(2) [OF inv]]) (simp_all add: holds h)
  qed (use none in \<open>simp add: object_ok_def holds h\<close>)
  ultimately show "hinv h' S W (U(obj := 1))" using hinvD(3,4) [OF inv] o by (simp add: hinv_def h)
  show "U obj = 0" by (rule none)
qed

lemma hinv_delete_unique:
  assumes inv: "hinv h S W U" and "U obj = 1"
  shows "\<exists>h'. delete_object h (Some obj) = Inr h' \<and> hinv h' S W (U(obj := 0))"
proof -
  define h' where "h' = h\<lparr>objs := (objs h)(obj := None)\<rparr>"
  have h: "ctrls h' = ctrls h" "objs h' = (objs h)(obj := None)" "next_ctrl h' = next_ctrl h"
      "next_obj h' = next_obj h"
    by (simp_all add: h'_def)
  have none: "\<not> holds h c obj" for c
    using hinvD(2) [OF inv, of obj] assms(2) by (auto simp: object_ok_def)
  have holds: "holds h' = holds h" by (simp add: holds_def h fun_eq_iff)
  have "counts_ok h' S W c" for c
    by (rule counts_ok_cong [OF _ _ _ hinvD(1) [OF inv]]) (simp_all add: h)
  moreover have "object_ok h' (U(obj := 0)) x" for x
  proof (cases "x = obj")
    case False
    then show ?thesis
      by (intro object_ok_cong [OF _ _ _ hinvD(2) [OF inv]]) (simp_all add: holds h)
  qed (use none in \<open>simp add: object_ok_def holds h\<close>)
  ultimately have "hinv h' S W (U(obj := 0))" using hinvD(3,4) [OF inv] by (simp add: hinv_def h)
  moreover have "delete_object h (Some obj) = Inr h'"
    using delete_object_plain [of "Some obj" h] hinv_object [OF inv] assms(2)
    by (simp add: h'_def without_def)
  ultimately show ?thesis by blast
qed


subsection \<open>Counting the pointers of a client\<close>

text \<open>
  \<open>uses ks\<close> counts how many of the pointers with the targets \<open>ks\<close> point to an address;
  \<open>plus1\<close> and \<open>minus1\<close> are the counts with one pointer more or less.
\<close>

definition uses :: "nat option list \<Rightarrow> nat \<Rightarrow> nat" where
  "uses ks c = count_list ks (Some c)"

definition plus1 :: "(nat \<Rightarrow> nat) \<Rightarrow> nat option \<Rightarrow> nat \<Rightarrow> nat" where
  "plus1 S k = (case k of None \<Rightarrow> S | Some c \<Rightarrow> S(c := Suc (S c)))"

definition minus1 :: "(nat \<Rightarrow> nat) \<Rightarrow> nat option \<Rightarrow> nat \<Rightarrow> nat" where
  "minus1 S k = (case k of None \<Rightarrow> S | Some c \<Rightarrow> S(c := S c - 1))"

lemma plus1_simps [simp]: "plus1 S None = S" "plus1 S (Some c) = S(c := Suc (S c))"
  by (simp_all add: plus1_def)

lemma minus1_simps [simp]: "minus1 S None = S" "minus1 S (Some c) = S(c := S c - 1)"
  by (simp_all add: minus1_def)

lemma uses_Nil: "uses [] = (\<lambda>_. 0)"
  by (simp add: uses_def fun_eq_iff)

lemma uses_le: "uses ks c \<le> length ks"
  unfolding uses_def by (rule count_le_length)

lemma uses_append: "uses (ks @ [k]) = plus1 (uses ks) k"
  by (cases k) (auto simp: uses_def fun_eq_iff)

lemma count_list_update:
  "i < length ks \<Longrightarrow>
   count_list (ks[i := k]) x + (if ks ! i = x then 1 else 0) = count_list ks x + (if k = x then 1 else 0)"
proof (induction ks arbitrary: i)
  case (Cons a ks)
  show ?case
  proof (cases i)
    case (Suc j)
    then show ?thesis using Cons.IH [of j] Cons.prems by (auto split: if_splits)
  qed auto
qed simp

lemma uses_clear: "i < length ks \<Longrightarrow> uses (ks[i := None]) = minus1 (uses ks) (ks ! i)"
proof (rule ext)
  fix c
  assume "i < length ks"
  then show "uses (ks[i := None]) c = minus1 (uses ks) (ks ! i) c"
    using count_list_update [of i ks None "Some c"]
    by (cases "ks ! i") (auto simp: uses_def split: if_splits)
qed

lemma uses_set: "i < length ks \<Longrightarrow> ks ! i = None \<Longrightarrow> uses (ks[i := k]) = plus1 (uses ks) k"
proof (rule ext)
  fix c
  assume "i < length ks" "ks ! i = None"
  then show "uses (ks[i := k]) c = plus1 (uses ks) k c"
    using count_list_update [of i ks k "Some c"]
    by (cases k) (auto simp: uses_def split: if_splits)
qed

lemma uses_replace:
  "i < length ks \<Longrightarrow> uses (ks[i := k]) = plus1 (minus1 (uses ks) (ks ! i)) k"
  using uses_set [of i "ks[i := None]" k] uses_clear [of i ks] by simp

lemma uses_pos: "i < length ks \<Longrightarrow> ks ! i = Some c \<Longrightarrow> 0 < uses ks c"
  unfolding uses_def by (metis count_list_0_iff nth_mem neq0_conv)

lemma uses_free_le: "i < length ks \<Longrightarrow> ks ! i = None \<Longrightarrow> uses ks c < length ks"
  using uses_set [of i ks "Some c"] uses_le [of "ks[i := Some c]" c] by simp

lemma uses_witness: "0 < uses ks c \<Longrightarrow> \<exists>i < length ks. ks ! i = Some c"
  unfolding uses_def by (metis count_list_0_iff in_set_conv_nth neq0_conv)

text \<open>The steps of a pointer on the counts.\<close>

lemma add_shared:
  assumes "hinv h S W U" and "\<And>c. k = Some c \<Longrightarrow> 0 < S c \<and> S c + 1 < 2 ^ 31"
  shows "\<exists>h'. inc_use_count h \<lparr>sp_ctrl = k, sp_alias = a\<rparr> = Inr h' \<and> hinv h' (plus1 S k) W U"
proof (cases k)
  case None
  then show ?thesis using assms(1) by (simp add: inc_use_count_def)
next
  case (Some c)
  then show ?thesis using hinv_inc_shared [OF assms(1), of c a] assms(2) by simp
qed

lemma add_weak:
  assumes "hinv h S W U" and "\<And>c. k = Some c \<Longrightarrow> 0 < S c + W c \<and> W c + 1 < 2 ^ 31"
  shows "\<exists>h'. inc_use_count_weak h \<lparr>wp_ctrl = k\<rparr> = Inr h' \<and> hinv h' S (plus1 W k) U"
proof (cases k)
  case None
  then show ?thesis using assms(1) by (simp add: inc_use_count_weak_def)
next
  case (Some c)
  then show ?thesis using hinv_inc_weak [OF assms(1), of c] assms(2) by simp
qed

lemma drop_shared:
  assumes "hinv h S W U" and "\<And>c. k = Some c \<Longrightarrow> 0 < S c"
  shows "\<exists>h'. SharedPtr_destroy h \<lparr>sp_ctrl = k, sp_alias = a\<rparr> = Inr h' \<and> hinv h' (minus1 S k) W U"
proof (cases k)
  case None
  then show ?thesis using assms(1) by (simp add: SharedPtr_destroy_def dec_use_count_def)
next
  case (Some c)
  then show ?thesis
    using hinv_dec_shared [OF assms(1), of c a] assms(2) by (auto simp: SharedPtr_destroy_def)
qed

lemma drop_weak:
  assumes "hinv h S W U" and "\<And>c. k = Some c \<Longrightarrow> 0 < W c"
  shows "\<exists>h' w'. dec_use_count_weak h \<lparr>wp_ctrl = k\<rparr> = Inr (h', w') \<and> hinv h' S (minus1 W k) U"
proof (cases k)
  case None
  then show ?thesis using assms(1) by (simp add: dec_use_count_weak_def)
next
  case (Some c)
  then show ?thesis using hinv_dec_weak [OF assms(1), of c] assms(2) by auto
qed

lemma weak_give_up_eq:
  assumes "hinv h S W U" and "\<And>c. k = Some c \<Longrightarrow> 0 < W c"
  shows "weak_give_up h \<lparr>wp_ctrl = k\<rparr> = dec_use_count_weak h \<lparr>wp_ctrl = k\<rparr>"
proof (cases k)
  case (Some c)
  then obtain b where "ctrls h c = Some b" "cb_use_count_weak b = int (W c)" "0 < W c"
    using hinv_block [of h S W U c] assms by (metis add_gr_0)
  then show ?thesis using Some by (simp add: weak_give_up_def load_ctrl_def)
qed (simp add: weak_give_up_def dec_use_count_weak_def)

text \<open>
  \<open>reset()\<close> gives up the object and leaves the variable with a new block that holds none. An
  assignment then overwrites that variable, and the new block is never freed.
\<close>

lemma hinv_forget:
  assumes "hinv h (S(n := Suc 0)) W U" and "S n = 0" "W n = 0" and "\<And>obj. \<not> holds h n obj"
  shows "hinv h S W U"
proof -
  have "counts_ok h S W c" for c
  proof (cases "c = n")
    case True
    then show ?thesis
      using assms(2-4) hinvD(1) [OF assms(1), of n] by (auto simp: counts_ok_def holds_def split: option.splits)
  next
    case False
    then show ?thesis by (intro counts_ok_cong [OF _ _ _ hinvD(1) [OF assms(1)]]) auto
  qed
  then show ?thesis using assms(1) by (simp add: hinv_def)
qed

lemma reset_counts:
  assumes inv: "hinv h S W U" and pos: "\<And>c. k = Some c \<Longrightarrow> 0 < S c"
  shows "\<exists>h' n. shared_reset False h \<lparr>sp_ctrl = k, sp_alias = a\<rparr> None =
             Inr (h', \<lparr>sp_ctrl = Some n, sp_alias = None\<rparr>) \<and>
           hinv h' (plus1 (minus1 S k) (Some n)) W U \<and> hinv h' (minus1 S k) W U"
proof -
  define n h1 where "n = next_ctrl h"
    and "h1 = snd (new_ctrl h \<lparr>cb_p = None, cb_use_count = 1, cb_use_count_weak = 0\<rparr>)"
  have n: "S n = 0" "W n = 0" using hinvD(1,3) [OF inv, of n] by (simp_all add: n_def counts_ok_def)
  have h1: "hinv h1 (S(n := Suc 0)) W U"
    using hinv_new_block [OF inv, of None U] by (simp add: h1_def n_def)
  have "\<not> holds h1 n obj" for obj by (simp add: h1_def n_def new_ctrl_def holds_def)
  then have h1': "hinv h1 S W U" using hinv_forget [OF h1 n] by blast
  obtain h' where h': "SharedPtr_destroy h1 \<lparr>sp_ctrl = k, sp_alias = a\<rparr> = Inr h'"
      "hinv h' (minus1 S k) W U"
    using drop_shared [OF h1'] pos by blast
  moreover have "hinv h' (minus1 (S(n := Suc 0)) k) W U"
    using drop_shared [OF h1, of k a] pos h'(1) by auto
  moreover have "minus1 (S(n := Suc 0)) k = plus1 (minus1 S k) (Some n)"
    using pos n by (cases k) (auto simp: fun_eq_iff)
  moreover have "shared_reset False h \<lparr>sp_ctrl = k, sp_alias = a\<rparr> None =
      bindE (SharedPtr_destroy h1 \<lparr>sp_ctrl = k, sp_alias = a\<rparr>)
        (\<lambda>h. Inr (h, \<lparr>sp_ctrl = Some n, sp_alias = None\<rparr>))"
    by (simp add: shared_reset_def SharedPtr_raw_def new_ctrl_def maybe_enable_shared_from_this_def
        shared_swap_def SharedPtr_move_def h1_def n_def)
  ultimately show ?thesis by fastforce
qed

lemma give_up_counts:
  assumes inv: "hinv h S W U" and pos: "\<And>c. k = Some c \<Longrightarrow> 0 < S c"
  shows "\<exists>h' s'. give_up False h \<lparr>sp_ctrl = k, sp_alias = a\<rparr> = Inr (h', s') \<and>
           hinv h' (minus1 S k) W U"
proof (cases k)
  case (Some c)
  then obtain b where "ctrls h c = Some b" "cb_use_count b = int (S c)" "0 < S c"
    using hinv_block [of h S W U c] assms by (metis add_gr_0)
  then have "give_up False h \<lparr>sp_ctrl = k, sp_alias = a\<rparr> =
      shared_reset False h \<lparr>sp_ctrl = k, sp_alias = a\<rparr> None"
    using Some by (simp add: give_up_def load_ctrl_def)
  then show ?thesis using reset_counts [OF inv pos, of k a] Some by auto
qed (use inv in \<open>simp add: give_up_def\<close>)

lemma lock_counts:
  assumes inv: "hinv h S W U" and "\<And>c. k = Some c \<Longrightarrow> 0 < W c \<and> S c + 1 < 2 ^ 31"
  shows "\<exists>h' s. lock h \<lparr>wp_ctrl = k\<rparr> = Inr (h', s) \<and> hinv h' (plus1 S (sp_ctrl s)) W U \<and>
           (case k of None \<Rightarrow> sp_ctrl s = None
            | Some c \<Rightarrow> sp_ctrl s = (if S c = 0 then None else Some c))"
proof (cases k)
  case None
  then show ?thesis
    using inv by (simp add: lock_def expired_def weak_use_count_def SharedPtr_def)
next
  case (Some c)
  then obtain b where b: "ctrls h c = Some b" "cb_use_count b = int (S c)"
    using hinv_block [of h S W U c] assms by (metis add_gr_0)
  show ?thesis
  proof (cases "S c = 0")
    case True
    then show ?thesis
      using inv b Some by (simp add: lock_def expired_def weak_use_count_def load_ctrl_def SharedPtr_def)
  next
    case False
    then obtain h' where "inc_use_count h \<lparr>sp_ctrl = Some c, sp_alias = None\<rparr> = Inr h'"
        "hinv h' (plus1 S (Some c)) W U"
      using add_shared [OF inv, of "Some c" None] assms(2) Some by auto
    then show ?thesis
      using b Some False
      by (simp add: lock_def expired_def weak_use_count_def load_ctrl_def SharedPtr_weak_def)
  qed
qed


subsection \<open>Clients\<close>

text \<open>A variable that has been destroyed is \<open>None\<close>.\<close>

record client =
  cl_heap :: ptr_heap
  svars :: "shared_ptr option list"
  wvars :: "weak_ptr option list"
  uvars :: "unique_ptr option list"

datatype ptr_op =
    Make_shared
  | Copy nat
  | Move nat
  | Alias nat nat
  | Assign nat nat
  | Move_assign nat nat
  | Reset nat
  | Drop nat
  | Share nat
  | Lock nat
  | Weaken nat
  | Copy_weak nat
  | Assign_weak nat nat
  | Drop_weak nat
  | Make_unique
  | Move_unique nat
  | Assign_unique nat nat
  | Drop_unique nat

definition shared_var :: "client \<Rightarrow> nat \<Rightarrow> bool" where
  "shared_var s i \<longleftrightarrow> i < length (svars s) \<and> svars s ! i \<noteq> None"

definition weak_var :: "client \<Rightarrow> nat \<Rightarrow> bool" where
  "weak_var s i \<longleftrightarrow> i < length (wvars s) \<and> wvars s ! i \<noteq> None"

definition unique_var :: "client \<Rightarrow> nat \<Rightarrow> bool" where
  "unique_var s i \<longleftrightarrow> i < length (uvars s) \<and> uvars s ! i \<noteq> None"

definition new_shared :: "client \<Rightarrow> ptr_heap \<times> shared_ptr \<Rightarrow> client" where
  "new_shared s r = s\<lparr>cl_heap := fst r, svars := svars s @ [Some (snd r)]\<rparr>"

definition set_shared :: "client \<Rightarrow> nat \<Rightarrow> ptr_heap \<Rightarrow> shared_ptr option \<Rightarrow> client" where
  "set_shared s i h v = s\<lparr>cl_heap := h, svars := (svars s)[i := v]\<rparr>"

definition new_weak :: "client \<Rightarrow> ptr_heap \<times> weak_ptr \<Rightarrow> client" where
  "new_weak s r = s\<lparr>cl_heap := fst r, wvars := wvars s @ [Some (snd r)]\<rparr>"

definition set_weak :: "client \<Rightarrow> nat \<Rightarrow> ptr_heap \<Rightarrow> weak_ptr option \<Rightarrow> client" where
  "set_weak s i h v = s\<lparr>cl_heap := h, wvars := (wvars s)[i := v]\<rparr>"

definition set_unique :: "client \<Rightarrow> nat \<Rightarrow> ptr_heap \<Rightarrow> unique_ptr option \<Rightarrow> client" where
  "set_unique s i h v = s\<lparr>cl_heap := h, uvars := (uvars s)[i := v]\<rparr>"

fun client_step :: "ptr_op \<Rightarrow> client \<Rightarrow> kerror + client" where
  "client_step Make_shared s = bindE (make_shared False (cl_heap s)) (\<lambda>r. Inr (new_shared s r))"
| "client_step (Copy i) s =
     bindE (SharedPtr_copy (cl_heap s) (the (svars s ! i))) (\<lambda>r. Inr (new_shared s r))"
| "client_step (Move i) s =
     (let (p, r) = SharedPtr_move (the (svars s ! i)) in
      Inr (new_shared (set_shared s i (cl_heap s) (Some r)) (cl_heap s, p)))"
| "client_step (Alias i q) s =
     bindE (SharedPtr_alias (cl_heap s) (the (svars s ! i)) (Some q)) (\<lambda>r. Inr (new_shared s r))"
| "client_step (Assign i j) s =
     bindE (shared_assign False (cl_heap s) (the (svars s ! i)) (the (svars s ! j)))
       (\<lambda>(h, p). Inr (set_shared s i h (Some p)))"
| "client_step (Move_assign i j) s =
     bindE (shared_move_assign False (cl_heap s) (the (svars s ! i)) (the (svars s ! j)))
       (\<lambda>(h, p, r). Inr (set_shared (set_shared s i h (Some p)) j h (Some r)))"
| "client_step (Reset i) s =
     bindE (shared_reset False (cl_heap s) (the (svars s ! i)) None)
       (\<lambda>(h, p). Inr (set_shared s i h (Some p)))"
| "client_step (Drop i) s =
     bindE (SharedPtr_destroy (cl_heap s) (the (svars s ! i))) (\<lambda>h. Inr (set_shared s i h None))"
| "client_step (Share i) s =
     (let (h, p, u) = SharedPtr_unique (cl_heap s) (the (uvars s ! i)) in
      Inr (new_shared (set_unique s i h (Some u)) (h, p)))"
| "client_step (Lock i) s =
     bindE (lock (cl_heap s) (the (wvars s ! i))) (\<lambda>r. Inr (new_shared s r))"
| "client_step (Weaken i) s =
     bindE (WeakPtr_from (cl_heap s) (the (svars s ! i))) (\<lambda>r. Inr (new_weak s r))"
| "client_step (Copy_weak i) s =
     bindE (WeakPtr_copy (cl_heap s) (the (wvars s ! i))) (\<lambda>r. Inr (new_weak s r))"
| "client_step (Assign_weak i j) s =
     bindE (weak_assign (cl_heap s) (the (wvars s ! i)) (the (wvars s ! j)))
       (\<lambda>(h, w). Inr (set_weak s i h (Some w)))"
| "client_step (Drop_weak i) s =
     bindE (WeakPtr_destroy (cl_heap s) (the (wvars s ! i))) (\<lambda>h. Inr (set_weak s i h None))"
| "client_step Make_unique s =
     (let (h, u) = make_unique (cl_heap s) in Inr (s\<lparr>cl_heap := h, uvars := uvars s @ [Some u]\<rparr>))"
| "client_step (Move_unique i) s =
     (let (u, r) = UniquePtr_move (the (uvars s ! i)) in
      Inr (s\<lparr>uvars := (uvars s)[i := Some r] @ [Some u]\<rparr>))"
| "client_step (Assign_unique i j) s =
     bindE (unique_move_assign (cl_heap s) (the (uvars s ! i)) (the (uvars s ! j)))
       (\<lambda>(h, u, r). Inr (set_unique (set_unique s i h (Some u)) j h (Some r)))"
| "client_step (Drop_unique i) s =
     bindE (UniquePtr_destroy (cl_heap s) (the (uvars s ! i))) (\<lambda>h. Inr (set_unique s i h None))"

text \<open>
  The steps a program may take: it names variables that exist, assigns between different
  variables, and has fewer than \<open>2\<^sup>31\<close> pointers, the range of the counts.
\<close>

fun allowed :: "ptr_op \<Rightarrow> client \<Rightarrow> bool" where
  "allowed Make_shared s = (Suc (length (svars s)) < 2 ^ 31)"
| "allowed (Copy i) s = (shared_var s i \<and> Suc (length (svars s)) < 2 ^ 31)"
| "allowed (Move i) s = (shared_var s i \<and> Suc (length (svars s)) < 2 ^ 31)"
| "allowed (Alias i q) s = (shared_var s i \<and> Suc (length (svars s)) < 2 ^ 31)"
| "allowed (Assign i j) s = (shared_var s i \<and> shared_var s j \<and> i \<noteq> j)"
| "allowed (Move_assign i j) s = (shared_var s i \<and> shared_var s j \<and> i \<noteq> j)"
| "allowed (Reset i) s = shared_var s i"
| "allowed (Drop i) s = shared_var s i"
| "allowed (Share i) s = (unique_var s i \<and> Suc (length (svars s)) < 2 ^ 31)"
| "allowed (Lock i) s = (weak_var s i \<and> Suc (length (svars s)) < 2 ^ 31)"
| "allowed (Weaken i) s = (shared_var s i \<and> Suc (length (wvars s)) < 2 ^ 31)"
| "allowed (Copy_weak i) s = (weak_var s i \<and> Suc (length (wvars s)) < 2 ^ 31)"
| "allowed (Assign_weak i j) s = (weak_var s i \<and> weak_var s j \<and> i \<noteq> j)"
| "allowed (Drop_weak i) s = weak_var s i"
| "allowed Make_unique s = True"
| "allowed (Move_unique i) s = unique_var s i"
| "allowed (Assign_unique i j) s = (unique_var s i \<and> unique_var s j \<and> i \<noteq> j)"
| "allowed (Drop_unique i) s = unique_var s i"

definition start :: client where
  "start = \<lparr>cl_heap = \<lparr>ctrls = (\<lambda>_. None), objs = (\<lambda>_. None), next_ctrl = 0, next_obj = 0\<rparr>,
     svars = [], wvars = [], uvars = []\<rparr>"

inductive reached :: "client \<Rightarrow> bool" where
  init: "reached start"
| step: "reached s \<Longrightarrow> allowed op s \<Longrightarrow> client_step op s = Inr s' \<Longrightarrow> reached s'"


subsection \<open>The invariant of a client\<close>

definition skeys :: "client \<Rightarrow> nat option list" where
  "skeys s = map (\<lambda>v. Option.bind v sp_ctrl) (svars s)"

definition wkeys :: "client \<Rightarrow> nat option list" where
  "wkeys s = map (\<lambda>v. Option.bind v wp_ctrl) (wvars s)"

definition ukeys :: "client \<Rightarrow> nat option list" where
  "ukeys s = map (\<lambda>v. Option.bind v (\<lambda>u. u)) (uvars s)"

definition client_inv :: "client \<Rightarrow> bool" where
  "client_inv s \<longleftrightarrow> hinv (cl_heap s) (uses (skeys s)) (uses (wkeys s)) (uses (ukeys s)) \<and>
     length (svars s) < 2 ^ 31 \<and> length (wvars s) < 2 ^ 31"

lemma start_inv: "client_inv start"
  by (simp add: client_inv_def start_def skeys_def wkeys_def ukeys_def uses_Nil hinv_def
      counts_ok_def object_ok_def holds_def)

lemmas key_defs = skeys_def wkeys_def ukeys_def new_shared_def set_shared_def new_weak_def
  set_weak_def set_unique_def

lemma shared_key:
  assumes "client_inv s" and "shared_var s i"
  obtains k a where "the (svars s ! i) = \<lparr>sp_ctrl = k, sp_alias = a\<rparr>" "skeys s ! i = k"
    "i < length (skeys s)" "\<And>c. k = Some c \<Longrightarrow> 0 < uses (skeys s) c"
proof -
  obtain p where p: "svars s ! i = Some p" using assms(2) by (auto simp: shared_var_def)
  obtain k a where q: "p = \<lparr>sp_ctrl = k, sp_alias = a\<rparr>" by (cases p) auto
  have i: "i < length (skeys s)" "skeys s ! i = k"
    using assms(2) p q by (simp_all add: shared_var_def skeys_def)
  then show ?thesis using that p q uses_pos [OF i(1)] by simp
qed

lemma weak_key:
  assumes "client_inv s" and "weak_var s i"
  obtains k where "the (wvars s ! i) = \<lparr>wp_ctrl = k\<rparr>" "wkeys s ! i = k"
    "i < length (wkeys s)" "\<And>c. k = Some c \<Longrightarrow> 0 < uses (wkeys s) c"
proof -
  obtain p where p: "wvars s ! i = Some p" using assms(2) by (auto simp: weak_var_def)
  obtain k where q: "p = \<lparr>wp_ctrl = k\<rparr>" by (cases p) auto
  have i: "i < length (wkeys s)" "wkeys s ! i = k"
    using assms(2) p q by (simp_all add: weak_var_def wkeys_def)
  then show ?thesis using that p q uses_pos [OF i(1)] by simp
qed

lemma unique_key:
  assumes "client_inv s" and "unique_var s i"
  obtains "ukeys s ! i = the (uvars s ! i)" "i < length (ukeys s)"
    "\<And>obj. the (uvars s ! i) = Some obj \<Longrightarrow> uses (ukeys s) obj = 1"
proof -
  obtain u where u: "uvars s ! i = Some u" using assms(2) by (auto simp: unique_var_def)
  then have i: "i < length (ukeys s)" "ukeys s ! i = u"
    using assms(2) by (simp_all add: unique_var_def ukeys_def)
  have "uses (ukeys s) obj = 1" if "u = Some obj" for obj
  proof -
    have "0 < uses (ukeys s) obj" using uses_pos [OF i(1)] i(2) that by simp
    moreover have "object_ok (cl_heap s) (uses (ukeys s)) obj"
      using assms(1) hinvD(2) by (auto simp: client_inv_def)
    ultimately show ?thesis by (simp add: object_ok_def)
  qed
  then show ?thesis using that u i by simp
qed

lemma shared_room:
  "client_inv s \<Longrightarrow> Suc (length (svars s)) < 2 ^ 31 \<Longrightarrow> uses (skeys s) c + 1 < 2 ^ 31"
  using uses_le [of "skeys s" c] by (simp add: skeys_def)

lemma weak_room:
  "client_inv s \<Longrightarrow> Suc (length (wvars s)) < 2 ^ 31 \<Longrightarrow> uses (wkeys s) c + 1 < 2 ^ 31"
  using uses_le [of "wkeys s" c] by (simp add: wkeys_def)

lemma inv_heap:
  "client_inv s \<Longrightarrow> hinv (cl_heap s) (uses (skeys s)) (uses (wkeys s)) (uses (ukeys s))"
  by (simp add: client_inv_def)

text \<open>Adding a pointer variable whose target is counted.\<close>

lemma new_shared_inv:
  assumes "client_inv s" and "Suc (length (svars s)) < 2 ^ 31"
    and "hinv h (plus1 (uses (skeys s)) (sp_ctrl p)) (uses (wkeys s)) (uses (ukeys s))"
  shows "client_inv (new_shared s (h, p))"
  using assms by (simp add: client_inv_def key_defs uses_append)

lemma new_weak_inv:
  assumes "client_inv s" and "Suc (length (wvars s)) < 2 ^ 31"
    and "hinv h (uses (skeys s)) (plus1 (uses (wkeys s)) (wp_ctrl w)) (uses (ukeys s))"
  shows "client_inv (new_weak s (h, w))"
  using assms by (simp add: client_inv_def key_defs uses_append)

lemma set_shared_inv:
  assumes "client_inv s" and "i < length (svars s)"
    and "hinv h (plus1 (minus1 (uses (skeys s)) (skeys s ! i)) (Option.bind v sp_ctrl)) (uses (wkeys s))
           (uses (ukeys s))"
  shows "client_inv (set_shared s i h v)"
proof -
  have "i < length (skeys s)" using assms(2) by (simp add: skeys_def)
  moreover have "skeys (set_shared s i h v) = (skeys s)[i := Option.bind v sp_ctrl]"
    by (simp add: key_defs map_update)
  ultimately show ?thesis
    using assms by (simp add: client_inv_def uses_replace wkeys_def ukeys_def set_shared_def)
qed

lemma set_weak_inv:
  assumes "client_inv s" and "i < length (wvars s)"
    and "hinv h (uses (skeys s)) (plus1 (minus1 (uses (wkeys s)) (wkeys s ! i)) (Option.bind v wp_ctrl))
           (uses (ukeys s))"
  shows "client_inv (set_weak s i h v)"
proof -
  have "i < length (wkeys s)" using assms(2) by (simp add: wkeys_def)
  moreover have "wkeys (set_weak s i h v) = (wkeys s)[i := Option.bind v wp_ctrl]"
    by (simp add: key_defs map_update)
  ultimately show ?thesis
    using assms by (simp add: client_inv_def uses_replace skeys_def ukeys_def set_weak_def)
qed

lemma set_unique_inv:
  assumes "client_inv s" and "i < length (uvars s)"
    and "hinv h (uses (skeys s)) (uses (wkeys s))
           (plus1 (minus1 (uses (ukeys s)) (ukeys s ! i)) (Option.bind v (\<lambda>u. u)))"
  shows "client_inv (set_unique s i h v)"
proof -
  have "i < length (ukeys s)" using assms(2) by (simp add: ukeys_def)
  moreover have "ukeys (set_unique s i h v) = (ukeys s)[i := Option.bind v (\<lambda>u. u)]"
    by (simp add: key_defs map_update)
  ultimately show ?thesis
    using assms by (simp add: client_inv_def uses_replace skeys_def wkeys_def set_unique_def)
qed

lemma ptr_full [simp]:
  "(p :: shared_ptr)\<lparr>sp_ctrl := m, sp_alias := b\<rparr> = \<lparr>sp_ctrl = m, sp_alias = b\<rparr>"
  "(w :: weak_ptr)\<lparr>wp_ctrl := m\<rparr> = \<lparr>wp_ctrl = m\<rparr>"
  by (cases p; simp) (cases w; simp)

lemma uses_move:
  assumes "i < length ks" "j < length ks" "i \<noteq> j"
  shows "uses (ks[i := ks ! j, j := None]) = minus1 (uses ks) (ks ! i)"
proof (rule ext)
  fix c
  show "uses (ks[i := ks ! j, j := None]) c = minus1 (uses ks) (ks ! i) c"
    using count_list_update [of j "ks[i := ks ! j]" None "Some c"]
      count_list_update [of i ks "ks ! j" "Some c"] assms
    by (cases "ks ! i") (auto simp: uses_def split: if_splits)
qed

lemma uses_move_new:
  assumes "i < length ks"
  shows "uses (ks[i := None] @ [ks ! i]) = uses ks"
  using uses_pos [OF assms] assms
  by (cases "ks ! i") (auto simp: uses_append uses_clear fun_eq_iff)

lemma step_shared_new:
  assumes inv: "client_inv s" and room: "Suc (length (svars s)) < 2 ^ 31" and i: "shared_var s i"
  shows "\<exists>s'. client_step (Copy i) s = Inr s' \<and> client_inv s'"
    and "\<exists>s'. client_step (Alias i q) s = Inr s' \<and> client_inv s'"
proof -
  obtain k a where k: "the (svars s ! i) = \<lparr>sp_ctrl = k, sp_alias = a\<rparr>" "skeys s ! i = k"
      "i < length (skeys s)" "\<And>c. k = Some c \<Longrightarrow> 0 < uses (skeys s) c"
    using shared_key [OF inv i] by metis
  have add: "\<exists>h'. inc_use_count (cl_heap s) \<lparr>sp_ctrl = k, sp_alias = b\<rparr> = Inr h' \<and>
      client_inv (new_shared s (h', \<lparr>sp_ctrl = k, sp_alias = b\<rparr>))" for b
    using add_shared [OF inv_heap [OF inv], of k b] k(4) shared_room [OF inv room]
      new_shared_inv [OF inv room] by fastforce
  show "\<exists>s'. client_step (Copy i) s = Inr s' \<and> client_inv s'"
    using add [of a] k(1) by (auto simp: SharedPtr_copy_def)
  show "\<exists>s'. client_step (Alias i q) s = Inr s' \<and> client_inv s'"
    using add [of "Some q"] k(1) by (auto simp: SharedPtr_alias_def)
qed

lemma step_move:
  assumes inv: "client_inv s" and room: "Suc (length (svars s)) < 2 ^ 31" and i: "shared_var s i"
  shows "\<exists>s'. client_step (Move i) s = Inr s' \<and> client_inv s'"
proof -
  obtain k a where k: "the (svars s ! i) = \<lparr>sp_ctrl = k, sp_alias = a\<rparr>" "skeys s ! i = k"
      "i < length (skeys s)" using shared_key [OF inv i] by metis
  define s' where "s' = new_shared (set_shared s i (cl_heap s) (Some SharedPtr))
      (cl_heap s, \<lparr>sp_ctrl = k, sp_alias = a\<rparr>)"
  have "skeys s' = (skeys s)[i := None] @ [skeys s ! i]" "wkeys s' = wkeys s" "ukeys s' = ukeys s"
      "cl_heap s' = cl_heap s" "length (svars s') = Suc (length (svars s))" "wvars s' = wvars s"
    using k by (simp_all add: s'_def key_defs map_update SharedPtr_def)
  then have "client_inv s'" using inv room k(3) by (simp add: client_inv_def uses_move_new)
  moreover have "client_step (Move i) s = Inr s'"
    using k(1) by (simp add: s'_def SharedPtr_move_def SharedPtr_def)
  ultimately show ?thesis by blast
qed

lemma step_assign:
  assumes inv: "client_inv s" and i: "shared_var s i" and j: "shared_var s j" and ij: "i \<noteq> j"
  shows "\<exists>s'. client_step (Assign i j) s = Inr s' \<and> client_inv s'"
proof -
  obtain k a where k: "the (svars s ! i) = \<lparr>sp_ctrl = k, sp_alias = a\<rparr>" "skeys s ! i = k"
      "i < length (skeys s)" "\<And>c. k = Some c \<Longrightarrow> 0 < uses (skeys s) c"
    using shared_key [OF inv i] by metis
  obtain m b where m: "the (svars s ! j) = \<lparr>sp_ctrl = m, sp_alias = b\<rparr>" "skeys s ! j = m"
      "j < length (skeys s)" using shared_key [OF inv j] by metis
  obtain h1 p where h1: "give_up False (cl_heap s) \<lparr>sp_ctrl = k, sp_alias = a\<rparr> = Inr (h1, p)"
      "hinv h1 (minus1 (uses (skeys s)) k) (uses (wkeys s)) (uses (ukeys s))"
    using give_up_counts [OF inv_heap [OF inv]] k(4) by blast
  let ?ks = "(skeys s)[i := None]"
  have "0 < uses ?ks c \<and> uses ?ks c + 1 < 2 ^ 31" if "m = Some c" for c
    using uses_pos [of j ?ks c] uses_free_le [of i ?ks c] m k(3) ij that inv
    by (simp add: client_inv_def skeys_def)
  then obtain h2 where h2: "inc_use_count h1 \<lparr>sp_ctrl = m, sp_alias = b\<rparr> = Inr h2"
      "hinv h2 (plus1 (minus1 (uses (skeys s)) k) m) (uses (wkeys s)) (uses (ukeys s))"
    using add_shared [OF h1(2), of m b] uses_clear [OF k(3)] k(2) by auto
  have "client_inv (set_shared s i h2 (Some \<lparr>sp_ctrl = m, sp_alias = b\<rparr>))"
    using h2(2) k(2,3) by (intro set_shared_inv [OF inv]) (simp_all add: skeys_def)
  then show ?thesis using h1(1) h2(1) k(1) m(1) by (simp add: shared_assign_def)
qed

lemma step_move_assign:
  assumes inv: "client_inv s" and i: "shared_var s i" and j: "shared_var s j" and ij: "i \<noteq> j"
  shows "\<exists>s'. client_step (Move_assign i j) s = Inr s' \<and> client_inv s'"
proof -
  obtain k a where k: "the (svars s ! i) = \<lparr>sp_ctrl = k, sp_alias = a\<rparr>" "skeys s ! i = k"
      "i < length (skeys s)" "\<And>c. k = Some c \<Longrightarrow> 0 < uses (skeys s) c"
    using shared_key [OF inv i] by metis
  obtain m b where m: "the (svars s ! j) = \<lparr>sp_ctrl = m, sp_alias = b\<rparr>" "skeys s ! j = m"
      "j < length (skeys s)" using shared_key [OF inv j] by metis
  obtain h1 p where h1: "give_up False (cl_heap s) \<lparr>sp_ctrl = k, sp_alias = a\<rparr> = Inr (h1, p)"
      "hinv h1 (minus1 (uses (skeys s)) k) (uses (wkeys s)) (uses (ukeys s))"
    using give_up_counts [OF inv_heap [OF inv]] k(4) by blast
  define s' where "s' = set_shared (set_shared s i h1 (Some \<lparr>sp_ctrl = m, sp_alias = b\<rparr>)) j h1
      (Some SharedPtr)"
  have "skeys s' = (skeys s)[i := skeys s ! j, j := None]" "wkeys s' = wkeys s" "ukeys s' = ukeys s"
      "cl_heap s' = h1" "length (svars s') = length (svars s)" "wvars s' = wvars s"
    using m by (simp_all add: s'_def key_defs map_update SharedPtr_def)
  then have "client_inv s'" using inv h1(2) k(2,3) m(3) ij by (simp add: client_inv_def uses_move)
  moreover have "client_step (Move_assign i j) s = Inr s'"
    using h1(1) k(1) m(1) by (simp add: shared_move_assign_def s'_def SharedPtr_def)
  ultimately show ?thesis by blast
qed

lemma step_shared_end:
  assumes inv: "client_inv s" and i: "shared_var s i"
  shows "\<exists>s'. client_step (Reset i) s = Inr s' \<and> client_inv s'"
    and "\<exists>s'. client_step (Drop i) s = Inr s' \<and> client_inv s'"
proof -
  obtain k a where k: "the (svars s ! i) = \<lparr>sp_ctrl = k, sp_alias = a\<rparr>" "skeys s ! i = k"
      "i < length (svars s)" "\<And>c. k = Some c \<Longrightarrow> 0 < uses (skeys s) c"
    using shared_key [OF inv i] i unfolding shared_var_def by metis
  obtain h1 n where h1: "shared_reset False (cl_heap s) \<lparr>sp_ctrl = k, sp_alias = a\<rparr> None =
        Inr (h1, \<lparr>sp_ctrl = Some n, sp_alias = None\<rparr>)"
      "hinv h1 (plus1 (minus1 (uses (skeys s)) k) (Some n)) (uses (wkeys s)) (uses (ukeys s))"
    using reset_counts [OF inv_heap [OF inv]] k(4) by blast
  have "client_inv (set_shared s i h1 (Some \<lparr>sp_ctrl = Some n, sp_alias = None\<rparr>))"
    using h1(2) k(2,3) by (intro set_shared_inv [OF inv]) simp_all
  then show "\<exists>s'. client_step (Reset i) s = Inr s' \<and> client_inv s'" using h1(1) k(1) by simp
  obtain h2 where h2: "SharedPtr_destroy (cl_heap s) \<lparr>sp_ctrl = k, sp_alias = a\<rparr> = Inr h2"
      "hinv h2 (minus1 (uses (skeys s)) k) (uses (wkeys s)) (uses (ukeys s))"
    using drop_shared [OF inv_heap [OF inv]] k(4) by blast
  have "client_inv (set_shared s i h2 None)"
    using h2(2) k(2,3) by (intro set_shared_inv [OF inv]) simp_all
  then show "\<exists>s'. client_step (Drop i) s = Inr s' \<and> client_inv s'" using h2(1) k(1) by simp
qed

lemma step_weak:
  assumes inv: "client_inv s" and room: "Suc (length (wvars s)) < 2 ^ 31"
  shows "shared_var s i \<Longrightarrow> \<exists>s'. client_step (Weaken i) s = Inr s' \<and> client_inv s'"
    and "weak_var s i \<Longrightarrow> \<exists>s'. client_step (Copy_weak i) s = Inr s' \<and> client_inv s'"
proof -
  have add: "\<exists>h'. inc_use_count_weak (cl_heap s) \<lparr>wp_ctrl = k\<rparr> = Inr h' \<and>
      client_inv (new_weak s (h', \<lparr>wp_ctrl = k\<rparr>))"
    if "\<And>c. k = Some c \<Longrightarrow> 0 < uses (skeys s) c + uses (wkeys s) c" for k
    using add_weak [OF inv_heap [OF inv], of k] that weak_room [OF inv room]
      new_weak_inv [OF inv room] by fastforce
  {
    assume i: "shared_var s i"
    obtain k a where "the (svars s ! i) = \<lparr>sp_ctrl = k, sp_alias = a\<rparr>"
        "\<And>c. k = Some c \<Longrightarrow> 0 < uses (skeys s) c" using shared_key [OF inv i] by metis
    then show "\<exists>s'. client_step (Weaken i) s = Inr s' \<and> client_inv s'"
      using add [of k] by (fastforce simp: WeakPtr_from_def)
  }
  {
    assume i: "weak_var s i"
    obtain k where "the (wvars s ! i) = \<lparr>wp_ctrl = k\<rparr>"
        "\<And>c. k = Some c \<Longrightarrow> 0 < uses (wkeys s) c" using weak_key [OF inv i] by metis
    then show "\<exists>s'. client_step (Copy_weak i) s = Inr s' \<and> client_inv s'"
      using add [of k] by (fastforce simp: WeakPtr_copy_def)
  }
qed

lemma step_lock:
  assumes inv: "client_inv s" and room: "Suc (length (svars s)) < 2 ^ 31" and i: "weak_var s i"
  shows "\<exists>s'. client_step (Lock i) s = Inr s' \<and> client_inv s'"
proof -
  obtain k where k: "the (wvars s ! i) = \<lparr>wp_ctrl = k\<rparr>" "\<And>c. k = Some c \<Longrightarrow> 0 < uses (wkeys s) c"
    using weak_key [OF inv i] by metis
  then obtain h' p where "lock (cl_heap s) \<lparr>wp_ctrl = k\<rparr> = Inr (h', p)"
      "hinv h' (plus1 (uses (skeys s)) (sp_ctrl p)) (uses (wkeys s)) (uses (ukeys s))"
    using lock_counts [OF inv_heap [OF inv], of k] shared_room [OF inv room] by blast
  then show ?thesis using new_shared_inv [OF inv room] k(1) by simp
qed

lemma step_weak_end:
  assumes inv: "client_inv s" and i: "weak_var s i"
  shows "weak_var s j \<Longrightarrow> i \<noteq> j \<Longrightarrow> \<exists>s'. client_step (Assign_weak i j) s = Inr s' \<and> client_inv s'"
    and "\<exists>s'. client_step (Drop_weak i) s = Inr s' \<and> client_inv s'"
proof -
  obtain k where k: "the (wvars s ! i) = \<lparr>wp_ctrl = k\<rparr>" "wkeys s ! i = k" "i < length (wkeys s)"
      "\<And>c. k = Some c \<Longrightarrow> 0 < uses (wkeys s) c" using weak_key [OF inv i] by metis
  obtain h1 w where h1: "dec_use_count_weak (cl_heap s) \<lparr>wp_ctrl = k\<rparr> = Inr (h1, w)"
      "hinv h1 (uses (skeys s)) (minus1 (uses (wkeys s)) k) (uses (ukeys s))"
    using drop_weak [OF inv_heap [OF inv]] k(4) by blast
  have len: "i < length (wvars s)" using k(3) by (simp add: wkeys_def)
  have "client_inv (set_weak s i h1 None)"
    using h1(2) k(2) by (intro set_weak_inv [OF inv len]) simp_all
  then show "\<exists>s'. client_step (Drop_weak i) s = Inr s' \<and> client_inv s'"
    using h1(1) k(1) by (simp add: WeakPtr_destroy_def)
  assume j: "weak_var s j" and ij: "i \<noteq> j"
  obtain m where m: "the (wvars s ! j) = \<lparr>wp_ctrl = m\<rparr>" "wkeys s ! j = m" "j < length (wkeys s)"
    using weak_key [OF inv j] by metis
  let ?ks = "(wkeys s)[i := None]"
  have "0 < uses ?ks c \<and> uses ?ks c + 1 < 2 ^ 31" if "m = Some c" for c
    using uses_pos [of j ?ks c] uses_free_le [of i ?ks c] m k(3) ij that inv
    by (simp add: client_inv_def wkeys_def)
  then obtain h2 where h2: "inc_use_count_weak h1 \<lparr>wp_ctrl = m\<rparr> = Inr h2"
      "hinv h2 (uses (skeys s)) (plus1 (minus1 (uses (wkeys s)) k) m) (uses (ukeys s))"
    using add_weak [OF h1(2), of m] uses_clear [OF k(3)] k(2) by auto
  have "client_inv (set_weak s i h2 (Some \<lparr>wp_ctrl = m\<rparr>))"
    using h2(2) k(2) by (intro set_weak_inv [OF inv len]) simp_all
  then show "\<exists>s'. client_step (Assign_weak i j) s = Inr s' \<and> client_inv s'"
    using h1(1) h2(1) k(1) m(1) weak_give_up_eq [OF inv_heap [OF inv] k(4)]
    by (simp add: weak_assign_def)
qed

text \<open>Objects of unique pointers.\<close>

lemma step_make:
  assumes inv: "client_inv s"
  shows "Suc (length (svars s)) < 2 ^ 31 \<Longrightarrow> \<exists>s'. client_step Make_shared s = Inr s' \<and> client_inv s'"
    and "\<exists>s'. client_step Make_unique s = Inr s' \<and> client_inv s'"
proof -
  obtain obj h1 where new: "new_object (cl_heap s) = (obj, h1)" by force
  then have h1: "hinv h1 (uses (skeys s)) (uses (wkeys s)) ((uses (ukeys s))(obj := 1))"
      "uses (ukeys s) obj = 0" using hinv_new_object [OF inv_heap [OF inv]] by blast+
  then show "\<exists>s'. client_step Make_unique s = Inr s' \<and> client_inv s'"
    using inv new by (simp add: make_unique_def client_inv_def key_defs uses_append)
  define h2 where "h2 = snd (new_ctrl h1 \<lparr>cb_p = Some obj, cb_use_count = 1, cb_use_count_weak = 0\<rparr>)"
  have n: "uses (skeys s) (next_ctrl h1) = 0"
    using hinvD(1,3) [OF h1(1), of "next_ctrl h1"] by (simp add: counts_ok_def)
  have "hinv h2 ((uses (skeys s))(next_ctrl h1 := 1)) (uses (wkeys s)) (uses (ukeys s))"
    using hinv_new_block [OF h1(1), of "Some obj" "uses (ukeys s)"] h1(2)
    by (simp add: h2_def fun_upd_idem)
  then have h2: "hinv h2 (plus1 (uses (skeys s)) (Some (next_ctrl h1))) (uses (wkeys s)) (uses (ukeys s))"
    using n by simp
  assume room: "Suc (length (svars s)) < 2 ^ 31"
  have "client_inv (new_shared s (h2, \<lparr>sp_ctrl = Some (next_ctrl h1), sp_alias = None\<rparr>))"
    using h2 by (intro new_shared_inv [OF inv room]) simp
  then show "\<exists>s'. client_step Make_shared s = Inr s' \<and> client_inv s'"
    using new by (simp add: make_shared_def SharedPtr_raw_def maybe_enable_shared_from_this_def
        new_ctrl_def h2_def)
qed

lemma step_share:
  assumes inv: "client_inv s" and room: "Suc (length (svars s)) < 2 ^ 31" and i: "unique_var s i"
  shows "\<exists>s'. client_step (Share i) s = Inr s' \<and> client_inv s'"
proof -
  define u where "u = the (uvars s ! i)"
  have k: "ukeys s ! i = u" "i < length (ukeys s)" "\<And>obj. u = Some obj \<Longrightarrow> uses (ukeys s) obj = 1"
    using unique_key [OF inv i] unfolding u_def by metis+
  define h1 n where "h1 = snd (new_ctrl (cl_heap s) \<lparr>cb_p = u, cb_use_count = 1, cb_use_count_weak = 0\<rparr>)"
    and "n = next_ctrl (cl_heap s)"
  have n: "uses (skeys s) n = 0"
    using hinvD(1,3) [OF inv_heap [OF inv], of n] by (simp add: counts_ok_def n_def)
  have "minus1 (uses (ukeys s)) u =
      (case u of None \<Rightarrow> uses (ukeys s) | Some obj \<Rightarrow> (uses (ukeys s))(obj := 0))"
    using k(3) by (cases u) auto
  then have "hinv h1 ((uses (skeys s))(n := 1)) (uses (wkeys s)) (minus1 (uses (ukeys s)) u)"
    using hinv_new_block [OF inv_heap [OF inv] k(3)] by (simp add: h1_def n_def)
  then have "hinv h1 (plus1 (uses (skeys s)) (Some n)) (uses (wkeys s)) (uses ((ukeys s)[i := None]))"
    using n k by (simp add: uses_clear)
  then have "client_inv (new_shared (set_unique s i h1 (Some None))
      (h1, \<lparr>sp_ctrl = Some n, sp_alias = None\<rparr>))"
    using inv room by (simp add: client_inv_def key_defs map_update uses_append)
  then show ?thesis
    by (simp add: SharedPtr_unique_def unique_release_def new_ctrl_def h1_def n_def u_def)
qed

lemma unique_reset_counts:
  assumes inv: "client_inv s" and i: "unique_var s i"
    and differs: "p = None \<or> p \<noteq> the (uvars s ! i)"
  shows "\<exists>h'. unique_reset (cl_heap s) (the (uvars s ! i)) p = Inr (h', p) \<and>
           hinv h' (uses (skeys s)) (uses (wkeys s)) (minus1 (uses (ukeys s)) (ukeys s ! i))"
proof -
  define u where "u = the (uvars s ! i)"
  have k: "ukeys s ! i = u" "\<And>obj. u = Some obj \<Longrightarrow> uses (ukeys s) obj = 1"
    using unique_key [OF inv i] unfolding u_def by metis+
  show ?thesis
  proof (cases u)
    case None
    then show ?thesis
      using inv_heap [OF inv] k(1) by (auto simp: unique_reset_def delete_object_def u_def)
  next
    case (Some obj)
    then have "u \<noteq> p" using differs u_def by auto
    then show ?thesis
      using hinv_delete_unique [OF inv_heap [OF inv], of obj] k Some
      by (auto simp: unique_reset_def u_def [symmetric])
  qed
qed

lemma step_unique:
  assumes inv: "client_inv s" and i: "unique_var s i"
  shows "\<exists>s'. client_step (Move_unique i) s = Inr s' \<and> client_inv s'"
    and "unique_var s j \<Longrightarrow> i \<noteq> j \<Longrightarrow> \<exists>s'. client_step (Assign_unique i j) s = Inr s' \<and> client_inv s'"
    and "\<exists>s'. client_step (Drop_unique i) s = Inr s' \<and> client_inv s'"
proof -
  have k: "ukeys s ! i = the (uvars s ! i)" "i < length (ukeys s)"
    using unique_key [OF inv i] by metis+
  then have len: "i < length (uvars s)" by (simp add: ukeys_def)
  have "hinv (cl_heap s) (uses (skeys s)) (uses (wkeys s)) (uses ((ukeys s)[i := None] @ [ukeys s ! i]))"
    using inv_heap [OF inv] k(2) by (simp add: uses_move_new)
  then show "\<exists>s'. client_step (Move_unique i) s = Inr s' \<and> client_inv s'"
    using inv k(1) by (simp add: UniquePtr_move_def unique_release_def client_inv_def key_defs map_update)
  obtain h1 where h1: "unique_reset (cl_heap s) (the (uvars s ! i)) None = Inr (h1, None)"
      "hinv h1 (uses (skeys s)) (uses (wkeys s)) (minus1 (uses (ukeys s)) (ukeys s ! i))"
    using unique_reset_counts [OF inv i, of None] by auto
  then have "client_inv (set_unique s i h1 None)" by (intro set_unique_inv [OF inv len]) simp
  then show "\<exists>s'. client_step (Drop_unique i) s = Inr s' \<and> client_inv s'"
    using h1(1) by (simp add: UniquePtr_destroy_def)
  assume j: "unique_var s j" and ij: "i \<noteq> j"
  define p where "p = the (uvars s ! j)"
  have m: "ukeys s ! j = p" "j < length (ukeys s)" "\<And>obj. p = Some obj \<Longrightarrow> uses (ukeys s) obj = 1"
    using unique_key [OF inv j] unfolding p_def by metis+
  have "p = None \<or> p \<noteq> the (uvars s ! i)"
  proof (cases p)
    case (Some obj)
    have "0 < uses ((ukeys s)[i := None]) obj"
      using uses_pos [of j "(ukeys s)[i := None]" obj] m(1,2) ij Some by simp
    then have "ukeys s ! i \<noteq> Some obj" using uses_clear [OF k(2)] m(3) [OF Some] by auto
    then show ?thesis using k(1) Some by auto
  qed simp
  then obtain h2 where h2: "unique_reset (cl_heap s) (the (uvars s ! i)) p = Inr (h2, p)"
      "hinv h2 (uses (skeys s)) (uses (wkeys s)) (minus1 (uses (ukeys s)) (ukeys s ! i))"
    using unique_reset_counts [OF inv i] by blast
  have "ukeys (set_unique (set_unique s i h2 (Some p)) j h2 (Some None)) =
      (ukeys s)[i := ukeys s ! j, j := None]"
    using m(1) by (simp add: key_defs map_update)
  then have "client_inv (set_unique (set_unique s i h2 (Some p)) j h2 (Some None))"
    using inv h2(2) k(2) m(2) ij
    by (simp add: client_inv_def uses_move skeys_def wkeys_def set_unique_def)
  then show "\<exists>s'. client_step (Assign_unique i j) s = Inr s' \<and> client_inv s'"
    using h2(1) by (simp add: unique_move_assign_def unique_release_def p_def)
qed

lemma step_inv:
  assumes "client_inv s" and "allowed op s"
  shows "\<exists>s'. client_step op s = Inr s' \<and> client_inv s'"
proof (cases op)
  case Make_shared
  then show ?thesis using step_make(1) assms by simp
next
  case (Copy i)
  then show ?thesis using step_shared_new(1) [OF assms(1)] assms(2) by simp
next
  case (Move i)
  then show ?thesis using step_move [OF assms(1)] assms(2) by simp
next
  case (Alias i q)
  then show ?thesis using step_shared_new(2) [OF assms(1)] assms(2) by simp
next
  case (Assign i j)
  then show ?thesis using step_assign [OF assms(1)] assms(2) by simp
next
  case (Move_assign i j)
  then show ?thesis using step_move_assign [OF assms(1)] assms(2) by simp
next
  case (Lock i)
  then show ?thesis using step_lock [OF assms(1)] assms(2) by simp
next
  case (Weaken i)
  then show ?thesis using step_weak(1) [OF assms(1)] assms(2) by simp
next
  case (Copy_weak i)
  then show ?thesis using step_weak(2) [OF assms(1)] assms(2) by simp
next
  case (Share i)
  then show ?thesis using step_share [OF assms(1)] assms(2) by simp
qed (use assms step_make(2) step_shared_end step_weak_end step_unique in
      \<open>simp_all del: client_step.simps\<close>)

lemma reached_inv: "reached s \<Longrightarrow> client_inv s"
proof (induction rule: reached.induct)
  case (step s op s')
  then show ?case using step_inv [of s op] by auto
qed (rule start_inv)



subsection \<open>What a client can rely on\<close>

definition points_to :: "client \<Rightarrow> nat \<Rightarrow> nat \<Rightarrow> bool" where
  "points_to s i obj \<longleftrightarrow>
     i < length (svars s) \<and> (\<exists>c. skeys s ! i = Some c \<and> holds (cl_heap s) c obj)"

fun run_allowed :: "ptr_op list \<Rightarrow> client \<Rightarrow> client option" where
  "run_allowed [] s = Some s"
| "run_allowed (op # ops) s =
     (if allowed op s
      then (case client_step op s of Inl e \<Rightarrow> None | Inr s' \<Rightarrow> run_allowed ops s') else None)"

lemma reached_run: "reached s \<Longrightarrow> run_allowed ops s = Some s' \<Longrightarrow> reached s'"
  by (induction ops arbitrary: s) (auto split: if_splits sum.splits intro: reached.step)

lemma live_iff_owned:
  assumes inv: "client_inv s"
  shows "objs (cl_heap s) obj \<noteq> None \<longleftrightarrow>
     (\<exists>i. points_to s i obj) \<or> (\<exists>i < length (uvars s). ukeys s ! i = Some obj)"
proof -
  have "objs (cl_heap s) obj \<noteq> None \<longleftrightarrow> 0 < uses (ukeys s) obj \<or> (\<exists>c. holds (cl_heap s) c obj)"
    using hinvD(2) [OF inv_heap [OF inv], of obj] by (auto simp: object_ok_def)
  moreover have "holds (cl_heap s) c obj \<Longrightarrow> 0 < uses (skeys s) c" for c
    using hinvD(1) [OF inv_heap [OF inv], of c]
    by (auto simp: counts_ok_def holds_def split: option.splits)
  moreover have "0 < uses (skeys s) c \<longleftrightarrow> (\<exists>i < length (svars s). skeys s ! i = Some c)" for c
    using uses_witness [of "skeys s" c] uses_pos [of _ "skeys s" c] by (auto simp: skeys_def)
  moreover have "0 < uses (ukeys s) obj \<longleftrightarrow> (\<exists>i < length (uvars s). ukeys s ! i = Some obj)"
    using uses_witness [of "ukeys s" obj] uses_pos [of _ "ukeys s" obj] by (auto simp: ukeys_def)
  ultimately show ?thesis unfolding points_to_def by blast
qed

lemma use_count_exact:
  assumes inv: "client_inv s" and "shared_var s i" and "skeys s ! i = Some c"
  shows "shared_use_count (cl_heap s) (the (svars s ! i)) = Inr (int (uses (skeys s) c))"
proof -
  obtain a where a: "the (svars s ! i) = \<lparr>sp_ctrl = Some c, sp_alias = a\<rparr>" "0 < uses (skeys s) c"
    using shared_key [OF assms(1,2)] assms(3) by metis
  then obtain b where "ctrls (cl_heap s) c = Some b" "cb_use_count b = int (uses (skeys s) c)"
    using hinv_block [OF inv_heap [OF inv], of c] by auto
  then show ?thesis using a by (simp add: shared_use_count_def load_ctrl_def)
qed

lemma lock_revives:
  assumes inv: "client_inv s" and "allowed (Lock i) s"
  shows "\<exists>h' p. lock (cl_heap s) (the (wvars s ! i)) = Inr (h', p) \<and>
     sp_ctrl p = (case wkeys s ! i of None \<Rightarrow> None
                  | Some c \<Rightarrow> if uses (skeys s) c = 0 then None else Some c)"
proof -
  have i: "weak_var s i" and room: "Suc (length (svars s)) < 2 ^ 31" using assms(2) by simp_all
  obtain k where k: "the (wvars s ! i) = \<lparr>wp_ctrl = k\<rparr>" "wkeys s ! i = k"
      "\<And>c. k = Some c \<Longrightarrow> 0 < uses (wkeys s) c"
    using weak_key [OF inv i] by metis
  obtain h' p where "lock (cl_heap s) \<lparr>wp_ctrl = k\<rparr> = Inr (h', p)"
      "case k of None \<Rightarrow> sp_ctrl p = None
       | Some c \<Rightarrow> sp_ctrl p = (if uses (skeys s) c = 0 then None else Some c)"
    using lock_counts [OF inv_heap [OF inv], of k] k(3) shared_room [OF inv room] by blast
  then show ?thesis using k by (auto split: option.splits)
qed

text \<open>C30: Pointers to objects whose class does not derive from \<open>EnableSharedFromThis\<close> and that hold
  no such pointers themselves. A program that copies, moves, aliases, assigns, resets, locks and
  destroys shared, weak and unique pointers to them in any order, but never assigns a pointer to
  itself and has fewer than \<open>2\<^sup>31\<close> pointers, never runs into a deleted control block or deletes
  an object twice. At every point an object is alive exactly when some shared or unique pointer
  variable owns it, so it is deleted with its last owner; \<open>use_count\<close> is the number of
  shared pointers that share the control block; and locking a weak pointer gives an owner
  exactly when one still exists.\<close>

theorem pointers_safe:
  assumes "reached s"
  shows "(\<forall>op. allowed op s \<longrightarrow> (\<exists>s'. client_step op s = Inr s' \<and> reached s')) \<and>
     (\<forall>obj. objs (cl_heap s) obj \<noteq> None \<longleftrightarrow>
        (\<exists>i. points_to s i obj) \<or> (\<exists>i < length (uvars s). ukeys s ! i = Some obj)) \<and>
     (\<forall>i c. shared_var s i \<and> skeys s ! i = Some c \<longrightarrow>
        shared_use_count (cl_heap s) (the (svars s ! i)) = Inr (int (uses (skeys s) c))) \<and>
     (\<forall>i. allowed (Lock i) s \<longrightarrow>
        (\<exists>h' p. lock (cl_heap s) (the (wvars s ! i)) = Inr (h', p) \<and>
           sp_ctrl p = (case wkeys s ! i of None \<Rightarrow> None
                        | Some c \<Rightarrow> if uses (skeys s) c = 0 then None else Some c)))"
proof -
  have inv: "client_inv s" by (rule reached_inv [OF assms])
  have "\<exists>s'. client_step op s = Inr s' \<and> reached s'" if "allowed op s" for op
    using step_inv [OF inv that] reached.step [OF assms that] by blast
  then show ?thesis
    using live_iff_owned [OF inv] use_count_exact [OF inv] lock_revives [OF inv] by blast
qed

theorem pointers_safe_witness:
  "\<exists>s. reached s \<and> objs (cl_heap s) 0 \<noteq> None \<and> (\<exists>i. points_to s i 0) \<and>
     objs (cl_heap s) 1 = None \<and> (\<forall>i. \<not> points_to s i 1)"
proof -
  obtain s where s: "run_allowed [Make_shared, Copy 0, Drop 0, Make_unique, Drop_unique 0] start = Some s"
      and o: "objs (cl_heap s) 0 \<noteq> None" "objs (cl_heap s) 1 = None" "uvars s = [None]"
    by (simp add: start_def make_shared_def new_object_def SharedPtr_raw_def new_ctrl_def
        maybe_enable_shared_from_this_def new_shared_def shared_var_def SharedPtr_copy_def
        inc_use_count_def store_ctrl_def load_ctrl_def SharedPtr_destroy_def dec_use_count_def
        maybe_delete_p_def maybe_delete_ctrl_block_def set_shared_def make_unique_def unique_var_def
        UniquePtr_destroy_def unique_reset_def delete_object_def WeakPtr_destroy_def
        dec_use_count_weak_def set_unique_def int32_def)
  have r: "reached s" using reached_run [OF reached.init s] .
  have "objs (cl_heap s) obj \<noteq> None \<longleftrightarrow> (\<exists>i. points_to s i obj)" for obj
    using pointers_safe [OF r] o(3) by (simp add: ukeys_def)
  then show ?thesis using r o(1,2) by blast
qed

text \<open>C31: Four uses of the pointers that the classes accept and that go wrong. For a type
  derived from \<open>EnableSharedFromThis\<close> (the inodes of \<open>TmpFS\<close> and the directories of \<open>ProcFS\<close>), destroying the
  last shared pointer writes to the control block that the object's own \<open>_weak_this\<close> has
  already deleted, and \<open>reset()\<close>, with which every assignment to a non-empty pointer starts,
  dereferences null. A self-assignment deletes the object of the only owner. Destroying one of two
  \<open>SharedPtr<T[]>\<close> deletes the array under the other one.\<close>

theorem pointer_hazards:
  "(\<exists>h1 p. make_shared True h = Inr (h1, p) \<and> SharedPtr_destroy h1 p = Inl UseAfterFree) \<and>
   shared_reset True h q None = Inl NullDeref \<and>
   (\<exists>h1 p h2 p2. make_shared False h = Inr (h1, p) \<and> shared_self_assign False h1 p = Inr (h2, p2) \<and>
      objs h1 (next_obj h) \<noteq> None \<and> objs h2 (next_obj h) = None \<and> shared_get h2 p2 = Inr None) \<and>
   (\<exists>h1 p h2 p2 h3. make_shared False h = Inr (h1, p) \<and> SharedPtr_copy h1 p = Inr (h2, p2) \<and>
      SharedPtr_array_destroy h2 p2 = Inr h3 \<and> objs h3 (next_obj h) = None \<and>
      shared_get h3 p = Inl UseAfterFree)"
proof (intro conjI)
  have one: "int32 1 = 1" "int32 2 = 2" by (simp_all add: int32_def)
  show "\<exists>h1 p. make_shared True h = Inr (h1, p) \<and> SharedPtr_destroy h1 p = Inl UseAfterFree"
    by (simp add: make_shared_def new_object_def SharedPtr_raw_def new_ctrl_def
        maybe_enable_shared_from_this_def WeakPtr_from_def inc_use_count_weak_def store_ctrl_def
        load_ctrl_def weak_move_assign_def weak_give_up_def WeakPtr_destroy_def
        dec_use_count_weak_def SharedPtr_destroy_def dec_use_count_def maybe_delete_p_def
        delete_object_def weak_maybe_delete_ctrl_block_def one)
  show "shared_reset True h q None = Inl NullDeref"
    by (simp add: shared_reset_def SharedPtr_raw_def new_ctrl_def maybe_enable_shared_from_this_def
        WeakPtr_from_def inc_use_count_weak_def store_ctrl_def load_ctrl_def)
  show "\<exists>h1 p h2 p2. make_shared False h = Inr (h1, p) \<and> shared_self_assign False h1 p = Inr (h2, p2) \<and>
      objs h1 (next_obj h) \<noteq> None \<and> objs h2 (next_obj h) = None \<and> shared_get h2 p2 = Inr None"
    by (simp add: make_shared_def new_object_def SharedPtr_raw_def new_ctrl_def
        maybe_enable_shared_from_this_def shared_self_assign_def give_up_def shared_reset_def
        shared_swap_def SharedPtr_move_def SharedPtr_destroy_def dec_use_count_def store_ctrl_def
        load_ctrl_def maybe_delete_p_def delete_object_def WeakPtr_destroy_def
        dec_use_count_weak_def maybe_delete_ctrl_block_def inc_use_count_def shared_get_def)
  show "\<exists>h1 p h2 p2 h3. make_shared False h = Inr (h1, p) \<and> SharedPtr_copy h1 p = Inr (h2, p2) \<and>
      SharedPtr_array_destroy h2 p2 = Inr h3 \<and> objs h3 (next_obj h) = None \<and>
      shared_get h3 p = Inl UseAfterFree"
    by (simp add: make_shared_def new_object_def SharedPtr_raw_def new_ctrl_def
        maybe_enable_shared_from_this_def SharedPtr_copy_def inc_use_count_def store_ctrl_def
        load_ctrl_def SharedPtr_array_destroy_def SharedPtr_destroy_def dec_use_count_def
        maybe_delete_p_def delete_object_def WeakPtr_destroy_def dec_use_count_weak_def
        maybe_delete_ctrl_block_def shared_get_def one)
qed

end
