(* ===== verification/KString.thy ===== *)
theory KString
  imports Kernel_Prelude
begin

text \<open>
  The kernel's string class (\<open>include/lib/String.h\<close>). A string owns a character array or
  nothing: \<open>None\<close> is the null \<open>_s\<close> of a default-constructed or moved-from string, \<open>Some b\<close> an
  array \<open>b\<close> whose contents end at the first zero byte. The C string routines
  (\<open>lib/CString.cc\<close>) appear here on arrays, with every access bounds-checked, so that reading
  past a missing terminator or writing past the end is the error \<open>OutOfBounds\<close>; using a null
  array is \<open>NullDeref\<close>. A \<open>List<String>\<close> is a list.
\<close>


subsection \<open>C string routines on arrays\<close>

primrec astrlen :: "u8 list \<Rightarrow> kerror + nat" where
  "astrlen [] = Inl OutOfBounds"
| "astrlen (x # xs) = (if x = 0 then Inr 0 else bindE (astrlen xs) (\<lambda>n. Inr (Suc n)))"

primrec astrcpy :: "u8 list \<Rightarrow> u8 list \<Rightarrow> int \<Rightarrow> kerror + u8 list" where
  "astrcpy [] dest i = Inl OutOfBounds"
| "astrcpy (x # src) dest i =
     (if x = 0 then aset dest i 0 else bindE (aset dest i x) (\<lambda>dest. astrcpy src dest (i + 1)))"

primrec astrncpy :: "u8 list \<Rightarrow> u8 list \<Rightarrow> int \<Rightarrow> nat \<Rightarrow> kerror + u8 list" where
  "astrncpy [] dest i n = Inl OutOfBounds"
| "astrncpy (x # src) dest i n =
     (if x \<noteq> 0 \<and> n \<noteq> 0 then bindE (aset dest i x) (\<lambda>dest. astrncpy src dest (i + 1) (n - 1))
      else aset dest i 0)"

definition astrcat :: "u8 list \<Rightarrow> u8 list \<Rightarrow> kerror + u8 list" where
  "astrcat dest src = bindE (astrlen dest) (\<lambda>n. astrcpy src dest (int n))"

fun astrcmp :: "u8 list \<Rightarrow> u8 list \<Rightarrow> kerror + int" where
  "astrcmp (x # xs) (y # ys) =
     (if x \<noteq> 0 \<and> x = y then astrcmp xs ys else Inr (uint x - uint y))"
| "astrcmp _ _ = Inl OutOfBounds"


subsection \<open>Construction and comparison\<close>

type_synonym kstring = "u8 list option"

definition deref :: "kstring \<Rightarrow> kerror + u8 list" where
  "deref s = (case s of None \<Rightarrow> Inl NullDeref | Some b \<Rightarrow> Inr b)"

text \<open>\<open>make_unique<char[]>(n)\<close> is an array of \<open>n\<close> zeros.\<close>

definition new_chars :: "u64 \<Rightarrow> u8 list" where
  "new_chars n = replicate (unat n) 0"

definition npos :: u64 where
  "npos = - 1"

definition String :: "u8 list \<Rightarrow> kerror + kstring" where
  "String s =
     bindE (astrlen s) (\<lambda>n.
     bindE (astrcpy s (new_chars (of_nat n + 1)) 0) (\<lambda>b. Inr (Some b)))"

definition str_size :: "kstring \<Rightarrow> kerror + u64" where
  "str_size s = (case s of None \<Rightarrow> Inr 0 | Some b \<Rightarrow> bindE (astrlen b) (\<lambda>n. Inr (of_nat n)))"

definition str_empty :: "kstring \<Rightarrow> kerror + bool" where
  "str_empty s = bindE (str_size s) (\<lambda>n. Inr (n = 0))"

definition str_copy :: "kstring \<Rightarrow> kerror + kstring" where
  "str_copy r =
     bindE (str_size r) (\<lambda>n.
     bindE (deref r) (\<lambda>src.
     bindE (astrcpy src (new_chars (n + 1)) 0) (\<lambda>b. Inr (Some b))))"

definition str_move :: "kstring \<Rightarrow> kstring \<times> kstring" where
  "str_move r = (r, None)"

definition str_eq :: "kstring \<Rightarrow> kstring \<Rightarrow> kerror + bool" where
  "str_eq s r =
     bindE (deref s) (\<lambda>a. bindE (deref r) (\<lambda>b. bindE (astrcmp a b) (\<lambda>d. Inr (d = 0))))"

definition str_plus :: "kstring \<Rightarrow> kstring \<Rightarrow> kerror + kstring" where
  "str_plus s r =
     bindE (str_empty r) (\<lambda>e.
     if e then str_copy s
     else
       bindE (str_size s) (\<lambda>n.
       bindE (str_size r) (\<lambda>m.
       bindE (deref s) (\<lambda>a.
       bindE (astrcpy a (new_chars (n + m + 1)) 0) (\<lambda>ret.
       bindE (deref r) (\<lambda>b.
       bindE (astrcat ret b) (\<lambda>ret. Inr (Some ret))))))))"

definition str_append :: "kstring \<Rightarrow> kstring \<Rightarrow> kerror + kstring" where
  "str_append s r = bindE (str_plus s r) (\<lambda>t. Inr (fst (str_move t)))"


subsection \<open>Searching\<close>

primrec find_loop :: "(u8 \<Rightarrow> bool) \<Rightarrow> nat \<Rightarrow> u64 \<Rightarrow> u8 list \<Rightarrow> kerror + u64" where
  "find_loop P 0 i b = Inr npos"
| "find_loop P (Suc n) i b =
     bindE (aget b (uint i)) (\<lambda>x. if P x then Inr i else find_loop P n (i + 1) b)"

text \<open>The argument \<open>pos\<close> is not used.\<close>

definition find_first_of :: "kstring \<Rightarrow> u8 \<Rightarrow> u64 \<Rightarrow> kerror + u64" where
  "find_first_of s c pos =
     bindE (str_size s) (\<lambda>len.
     if len = 0 then Inr npos else bindE (deref s) (find_loop (\<lambda>x. x = c) (unat len) 0))"

definition find_first_not_of :: "kstring \<Rightarrow> u8 \<Rightarrow> u64 \<Rightarrow> kerror + u64" where
  "find_first_not_of s c pos =
     bindE (str_size s) (\<lambda>len.
     if len = 0 then Inr npos else bindE (deref s) (find_loop (\<lambda>x. x \<noteq> c) (unat len) 0))"

text \<open>\<open>for (int i = pos; i >= 0; i--)\<close>: the argument counts the values of \<open>i\<close> to come.\<close>

primrec rfind_loop :: "(u8 \<Rightarrow> bool) \<Rightarrow> nat \<Rightarrow> u8 list \<Rightarrow> kerror + u64" where
  "rfind_loop P 0 b = Inr npos"
| "rfind_loop P (Suc i) b =
     bindE (aget b (int i)) (\<lambda>x. if P x then Inr (of_nat i) else rfind_loop P i b)"

definition find_last_of :: "kstring \<Rightarrow> u8 \<Rightarrow> u64 \<Rightarrow> kerror + u64" where
  "find_last_of s c pos =
     bindE (str_empty s) (\<lambda>e.
     if e then Inr npos
     else
       bindE (str_size s) (\<lambda>n.
       let pos = (if pos = npos then n - 1 else pos) in
       bindE (deref s) (rfind_loop (\<lambda>x. x = c) (nat (int32 (uint pos) + 1)))))"

definition find_last_not_of :: "kstring \<Rightarrow> u8 \<Rightarrow> u64 \<Rightarrow> kerror + u64" where
  "find_last_not_of s c pos =
     bindE (str_empty s) (\<lambda>e.
     if e then Inr npos
     else
       bindE (str_size s) (\<lambda>n.
       let pos = (if pos = npos then n - 1 else pos) in
       bindE (deref s) (rfind_loop (\<lambda>x. x \<noteq> c) (nat (int32 (uint pos) + 1)))))"


subsection \<open>Removing, cutting and joining\<close>

partial_function (option) str_remove_loop ::
  "u8 \<Rightarrow> u8 list \<Rightarrow> u64 \<Rightarrow> u64 \<Rightarrow> (kerror + u8 list \<times> u64 \<times> u64) option" where
  "str_remove_loop val b slow fast =
     (case astrlen b of
        Inl e \<Rightarrow> Some (Inl e)
      | Inr n \<Rightarrow>
          if \<not> fast < of_nat n then Some (Inr (b, slow, fast))
          else case aget b (uint fast) of
            Inl e \<Rightarrow> Some (Inl e)
          | Inr x \<Rightarrow>
              if x = val then str_remove_loop val b slow (fast + 1)
              else case aset b (uint slow) x of
                Inl e \<Rightarrow> Some (Inl e)
              | Inr b \<Rightarrow> str_remove_loop val b (slow + 1) (fast + 1))"

definition str_remove :: "kstring \<Rightarrow> u8 \<Rightarrow> kerror + kstring" where
  "str_remove s val =
     (case s of
        None \<Rightarrow> Inl NullDeref
      | Some b \<Rightarrow>
          bindE (returned (str_remove_loop val b 0 0)) (\<lambda>r.
          bindE r (\<lambda>(b, slow, fast).
          bindE (astrlen b) (\<lambda>n.
          let new_size = of_nat n - (fast - slow) in
          if new_size > 0 then bindE (aset b (uint (new_size - 1)) 0) (\<lambda>b. Inr (Some b))
          else bindE (aset b 0 0) (\<lambda>b. Inr (Some b))))))"

definition substr :: "kstring \<Rightarrow> u64 \<Rightarrow> u64 \<Rightarrow> kerror + kstring" where
  "substr s begin len =
     bindE (str_empty s) (\<lambda>e.
     if e then Inr None
     else
       bindE (str_size s) (\<lambda>n.
       let len = (if len = npos \<or> begin + len > n then n - begin else len) in
       bindE (deref s) (\<lambda>b.
       bindE (astrncpy (drop (unat begin) b) (new_chars (len + 1)) 0 (unat len)) (\<lambda>ret.
       Inr (Some ret)))))"

text \<open>The first argument counts the values of the index \<open>i\<close> below \<open>size()\<close> still to come.\<close>

primrec split_loop ::
  "nat \<Rightarrow> kstring \<Rightarrow> u8 \<Rightarrow> u64 \<Rightarrow> u64 \<Rightarrow> u64 \<Rightarrow> kstring list \<Rightarrow> kerror + u64 \<times> kstring list" where
  "split_loop 0 s delimiter limit i begin substrings = Inr (begin, substrings)"
| "split_loop (Suc k) s delimiter limit i begin substrings =
     (if of_nat (length substrings) = limit - 1 then Inr (begin, substrings)
      else
        bindE (deref s) (\<lambda>b.
        bindE (aget b (uint i)) (\<lambda>c.
        if c = delimiter then
          (let len = i - begin in
           bindE (if len \<noteq> 0 then bindE (substr s begin len) (\<lambda>t. Inr (substrings @ [t]))
                  else Inr substrings) (\<lambda>substrings.
           split_loop k s delimiter limit (i + 1) (i + 1) substrings))
        else split_loop k s delimiter limit (i + 1) begin substrings)))"

definition split :: "kstring \<Rightarrow> u8 \<Rightarrow> u64 \<Rightarrow> kerror + kstring list" where
  "split s delimiter limit =
     bindE (str_empty s) (\<lambda>e.
     if e then Inr []
     else
       bindE (str_size s) (\<lambda>n.
       bindE (split_loop (unat n) s delimiter limit 0 0 []) (\<lambda>(begin, substrings).
       let tail_len = n - begin in
       if tail_len \<noteq> 0 then bindE (substr s begin tail_len) (\<lambda>t. Inr (substrings @ [t]))
       else Inr substrings)))"

primrec join_loop :: "kstring list \<Rightarrow> kstring \<Rightarrow> u64 \<Rightarrow> u64 \<Rightarrow> kstring \<Rightarrow> kerror + kstring" where
  "join_loop [] s len index ret = Inr ret"
| "join_loop (x # seq) s len index ret =
     bindE (str_append ret x) (\<lambda>ret.
     bindE (if index \<noteq> len - 1 then str_append ret s else Inr ret) (\<lambda>ret.
     join_loop seq s len (index + 1) ret))"

definition join :: "kstring \<Rightarrow> kstring list \<Rightarrow> kerror + kstring" where
  "join s seq = join_loop seq s (of_nat (length seq)) 0 None"


subsection \<open>Case conversion, access and hashing\<close>

text \<open>The loops over \<open>*this\<close> visit the \<open>size()\<close> characters of the string.\<close>

definition map_chars :: "(u8 \<Rightarrow> u8) \<Rightarrow> kstring \<Rightarrow> kerror + kstring" where
  "map_chars f s =
     (case s of
        None \<Rightarrow> Inr None
      | Some b \<Rightarrow> bindE (astrlen b) (\<lambda>n. Inr (Some (map f (take n b) @ drop n b))))"

definition to_upper :: "kstring \<Rightarrow> kerror + kstring" where
  "to_upper = map_chars (\<lambda>c. if 97 \<le> c \<and> c \<le> 122 then c - 32 else c)"

definition to_lower :: "kstring \<Rightarrow> kerror + kstring" where
  "to_lower = map_chars (\<lambda>c. if 65 \<le> c \<and> c \<le> 90 then c + 32 else c)"

definition str_clear :: "kstring \<Rightarrow> kstring" where
  "str_clear s = None"

definition str_at :: "kstring \<Rightarrow> u64 \<Rightarrow> kerror + u8" where
  "str_at s i = bindE (deref s) (\<lambda>b. aget b (uint i))"

definition str_front :: "kstring \<Rightarrow> kerror + u8" where
  "str_front s = bindE (deref s) (\<lambda>b. aget b 0)"

definition str_back :: "kstring \<Rightarrow> kerror + u8" where
  "str_back s = bindE (str_size s) (\<lambda>n. bindE (deref s) (\<lambda>b. aget b (uint (n - 1))))"

definition str_hash :: "kstring \<Rightarrow> kerror + u64" where
  "str_hash s =
     (case s of
        None \<Rightarrow> Inr 5
      | Some b \<Rightarrow>
          bindE (astrlen b) (\<lambda>n. Inr (foldl (\<lambda>ret c. ret + 19 * of_int (uint c)) 5 (take n b))))"

end
