(* ===== verification/KStringTheorems.thy ===== *)
theory KStringTheorems
  imports KString "HOL-Library.Sublist"
begin

text \<open>
  The string operations on the characters a string holds: \<open>holds_chars s xs\<close> says that the
  array of \<open>s\<close> contains the characters \<open>xs\<close> up to its first zero byte. Copying,
  concatenating and comparing have their list meaning, \<open>split\<close> is shown equal to a
  reference tokenizer, and \<open>remove\<close> to lose the last character.
\<close>

definition holds_chars :: "kstring \<Rightarrow> u8 list \<Rightarrow> bool" where
  "holds_chars s xs \<longleftrightarrow> 0 \<notin> set xs \<and> (\<exists>rest. s = Some (xs @ 0 # rest))"

lemma holds_charsE:
  assumes "holds_chars s xs"
  obtains rest where "s = Some (xs @ 0 # rest)" "0 \<notin> set xs"
  using assms by (auto simp: holds_chars_def)


subsection \<open>The C routines\<close>

lemma astrlen_chars: "0 \<notin> set xs \<Longrightarrow> astrlen (xs @ 0 # rest) = Inr (length xs)"
  by (induction xs) auto

lemma aset_append: "aset (ys @ z # zs) (int (length ys)) v = Inr (ys @ v # zs)"
  by simp

lemma aget_append: "aget (ys @ z # zs) (int (length ys)) = Inr z"
  by simp

lemma astrcpy_chars:
  assumes "0 \<notin> set xs" and "length zs = Suc (length xs)"
  shows "astrcpy (xs @ 0 # rest) (ys @ zs @ ws) (int (length ys)) = Inr (ys @ xs @ 0 # ws)"
  using assms
proof (induction xs arbitrary: ys zs)
  case Nil
  then obtain z where "zs = [z]" by (auto simp: length_Suc_conv)
  then show ?case using aset_append [of ys z ws 0] by simp
next
  case (Cons x xs)
  then obtain z zs' where zs: "zs = z # zs'" "length zs' = Suc (length xs)"
    by (auto simp: length_Suc_conv)
  have "astrcpy (xs @ 0 # rest) ((ys @ [x]) @ zs' @ ws) (int (length (ys @ [x]))) =
      Inr ((ys @ [x]) @ xs @ 0 # ws)"
    using Cons.IH [of zs' "ys @ [x]"] Cons.prems(1) zs(2) by simp
  then show ?case
    using Cons.prems(1) aset_append [of ys z "zs' @ ws" x] zs(1) by (simp add: add.commute)
qed

lemma astrncpy_chars:
  assumes "0 \<notin> set xs" and "n \<le> length xs" and "length zs = Suc n"
  shows "astrncpy (xs @ 0 # rest) (ys @ zs @ ws) (int (length ys)) n = Inr (ys @ take n xs @ 0 # ws)"
  using assms
proof (induction n arbitrary: xs ys zs)
  case 0
  then obtain z where "zs = [z]" by (auto simp: length_Suc_conv)
  then show ?case using aset_append [of ys z ws 0] by (cases xs) simp_all
next
  case (Suc n)
  then obtain x xs' z zs' where zs: "zs = z # zs'" "length zs' = Suc n" and xs: "xs = x # xs'"
    by (auto simp: length_Suc_conv Suc_le_length_iff)
  have "astrncpy (xs' @ 0 # rest) ((ys @ [x]) @ zs' @ ws) (int (length (ys @ [x]))) n =
      Inr ((ys @ [x]) @ take n xs' @ 0 # ws)"
    using Suc.IH [of xs' zs' "ys @ [x]"] Suc.prems xs zs(2) by simp
  then show ?case
    using Suc.prems(1) aset_append [of ys z "zs' @ ws" x] zs(1) xs by (simp add: add.commute)
qed

lemma astrcmp_chars:
  "0 \<notin> set xs \<Longrightarrow> 0 \<notin> set ys \<Longrightarrow>
   \<exists>d. astrcmp (xs @ 0 # r) (ys @ 0 # t) = Inr d \<and> (d = 0 \<longleftrightarrow> xs = ys)"
proof (induction xs arbitrary: ys)
  case Nil
  then show ?case by (cases ys) (auto simp: uint_0_iff)
next
  case (Cons x xs)
  then show ?case by (cases ys) (auto simp: uint_0_iff simp flip: word_uint_eq_iff)
qed

lemma uint_of_nat_small: "n < 2 ^ 64 \<Longrightarrow> uint (of_nat n :: u64) = int n"
  using unat_of_nat_small [of n] by (metis uint_nat)

lemma not_minus_one: "n < 2 ^ 64 - 1 \<Longrightarrow> (of_nat n :: u64) \<noteq> - 1"
proof
  assume n: "n < 2 ^ 64 - 1" and "(of_nat n :: u64) = - 1"
  then have "unat (of_nat n :: u64) = unat (- 1 :: u64)" by simp
  moreover have "unat (of_nat n :: u64) = n" using n by (intro unat_of_nat_small) simp
  ultimately show False using n by (simp add: unsigned_minus_1_eq_mask mask_eq_exp_minus_1)
qed

lemma new_chars_Suc: "n < 2 ^ 64 - 1 \<Longrightarrow> new_chars (of_nat n + 1) = replicate (Suc n) 0"
proof -
  assume "n < 2 ^ 64 - 1"
  then have "unat (of_nat (Suc n) :: u64) = Suc n" by (intro unat_of_nat_small) simp
  then show ?thesis by (simp add: new_chars_def add.commute)
qed


subsection \<open>Copying, comparing and concatenating\<close>

lemma str_size_chars: "holds_chars s xs \<Longrightarrow> str_size s = Inr (of_nat (length xs))"
  by (auto elim!: holds_charsE simp: str_size_def astrlen_chars)

lemma str_empty_chars:
  assumes "holds_chars s xs" and "length xs < 2 ^ 64"
  shows "str_empty s = Inr (xs = [])"
  using str_size_chars [OF assms(1)] assms(2) unat_of_nat_small [OF assms(2)]
  by (auto simp: str_empty_def)

lemma str_copy_chars:
  assumes s: "holds_chars s xs" and len: "length xs < 2 ^ 64 - 1"
  shows "\<exists>t. str_copy s = Inr t \<and> holds_chars t xs"
proof -
  obtain rest where r: "s = Some (xs @ 0 # rest)" "0 \<notin> set xs" using s by (rule holds_charsE)
  have "astrcpy (xs @ 0 # rest) (replicate (Suc (length xs)) 0) 0 = Inr (xs @ [0])"
    using astrcpy_chars [OF r(2), of "replicate (Suc (length xs)) 0" rest "[]" "[]"] by simp
  then show ?thesis
    using r str_size_chars [OF s] len by (simp add: str_copy_def deref_def new_chars_Suc holds_chars_def)
qed

lemma str_plus_chars:
  assumes s: "holds_chars s xs" and r: "holds_chars r ys" and len: "length xs + length ys < 2 ^ 64 - 1"
  shows "\<exists>t. str_plus s r = Inr t \<and> holds_chars t (xs @ ys)"
proof (cases "ys = []")
  case True
  then show ?thesis
    using str_empty_chars [OF r] str_copy_chars [OF s] len by (simp add: str_plus_def)
next
  case False
  obtain a where a: "s = Some (xs @ 0 # a)" "0 \<notin> set xs" using s by (rule holds_charsE)
  obtain b where b: "r = Some (ys @ 0 # b)" "0 \<notin> set ys" using r by (rule holds_charsE)
  define n where "n = length xs + length ys"
  have new: "new_chars (of_nat (length xs) + of_nat (length ys) + 1) = replicate (Suc n) 0"
    using new_chars_Suc [of n] len by (simp add: n_def)
  have "replicate (Suc n) (0 :: u8) = replicate (Suc (length xs)) 0 @ replicate (length ys) 0"
    by (simp add: n_def replicate_add)
  then have 1: "astrcpy (xs @ 0 # a) (replicate (Suc n) 0) 0 = Inr (xs @ 0 # replicate (length ys) 0)"
    using astrcpy_chars [OF a(2), of "replicate (Suc (length xs)) 0" a "[]" "replicate (length ys) 0"]
    by simp
  have 2: "astrcat (xs @ 0 # replicate (length ys) 0) (ys @ 0 # b) = Inr (xs @ ys @ [0])"
    using astrlen_chars [OF a(2)] astrcpy_chars [OF b(2), of "0 # replicate (length ys) 0" b xs "[]"]
    by (simp add: astrcat_def)
  show ?thesis
    using False str_empty_chars [OF r] str_size_chars [OF s] str_size_chars [OF r] len new 1 2 a b
    by (simp add: str_plus_def deref_def holds_chars_def)
qed

lemma str_eq_chars:
  assumes "holds_chars s xs" and "holds_chars r ys"
  shows "str_eq s r = Inr (xs = ys)"
proof -
  obtain a where a: "s = Some (xs @ 0 # a)" "0 \<notin> set xs" using assms(1) by (rule holds_charsE)
  obtain b where b: "r = Some (ys @ 0 # b)" "0 \<notin> set ys" using assms(2) by (rule holds_charsE)
  show ?thesis
    using astrcmp_chars [OF a(2) b(2), of a b] a(1) b(1) by (auto simp: str_eq_def deref_def)
qed


subsection \<open>Substrings and splitting\<close>

lemma substr_chars:
  assumes s: "holds_chars s xs" and b: "b \<le> length xs" and l: "l \<noteq> 0" "b + l \<le> length xs"
    and len: "length xs < 2 ^ 64 - 1"
  shows "\<exists>t. substr s (of_nat b) (of_nat l) = Inr t \<and> holds_chars t (take l (drop b xs))"
proof -
  obtain rest where r: "s = Some (xs @ 0 # rest)" "0 \<notin> set xs" using s by (rule holds_charsE)
  have n: "unat (of_nat b :: u64) = b" "unat (of_nat l :: u64) = l"
      "unat (of_nat (b + l) :: u64) = b + l" "unat (of_nat (length xs) :: u64) = length xs"
    by (rule unat_of_nat_small, use assms in simp)+
  have "(of_nat l :: u64) \<noteq> npos" using not_minus_one [of l] l len by (simp add: npos_def)
  moreover have "\<not> (of_nat b + of_nat l :: u64) > of_nat (length xs)"
    using n(3,4) l(2) by (simp add: word_less_nat_alt)
  moreover have "drop b (xs @ 0 # rest) = drop b xs @ 0 # rest" using b by simp
  moreover have "0 \<notin> set (drop b xs)" using r(2) by (auto dest: in_set_dropD)
  moreover have "astrncpy (drop b xs @ 0 # rest) (replicate (Suc l) 0) 0 l = Inr (take l (drop b xs) @ [0])"
    using astrncpy_chars [of "drop b xs" l "replicate (Suc l) 0" rest "[]" "[]"] calculation(4) l(2)
    by simp
  moreover have "xs \<noteq> []" using l by auto
  ultimately show ?thesis
    using r str_empty_chars [OF s] str_size_chars [OF s] len l n(1,2) new_chars_Suc [of l]
    by (auto simp: substr_def deref_def holds_chars_def dest: in_set_takeD in_set_dropD)
qed

text \<open>The reference: the maximal non-empty runs without the delimiter, from left to right.\<close>

function tokens :: "'a \<Rightarrow> 'a list \<Rightarrow> 'a list list" where
  "tokens d [] = []"
| "tokens d (x # xs) =
     (if x = d then tokens d xs
      else (x # takeWhile (\<lambda>y. y \<noteq> d) xs) # tokens d (dropWhile (\<lambda>y. y \<noteq> d) xs))"
  by pat_completeness auto
termination by (relation "measure (\<lambda>(d, xs). length xs)") (auto simp: le_imp_less_Suc length_dropWhile_le)

lemma tokens_last: "d \<notin> set cur \<Longrightarrow> tokens d cur = (if cur = [] then [] else [cur])"
proof (cases cur)
  case (Cons x xs)
  moreover assume "d \<notin> set cur"
  ultimately have "takeWhile (\<lambda>y. y \<noteq> d) xs = xs" "dropWhile (\<lambda>y. y \<noteq> d) xs = []" "x \<noteq> d"
    by (auto simp: takeWhile_eq_all_conv dropWhile_eq_Nil_conv)
  then show ?thesis using Cons by (simp del: dropWhile_eq_Nil_conv takeWhile_eq_all_conv)
qed simp

lemma tokens_cut:
  "d \<notin> set cur \<Longrightarrow> tokens d (cur @ d # rest) = (if cur = [] then [] else [cur]) @ tokens d rest"
proof (cases cur)
  case (Cons x xs)
  moreover assume "d \<notin> set cur"
  ultimately have "takeWhile (\<lambda>y. y \<noteq> d) (xs @ d # rest) = xs"
      "dropWhile (\<lambda>y. y \<noteq> d) (xs @ d # rest) = d # rest" "x \<noteq> d"
    by (auto simp: takeWhile_append dropWhile_append)
  then show ?thesis using Cons by simp
qed simp

lemma push_token:
  assumes s: "holds_chars s (pre @ cur @ rest)" and len: "length (pre @ cur @ rest) < 2 ^ 64 - 1"
    and ts: "list_all2 holds_chars ts us"
  shows "\<exists>ts1. (if cur = [] then Inr ts else
            bindE (substr s (of_nat (length pre)) (of_nat (length cur))) (\<lambda>t. Inr (ts @ [t]))) = Inr ts1 \<and>
           list_all2 holds_chars ts1 (us @ (if cur = [] then [] else [cur])) \<and> length ts1 \<le> Suc (length ts)"
proof (cases "cur = []")
  case False
  then obtain t where "substr s (of_nat (length pre)) (of_nat (length cur)) = Inr t" "holds_chars t cur"
    using substr_chars [OF s, of "length pre" "length cur"] len by auto
  then show ?thesis using False ts by (auto intro!: list_all2_appendI)
qed (use ts in auto)

text \<open>
  One round of the loop: the characters read so far are \<open>pre @ cur\<close>, \<open>cur\<close> the run that is
  still open.
\<close>

lemma split_loop_tokens:
  assumes s: "holds_chars s (pre @ cur @ rest)" and cur: "d \<notin> set cur"
    and len: "length (pre @ cur @ rest) < 2 ^ 64 - 1" and "list_all2 holds_chars ts us"
    and few: "length ts \<le> length pre"
  shows "\<exists>b ts' us'. split_loop (length rest) s d 0 (of_nat (length (pre @ cur))) (of_nat (length pre)) ts =
             Inr (of_nat b, ts') \<and> list_all2 holds_chars ts' us' \<and> b \<le> length (pre @ cur @ rest) \<and>
           us @ tokens d (cur @ rest) = us' @ tokens d (drop b (pre @ cur @ rest)) \<and>
           d \<notin> set (drop b (pre @ cur @ rest))"
  using assms
proof (induction rest arbitrary: pre cur ts us)
  case Nil
  show ?case
    by (rule exI [of _ "length pre"], rule exI [of _ ts], rule exI [of _ us]) (use Nil in simp)
next
  case (Cons c rest)
  let ?i = "length (pre @ cur)"
  have i: "unat (of_nat ?i :: u64) = ?i" by (rule unat_of_nat_small) (use Cons.prems(3) in simp)
  obtain z where z: "deref s = Inr ((pre @ cur @ c # rest) @ 0 # z)"
    using Cons.prems(1) by (auto elim!: holds_charsE simp: deref_def)
  have room: "(of_nat (length ts) :: u64) \<noteq> 0 - 1"
    using not_minus_one [of "length ts"] Cons.prems(3,5) by simp
  have get: "aget ((pre @ cur @ c # rest) @ 0 # z) (uint (of_nat ?i :: u64)) = Inr c"
  proof -
    have "uint (of_nat ?i :: u64) = int ?i" using i by (metis uint_nat)
    then show ?thesis using aget_append [of "pre @ cur" c "rest @ 0 # z"] by simp
  qed
  show ?case
  proof (cases "c = d")
    case False
    then have "split_loop (length (c # rest)) s d 0 (of_nat ?i) (of_nat (length pre)) ts =
        split_loop (length rest) s d 0 (of_nat (length (pre @ cur @ [c]))) (of_nat (length pre)) ts"
      using room get z by (simp add: add.commute)
    then show ?thesis
      using Cons.IH [of pre "cur @ [c]" ts us] Cons.prems False by simp
  next
    case True
    obtain ts1 us1 where t: "(if cur = [] then Inr ts else
          bindE (substr s (of_nat (length pre)) (of_nat (length cur))) (\<lambda>t. Inr (ts @ [t]))) = Inr ts1"
        "list_all2 holds_chars ts1 us1" "us1 = us @ (if cur = [] then [] else [cur])"
        "length ts1 \<le> length (pre @ cur @ [c])"
      using push_token [OF Cons.prems(1,3,4)] Cons.prems(5) by auto
    have "(of_nat (length cur) :: u64) = 0 \<longleftrightarrow> cur = []"
      using unat_of_nat_small [of "length cur"] Cons.prems(3) by auto
    then have "split_loop (length (c # rest)) s d 0 (of_nat ?i) (of_nat (length pre)) ts =
        split_loop (length rest) s d 0 (of_nat (length ((pre @ cur @ [c]) @ []))) (of_nat (length (pre @ cur @ [c]))) ts1"
      using True room get z t(1) by (cases "cur = []") (simp_all add: add.commute Let_def)
    then show ?thesis
      using Cons.IH [of "pre @ cur @ [c]" "[]" ts1 us1] Cons.prems t True tokens_cut [of d cur rest] by simp
  qed
qed

text \<open>C32: Splitting a string at a delimiter without a limit returns exactly the maximal non-empty
  runs of characters between delimiters, in order, whatever the number and place of the
  delimiters.\<close>

theorem split_tokens:
  assumes s: "holds_chars s xs" and len: "length xs < 2 ^ 64 - 1"
  shows "\<exists>ts. split s d 0 = Inr ts \<and> list_all2 holds_chars ts (tokens d xs)"
proof (cases "xs = []")
  case True
  then show ?thesis using str_empty_chars [OF s] len by (simp add: split_def)
next
  case False
  obtain b ts us where loop: "split_loop (length xs) s d 0 0 0 [] = Inr (of_nat b, ts)"
      "list_all2 holds_chars ts us" "b \<le> length xs" "tokens d xs = us @ tokens d (drop b xs)"
      "d \<notin> set (drop b xs)"
    using split_loop_tokens [of s "[]" "[]" xs d "[]" "[]"] s len by auto
  have n: "unat (of_nat (length xs) :: u64) = length xs" by (rule unat_of_nat_small) (use len in simp)
  have lb: "length (take b xs) = b" using loop(3) by simp
  have tail: "(of_nat (length xs) - of_nat b :: u64) = of_nat (length (drop b xs))"
    using loop(3) by (simp add: of_nat_diff)
  moreover have "(of_nat (length (drop b xs)) :: u64) = 0 \<longleftrightarrow> drop b xs = []"
    using unat_of_nat_small [of "length (drop b xs)"] len by auto
  moreover obtain ts1 where "(if drop b xs = [] then Inr ts else
        bindE (substr s (of_nat b) (of_nat (length (drop b xs)))) (\<lambda>t. Inr (ts @ [t]))) = Inr ts1"
      "list_all2 holds_chars ts1 (us @ (if drop b xs = [] then [] else [drop b xs]))"
    using push_token [of s "take b xs" "drop b xs" "[]" ts us] s len loop(2)
    unfolding lb append_Nil2 append_take_drop_id by blast
  ultimately show ?thesis
    using False str_empty_chars [OF s] str_size_chars [OF s] len loop n tokens_last [of d "drop b xs"]
    by (auto simp: split_def split: if_splits)
qed

theorem split_tokens_witness:
  "\<exists>ts. split (Some [47, 117, 47, 47, 118, 119, 0]) 47 0 = Inr ts \<and>
     list_all2 holds_chars ts [[117], [118, 119]]"
  using split_tokens [of "Some [47, 117, 47, 47, 118, 119, 0]" "[47, 117, 47, 47, 118, 119]" 47]
  by (simp add: holds_chars_def)


subsection \<open>Removing a character\<close>

lemma str_remove_loop_chars:
  assumes "0 \<notin> set (pre @ mid @ rest)" and "length (pre @ mid @ rest) < 2 ^ 64 - 1"
  shows "\<exists>mid'. str_remove_loop v (pre @ mid @ rest @ 0 # z) (of_nat (length pre))
             (of_nat (length (pre @ mid))) =
           Some (Inr ((pre @ filter (\<lambda>x. x \<noteq> v) rest) @ mid' @ 0 # z,
             of_nat (length (pre @ filter (\<lambda>x. x \<noteq> v) rest)), of_nat (length (pre @ mid @ rest)))) \<and>
           0 \<notin> set mid' \<and> length (pre @ filter (\<lambda>x. x \<noteq> v) rest) + length mid' = length (pre @ mid @ rest)"
  using assms
proof (induction rest arbitrary: pre mid)
  case Nil
  then have "astrlen (pre @ mid @ 0 # z) = Inr (length (pre @ mid))"
    using astrlen_chars [of "pre @ mid" z] by simp
  then show ?case using Nil by (subst str_remove_loop.simps) auto
next
  case (Cons c rest)
  let ?b = "pre @ mid @ (c # rest) @ 0 # z"
  have len: "astrlen ?b = Inr (length (pre @ mid @ c # rest))"
    using astrlen_chars [of "pre @ mid @ c # rest" z] Cons.prems(1) by simp
  have u: "uint (of_nat (length (pre @ mid)) :: u64) = int (length (pre @ mid))"
      "uint (of_nat (length pre) :: u64) = int (length pre)"
      "unat (of_nat (length (pre @ mid)) :: u64) = length (pre @ mid)"
      "unat (of_nat (length (pre @ mid @ c # rest)) :: u64) = length (pre @ mid @ c # rest)"
    by (rule uint_of_nat_small unat_of_nat_small, use Cons.prems(2) in simp)+
  have lt: "(of_nat (length (pre @ mid)) :: u64) < of_nat (length (pre @ mid @ c # rest))"
    unfolding word_less_nat_alt u(3,4) by simp
  have get: "aget ?b (uint (of_nat (length (pre @ mid)) :: u64)) = Inr c"
    unfolding u(1) using aget_append [of "pre @ mid" c "rest @ 0 # z"] by simp
  show ?case
  proof (cases "c = v")
    case True
    then have "str_remove_loop v ?b (of_nat (length pre)) (of_nat (length (pre @ mid))) =
        str_remove_loop v (pre @ (mid @ [c]) @ rest @ 0 # z) (of_nat (length pre))
          (of_nat (length (pre @ mid @ [c])))"
      using len lt get by (subst str_remove_loop.simps) (simp add: add.commute)
    then show ?thesis using Cons.IH [of pre "mid @ [c]"] Cons.prems True by simp
  next
    case False
    obtain y mid2 where m: "mid @ [c] = y # mid2" by (cases mid) auto
    have "aset ?b (uint (of_nat (length pre) :: u64)) c = Inr (pre @ c # mid2 @ rest @ 0 # z)"
    proof -
      have b: "?b = pre @ y # mid2 @ rest @ 0 # z"
        using arg_cong [OF m, of "\<lambda>l. pre @ l @ rest @ 0 # z"] by simp
      show ?thesis unfolding u(2) b by (rule aset_append)
    qed
    then have "str_remove_loop v ?b (of_nat (length pre)) (of_nat (length (pre @ mid))) =
        str_remove_loop v ((pre @ [c]) @ mid2 @ rest @ 0 # z) (of_nat (length (pre @ [c])))
          (of_nat (length ((pre @ [c]) @ mid2)))"
      using len lt get False arg_cong [OF m, of length]
      by (subst str_remove_loop.simps) (simp add: add.commute)
    moreover have "set mid2 \<subseteq> set (mid @ [c])" unfolding m by auto
    ultimately show ?thesis
      using Cons.IH [of "pre @ [c]" mid2] Cons.prems False arg_cong [OF m, of length] by auto
  qed
qed

lemma str_remove_chars:
  assumes s: "holds_chars s xs" and len: "length xs < 2 ^ 64 - 1"
  shows "\<exists>t. str_remove s v = Inr t \<and> holds_chars t (butlast (filter (\<lambda>x. x \<noteq> v) xs))"
proof -
  obtain z where z: "s = Some (xs @ 0 # z)" "0 \<notin> set xs" using s by (rule holds_charsE)
  define ys where "ys = filter (\<lambda>x. x \<noteq> v) xs"
  obtain mid where m: "str_remove_loop v (xs @ 0 # z) 0 0 =
        Some (Inr (ys @ mid @ 0 # z, of_nat (length ys), of_nat (length xs)))"
      "0 \<notin> set mid" "length ys + length mid = length xs"
    using str_remove_loop_chars [of "[]" "[]" xs v z] z len by (auto simp: ys_def)
  have zero: "0 \<notin> set ys" using z(2) by (auto simp: ys_def)
  have n: "astrlen (ys @ mid @ 0 # z) = Inr (length xs)"
    using astrlen_chars [of "ys @ mid" z] zero m(2,3) by simp
  have "unat (of_nat (length ys) :: u64) = length ys" by (rule unat_of_nat_small) (use len m(3) in simp)
  then have pos: "(0 < (of_nat (length ys) :: u64)) = (ys \<noteq> [])" by (simp add: word_less_nat_alt)
  have removed: "str_remove s v =
      (if ys \<noteq> [] then bindE (aset (ys @ mid @ 0 # z) (uint (of_nat (length ys) - 1 :: u64)) 0) (\<lambda>b. Inr (Some b))
       else bindE (aset (ys @ mid @ 0 # z) 0 0) (\<lambda>b. Inr (Some b)))"
    using z(1) m(1) n pos by (simp add: str_remove_def)
  show ?thesis
  proof (cases ys rule: rev_cases)
    case Nil
    then have "str_remove s v = Inr (Some ((mid @ 0 # z)[0 := 0]))" using removed by simp
    then show ?thesis using Nil ys_def by (cases mid) (auto simp: holds_chars_def)
  next
    case (snoc ys' y)
    then have "(of_nat (length ys) - 1 :: u64) = of_nat (length ys')" by simp
    moreover have "uint (of_nat (length ys') :: u64) = int (length ys')"
      by (rule uint_of_nat_small) (use len m(3) snoc in simp)
    ultimately have "str_remove s v = Inr (Some (ys' @ 0 # mid @ 0 # z))"
      using removed snoc aset_append [of ys' y "mid @ 0 # z" 0] by simp
    then show ?thesis using snoc zero ys_def by (auto simp: holds_chars_def)
  qed
qed

text \<open>C33: Copying, concatenating and comparing strings have their list meaning. \<open>remove\<close> does
  not: it drops the characters equal to its argument and, in addition, the last of the
  characters that remain, even where there was nothing to remove. A default-constructed string
  cannot be copied, compared or appended to, although it counts as empty.\<close>

theorem string_values:
  assumes "holds_chars s xs" and "holds_chars r ys" and "length xs + length ys < 2 ^ 64 - 1"
  shows "(\<exists>t. str_copy s = Inr t \<and> holds_chars t xs) \<and>
     (\<exists>t. str_append s r = Inr t \<and> holds_chars t (xs @ ys)) \<and> str_eq s r = Inr (xs = ys) \<and>
     (\<exists>t. str_remove s v = Inr t \<and> holds_chars t (butlast (filter (\<lambda>x. x \<noteq> v) xs))) \<and>
     str_empty None = Inr True \<and> str_copy None = Inl NullDeref \<and> str_append None r = Inl NullDeref \<and>
     str_eq None r = Inl NullDeref"
proof -
  have len: "length xs < 2 ^ 64 - 1" "length ys < 2 ^ 64" using assms(3) by simp_all
  have "\<exists>t. str_append s r = Inr t \<and> holds_chars t (xs @ ys)"
    using str_plus_chars [OF assms] by (auto simp: str_append_def str_move_def)
  moreover have none: "str_copy None = Inl NullDeref" by (simp add: str_copy_def str_size_def deref_def)
  moreover have "str_append None r = Inl NullDeref"
    using str_empty_chars [OF assms(2) len(2)] str_size_chars [OF assms(2)] none
    by (simp add: str_append_def str_plus_def str_size_def deref_def)
  ultimately show ?thesis
    using str_copy_chars [OF assms(1) len(1)] str_eq_chars [OF assms(1,2)]
      str_remove_chars [OF assms(1) len(1), of v]
    by (simp add: str_empty_def str_size_def str_eq_def deref_def)
qed

theorem string_values_witness:
  "(\<exists>t. str_remove (Some [97, 98, 0]) 32 = Inr t \<and> holds_chars t [97]) \<and>
   (\<exists>t. str_append (Some [97, 98, 0]) (Some [99, 0]) = Inr t \<and> holds_chars t [97, 98, 99])"
  using string_values [of "Some [97, 98, 0]" "[97, 98]" "Some [99, 0]" "[99]" 32]
  by (simp add: holds_chars_def)

end
