(* ===== verification/Vnode.thy ===== *)
theory Vnode
  imports KStringTheorems
begin

text \<open>
  The interface between the virtual file system and the file systems: file modes
  (\<open>include/fs/Stat.h\<close>), device numbers (\<open>include/dev/Device.h\<close>), the class \<open>Vnode\<close>
  (\<open>include/fs/Vnode.h\<close>), opened files (\<open>include/fs/File.h\<close>) and the state of the virtual
  file system (\<open>include/fs/VirtualFileSystem.h\<close>).

  A string is the list of its characters; \<open>KStringTheorems\<close> relates the string class to these
  lists. The type \<open>'v\<close> is that of a \<open>SharedPtr<Vnode>\<close>, \<open>'s\<close> the state the file systems keep
  behind it. The virtual functions of \<open>Vnode\<close>, the constructors of the file systems that
  can be mounted and what releases one of them are the fields of a record \<open>vtable\<close>; they may
  change the whole state, since the file systems call back into the virtual file system.
\<close>

type_synonym name = "u8 list"


subsection \<open>Modes and device numbers\<close>

definition S_IFMT :: u32 where "S_IFMT = 0xF000"
definition S_IFDIR :: u32 where "S_IFDIR = 0x4000"
definition S_IFCHR :: u32 where "S_IFCHR = 0x2000"
definition S_IFBLK :: u32 where "S_IFBLK = 0x6000"
definition S_IFREG :: u32 where "S_IFREG = 0x8000"
definition S_IFIFO :: u32 where "S_IFIFO = 0x1000"
definition S_IFLNK :: u32 where "S_IFLNK = 0xA000"
definition S_IFSOCK :: u32 where "S_IFSOCK = 0xC000"

definition O_CREAT :: u32 where "O_CREAT = 8"

definition is_directory :: "u32 \<Rightarrow> bool" where
  "is_directory mode = (mode AND S_IFMT = S_IFDIR)"

definition is_regular_file :: "u32 \<Rightarrow> bool" where
  "is_regular_file mode = (mode AND S_IFMT = S_IFREG)"

definition is_character_device :: "u32 \<Rightarrow> bool" where
  "is_character_device mode = (mode AND S_IFMT = S_IFCHR)"

definition is_block_device :: "u32 \<Rightarrow> bool" where
  "is_block_device mode = (mode AND S_IFMT = S_IFBLK)"

definition is_fifo :: "u32 \<Rightarrow> bool" where
  "is_fifo mode = (mode AND S_IFMT = S_IFIFO)"

definition is_symlink :: "u32 \<Rightarrow> bool" where
  "is_symlink mode = (mode AND S_IFMT = S_IFLNK)"

definition is_socket :: "u32 \<Rightarrow> bool" where
  "is_socket mode = (mode AND S_IFMT = S_IFSOCK)"

definition dev_major :: "u32 \<Rightarrow> u32" where
  "dev_major dev = drop_bit 20 dev"

definition dev_minor :: "u32 \<Rightarrow> u32" where
  "dev_minor dev = dev AND (2 ^ 20 - 1)"

definition dev_encode :: "u32 \<Rightarrow> u32 \<Rightarrow> u32" where
  "dev_encode major minor = push_bit 20 major OR minor"

lemmas mode_defs = S_IFMT_def S_IFDIR_def S_IFCHR_def S_IFBLK_def S_IFREG_def S_IFIFO_def
  S_IFLNK_def S_IFSOCK_def


subsection \<open>The state of the virtual file system\<close>

text \<open>
  A file system is represented by the root vnode that \<open>get_root_vnode\<close> returns. \<open>File\<close> objects
  live in a heap by address; \<open>opened_files\<close> is the system-wide table of them. A device is its
  name. The characters waiting at the serial port and those written to it stand for the
  driver of the console.
\<close>

record 'v mount_entry =
  guest_fs :: 'v
  guest_vnode :: 'v
  host_vnode :: 'v

record 'v file_obj =
  file_vnode :: "'v option"
  file_pos :: u64
  file_options :: u32

record ('s, 'v) vfs =
  fs_state :: 's
  next_inode_idx :: u64
  next_dev_major :: u64
  mounts :: "'v mount_entry list"
  files :: "nat \<Rightarrow> 'v file_obj option"
  next_file :: nat
  opened_files :: "nat list"
  registered_devices :: "(u32 \<times> name) list"
  uart_in :: "u8 list"
  uart_out :: "u8 list"

record ('s, 'v) vtable =
  vt_create_child :: "'v \<Rightarrow> name \<Rightarrow> u8 list option \<Rightarrow> u64 \<Rightarrow> u32 \<Rightarrow> u32 \<Rightarrow> u32 \<Rightarrow>
    ('s, 'v) vfs \<Rightarrow> kerror + ('s, 'v) vfs \<times> 'v option"
  vt_get_child :: "'v \<Rightarrow> name \<Rightarrow> ('s, 'v) vfs \<Rightarrow> kerror + ('s, 'v) vfs \<times> 'v option"
  vt_get_ith_child :: "'v \<Rightarrow> u64 \<Rightarrow> ('s, 'v) vfs \<Rightarrow> kerror + ('s, 'v) vfs \<times> 'v option"
  vt_get_children_count :: "'v \<Rightarrow> ('s, 'v) vfs \<Rightarrow> kerror + ('s, 'v) vfs \<times> u64"
  vt_get_name :: "'v \<Rightarrow> ('s, 'v) vfs \<Rightarrow> kerror + name"
  vt_get_content :: "'v \<Rightarrow> ('s, 'v) vfs \<Rightarrow> kerror + ('s, 'v) vfs \<times> u8 list option"
  vt_set_content :: "'v \<Rightarrow> u8 list \<Rightarrow> u64 \<Rightarrow> ('s, 'v) vfs \<Rightarrow> kerror + ('s, 'v) vfs"
  vt_hash_code :: "'v \<Rightarrow> ('s, 'v) vfs \<Rightarrow> u64"
  vt_get_mode :: "'v \<Rightarrow> ('s, 'v) vfs \<Rightarrow> u32"
  vt_get_size :: "'v \<Rightarrow> ('s, 'v) vfs \<Rightarrow> u64"
  vt_get_dev :: "'v \<Rightarrow> ('s, 'v) vfs \<Rightarrow> u32"
  vt_set_dev :: "'v \<Rightarrow> u32 \<Rightarrow> ('s, 'v) vfs \<Rightarrow> ('s, 'v) vfs"
  vt_new_tmpfs :: "('s, 'v) vfs \<Rightarrow> ('s, 'v) vfs \<times> 'v"
  vt_new_procfs :: "('s, 'v) vfs \<Rightarrow> ('s, 'v) vfs \<times> 'v"
  vt_release_fs :: "'v \<Rightarrow> ('s, 'v) vfs \<Rightarrow> kerror + ('s, 'v) vfs"
  vt_read_char :: "name \<Rightarrow> ('s, 'v) vfs \<Rightarrow> kerror + ('s, 'v) vfs \<times> u8"
  vt_write_char :: "name \<Rightarrow> u8 \<Rightarrow> ('s, 'v) vfs \<Rightarrow> kerror + ('s, 'v) vfs"

definition get_next_inode_idx :: "('s, 'v) vfs \<Rightarrow> ('s, 'v) vfs \<times> u64" where
  "get_next_inode_idx w = (w\<lparr>next_inode_idx := next_inode_idx w + 1\<rparr>, next_inode_idx w)"

text \<open>
  \<open>*(_mounts.front()->guest_fs)\<close>: the front of an empty list is the sentinel, whose pointer is
  null.
\<close>

definition get_rootfs :: "('s, 'v) vfs \<Rightarrow> kerror + 'v" where
  "get_rootfs w = (case mounts w of [] \<Rightarrow> Inl NullDeref | m # ms \<Rightarrow> Inr (guest_fs m))"

definition get_host_vnode :: "('s, 'v) vfs \<Rightarrow> 'v \<Rightarrow> 'v option" where
  "get_host_vnode w guest = map_option host_vnode (find (\<lambda>m. guest_vnode m = guest) (mounts w))"


subsection \<open>The console\<close>

text \<open>
  \<open>Console::read\<close> edits a line: a delete character takes back the last character and rubs it
  out on the screen, a newline ends the line. The buffer is what has been stored so far. A
  read with no character waiting blocks; the loop then never ends.
\<close>

primrec console_read_loop ::
  "u8 list \<Rightarrow> u64 \<Rightarrow> u64 \<Rightarrow> u8 list \<Rightarrow> u8 list \<Rightarrow>
    kerror + u8 list \<times> u64 \<times> u8 list \<times> u8 list" where
  "console_read_loop [] sz i buf out =
     (if i < sz then Inl Diverges else Inr (buf, sz, [], out))"
| "console_read_loop (c # input) sz i buf out =
     (if \<not> i < sz then Inr (buf, sz, c # input, out)
      else if c = 0x7f then
        (if i > 0 then
           bindE (aset buf (uint (i - 1)) 0) (\<lambda>buf.
           console_read_loop input sz (i - 1) buf (out @ [8, 32, 8]))
         else console_read_loop input sz i buf out)
      else if c = 10 then Inr (buf, i, input, out)
      else bindE (aset buf (uint i) c) (\<lambda>buf. console_read_loop input sz (i + 1) buf out))"

definition console_read :: "u8 list \<Rightarrow> u64 \<Rightarrow> ('s, 'v) vfs \<Rightarrow> kerror + ('s, 'v) vfs \<times> u8 list \<times> u64" where
  "console_read buf sz w =
     bindE (console_read_loop (uart_in w) sz 0 buf (uart_out w)) (\<lambda>(buf, n, input, out).
     Inr (w\<lparr>uart_in := input, uart_out := out\<rparr>, buf, n))"

definition console_write :: "u8 list \<Rightarrow> ('s, 'v) vfs \<Rightarrow> ('s, 'v) vfs" where
  "console_write buf w = w\<lparr>uart_out := uart_out w @ buf\<rparr>"

end
