(* ===== verification/VFS.thy ===== *)
theory VFS
  imports Vnode
begin

text \<open>
  The virtual file system (\<open>fs/VirtualFileSystem.cc\<close>): path resolution, the table of opened
  files, mounts and device nodes. Every operation takes the virtual functions \<open>vt\<close> of the
  vnodes, and those that resolve paths also the working directory \<open>cwd\<close> of the current task.
  The big kernel lock every operation holds makes each of them one step.
\<close>


subsection \<open>Resolving a path\<close>

definition get_mounted_vnode_or_host_vnode ::
  "('s, 'v) vtable \<Rightarrow> 'v option \<Rightarrow> ('s, 'v) vfs \<Rightarrow> 'v option" where
  "get_mounted_vnode_or_host_vnode vt vnode w =
     (case vnode of
        None \<Rightarrow> None
      | Some v \<Rightarrow>
          (case find (\<lambda>m. vt_hash_code vt (host_vnode m) w = vt_hash_code vt v w) (mounts w) of
             Some m \<Rightarrow> Some (guest_vnode m)
           | None \<Rightarrow> Some v))"

text \<open>The loop over the components; \<open>parent\<close> is \<open>*out_parent\<close>, set in the last round.\<close>

primrec resolve_loop ::
  "('s, 'v) vtable \<Rightarrow> name list \<Rightarrow> 'v \<Rightarrow> 'v option \<Rightarrow> ('s, 'v) vfs \<Rightarrow>
    kerror + ('s, 'v) vfs \<times> 'v option \<times> 'v option" where
  "resolve_loop vt [] vnode parent w = Inr (w, Some vnode, parent)"
| "resolve_loop vt (c # components) vnode parent w =
     (let parent = (if components = [] then Some vnode else parent) in
      bindE (vt_get_child vt vnode c w) (\<lambda>(w, child).
      case get_mounted_vnode_or_host_vnode vt child w of
        None \<Rightarrow> Inr (w, None, parent)
      | Some child \<Rightarrow> resolve_loop vt components child parent w))"

record 'v resolved =
  r_target :: "'v option"
  r_parent :: "'v option"
  r_basename :: name

definition resolve_path ::
  "('s, 'v) vtable \<Rightarrow> 'v \<Rightarrow> name \<Rightarrow> ('s, 'v) vfs \<Rightarrow> kerror + ('s, 'v) vfs \<times> 'v resolved" where
  "resolve_path vt cwd pathname w =
     (if pathname = [46] then Inr (w, \<lparr>r_target = Some cwd, r_parent = None, r_basename = []\<rparr>)
      else
        (let components = tokens 47 pathname in
         if components = [] then
           bindE (get_rootfs w) (\<lambda>root.
           Inr (w, \<lparr>r_target = Some root, r_parent = None, r_basename = []\<rparr>))
         else
           bindE (if hd pathname = 47 then get_rootfs w else Inr cwd) (\<lambda>root_vnode.
           if length components = 1 then
             bindE (vt_get_child vt root_vnode (hd components) w) (\<lambda>(w, child).
             Inr (w, \<lparr>r_target = get_mounted_vnode_or_host_vnode vt child w,
                      r_parent = Some root_vnode, r_basename = hd components\<rparr>))
           else
             bindE (resolve_loop vt components root_vnode None w) (\<lambda>(w, vnode, parent).
             Inr (w, \<lparr>r_target = vnode, r_parent = parent, r_basename = last components\<rparr>)))))"


subsection \<open>Creating, opening and closing\<close>

definition create ::
  "('s, 'v) vtable \<Rightarrow> 'v \<Rightarrow> name \<Rightarrow> u8 list option \<Rightarrow> u64 \<Rightarrow> u32 \<Rightarrow> ('s, 'v) vfs \<Rightarrow>
    kerror + ('s, 'v) vfs \<times> 'v option" where
  "create vt cwd pathname content sz mode w =
     (if pathname = [46] \<or> pathname = [46, 46] then Inr (w, None)
      else
        bindE (resolve_path vt cwd pathname w) (\<lambda>(w, r).
        if r_target r \<noteq> None then Inr (w, None)
        else case r_parent r of
          None \<Rightarrow> Inr (w, None)
        | Some parent \<Rightarrow> vt_create_child vt parent (r_basename r) content sz mode 0 0 w))"

definition new_file :: "'v option \<Rightarrow> u32 \<Rightarrow> ('s, 'v) vfs \<Rightarrow> ('s, 'v) vfs \<times> nat" where
  "new_file target options w =
     (w\<lparr>files := (files w)(next_file w \<mapsto>
          \<lparr>file_vnode = target, file_pos = 0, file_options = options\<rparr>),
        next_file := Suc (next_file w), opened_files := opened_files w @ [next_file w]\<rparr>, next_file w)"

definition vnode_of_file :: "('s, 'v) vfs \<Rightarrow> nat \<Rightarrow> 'v option" where
  "vnode_of_file w f = Option.bind (files w f) file_vnode"

definition vfs_open ::
  "('s, 'v) vtable \<Rightarrow> 'v \<Rightarrow> name \<Rightarrow> u32 \<Rightarrow> ('s, 'v) vfs \<Rightarrow> kerror + ('s, 'v) vfs \<times> nat option" where
  "vfs_open vt cwd pathname options w =
     bindE (resolve_path vt cwd pathname w) (\<lambda>(w, r).
     case find (\<lambda>f. vnode_of_file w f = r_target r) (opened_files w) of
       Some f \<Rightarrow> Inr (w, Some f)
     | None \<Rightarrow>
         if r_target r \<noteq> None then
           bindE (get_rootfs w) (\<lambda>_.
           let (w, f) = new_file (r_target r) options w in Inr (w, Some f))
         else if options AND O_CREAT = 0 then Inr (w, None)
         else
           bindE (create vt cwd pathname None 0 S_IFREG w) (\<lambda>(w, target).
           bindE (get_rootfs w) (\<lambda>_.
           let (w, f) = new_file target options w in Inr (w, Some f))))"

text \<open>\<open>use_count\<close> is what the shared pointer to the file reports.\<close>

definition close :: "nat option \<Rightarrow> int \<Rightarrow> ('s, 'v) vfs \<Rightarrow> kerror + ('s, 'v) vfs \<times> int" where
  "close file_ptr use_count w =
     (case file_ptr of
        None \<Rightarrow> Inr (w, - 1)
      | Some f \<Rightarrow>
          (case files w f of
             None \<Rightarrow> Inl UseAfterFree
           | Some obj \<Rightarrow>
               (let same = (\<lambda>g. vnode_of_file w g = file_vnode obj) in
                if find same (opened_files w) = None then Inr (w, - 1)
                else
                  (let w = w\<lparr>files := (files w)(f \<mapsto> obj\<lparr>file_pos := 0\<rparr>)\<rparr> in
                   if use_count \<le> 3 then
                     Inr (w\<lparr>opened_files := takeWhile (\<lambda>g. \<not> same g) (opened_files w) @
                            tl (dropWhile (\<lambda>g. \<not> same g) (opened_files w))\<rparr>, 0)
                   else Inr (w, 0)))))"


subsection \<open>Devices\<close>

definition register_device :: "name \<Rightarrow> ('s, 'v) vfs \<Rightarrow> ('s, 'v) vfs \<times> u32" where
  "register_device device w =
     (let dev = dev_encode (ucast (next_dev_major w)) 0 in
      (w\<lparr>next_dev_major := next_dev_major w + 1,
         registered_devices := registered_devices w @ [(dev, device)]\<rparr>, dev))"

definition find_registered_device :: "u32 \<Rightarrow> ('s, 'v) vfs \<Rightarrow> name option" where
  "find_registered_device dev w =
     map_option snd (find (\<lambda>e. dev_major dev = dev_major (fst e)) (registered_devices w))"

definition console_name :: name where
  "console_name = [99, 111, 110, 115, 111, 108, 101]"

primrec write_chars ::
  "('s, 'v) vtable \<Rightarrow> name \<Rightarrow> u8 list \<Rightarrow> ('s, 'v) vfs \<Rightarrow> kerror + ('s, 'v) vfs" where
  "write_chars vt dev [] w = Inr w"
| "write_chars vt dev (c # cs) w = bindE (vt_write_char vt dev c w) (write_chars vt dev cs)"

primrec read_chars ::
  "('s, 'v) vtable \<Rightarrow> name \<Rightarrow> nat \<Rightarrow> u8 list \<Rightarrow> ('s, 'v) vfs \<Rightarrow> kerror + ('s, 'v) vfs \<times> u8 list" where
  "read_chars vt dev 0 buf w = Inr (w, buf)"
| "read_chars vt dev (Suc n) buf w =
     bindE (vt_read_char vt dev w) (\<lambda>(w, c). read_chars vt dev n (buf @ [c]) w)"


subsection \<open>Reading and writing\<close>

text \<open>\<open>buf\<close> holds the \<open>len\<close> bytes to write.\<close>

definition vfs_write ::
  "('s, 'v) vtable \<Rightarrow> nat option \<Rightarrow> u8 list \<Rightarrow> ('s, 'v) vfs \<Rightarrow> kerror + ('s, 'v) vfs \<times> int" where
  "vfs_write vt file_ptr buf w =
     (case file_ptr of
        None \<Rightarrow> Inr (w, - 1)
      | Some f \<Rightarrow>
          (case files w f of
             None \<Rightarrow> Inl UseAfterFree
           | Some obj \<Rightarrow>
               (case file_vnode obj of
                  None \<Rightarrow> Inl NullDeref
                | Some v \<Rightarrow>
                    (let mode = vt_get_mode vt v w;
                         finish = (\<lambda>w. Inr (w\<lparr>files := (files w)(f \<mapsto>
                           obj\<lparr>file_pos := file_pos obj + of_nat (length buf)\<rparr>)\<rparr>, int32 (int (length buf)))) in
                     if is_regular_file mode then
                       bindE (vt_set_content vt v buf (of_nat (length buf)) w) finish
                     else if is_character_device mode then
                       (case find_registered_device (vt_get_dev vt v w) w of
                          None \<Rightarrow> Inl NullDeref
                        | Some cdev \<Rightarrow>
                            if cdev = console_name then finish (console_write buf w)
                            else bindE (write_chars vt cdev buf w) finish)
                     else Inr (w, - 1)))))"

definition NAME_LEN :: nat where
  "NAME_LEN = 256"

definition dot :: name where "dot = [46]"
definition dot_dot :: name where "dot_dot = [46, 46]"

text \<open>
  The entry is a local variable: \<open>junk\<close> is what its array holds before the name is copied.
  From the third entry on, \<open>name\<close> is \<open>child_vnode->get_name().c_str()\<close>: the characters of a
  temporary string, which is deleted before \<open>strlen\<close> and \<open>strncpy\<close> read them.
\<close>

definition read_directory ::
  "('s, 'v) vtable \<Rightarrow> u8 list \<Rightarrow> nat \<Rightarrow> 'v file_obj \<Rightarrow> 'v \<Rightarrow> ('s, 'v) vfs \<Rightarrow>
    kerror + ('s, 'v) vfs \<times> u8 list \<times> int" where
  "read_directory vt junk f obj v w =
     bindE (vt_get_children_count vt v w) (\<lambda>(w, n).
     if file_pos obj \<ge> n then Inr (w\<lparr>files := (files w)(f \<mapsto> obj\<lparr>file_pos := 0\<rparr>)\<rparr>, [], 0)
     else
       bindE (vt_get_ith_child vt v (file_pos obj) w) (\<lambda>(w, child_vnode).
       case child_vnode of
         None \<Rightarrow> Inl (Panic ''VFS::read: child_vnode == nullptr'')
       | Some child \<Rightarrow>
           bindE (if file_pos obj = 0 then Inr dot
                  else if file_pos obj = 1 then Inr dot_dot
                  else bindE (vt_get_name vt child w) (\<lambda>temporary. Inl UseAfterFree)) (\<lambda>nm.
           bindE (astrncpy (nm @ [0]) (take NAME_LEN junk) 0 (min (length nm) NAME_LEN)) (\<lambda>e.
           Inr (w\<lparr>files := (files w)(f \<mapsto> obj\<lparr>file_pos := file_pos obj + 1\<rparr>)\<rparr>, e, int NAME_LEN)))))"

text \<open>
  The result is the state, the bytes stored to \<open>buf\<close> and the returned length. \<open>memcpy\<close> from
  the content reads \<open>len\<close> bytes from \<open>pos\<close> on.
\<close>

definition read_regular ::
  "('s, 'v) vtable \<Rightarrow> u64 \<Rightarrow> nat \<Rightarrow> 'v file_obj \<Rightarrow> 'v \<Rightarrow> ('s, 'v) vfs \<Rightarrow>
    kerror + ('s, 'v) vfs \<times> u8 list \<times> int" where
  "read_regular vt len f obj v w =
     bindE (vt_get_content vt v w) (\<lambda>(w, content).
     let readable_size = vt_get_size vt v w - file_pos obj;
         len = (if len \<le> readable_size then len else readable_size) in
     bindE (if len = 0 then Inr []
            else case content of
              None \<Rightarrow> Inl NullDeref
            | Some b \<Rightarrow>
                if unat (file_pos obj) + unat len \<le> length b
                then Inr (take (unat len) (drop (unat (file_pos obj)) b)) else Inl OutOfBounds)
       (\<lambda>bytes.
     Inr (w\<lparr>files := (files w)(f \<mapsto> obj\<lparr>file_pos := file_pos obj + len\<rparr>)\<rparr>, bytes, int32 (uint len))))"

definition vfs_read ::
  "('s, 'v) vtable \<Rightarrow> u8 list \<Rightarrow> nat option \<Rightarrow> u64 \<Rightarrow> ('s, 'v) vfs \<Rightarrow>
    kerror + ('s, 'v) vfs \<times> u8 list \<times> int" where
  "vfs_read vt junk file_ptr len w =
     (case file_ptr of
        None \<Rightarrow> Inr (w, [], - 1)
      | Some f \<Rightarrow>
          (case files w f of
             None \<Rightarrow> Inl UseAfterFree
           | Some obj \<Rightarrow>
               (case file_vnode obj of
                  None \<Rightarrow> Inl NullDeref
                | Some v \<Rightarrow>
                    (let mode = vt_get_mode vt v w in
                     if is_regular_file mode then read_regular vt len f obj v w
                     else if is_directory mode then read_directory vt junk f obj v w
                     else if is_character_device mode then
                       (case find_registered_device (vt_get_dev vt v w) w of
                          None \<Rightarrow> Inl NullDeref
                        | Some cdev \<Rightarrow>
                            if cdev = console_name then
                              bindE (console_read (take (unat len) junk) len w) (\<lambda>(w, buf, n).
                              Inr (w, buf, int32 (uint len)))
                            else
                              bindE (read_chars vt cdev (unat len) [] w) (\<lambda>(w, buf).
                              Inr (w, buf, int32 (uint len))))
                     else Inr (w, [], - 1)))))"


subsection \<open>Directories, mounts and special files\<close>

definition access ::
  "('s, 'v) vtable \<Rightarrow> 'v \<Rightarrow> name \<Rightarrow> ('s, 'v) vfs \<Rightarrow> kerror + ('s, 'v) vfs \<times> int" where
  "access vt cwd pathname w =
     bindE (resolve_path vt cwd pathname w) (\<lambda>(w, r).
     Inr (w, if r_target r = None then - 1 else 0))"

definition mkdir ::
  "('s, 'v) vtable \<Rightarrow> 'v \<Rightarrow> name \<Rightarrow> ('s, 'v) vfs \<Rightarrow> kerror + ('s, 'v) vfs \<times> int" where
  "mkdir vt cwd pathname w =
     bindE (create vt cwd pathname None 0 S_IFDIR w) (\<lambda>(w, v). Inr (w, if v \<noteq> None then 0 else - 1))"

definition rmdir :: "name \<Rightarrow> ('s, 'v) vfs \<Rightarrow> kerror + ('s, 'v) vfs \<times> int" where
  "rmdir pathname w = Inr (w, - 1)"

definition unlink :: "name \<Rightarrow> ('s, 'v) vfs \<Rightarrow> kerror + ('s, 'v) vfs \<times> int" where
  "unlink pathname w = Inr (w, - 1)"

definition tmpfs_name :: name where
  "tmpfs_name = [116, 109, 112, 102, 115]"

definition procfs_name :: name where
  "procfs_name = [112, 114, 111, 99, 102, 115]"

definition add_mount :: "'v \<Rightarrow> 'v \<Rightarrow> ('s, 'v) vfs \<Rightarrow> ('s, 'v) vfs" where
  "add_mount root host w =
     w\<lparr>mounts := mounts w @ [\<lparr>guest_fs = root, guest_vnode = root, host_vnode = host\<rparr>]\<rparr>"

definition mount ::
  "('s, 'v) vtable \<Rightarrow> 'v \<Rightarrow> name \<Rightarrow> name \<Rightarrow> ('s, 'v) vfs \<Rightarrow> kerror + ('s, 'v) vfs \<times> int" where
  "mount vt cwd mountpoint fs_name w =
     bindE (resolve_path vt cwd mountpoint w) (\<lambda>(w, r).
     case r_target r of
       None \<Rightarrow> Inr (w, - 1)
     | Some vnode \<Rightarrow>
         if fs_name = tmpfs_name then
           (let (w, root) = vt_new_tmpfs vt w in Inr (add_mount root vnode w, 0))
         else if fs_name = procfs_name then
           (let (w, root) = vt_new_procfs vt w in Inr (add_mount root vnode w, 0))
         else Inr (w, 0))"

text \<open>
  Removing the entry deletes the \<open>Mount\<close>, which is the only owner of \<open>guest_fs\<close> and one of the
  owners of \<open>guest_vnode\<close>; \<open>vnode\<close> owns the latter until the function returns.
\<close>

definition umount ::
  "('s, 'v) vtable \<Rightarrow> 'v \<Rightarrow> name \<Rightarrow> ('s, 'v) vfs \<Rightarrow> kerror + ('s, 'v) vfs \<times> int" where
  "umount vt cwd mountpoint w =
     bindE (resolve_path vt cwd mountpoint w) (\<lambda>(w, r).
     case r_target r of
       None \<Rightarrow> Inr (w, - 1)
     | Some vnode \<Rightarrow>
         (case find (\<lambda>m. guest_vnode m = vnode) (mounts w) of
            None \<Rightarrow> Inr (w, - 1)
          | Some m \<Rightarrow>
              bindE (vt_release_fs vt (guest_fs m)
                (w\<lparr>mounts := takeWhile (\<lambda>m. guest_vnode m \<noteq> vnode) (mounts w) @
                    tl (dropWhile (\<lambda>m. guest_vnode m \<noteq> vnode) (mounts w))\<rparr>)) (\<lambda>w. Inr (w, 0))))"

definition mknod ::
  "('s, 'v) vtable \<Rightarrow> 'v \<Rightarrow> name \<Rightarrow> u32 \<Rightarrow> u32 \<Rightarrow> ('s, 'v) vfs \<Rightarrow> kerror + ('s, 'v) vfs \<times> int" where
  "mknod vt cwd pathname mode dev w =
     (if mode AND S_IFCHR = 0 \<and> mode AND S_IFBLK = 0 \<and> mode AND S_IFIFO = 0 then Inr (w, - 1)
      else
        bindE (create vt cwd pathname None 0 mode w) (\<lambda>(w, v).
        case v of None \<Rightarrow> Inr (w, - 1) | Some v \<Rightarrow> Inr (vt_set_dev vt v dev w, 0)))"


subsection \<open>Setting up\<close>

definition VFS :: "'s \<Rightarrow> ('s, 'v) vfs" where
  "VFS s = \<lparr>fs_state = s, next_inode_idx = 0, next_dev_major = 1, mounts = [],
     files = (\<lambda>_. None), next_file = 0, opened_files = [], registered_devices = [],
     uart_in = [], uart_out = []\<rparr>"

definition mount_rootfs :: "'v \<Rightarrow> ('s, 'v) vfs \<Rightarrow> kerror + ('s, 'v) vfs" where
  "mount_rootfs fs w =
     (if mounts w \<noteq> [] then Inl (Panic ''VFS::mount_rootfs: root filesystem is already mounted!'')
      else Inr (add_mount fs fs w))"

text \<open>The entries of the archive as path and content; an invalid archive is \<open>None\<close>.\<close>

primrec unpack ::
  "('s, 'v) vtable \<Rightarrow> 'v \<Rightarrow> (name \<times> u8 list) list \<Rightarrow> ('s, 'v) vfs \<Rightarrow> kerror + ('s, 'v) vfs" where
  "unpack vt cwd [] w = Inr w"
| "unpack vt cwd (e # es) w =
     (let mode = (if snd e \<noteq> [] then S_IFREG else S_IFDIR) in
      bindE (create vt cwd (fst e) (if snd e = [] then None else Some (snd e))
          (of_nat (length (snd e))) mode w) (\<lambda>(w, v). unpack vt cwd es w))"

definition mount_rootfs_archive ::
  "('s, 'v) vtable \<Rightarrow> 'v \<Rightarrow> 'v \<Rightarrow> (name \<times> u8 list) list option \<Rightarrow> ('s, 'v) vfs \<Rightarrow> kerror + ('s, 'v) vfs" where
  "mount_rootfs_archive vt cwd fs archive w =
     bindE (mount_rootfs fs w) (\<lambda>w.
     case archive of
       None \<Rightarrow> Inl (Panic ''VFS::mount_rootfs: unable to mount rootfs'')
     | Some es \<Rightarrow> unpack vt cwd es w)"

definition dev_path :: name where "dev_path = [47, 100, 101, 118]"
definition proc_path :: name where "proc_path = [47, 112, 114, 111, 99]"

definition mount_devtmpfs :: "('s, 'v) vtable \<Rightarrow> 'v \<Rightarrow> ('s, 'v) vfs \<Rightarrow> kerror + ('s, 'v) vfs" where
  "mount_devtmpfs vt cwd w =
     bindE (mkdir vt cwd dev_path w) (\<lambda>(w, r).
     bindE (mount vt cwd dev_path tmpfs_name w) (\<lambda>(w, r).
     if r = - 1 then Inl (Panic ''VFS::mount_devtmpfs: unable to mount devtmpfs'') else Inr w))"

definition mount_procfs :: "('s, 'v) vtable \<Rightarrow> 'v \<Rightarrow> ('s, 'v) vfs \<Rightarrow> kerror + ('s, 'v) vfs" where
  "mount_procfs vt cwd w =
     bindE (mkdir vt cwd proc_path w) (\<lambda>(w, r).
     bindE (mount vt cwd proc_path procfs_name w) (\<lambda>(w, r).
     if r = - 1 then Inl (Panic ''VFS::mount_procfs: unable to mount procfs'') else Inr w))"

text \<open>\<open>table\<close> is the array \<open>"abcd"\<close> with its terminator.\<close>

primrec populate_disks ::
  "('s, 'v) vtable \<Rightarrow> 'v \<Rightarrow> name list \<Rightarrow> nat \<Rightarrow> ('s, 'v) vfs \<Rightarrow> kerror + ('s, 'v) vfs" where
  "populate_disks vt cwd [] index w = Inr w"
| "populate_disks vt cwd (d # ds) index w =
     bindE (aget [97, 98, 99, 100, 0] (int index)) (\<lambda>c.
     let pathname = dev_path @ [47, 115, 100] @ (if c = 0 then [] else [c]);
         (w, dev) = register_device d w in
     bindE (mknod vt cwd pathname S_IFBLK (dev_encode (dev_major dev) 1) w) (\<lambda>(w, r).
     populate_disks vt cwd ds (Suc index) w))"

definition populate_devtmpfs ::
  "('s, 'v) vtable \<Rightarrow> 'v \<Rightarrow> name list \<Rightarrow> ('s, 'v) vfs \<Rightarrow> kerror + ('s, 'v) vfs" where
  "populate_devtmpfs vt cwd storage_devices w =
     (let (w, dev) = register_device console_name w in
      bindE (mknod vt cwd (dev_path @ [47] @ console_name) S_IFCHR (dev_encode (dev_major dev) 1) w)
        (\<lambda>(w, r). populate_disks vt cwd storage_devices 0 w))"

end
