(* ===== verification/MemFS.thy ===== *)
theory MemFS
  imports VFS Printf
begin

text \<open>
  The two file systems that live in memory: \<open>TmpFS\<close> (\<open>fs/TmpFS.cc\<close>) and \<open>ProcFS\<close>
  (\<open>fs/ProcFS.cc\<close>). Their inodes are objects of a heap, by address; the class of an inode is
  the field \<open>i_kind\<close>, and \<open>memfs_vtable\<close> dispatches on it as the virtual functions do. \<open>i_fs\<close> is
  the root inode of the file system \<open>_fs\<close> the inode belongs to, and \<open>fs_freed\<close> says of which file
  systems \<open>umount\<close> has deleted the object, so that \<open>_fs\<close> is a dangling reference.

  Who else refers to an inode, an opened file or the working directory of a task, or a child
  that one of these owns, is known to the other parts of the kernel: \<open>held\<close> is data of the
  state. The last pointer to an inode without such a reference deletes it, and deleting an
  object that has a weak pointer to itself writes to its control block after that has been
  freed, as the theory of the shared pointers shows. An inode that is held stays in the heap
  when it is removed from its directory. In the program it does so while something owns it;
  when only a child refers to it, the program deletes it, and locking the weak pointer to it
  then gives null, where the model still finds the inode.

  What \<open>ProcFS\<close> shows of the rest of the kernel, the tasks and the reports of the allocators,
  is data of the state. \<open>ctrl_addr\<close> gives the addresses of the control blocks of the shared
  pointers, which enter the hash codes.
\<close>

datatype inode_kind =
    TmpFSInode | ProcFSInode | SwitchInode | HelloInode | BuddyInfoInode | SlobInfoInode
  | TaskStatusInode

record inode =
  i_kind :: inode_kind
  i_fs :: nat
  i_index :: u32
  i_size :: u64
  i_mode :: u32
  i_uid :: u32
  i_gid :: u32
  i_dev :: u32
  i_name :: name
  i_content :: "u8 list option"
  i_parent :: "nat option"
  i_children :: "nat list"

record task_info =
  t_pid :: u32
  t_name :: name
  t_state :: u64

record memfs =
  inodes :: "nat \<Rightarrow> inode option"
  next_inode :: nat
  is_switch_on :: bool
  active_tasks :: "task_info list"
  buddy_info :: name
  slob_info :: name
  ctrl_addr :: "nat \<Rightarrow> u64"
  held :: "nat \<Rightarrow> bool"
  fs_freed :: "nat \<Rightarrow> bool"

type_synonym world = "(memfs, nat) vfs"

definition node :: "world \<Rightarrow> nat \<Rightarrow> kerror + inode" where
  "node w i = (case inodes (fs_state w) i of None \<Rightarrow> Inl UseAfterFree | Some n \<Rightarrow> Inr n)"

definition set_node :: "nat \<Rightarrow> inode \<Rightarrow> world \<Rightarrow> world" where
  "set_node i n w = w\<lparr>fs_state := (fs_state w)\<lparr>inodes := (inodes (fs_state w))(i \<mapsto> n)\<rparr>\<rparr>"

definition new_node :: "inode \<Rightarrow> world \<Rightarrow> world \<times> nat" where
  "new_node n w =
     (let i = next_inode (fs_state w) in
      (w\<lparr>fs_state := (fs_state w)\<lparr>inodes := (inodes (fs_state w))(i \<mapsto> n), next_inode := Suc i\<rparr>\<rparr>, i))"


subsection \<open>TmpFS\<close>

definition TmpFSInode_new ::
  "nat \<Rightarrow> nat option \<Rightarrow> name \<Rightarrow> u8 list option \<Rightarrow> u64 \<Rightarrow> u32 \<Rightarrow> u32 \<Rightarrow> u32 \<Rightarrow> world \<Rightarrow>
    kerror + world \<times> nat" where
  "TmpFSInode_new fs parent nm content sz mode uid gid w =
     (let (w, idx) = get_next_inode_idx w in
      bindE (case content of
               None \<Rightarrow> Inr None
             | Some c \<Rightarrow>
                 if sz > 0 then
                   (if unat sz \<le> length c then Inr (Some (take (unat sz) c)) else Inl OutOfBounds)
                 else Inr None) (\<lambda>bytes.
      Inr (new_node \<lparr>i_kind = TmpFSInode, i_fs = fs, i_index = ucast idx, i_size = sz, i_mode = mode,
        i_uid = uid, i_gid = gid, i_dev = 0, i_name = nm, i_content = bytes, i_parent = parent,
        i_children = []\<rparr> w)))"

text \<open>The root inode belongs to the file system whose root it is.\<close>

definition TmpFS :: "world \<Rightarrow> world \<times> nat" where
  "TmpFS w =
     (let (w, idx) = get_next_inode_idx w in
      new_node \<lparr>i_kind = TmpFSInode, i_fs = next_inode (fs_state w), i_index = ucast idx, i_size = 0,
        i_mode = S_IFDIR, i_uid = 0, i_gid = 0, i_dev = 0, i_name = [47], i_content = None,
        i_parent = None, i_children = []\<rparr> w)"

definition add_child :: "nat \<Rightarrow> nat \<Rightarrow> world \<Rightarrow> kerror + world" where
  "add_child this child w =
     bindE (node w this) (\<lambda>n. Inr (set_node this (n\<lparr>i_children := i_children n @ [child]\<rparr>) w))"

definition tmpfs_create_child ::
  "nat \<Rightarrow> name \<Rightarrow> u8 list option \<Rightarrow> u64 \<Rightarrow> u32 \<Rightarrow> u32 \<Rightarrow> u32 \<Rightarrow> world \<Rightarrow>
    kerror + world \<times> nat option" where
  "tmpfs_create_child this nm content sz mode uid gid w =
     bindE (node w this) (\<lambda>n.
     bindE (TmpFSInode_new (i_fs n) (Some this) nm content sz mode uid gid w) (\<lambda>(w, child).
     bindE (add_child this child w) (\<lambda>w. Inr (w, Some child))))"

definition has_name :: "world \<Rightarrow> name \<Rightarrow> nat \<Rightarrow> bool" where
  "has_name w nm i = (case inodes (fs_state w) i of None \<Rightarrow> False | Some n \<Rightarrow> i_name n = nm)"

definition remove_child :: "nat \<Rightarrow> name \<Rightarrow> world \<Rightarrow> kerror + world \<times> nat option" where
  "remove_child this nm w =
     bindE (node w this) (\<lambda>n.
     Inr (set_node this (n\<lparr>i_children := takeWhile (\<lambda>i. \<not> has_name w nm i) (i_children n) @
              tl (dropWhile (\<lambda>i. \<not> has_name w nm i) (i_children n))\<rparr>) w,
          find (has_name w nm) (i_children n)))"

text \<open>A shared pointer to the inode goes away: the last one, unless the inode is held.\<close>

definition release_inode :: "nat option \<Rightarrow> world \<Rightarrow> kerror + world" where
  "release_inode i w =
     (case i of
        None \<Rightarrow> Inr w
      | Some j \<Rightarrow> if held (fs_state w) j then Inr w else Inl UseAfterFree)"

text \<open>The file system with this root is deleted, and a pointer to the root goes away.\<close>

definition release_fs :: "nat \<Rightarrow> world \<Rightarrow> kerror + world" where
  "release_fs root w =
     release_inode (Some root) (w\<lparr>fs_state := (fs_state w)\<lparr>fs_freed := (fs_freed (fs_state w))(root := True)\<rparr>\<rparr>)"

text \<open>\<open>_fs._root_inode\<close> is read, which \<open>_fs\<close> must still have.\<close>

definition is_root_vnode :: "world \<Rightarrow> nat \<Rightarrow> inode \<Rightarrow> kerror + bool" where
  "is_root_vnode w this n =
     (if fs_freed (fs_state w) (i_fs n) then Inl UseAfterFree else Inr (this = i_fs n))"

text \<open>
  The parent of a root is the parent of the vnode the file system is mounted on. The root of
  the root file system is mounted on itself.
\<close>

partial_function (option) get_parent :: "world \<Rightarrow> nat \<Rightarrow> (kerror + nat option) option" where
  "get_parent w this =
     (case node w this of
        Inl e \<Rightarrow> Some (Inl e)
      | Inr n \<Rightarrow>
          (case is_root_vnode w this n of
             Inl e \<Rightarrow> Some (Inl e)
           | Inr root \<Rightarrow>
               if root then
                 (case get_host_vnode w this of
                    None \<Rightarrow> Some (Inl NullDeref)
                  | Some host \<Rightarrow> get_parent w host)
               else Some (Inr (i_parent n))))"

definition parent_of :: "world \<Rightarrow> nat \<Rightarrow> kerror + nat option" where
  "parent_of w this = bindE (returned (get_parent w this)) (\<lambda>r. r)"

definition set_parent :: "nat \<Rightarrow> nat option \<Rightarrow> world \<Rightarrow> kerror + world" where
  "set_parent this parent w =
     bindE (node w this) (\<lambda>n. Inr (set_node this (n\<lparr>i_parent := parent\<rparr>) w))"

text \<open>
  \<open>make_shared\<close> sets the weak pointer of an object to itself only when its class derives from
  \<open>EnableSharedFromThis\<close> of just that class: \<open>TmpFSInode\<close> and \<open>ProcFSInode\<close> do, the classes of the
  files in \<open>ProcFS\<close> derive from that of \<open>ProcFSInode\<close>, so theirs stays empty.
\<close>

definition inode_shared_from_this :: "nat \<Rightarrow> inode \<Rightarrow> nat option" where
  "inode_shared_from_this this n = (if i_kind n \<in> {TmpFSInode, ProcFSInode} then Some this else None)"

definition tmpfs_get_child :: "nat \<Rightarrow> name \<Rightarrow> world \<Rightarrow> kerror + world \<times> nat option" where
  "tmpfs_get_child this nm w =
     (if nm = dot then bindE (node w this) (\<lambda>n. Inr (w, inode_shared_from_this this n))
      else if nm = dot_dot then bindE (parent_of w this) (\<lambda>p. Inr (w, p))
      else bindE (node w this) (\<lambda>n. Inr (w, find (has_name w nm) (i_children n))))"

definition get_ith_child :: "nat \<Rightarrow> u64 \<Rightarrow> world \<Rightarrow> kerror + world \<times> nat option" where
  "get_ith_child this i w =
     (if i = 0 then bindE (node w this) (\<lambda>n. Inr (w, inode_shared_from_this this n))
      else if i = 1 then bindE (parent_of w this) (\<lambda>p. Inr (w, p))
      else bindE (node w this) (\<lambda>n.
        Inr (w, if unat i - 2 < length (i_children n) then Some (i_children n ! (unat i - 2)) else None)))"

definition NR_SPECIAL_ENTRIES :: nat where
  "NR_SPECIAL_ENTRIES = 2"

definition tmpfs_get_children_count :: "nat \<Rightarrow> world \<Rightarrow> kerror + world \<times> u64" where
  "tmpfs_get_children_count this w =
     bindE (node w this) (\<lambda>n. Inr (w, of_nat (NR_SPECIAL_ENTRIES + length (i_children n))))"

definition get_name :: "nat \<Rightarrow> world \<Rightarrow> kerror + name" where
  "get_name this w = bindE (node w this) (\<lambda>n. Inr (i_name n))"

definition tmpfs_set_content :: "nat \<Rightarrow> u8 list \<Rightarrow> u64 \<Rightarrow> world \<Rightarrow> kerror + world" where
  "tmpfs_set_content this content new_size w =
     bindE (node w this) (\<lambda>n. Inr (set_node this (n\<lparr>i_content := Some content, i_size := new_size\<rparr>) w))"

text \<open>\<open>chmod\<close> and \<open>chown\<close> are not implemented.\<close>

definition chmod :: "nat \<Rightarrow> u32 \<Rightarrow> world \<Rightarrow> kerror + world \<times> int" where
  "chmod this mode w = Inr (w, - 1)"

definition chown :: "nat \<Rightarrow> u32 \<Rightarrow> u32 \<Rightarrow> world \<Rightarrow> kerror + world \<times> int" where
  "chown this uid gid w = Inr (w, - 1)"

definition name_hash :: "name \<Rightarrow> u64" where
  "name_hash nm = (case str_hash (Some (nm @ [0])) of Inl e \<Rightarrow> 0 | Inr h \<Rightarrow> h)"

definition weak_hash :: "world \<Rightarrow> nat option \<Rightarrow> u64" where
  "weak_hash w p = 7 + 31 * (case p of None \<Rightarrow> 0 | Some i \<Rightarrow> ctrl_addr (fs_state w) i)"

definition tmpfs_hash :: "world \<Rightarrow> inode \<Rightarrow> u64" where
  "tmpfs_hash w n =
     5 + 11 * i_size n + 11 * ucast (i_mode n) + name_hash (i_name n) + 11 * weak_hash w (i_parent n)"


subsection \<open>ProcFS\<close>

definition ProcFSInode_new ::
  "inode_kind \<Rightarrow> nat \<Rightarrow> nat option \<Rightarrow> name \<Rightarrow> u32 \<Rightarrow> world \<Rightarrow> world \<times> nat" where
  "ProcFSInode_new kind fs parent nm mode w =
     (let (w, idx) = get_next_inode_idx w in
      new_node \<lparr>i_kind = kind, i_fs = fs, i_index = ucast idx, i_size = 0, i_mode = mode, i_uid = 0,
        i_gid = 0, i_dev = 0, i_name = nm, i_content = None, i_parent = parent, i_children = []\<rparr> w)"

definition switch_name :: name where "switch_name = [115, 119, 105, 116, 99, 104]"
definition hello_name :: name where "hello_name = [104, 101, 108, 108, 111]"
definition buddyinfo_name :: name where "buddyinfo_name = [98, 117, 100, 100, 121, 105, 110, 102, 111]"
definition slobinfo_name :: name where "slobinfo_name = [115, 108, 111, 98, 105, 110, 102, 111]"
definition status_name :: name where "status_name = [115, 116, 97, 116, 117, 115]"

text \<open>Each file is created with the root as parent and added to its children.\<close>

definition add_proc_file :: "inode_kind \<Rightarrow> name \<Rightarrow> nat \<Rightarrow> world \<Rightarrow> world" where
  "add_proc_file kind nm root w =
     (let (w, f) = ProcFSInode_new kind root (Some root) nm S_IFREG w in
      case add_child root f w of Inl e \<Rightarrow> w | Inr w \<Rightarrow> w)"

definition ProcFS :: "world \<Rightarrow> world \<times> nat" where
  "ProcFS w =
     (let (w, root) = ProcFSInode_new ProcFSInode (next_inode (fs_state w)) None [47] S_IFDIR w;
          w = add_proc_file SwitchInode switch_name root w;
          w = add_proc_file HelloInode hello_name root w;
          w = add_proc_file BuddyInfoInode buddyinfo_name root w;
          w = add_proc_file SlobInfoInode slobinfo_name root w in
      (w, root))"

definition all_digits :: "name \<Rightarrow> bool" where
  "all_digits s = (s \<noteq> [] \<and> list_all is_digit s)"

definition pid_of :: "name \<Rightarrow> u32" where
  "pid_of s = (case atoi 0 10 (mem_of (s @ [0])) of None \<Rightarrow> 0 | Some n \<Rightarrow> of_int n)"

definition find_task :: "u32 \<Rightarrow> world \<Rightarrow> task_info option" where
  "find_task pid w = find (\<lambda>t. t_pid t = pid) (active_tasks (fs_state w))"

definition pid_str :: "u32 \<Rightarrow> name" where
  "pid_str pid = (case i2a (int32 (uint pid)) of None \<Rightarrow> [] | Some s \<Rightarrow> s)"

definition add_task_dir :: "nat \<Rightarrow> nat \<Rightarrow> name \<Rightarrow> world \<Rightarrow> kerror + world \<times> nat" where
  "add_task_dir this root nm w =
     (let (w, task_dir) = ProcFSInode_new ProcFSInode root (Some root) nm S_IFDIR w;
          (w, status) = ProcFSInode_new TaskStatusInode root (Some task_dir) status_name S_IFREG w in
      bindE (add_child task_dir status w) (\<lambda>w.
      bindE (add_child this task_dir w) (\<lambda>w. Inr (w, task_dir))))"

text \<open>The names of the children that are process directories of tasks that no longer exist.\<close>

definition stale :: "world \<Rightarrow> nat \<Rightarrow> bool" where
  "stale w i =
     (case inodes (fs_state w) i of
        None \<Rightarrow> False
      | Some n \<Rightarrow> all_digits (i_name n) \<and> find_task (pid_of (i_name n)) w = None)"

definition has_pid :: "world \<Rightarrow> u32 \<Rightarrow> nat \<Rightarrow> bool" where
  "has_pid w pid i =
     (case inodes (fs_state w) i of
        None \<Rightarrow> False
      | Some n \<Rightarrow> all_digits (i_name n) \<and> pid_of (i_name n) = pid)"

primrec populate_tasks :: "task_info list \<Rightarrow> nat \<Rightarrow> world \<Rightarrow> kerror + world" where
  "populate_tasks [] root w = Inr w"
| "populate_tasks (t # ts) root w =
     bindE (node w root) (\<lambda>n.
     bindE (if find (has_pid w (t_pid t)) (i_children n) = None
            then bindE (add_task_dir root root (pid_str (t_pid t)) w) (\<lambda>(w, d). Inr w) else Inr w) (\<lambda>w.
     populate_tasks ts root w))"

definition repopulate_task_directories :: "nat \<Rightarrow> world \<Rightarrow> kerror + world" where
  "repopulate_task_directories root w =
     bindE (node w root) (\<lambda>n.
     bindE (release_inode (find (stale w) (i_children n))
       (set_node root (n\<lparr>i_children := takeWhile (\<lambda>i. \<not> stale w i) (i_children n) @
          tl (dropWhile (\<lambda>i. \<not> stale w i) (i_children n))\<rparr>) w)) (\<lambda>w.
     populate_tasks (active_tasks (fs_state w)) root w))"

definition procfs_create_child ::
  "nat \<Rightarrow> name \<Rightarrow> u8 list option \<Rightarrow> u64 \<Rightarrow> u32 \<Rightarrow> u32 \<Rightarrow> u32 \<Rightarrow> world \<Rightarrow>
    kerror + world \<times> nat option" where
  "procfs_create_child this nm content sz mode uid gid w =
     Inl (Panic ''ProcFS: invalid version of `create_child()` called'')"

definition procfs_get_child :: "nat \<Rightarrow> name \<Rightarrow> world \<Rightarrow> kerror + world \<times> nat option" where
  "procfs_get_child this nm w =
     (if nm = dot then bindE (node w this) (\<lambda>n. Inr (w, inode_shared_from_this this n))
      else if nm = dot_dot then bindE (parent_of w this) (\<lambda>p. Inr (w, p))
      else bindE (node w this) (\<lambda>n.
        let it = find (has_name w nm) (i_children n) in
        bindE (is_root_vnode w this n) (\<lambda>root.
        if root \<and> all_digits nm then
          (if find_task (pid_of nm) w = None then
             (if it \<noteq> None then
                bindE (remove_child this nm w) (\<lambda>(w, removed_child).
                bindE (release_inode removed_child w) (\<lambda>w. Inr (w, None)))
              else Inr (w, None))
           else if it \<noteq> None then Inr (w, it)
           else bindE (add_task_dir this (i_fs n) nm w) (\<lambda>(w, d). Inr (w, Some d)))
        else Inr (w, it))))"

definition procfs_get_children_count :: "nat \<Rightarrow> world \<Rightarrow> kerror + world \<times> u64" where
  "procfs_get_children_count this w =
     bindE (node w this) (\<lambda>n.
     if fs_freed (fs_state w) (i_fs n) then Inl UseAfterFree
     else
       bindE (repopulate_task_directories (i_fs n) w) (\<lambda>w.
       bindE (node w this) (\<lambda>n. Inr (w, of_nat (NR_SPECIAL_ENTRIES + length (i_children n))))))"

definition procfs_hash :: "world \<Rightarrow> inode \<Rightarrow> u64" where
  "procfs_hash w n =
     5 + 11 * ucast (i_mode n) + name_hash (i_name n) + 11 * weak_hash w (i_parent n)"

text \<open>
  The contents of the files are computed when they are read. The array for a text of \<open>len\<close>
  characters has \<open>len\<close> bytes, and \<open>strncpy\<close> writes a terminator after them.
\<close>

definition store_content :: "nat \<Rightarrow> u8 list \<Rightarrow> u64 \<Rightarrow> world \<Rightarrow> kerror + world \<times> u8 list option" where
  "store_content this b sz w =
     bindE (node w this) (\<lambda>n.
     Inr (set_node this (n\<lparr>i_content := Some b, i_size := sz\<rparr>) w, Some b))"

definition switch_get_content :: "nat \<Rightarrow> world \<Rightarrow> kerror + world \<times> u8 list option" where
  "switch_get_content this w =
     store_content this [if is_switch_on (fs_state w) then 49 else 48, 10] 2 w"

text \<open>
  \<open>atoi\<close> looks for the terminator of \<open>content\<close>, which is only there when the writer has put
  one into the bytes it wrote.
\<close>

definition switch_set_content :: "nat \<Rightarrow> u8 list \<Rightarrow> u64 \<Rightarrow> world \<Rightarrow> kerror + world" where
  "switch_set_content this content new_size w =
     bindE (if 0 \<in> set content then returned (atoi 0 10 (mem_of content)) else Inl OutOfBounds) (\<lambda>n.
     Inr (w\<lparr>fs_state := (fs_state w)\<lparr>is_switch_on := (n \<noteq> 0)\<rparr>\<rparr>))"

definition text_content :: "nat \<Rightarrow> name \<Rightarrow> world \<Rightarrow> kerror + world \<times> u8 list option" where
  "text_content this s w =
     bindE (astrncpy (s @ [0]) (replicate (length s) 0) 0 (length s)) (\<lambda>b.
     store_content this b (of_nat (length s)) w)"

definition hello_get_content :: "nat \<Rightarrow> world \<Rightarrow> kerror + world \<times> u8 list option" where
  "hello_get_content this w =
     text_content this (if is_switch_on (fs_state w) then [72, 69, 76, 76, 79, 10]
                        else [104, 101, 108, 108, 111, 10]) w"

definition buddyinfo_get_content :: "nat \<Rightarrow> world \<Rightarrow> kerror + world \<times> u8 list option" where
  "buddyinfo_get_content this w = text_content this (buddy_info (fs_state w)) w"

definition slobinfo_get_content :: "nat \<Rightarrow> world \<Rightarrow> kerror + world \<times> u8 list option" where
  "slobinfo_get_content this w = text_content this (slob_info (fs_state w)) w"

text \<open>The format string \<open>"Name: %s\nState: %d\nPid: %d\n"\<close>.\<close>

definition status_format :: "u8 list" where
  "status_format =
     [78, 97, 109, 101, 58, 32, 37, 115, 10, 83, 116, 97, 116, 101, 58, 32, 37, 100, 10,
      80, 105, 100, 58, 32, 37, 100, 10, 0]"

definition status_get_content :: "nat \<Rightarrow> world \<Rightarrow> kerror + world \<times> u8 list option" where
  "status_get_content this w =
     bindE (node w this) (\<lambda>n.
     case i_parent n of
       None \<Rightarrow> Inr (w, None)
     | Some p \<Rightarrow>
         bindE (get_name p w) (\<lambda>nm.
         case find_task (pid_of nm) w of
           None \<Rightarrow> Inr (w, None)
         | Some t \<Rightarrow>
             bindE (tfp_sprintf (\<lambda>_. t_name t) status_format [0, t_state t, ucast (t_pid t)]) (\<lambda>out.
             if length out \<le> 128 then store_content this (out @ replicate (128 - length out) 0) 128 w
             else Inl OutOfBounds)))"


subsection \<open>Dispatch\<close>

definition get_content :: "nat \<Rightarrow> world \<Rightarrow> kerror + world \<times> u8 list option" where
  "get_content this w =
     bindE (node w this) (\<lambda>n.
     case i_kind n of
       TmpFSInode \<Rightarrow> Inr (w, i_content n)
     | ProcFSInode \<Rightarrow> Inr (w, None)
     | SwitchInode \<Rightarrow> switch_get_content this w
     | HelloInode \<Rightarrow> hello_get_content this w
     | BuddyInfoInode \<Rightarrow> buddyinfo_get_content this w
     | SlobInfoInode \<Rightarrow> slobinfo_get_content this w
     | TaskStatusInode \<Rightarrow> status_get_content this w)"

definition set_content :: "nat \<Rightarrow> u8 list \<Rightarrow> u64 \<Rightarrow> world \<Rightarrow> kerror + world" where
  "set_content this content new_size w =
     bindE (node w this) (\<lambda>n.
     case i_kind n of
       TmpFSInode \<Rightarrow> tmpfs_set_content this content new_size w
     | SwitchInode \<Rightarrow> switch_set_content this content new_size w
     | _ \<Rightarrow> Inr w)"

definition is_tmpfs :: "world \<Rightarrow> nat \<Rightarrow> bool" where
  "is_tmpfs w i = (case inodes (fs_state w) i of None \<Rightarrow> False | Some n \<Rightarrow> i_kind n = TmpFSInode)"

definition field :: "(inode \<Rightarrow> 'a) \<Rightarrow> 'a \<Rightarrow> nat \<Rightarrow> world \<Rightarrow> 'a" where
  "field f d i w = (case inodes (fs_state w) i of None \<Rightarrow> d | Some n \<Rightarrow> f n)"

text \<open>
  \<open>Console\<close> is the only class derived from \<open>CharacterDevice\<close>. Any other registered device is
  a \<open>StorageDevice\<close>, which a character node can reach by its major number and which the
  \<open>static_cast\<close> in \<open>VFS::read\<close> and \<open>VFS::write\<close> turns into what it is not.
\<close>

definition memfs_vtable :: "(memfs, nat) vtable" where
  "memfs_vtable =
     \<lparr>vt_create_child = (\<lambda>i nm c sz m u g w.
        if is_tmpfs w i then tmpfs_create_child i nm c sz m u g w
        else procfs_create_child i nm c sz m u g w),
      vt_get_child = (\<lambda>i nm w. if is_tmpfs w i then tmpfs_get_child i nm w else procfs_get_child i nm w),
      vt_get_ith_child = get_ith_child,
      vt_get_children_count = (\<lambda>i w.
        if is_tmpfs w i then tmpfs_get_children_count i w else procfs_get_children_count i w),
      vt_get_name = get_name,
      vt_get_content = get_content,
      vt_set_content = set_content,
      vt_hash_code = (\<lambda>i w. field (if is_tmpfs w i then tmpfs_hash w else procfs_hash w) 0 i w),
      vt_get_mode = field i_mode 0,
      vt_get_size = field i_size 0,
      vt_get_dev = field i_dev 0,
      vt_set_dev = (\<lambda>i d w. case inodes (fs_state w) i of None \<Rightarrow> w | Some n \<Rightarrow> set_node i (n\<lparr>i_dev := d\<rparr>) w),
      vt_new_tmpfs = TmpFS,
      vt_new_procfs = ProcFS,
      vt_release_fs = release_fs,
      vt_read_char = (\<lambda>d w. Inl WrongType),
      vt_write_char = (\<lambda>d c w. Inl WrongType)\<rparr>"

end
