(* ===== verification/VFSTheorems.thy ===== *)
theory VFSTheorems
  imports VFS
begin

text \<open>
  What the virtual file system relies on, and what it then keeps. The locale
  \<open>vnode_provider\<close> is the contract of the file systems behind the virtual functions: an
  invariant \<open>good\<close> of their state, the vnodes \<open>live\<close> in it and the children \<open>kids\<close> of a vnode by
  name. Inside it every operation of the virtual file system is shown to keep the mounts and
  the opened files pointing to live vnodes.
\<close>

definition vfs_ok :: "('s \<Rightarrow> bool) \<Rightarrow> ('s \<Rightarrow> 'v \<Rightarrow> bool) \<Rightarrow> ('s, 'v) vfs \<Rightarrow> bool" where
  "vfs_ok good live w \<longleftrightarrow>
     good (fs_state w) \<and>
     (\<forall>m \<in> set (mounts w). live (fs_state w) (guest_fs m) \<and> live (fs_state w) (guest_vnode m) \<and>
        live (fs_state w) (host_vnode m)) \<and>
     (\<forall>f obj v. files w f = Some obj \<longrightarrow> file_vnode obj = Some v \<longrightarrow> live (fs_state w) v)"

text \<open>What a call into a file system may do to the state.\<close>

definition fs_step :: "('s \<Rightarrow> bool) \<Rightarrow> ('s \<Rightarrow> 'v \<Rightarrow> bool) \<Rightarrow> ('s, 'v) vfs \<Rightarrow> ('s, 'v) vfs \<Rightarrow> bool" where
  "fs_step good live w w' \<longleftrightarrow>
     good (fs_state w') \<and> (\<forall>v. live (fs_state w) v \<longrightarrow> live (fs_state w') v) \<and>
     mounts w' = mounts w \<and> files w' = files w \<and> opened_files w' = opened_files w"

lemma fs_step_refl: "vfs_ok good live w \<Longrightarrow> fs_step good live w w"
  by (simp add: vfs_ok_def fs_step_def)

lemma fs_step_trans: "fs_step good live u v \<Longrightarrow> fs_step good live v w \<Longrightarrow> fs_step good live u w"
  by (simp add: fs_step_def)

lemma fs_step_ok: "vfs_ok good live w \<Longrightarrow> fs_step good live w w' \<Longrightarrow> vfs_ok good live w'"
  by (auto simp: vfs_ok_def fs_step_def)

lemma fs_step_live: "fs_step good live w w' \<Longrightarrow> live (fs_state w) v \<Longrightarrow> live (fs_state w') v"
  by (simp add: fs_step_def)

lemma bindE_Inr: "bindE m f = Inr y \<longleftrightarrow> (\<exists>x. m = Inr x \<and> f x = Inr y)"
  by (cases m) simp_all

lemma remove_first_set: "set (takeWhile P xs @ tl (dropWhile P xs)) \<subseteq> set xs"
  by (induction xs) auto

text \<open>The operations of the virtual file system as steps, by a task with the working directory \<open>cwd\<close>.\<close>

inductive vfs_step :: "('s, 'v) vtable \<Rightarrow> 'v \<Rightarrow> ('s, 'v) vfs \<Rightarrow> ('s, 'v) vfs \<Rightarrow> bool"
  for vt :: "('s, 'v) vtable" and cwd :: 'v where
  s_open: "vfs_open vt cwd path options w = Inr (w', f) \<Longrightarrow> vfs_step vt cwd w w'"
| s_close: "close f n w = Inr (w', r) \<Longrightarrow> vfs_step vt cwd w w'"
| s_write: "vfs_write vt f buf w = Inr (w', r) \<Longrightarrow> vfs_step vt cwd w w'"
| s_read: "vfs_read vt junk f len w = Inr (w', buf, r) \<Longrightarrow> vfs_step vt cwd w w'"
| s_access: "access vt cwd path w = Inr (w', r) \<Longrightarrow> vfs_step vt cwd w w'"
| s_mkdir: "mkdir vt cwd path w = Inr (w', r) \<Longrightarrow> vfs_step vt cwd w w'"
| s_mount: "mount vt cwd path fs w = Inr (w', r) \<Longrightarrow> vfs_step vt cwd w w'"
| s_umount: "umount vt cwd path w = Inr (w', r) \<Longrightarrow> vfs_step vt cwd w w'"
| s_mknod: "mknod vt cwd path mode dev w = Inr (w', r) \<Longrightarrow> vfs_step vt cwd w w'"

locale vnode_provider =
  fixes vt :: "('s, 'v) vtable"
    and good :: "'s \<Rightarrow> bool"
    and live :: "'s \<Rightarrow> 'v \<Rightarrow> bool"
    and kids :: "'s \<Rightarrow> 'v \<Rightarrow> name \<Rightarrow> 'v option"
  assumes get_child:
    "vfs_ok good live w \<Longrightarrow> live (fs_state w) v \<Longrightarrow> vt_get_child vt v nm w = Inr (w', r) \<Longrightarrow>
      fs_step good live w w' \<and> (\<forall>u. r = Some u \<longrightarrow> live (fs_state w') u) \<and>
      (r = None \<longrightarrow> kids (fs_state w') v nm = None)"
    and create_child:
    "vfs_ok good live w \<Longrightarrow> live (fs_state w) v \<Longrightarrow> kids (fs_state w) v nm = None \<Longrightarrow>
      (case c of None \<Rightarrow> sz = 0 | Some b \<Rightarrow> unat sz \<le> length b) \<Longrightarrow>
      vt_create_child vt v nm c sz m ui gi w = Inr (w', r) \<Longrightarrow>
      fs_step good live w w' \<and> (\<forall>u. r = Some u \<longrightarrow> live (fs_state w') u)"
    and get_ith_child:
    "vfs_ok good live w \<Longrightarrow> live (fs_state w) v \<Longrightarrow> vt_get_ith_child vt v i w = Inr (w', r) \<Longrightarrow>
      fs_step good live w w'"
    and get_children_count:
    "vfs_ok good live w \<Longrightarrow> live (fs_state w) v \<Longrightarrow> vt_get_children_count vt v w = Inr (w', n) \<Longrightarrow>
      fs_step good live w w'"
    and get_content:
    "vfs_ok good live w \<Longrightarrow> live (fs_state w) v \<Longrightarrow> vt_get_content vt v w = Inr (w', c) \<Longrightarrow>
      fs_step good live w w'"
    and set_content:
    "vfs_ok good live w \<Longrightarrow> live (fs_state w) v \<Longrightarrow> vt_set_content vt v b (of_nat (length b)) w = Inr w' \<Longrightarrow>
      fs_step good live w w'"
    and set_dev: "vfs_ok good live w \<Longrightarrow> fs_step good live w (vt_set_dev vt v d w)"
    and new_tmpfs:
    "vfs_ok good live w \<Longrightarrow> vt_new_tmpfs vt w = (w', v) \<Longrightarrow> fs_step good live w w' \<and> live (fs_state w') v"
    and new_procfs:
    "vfs_ok good live w \<Longrightarrow> vt_new_procfs vt w = (w', v) \<Longrightarrow> fs_step good live w w' \<and> live (fs_state w') v"
    and release_fs: "vfs_ok good live w \<Longrightarrow> vt_release_fs vt v w = Inr w' \<Longrightarrow> fs_step good live w w'"
    and write_char: "vfs_ok good live w \<Longrightarrow> vt_write_char vt cdev ch w = Inr w' \<Longrightarrow> fs_step good live w w'"
    and read_char: "vfs_ok good live w \<Longrightarrow> vt_read_char vt cdev w = Inr (w', ch) \<Longrightarrow> fs_step good live w w'"
begin

abbreviation ok :: "('s, 'v) vfs \<Rightarrow> bool" where
  "ok \<equiv> vfs_ok good live"

abbreviation step :: "('s, 'v) vfs \<Rightarrow> ('s, 'v) vfs \<Rightarrow> bool" where
  "step \<equiv> fs_step good live"

lemma mounted_live:
  assumes "ok w" and "\<And>u. r = Some u \<Longrightarrow> live (fs_state w) u"
    and "get_mounted_vnode_or_host_vnode vt r w = Some v"
  shows "live (fs_state w) v"
  using assms by (auto simp: get_mounted_vnode_or_host_vnode_def vfs_ok_def find_Some_iff
    split: option.splits)

lemma resolve_loop_ok:
  assumes "ok w" and "live (fs_state w) v" and "components \<noteq> []"
    and "\<And>p. parent = Some p \<Longrightarrow> live (fs_state w) p"
    and "resolve_loop vt components v parent w = Inr (w', t, p)"
    and "parent = None"
  shows "step w w' \<and> (\<forall>u. t = Some u \<longrightarrow> live (fs_state w') u) \<and>
    (\<forall>u. p = Some u \<longrightarrow> live (fs_state w') u \<and> (t = None \<longrightarrow> kids (fs_state w') u (last components) = None))"
  using assms
proof (induction components arbitrary: v parent w)
  case (Cons c cs)
  from Cons.prems(5) obtain w1 child where g: "vt_get_child vt v c w = Inr (w1, child)"
    and rest: "(case get_mounted_vnode_or_host_vnode vt child w1 of
        None \<Rightarrow> Inr (w1, None, if cs = [] then Some v else parent)
      | Some child \<Rightarrow> resolve_loop vt cs child (if cs = [] then Some v else parent) w1) = Inr (w', t, p)"
    by (auto simp: bindE_Inr Let_def)
  note law = get_child [OF Cons.prems(1,2) g]
  have ok1: "ok w1" and lv: "live (fs_state w1) v"
    using law Cons.prems(1,2) by (auto intro: fs_step_ok fs_step_live)
  show ?case
  proof (cases "get_mounted_vnode_or_host_vnode vt child w1")
    case None
    then have "child = None"
      by (auto simp: get_mounted_vnode_or_host_vnode_def split: option.splits)
    then show ?thesis using None rest law lv Cons.prems(6) by (auto split: if_splits)
  next
    case (Some x)
    have lx: "live (fs_state w1) x" using mounted_live [OF ok1 _ Some] law by blast
    show ?thesis
    proof (cases "cs = []")
      case True
      then show ?thesis using Some rest law lv lx by auto
    next
      case False
      then have "resolve_loop vt cs x None w1 = Inr (w', t, p)" using Some rest Cons.prems(6) by simp
      from Cons.IH [OF ok1 lx False _ this] show ?thesis
        using law False by (auto intro: fs_step_trans)
    qed
  qed
qed simp

lemma rootfs_live: "ok w \<Longrightarrow> get_rootfs w = Inr r \<Longrightarrow> live (fs_state w) r"
  by (auto simp: get_rootfs_def vfs_ok_def split: list.splits)

lemma resolve_path_ok:
  assumes "ok w" and "live (fs_state w) cwd" and "resolve_path vt cwd path w = Inr (w', r)"
  shows "step w w' \<and> (\<forall>u. r_target r = Some u \<longrightarrow> live (fs_state w') u) \<and>
    (\<forall>u. r_parent r = Some u \<longrightarrow> live (fs_state w') u \<and>
      (r_target r = None \<longrightarrow> kids (fs_state w') u (r_basename r) = None))"
proof (cases "path = [46] \<or> tokens 47 path = []")
  case True
  then show ?thesis
    using assms rootfs_live [OF assms(1)] fs_step_refl [OF assms(1)]
    by (auto simp: resolve_path_def Let_def bindE_Inr split: if_splits)
next
  case False
  then obtain root where root: "live (fs_state w) root"
    and rest: "(if length (tokens 47 path) = 1 then
         bindE (vt_get_child vt root (hd (tokens 47 path)) w) (\<lambda>(w, child).
           Inr (w, \<lparr>r_target = get_mounted_vnode_or_host_vnode vt child w,
             r_parent = Some root, r_basename = hd (tokens 47 path)\<rparr>))
       else bindE (resolve_loop vt (tokens 47 path) root None w) (\<lambda>(w, vnode, parent).
           Inr (w, \<lparr>r_target = vnode, r_parent = parent, r_basename = last (tokens 47 path)\<rparr>))) = Inr (w', r)"
    using assms rootfs_live [OF assms(1)]
    by (auto simp: resolve_path_def Let_def bindE_Inr split: if_splits)
  show ?thesis
  proof (cases "length (tokens 47 path) = 1")
    case True
    then obtain child where g: "vt_get_child vt root (hd (tokens 47 path)) w = Inr (w', child)"
      and r: "r = \<lparr>r_target = get_mounted_vnode_or_host_vnode vt child w',
             r_parent = Some root, r_basename = hd (tokens 47 path)\<rparr>"
      using rest by (auto simp: bindE_Inr)
    note law = get_child [OF assms(1) root g]
    have "ok w'" using law assms(1) by (auto intro: fs_step_ok)
    moreover have "r_target r = None \<Longrightarrow> child = None"
      using r by (auto simp: get_mounted_vnode_or_host_vnode_def split: option.splits)
    ultimately show ?thesis
      using law r root mounted_live [of w' child] by (auto intro: fs_step_live)
  next
    case False
    then have "\<exists>t p. resolve_loop vt (tokens 47 path) root None w = Inr (w', t, p) \<and>
        r = \<lparr>r_target = t, r_parent = p, r_basename = last (tokens 47 path)\<rparr>"
      using rest by (auto simp: bindE_Inr)
    then show ?thesis
      using resolve_loop_ok [OF assms(1) root, of "tokens 47 path" None] \<open>\<not> (path = [46] \<or> tokens 47 path = [])\<close>
      by auto
  qed
qed

lemma create_ok:
  assumes "ok w" and "live (fs_state w) cwd" and "create vt cwd path c sz m w = Inr (w', r)"
    and "case c of None \<Rightarrow> sz = 0 | Some b \<Rightarrow> unat sz \<le> length b"
  shows "step w w' \<and> (\<forall>u. r = Some u \<longrightarrow> live (fs_state w') u)"
proof (cases "path = [46] \<or> path = [46, 46]")
  case True
  then show ?thesis using assms fs_step_refl [OF assms(1)] by (auto simp: create_def)
next
  case False
  then obtain w1 x where p: "resolve_path vt cwd path w = Inr (w1, x)"
    and rest: "(if r_target x \<noteq> None then Inr (w1, None) else case r_parent x of
        None \<Rightarrow> Inr (w1, None)
      | Some parent \<Rightarrow> vt_create_child vt parent (r_basename x) c sz m 0 0 w1) = Inr (w', r)"
    using assms(3) by (auto simp: create_def bindE_Inr)
  note res = resolve_path_ok [OF assms(1,2) p]
  have ok1: "ok w1" using res assms(1) by (auto intro: fs_step_ok)
  show ?thesis
  proof (cases "r_target x = None \<and> r_parent x \<noteq> None")
    case True
    then obtain u where u: "r_parent x = Some u" by auto
    then have "vt_create_child vt u (r_basename x) c sz m 0 0 w1 = Inr (w', r)" using True rest by simp
    from create_child [OF ok1 _ _ assms(4) this] show ?thesis
      using res u True by (auto intro: fs_step_trans)
  next
    case False
    then show ?thesis using rest res by (auto split: if_splits option.splits)
  qed
qed

text \<open>Updates of the table of files and of the mounts.\<close>

lemma ok_file:
  assumes "ok w" and "\<And>v. file_vnode obj = Some v \<Longrightarrow> live (fs_state w) v"
  shows "ok (w\<lparr>files := (files w)(f \<mapsto> obj)\<rparr>)"
  using assms by (auto simp: vfs_ok_def)

lemma ok_new_file:
  assumes "ok w" and "\<And>v. t = Some v \<Longrightarrow> live (fs_state w) v"
  shows "ok (fst (new_file t options w)) \<and> fs_state (fst (new_file t options w)) = fs_state w"
  using assms by (auto simp: vfs_ok_def new_file_def)

lemma ok_opened: "ok (w\<lparr>opened_files := fs\<rparr>) = ok w"
  by (simp add: vfs_ok_def)

lemma ok_add_mount:
  assumes "ok w" and "live (fs_state w) root" and "live (fs_state w) host"
  shows "ok (add_mount root host w)"
  using assms by (auto simp: vfs_ok_def add_mount_def)

lemma ok_fewer_mounts: "ok w \<Longrightarrow> set ms \<subseteq> set (mounts w) \<Longrightarrow> ok (w\<lparr>mounts := ms\<rparr>)"
  by (auto simp: vfs_ok_def)

lemma file_live: "ok w \<Longrightarrow> files w f = Some obj \<Longrightarrow> file_vnode obj = Some v \<Longrightarrow> live (fs_state w) v"
  by (auto simp: vfs_ok_def)

lemma ok_file_step:
  assumes "ok w" and "step w w'" and "files w f = Some obj" and "file_vnode obj' = file_vnode obj"
  shows "ok (w'\<lparr>files := (files w')(f \<mapsto> obj')\<rparr>)"
proof (rule ok_file)
  show "ok w'" using assms(1,2) by (rule fs_step_ok)
  show "live (fs_state w') v" if "file_vnode obj' = Some v" for v
    using file_live [OF assms(1,3)] that assms(2,4) by (simp add: fs_step_live)
qed

text \<open>
  What every operation keeps: the invariant, the live vnodes and the files, and the table of
  opened files has no entry without a file. All but \<open>umount\<close> also keep the mounts.
\<close>

definition keeps :: "('s, 'v) vfs \<Rightarrow> ('s, 'v) vfs \<Rightarrow> bool" where
  "keeps w w' \<longleftrightarrow> ok w' \<and> (\<forall>v. live (fs_state w) v \<longrightarrow> live (fs_state w') v) \<and>
     (\<forall>g. files w g \<noteq> None \<longrightarrow> files w' g \<noteq> None) \<and>
     ((\<forall>g \<in> set (opened_files w). files w g \<noteq> None) \<longrightarrow> (\<forall>g \<in> set (opened_files w'). files w' g \<noteq> None))"

definition stays :: "('s, 'v) vfs \<Rightarrow> ('s, 'v) vfs \<Rightarrow> bool" where
  "stays w w' \<longleftrightarrow> keeps w w' \<and> set (mounts w) \<subseteq> set (mounts w')"

lemmas stays_defs = stays_def keeps_def

lemma staysI: "ok w \<Longrightarrow> step w w' \<Longrightarrow> stays w w'"
  by (auto simp: stays_defs fs_step_def intro: fs_step_ok fs_step_live)

lemma stays_refl: "ok w \<Longrightarrow> stays w w"
  by (simp add: stays_defs)

lemma staysD: "stays w w' \<Longrightarrow> keeps w w'"
  by (simp add: stays_def)

text \<open>The effect of \<open>open\<close>: path resolution, and perhaps a creation and a new file.\<close>

lemma open_form:
  assumes "ok w" and "live (fs_state w) cwd" and "vfs_open vt cwd path options w = Inr (w', f)"
  obtains w1 where "step w w1" "w' = w1" "\<And>g. f = Some g \<Longrightarrow> g \<in> set (opened_files w1)"
  | w1 t where "step w w1" "\<And>u. t = Some u \<Longrightarrow> live (fs_state w1) u"
      "w' = fst (new_file t options w1)" "f = Some (next_file w1)"
proof -
  obtain w1 x where p: "resolve_path vt cwd path w = Inr (w1, x)"
    using assms(3) by (auto simp: vfs_open_def bindE_Inr)
  note res = resolve_path_ok [OF assms(1,2) p]
  have ok1: "ok w1" and cwd1: "live (fs_state w1) cwd"
    using res assms(1,2) by (auto intro: fs_step_ok fs_step_live)
  have "(w' = w1 \<and> (\<forall>g. f = Some g \<longrightarrow> g \<in> set (opened_files w1))) \<or>
      (w' = fst (new_file (r_target x) options w1) \<and> f = Some (next_file w1)) \<or>
      (\<exists>w2 t. create vt cwd path None 0 S_IFREG w1 = Inr (w2, t) \<and> w' = fst (new_file t options w2) \<and>
        f = Some (next_file w2))"
    using assms(3) p
    by (auto simp: vfs_open_def bindE_Inr Let_def case_prod_unfold new_file_def find_Some_iff
        split: if_splits option.splits)
  then show thesis
  proof (elim disjE)
    assume "w' = w1 \<and> (\<forall>g. f = Some g \<longrightarrow> g \<in> set (opened_files w1))"
    then show thesis using that(1) [of w1] res by blast
  next
    assume "w' = fst (new_file (r_target x) options w1) \<and> f = Some (next_file w1)"
    then show thesis using that(2) [of w1 "r_target x"] res by blast
  next
    assume "\<exists>w2 t. create vt cwd path None 0 S_IFREG w1 = Inr (w2, t) \<and> w' = fst (new_file t options w2) \<and>
        f = Some (next_file w2)"
    then obtain w2 t where c: "create vt cwd path None 0 S_IFREG w1 = Inr (w2, t)"
      and w': "w' = fst (new_file t options w2)" "f = Some (next_file w2)" by blast
    have "step w1 w2 \<and> (\<forall>u. t = Some u \<longrightarrow> live (fs_state w2) u)" using create_ok [OF ok1 cwd1 c] by simp
    then show thesis using that(2) [of w2 t] w' res fs_step_trans by blast
  qed
qed

lemma open_ok:
  assumes "ok w" and "live (fs_state w) cwd" and "vfs_open vt cwd path options w = Inr (w', f)"
  shows "stays w w'"
  using assms
proof (rule open_form)
  fix w1 assume "step w w1" "w' = w1"
  then show ?thesis using staysI [OF assms(1)] by simp
next
  fix w1 t assume s: "step w w1" and t: "\<And>u. t = Some u \<Longrightarrow> live (fs_state w1) u"
    and w': "w' = fst (new_file t options w1)"
  have "ok w' \<and> fs_state w' = fs_state w1"
    unfolding w' using t by (intro ok_new_file fs_step_ok [OF assms(1) s])
  then show ?thesis using s unfolding w' by (simp add: stays_defs fs_step_def new_file_def)
qed

lemma open_frame:
  assumes "ok w" and "live (fs_state w) cwd" and "vfs_open vt cwd path options w = Inr (w', f)"
    and "\<forall>g \<in> set (opened_files w). files w g \<noteq> None"
  shows "mounts w' = mounts w \<and> (\<forall>g. files w g \<noteq> None \<longrightarrow> files w' g \<noteq> None) \<and>
    (\<forall>g \<in> set (opened_files w'). files w' g \<noteq> None) \<and> (\<forall>g. f = Some g \<longrightarrow> files w' g \<noteq> None)"
  using assms(1-3)
proof (rule open_form)
  fix w1 assume "step w w1" "w' = w1" "\<And>g. f = Some g \<Longrightarrow> g \<in> set (opened_files w1)"
  then show ?thesis using assms(4) by (simp add: fs_step_def)
next
  fix w1 t assume "step w w1" and "w' = fst (new_file t options w1)" "f = Some (next_file w1)"
  then show ?thesis using assms(4) by (simp add: fs_step_def new_file_def)
qed

lemma close_ok:
  assumes "ok w" and "close f n w = Inr (w', r)"
  shows "stays w w'"
proof -
  have "w' = w \<or> (\<exists>g obj fs. files w g = Some obj \<and> set fs \<subseteq> set (opened_files w) \<and>
      w' = w\<lparr>files := (files w)(g \<mapsto> obj\<lparr>file_pos := 0\<rparr>), opened_files := fs\<rparr>)"
  proof (cases f)
    case None
    then show ?thesis using assms(2) by (simp add: close_def)
  next
    case (Some g)
    then obtain obj where o: "files w g = Some obj" using assms(2) by (auto simp: close_def split: option.splits)
    let ?P = "\<lambda>h. vnode_of_file w h \<noteq> file_vnode obj"
    let ?w = "\<lambda>fs. w\<lparr>files := (files w)(g \<mapsto> obj\<lparr>file_pos := 0\<rparr>), opened_files := fs\<rparr>"
    have "w' = w \<or> w' = ?w (opened_files w) \<or>
        w' = ?w (takeWhile ?P (opened_files w) @ tl (dropWhile ?P (opened_files w)))"
      using assms(2) Some o by (auto simp: close_def Let_def split: if_splits)
    then show ?thesis using o remove_first_set [of ?P "opened_files w"] by blast
  qed
  then show ?thesis
  proof
    assume "\<exists>g obj fs. files w g = Some obj \<and> set fs \<subseteq> set (opened_files w) \<and>
      w' = w\<lparr>files := (files w)(g \<mapsto> obj\<lparr>file_pos := 0\<rparr>), opened_files := fs\<rparr>"
    then obtain g obj fs where o: "files w g = Some obj" and fs: "set fs \<subseteq> set (opened_files w)"
      and w': "w' = w\<lparr>files := (files w)(g \<mapsto> obj\<lparr>file_pos := 0\<rparr>), opened_files := fs\<rparr>" by blast
    have "ok (w\<lparr>files := (files w)(g \<mapsto> obj\<lparr>file_pos := 0\<rparr>)\<rparr>)"
      by (rule ok_file_step [OF assms(1) fs_step_refl [OF assms(1)] o]) simp
    then show ?thesis using fs unfolding w' by (auto simp: stays_defs ok_opened)
  qed (use stays_refl [OF assms(1)] in simp)
qed

lemma write_chars_ok: "ok w \<Longrightarrow> write_chars vt d cs w = Inr w' \<Longrightarrow> step w w'"
proof (induction cs arbitrary: w)
  case (Cons c cs)
  then obtain w1 where "vt_write_char vt d c w = Inr w1" and rest: "write_chars vt d cs w1 = Inr w'"
    by (auto simp: bindE_Inr)
  then have s: "step w w1" using write_char Cons.prems(1) by blast
  from fs_step_trans [OF s Cons.IH [OF fs_step_ok [OF Cons.prems(1) s] rest]] show ?case .
qed (simp add: fs_step_refl)

lemma read_chars_ok: "ok w \<Longrightarrow> read_chars vt d n buf w = Inr (w', b) \<Longrightarrow> step w w'"
proof (induction n arbitrary: w buf)
  case (Suc n)
  then obtain w1 c where "vt_read_char vt d w = Inr (w1, c)" and rest: "read_chars vt d n (buf @ [c]) w1 = Inr (w', b)"
    by (auto simp: bindE_Inr)
  then have s: "step w w1" using read_char Suc.prems(1) by blast
  from fs_step_trans [OF s Suc.IH [OF fs_step_ok [OF Suc.prems(1) s] rest]] show ?case .
qed (simp add: fs_step_refl)

lemma console_steps:
  "ok w \<Longrightarrow> step w (console_write buf w)"
  "ok w \<Longrightarrow> console_read b sz w = Inr (w', r) \<Longrightarrow> step w w'"
  by (auto simp: vfs_ok_def fs_step_def console_write_def console_read_def bindE_Inr)

lemma write_ok:
  assumes "ok w" and "vfs_write vt f buf w = Inr (w', r)"
  shows "stays w w'"
proof -
  have "w' = w \<or> (\<exists>g obj w1 obj'. files w g = Some obj \<and> file_vnode obj' = file_vnode obj \<and>
      step w w1 \<and> w' = w1\<lparr>files := (files w1)(g \<mapsto> obj')\<rparr>)"
  proof (cases f)
    case None
    then show ?thesis using assms by (auto simp: vfs_write_def)
  next
    case (Some g)
    then obtain obj v where gv: "files w g = Some obj" "file_vnode obj = Some v"
      using assms(2) by (auto simp: vfs_write_def split: option.splits)
    let ?obj = "obj\<lparr>file_pos := file_pos obj + of_nat (length buf)\<rparr>"
    have "w' = w \<or> (\<exists>w1. (vt_set_content vt v buf (of_nat (length buf)) w = Inr w1 \<or>
        w1 = console_write buf w \<or> (\<exists>d. write_chars vt d buf w = Inr w1)) \<and>
        w' = w1\<lparr>files := (files w1)(g \<mapsto> ?obj)\<rparr>)"
      using assms(2) Some gv
      by (auto simp: vfs_write_def Let_def bindE_Inr split: option.splits if_splits)
    then show ?thesis
    proof
      assume "\<exists>w1. (vt_set_content vt v buf (of_nat (length buf)) w = Inr w1 \<or>
        w1 = console_write buf w \<or> (\<exists>d. write_chars vt d buf w = Inr w1)) \<and>
        w' = w1\<lparr>files := (files w1)(g \<mapsto> ?obj)\<rparr>"
      then obtain w1 where "step w w1" and w': "w' = w1\<lparr>files := (files w1)(g \<mapsto> ?obj)\<rparr>"
        using set_content [OF assms(1) file_live [OF assms(1) gv]] write_chars_ok [OF assms(1)]
          console_steps(1) [OF assms(1)] by blast
      moreover have "file_vnode ?obj = file_vnode obj" by simp
      ultimately show ?thesis using gv(1) by blast
    qed simp
  qed
  then show ?thesis
    using assms(1) ok_file_step [OF assms(1)] by (auto simp: stays_defs fs_step_def)
qed

lemma read_regular_form:
  assumes "read_regular vt len g obj v w = Inr (w', buf, r)"
  obtains w1 c p where "vt_get_content vt v w = Inr (w1, c)"
    and "w' = w1\<lparr>files := (files w1)(g \<mapsto> obj\<lparr>file_pos := p\<rparr>)\<rparr>"
  using assms by (auto simp: read_regular_def bindE_Inr Let_def)

lemma read_directory_form:
  assumes "read_directory vt junk g obj v w = Inr (w', buf, r)"
  obtains w1 n w2 p where "vt_get_children_count vt v w = Inr (w1, n)"
    and "w2 = w1 \<or> (\<exists>i c. vt_get_ith_child vt v i w1 = Inr (w2, c))"
    and "w' = w2\<lparr>files := (files w2)(g \<mapsto> obj\<lparr>file_pos := p\<rparr>)\<rparr>"
proof -
  obtain w1 n where c: "vt_get_children_count vt v w = Inr (w1, n)"
    using assms by (auto simp: read_directory_def bindE_Inr)
  show thesis
  proof (cases "file_pos obj \<ge> n")
    case True
    then show ?thesis using assms c by (intro that [of w1 n w1 0]) (auto simp: read_directory_def)
  next
    case False
    then obtain w2 u where "vt_get_ith_child vt v (file_pos obj) w1 = Inr (w2, Some u)"
      and "w' = w2\<lparr>files := (files w2)(g \<mapsto> obj\<lparr>file_pos := file_pos obj + 1\<rparr>)\<rparr>"
      using assms c by (auto simp: read_directory_def bindE_Inr split: option.splits)
    then show ?thesis using c by (intro that [of w1 n w2]) auto
  qed
qed

lemma read_ok:
  assumes "ok w" and "vfs_read vt junk f len w = Inr (w', buf, r)"
  shows "stays w w'"
proof (cases f)
  case None
  then show ?thesis using assms by (auto simp: vfs_read_def stays_defs)
next
  case (Some g)
  then obtain obj v where gv: "files w g = Some obj" "file_vnode obj = Some v"
    using assms(2) by (auto simp: vfs_read_def split: option.splits)
  note lv = file_live [OF assms(1) gv]
  have upd: "stays w (w1\<lparr>files := (files w1)(g \<mapsto> obj\<lparr>file_pos := p\<rparr>)\<rparr>)" if "step w w1" for w1 p
    using ok_file_step [OF assms(1) that gv(1), of "obj\<lparr>file_pos := p\<rparr>"] that
    by (simp add: stays_defs fs_step_def)
  consider (reg) "read_regular vt len g obj v w = Inr (w', buf, r)"
    | (dir) "read_directory vt junk g obj v w = Inr (w', buf, r)"
    | (other) "w' = w \<or> (\<exists>d b. read_chars vt d (unat len) [] w = Inr (w', b)) \<or>
        (\<exists>b. console_read (take (unat len) junk) len w = Inr (w', b))"
    using assms(2) Some gv by (auto simp: vfs_read_def Let_def bindE_Inr split: option.splits if_splits)
  then show ?thesis
  proof cases
    case reg
    then show ?thesis
      by (rule read_regular_form) (use upd get_content [OF assms(1) lv] in auto)
  next
    case dir
    then show ?thesis
    proof (rule read_directory_form)
      fix w1 n w2 p
      assume c: "vt_get_children_count vt v w = Inr (w1, n)"
        and i: "w2 = w1 \<or> (\<exists>i c. vt_get_ith_child vt v i w1 = Inr (w2, c))"
        and w': "w' = w2\<lparr>files := (files w2)(g \<mapsto> obj\<lparr>file_pos := p\<rparr>)\<rparr>"
      note s1 = get_children_count [OF assms(1) lv c]
      have "step w1 w2"
        using i get_ith_child [OF fs_step_ok [OF assms(1) s1] fs_step_live [OF s1 lv]]
          fs_step_refl [OF fs_step_ok [OF assms(1) s1]] by blast
      then show ?thesis using upd [OF fs_step_trans [OF s1]] w' by simp
    qed
  next
    case other
    then show ?thesis
      using staysI [OF assms(1)] fs_step_refl [OF assms(1)] read_chars_ok [OF assms(1)]
        console_steps(2) [OF assms(1)] by blast
  qed
qed

lemma mount_ok:
  assumes "ok w" and "live (fs_state w) cwd" and "mount vt cwd path fs w = Inr (w', r)"
  shows "stays w w'"
proof -
  obtain w1 x where p: "resolve_path vt cwd path w = Inr (w1, x)"
    using assms(3) by (auto simp: mount_def bindE_Inr)
  note res = resolve_path_ok [OF assms(1,2) p]
  have ok1: "ok w1" using res assms(1) by (auto intro: fs_step_ok)
  have new: "stays w (add_mount root v w2)"
    if "step w1 w2" "live (fs_state w2) root" "r_target x = Some v" for w2 root v
  proof -
    have "live (fs_state w2) v" using that(1,3) res fs_step_live [OF that(1)] by simp
    then have "ok (add_mount root v w2)" using ok_add_mount fs_step_ok [OF ok1 that(1)] that(2) by blast
    then show ?thesis using res that(1) by (auto simp: stays_defs add_mount_def fs_step_def)
  qed
  have "w' = w1 \<or> (\<exists>w2 root v. (vt_new_tmpfs vt w1 = (w2, root) \<or> vt_new_procfs vt w1 = (w2, root)) \<and>
      r_target x = Some v \<and> w' = add_mount root v w2)"
    using assms(3) p by (auto simp: mount_def Let_def split: option.splits if_splits prod.splits)
  then show ?thesis
    using staysI [OF assms(1)] res new new_tmpfs [OF ok1] new_procfs [OF ok1] by blast
qed

lemma umount_ok:
  assumes "ok w" and "live (fs_state w) cwd" and "umount vt cwd path w = Inr (w', r)"
  shows "keeps w w'"
proof -
  obtain w1 x where p: "resolve_path vt cwd path w = Inr (w1, x)"
    using assms(3) by (auto simp: umount_def bindE_Inr)
  note res = resolve_path_ok [OF assms(1,2) p]
  have ok1: "ok w1" using res assms(1) by (auto intro: fs_step_ok)
  have "w' = w1 \<or> (\<exists>P v. vt_release_fs vt v (w1\<lparr>mounts := takeWhile P (mounts w1) @
      tl (dropWhile P (mounts w1))\<rparr>) = Inr w')"
    using assms(3) p by (auto simp: umount_def bindE_Inr split: option.splits)
  then show ?thesis
  proof
    assume "\<exists>P v. vt_release_fs vt v (w1\<lparr>mounts := takeWhile P (mounts w1) @
      tl (dropWhile P (mounts w1))\<rparr>) = Inr w'"
    then obtain P v where rel: "vt_release_fs vt v (w1\<lparr>mounts := takeWhile P (mounts w1) @
      tl (dropWhile P (mounts w1))\<rparr>) = Inr w'" by blast
    note ok2 = ok_fewer_mounts [OF ok1 remove_first_set]
    from staysI [OF ok2 release_fs [OF ok2 rel]] show ?thesis
      using res by (simp add: stays_defs fs_step_def)
  qed (use res staysI [OF assms(1)] in \<open>auto simp: stays_def\<close>)
qed

lemma mknod_ok:
  assumes "ok w" and "live (fs_state w) cwd" and "mknod vt cwd path mode dev w = Inr (w', r)"
  shows "stays w w'"
proof -
  have "w' = w \<or> (\<exists>w1 v. create vt cwd path None 0 mode w = Inr (w1, v) \<and>
      (w' = w1 \<or> (\<exists>u. w' = vt_set_dev vt u dev w1)))"
    using assms(3) by (auto simp: mknod_def bindE_Inr split: option.splits if_splits)
  moreover have "stays w w1 \<and> stays w (vt_set_dev vt u dev w1)"
    if "create vt cwd path None 0 mode w = Inr (w1, v)" for w1 v u
  proof -
    have "step w w1" using create_ok [OF assms(1,2) that] by simp
    then show ?thesis
      using staysI [OF assms(1)] set_dev [OF fs_step_ok [OF assms(1)]] fs_step_trans by blast
  qed
  ultimately show ?thesis using stays_refl [OF assms(1)] by blast
qed

theorem step_keeps:
  assumes "vfs_step vt cwd w w'" and "ok w" and "live (fs_state w) cwd" and "live (fs_state w) v"
  shows "ok w' \<and> live (fs_state w') v"
proof -
  from assms(1-3) have "keeps w w'"
  proof (induction rule: vfs_step.induct)
    case (s_access path w w' r)
    then obtain x where "resolve_path vt cwd path w = Inr (w', x)" by (auto simp: access_def bindE_Inr)
    then show ?case using resolve_path_ok [OF s_access(2,3)] staysD [OF staysI [OF s_access(2)]] by blast
  next
    case (s_mkdir path w w' r)
    then obtain v where "create vt cwd path None 0 S_IFDIR w = Inr (w', v)" by (auto simp: mkdir_def bindE_Inr)
    then show ?case using create_ok [OF s_mkdir(2,3)] staysD [OF staysI [OF s_mkdir(2)]] by fastforce
  qed (blast intro: staysD [OF open_ok] staysD [OF close_ok] staysD [OF write_ok] staysD [OF read_ok]
    staysD [OF mount_ok] umount_ok staysD [OF mknod_ok])+
  then show ?thesis using assms(4) by (simp add: keeps_def)
qed

end


subsection \<open>Names\<close>

text \<open>
  A provider whose \<open>plain\<close> names are looked up without a side effect in every vnode that is
  still \<open>usable\<close>: what \<open>create_child\<close> adds is found afterwards, and nothing that was found before
  is lost.
\<close>

locale vnode_tree = vnode_provider +
  fixes plain :: "name \<Rightarrow> bool"
    and lookup :: "'a \<Rightarrow> 'b \<Rightarrow> name \<Rightarrow> 'b option"
    and usable :: "'a \<Rightarrow> 'b \<Rightarrow> bool"
  assumes lookup_child:
    "vfs_ok good live w \<Longrightarrow> live (fs_state w) v \<Longrightarrow> plain nm \<Longrightarrow>
      vt_get_child vt v nm w =
        (if usable (fs_state w) v then Inr (w, lookup (fs_state w) v nm) else Inl UseAfterFree)"
    and create_lookup:
    "vfs_ok good live w \<Longrightarrow> live (fs_state w) v \<Longrightarrow> plain nm \<Longrightarrow> lookup (fs_state w) v nm = None \<Longrightarrow>
      (case c of None \<Rightarrow> sz = 0 | Some b \<Rightarrow> unat sz \<le> length b) \<Longrightarrow>
      vt_create_child vt v nm c sz m ui gi w = Inr (w', r) \<Longrightarrow>
      (\<exists>u. r = Some u \<and> lookup (fs_state w') v nm = Some u) \<and>
      (\<forall>x nm y. lookup (fs_state w) x nm = Some y \<longrightarrow> lookup (fs_state w') x nm = Some y) \<and>
      (\<forall>x. live (fs_state w) x \<longrightarrow> usable (fs_state w') x = usable (fs_state w) x \<and>
        vt_hash_code vt x w' = vt_hash_code vt x w)"
begin

text \<open>The effect of a creation on everything that could be reached before.\<close>

definition extends :: "('a, 'b) vfs \<Rightarrow> ('a, 'b) vfs \<Rightarrow> bool" where
  "extends w w' \<longleftrightarrow> step w w' \<and>
     (\<forall>x nm y. lookup (fs_state w) x nm = Some y \<longrightarrow> lookup (fs_state w') x nm = Some y) \<and>
     (\<forall>x. live (fs_state w) x \<longrightarrow> usable (fs_state w') x = usable (fs_state w) x \<and>
       vt_hash_code vt x w' = vt_hash_code vt x w)"

lemma mounted_extends:
  assumes "ok w" and "extends w w'" and "live (fs_state w) y"
  shows "get_mounted_vnode_or_host_vnode vt (Some y) w' = get_mounted_vnode_or_host_vnode vt (Some y) w"
proof -
  have "find (\<lambda>m. vt_hash_code vt (host_vnode m) w' = vt_hash_code vt y w') (mounts w') =
      find (\<lambda>m. vt_hash_code vt (host_vnode m) w = vt_hash_code vt y w) (mounts w)"
    using assms by (intro find_cong) (auto simp: extends_def fs_step_def vfs_ok_def)
  then show ?thesis by (simp add: get_mounted_vnode_or_host_vnode_def)
qed

lemma lookup_live:
  assumes "ok w" and "live (fs_state w) v" and "plain nm" and "usable (fs_state w) v"
    and "lookup (fs_state w) v nm = Some y"
  shows "live (fs_state w) y"
  using get_child [OF assms(1,2)] lookup_child [OF assms(1-3)] assms(4,5) by simp

lemma mounted_None: "get_mounted_vnode_or_host_vnode vt r w = None \<longleftrightarrow> r = None"
  by (auto simp: get_mounted_vnode_or_host_vnode_def split: option.splits)

text \<open>A walk that ended one step short of its goal reaches it after the creation.\<close>

lemma resolve_loop_created:
  assumes "ok w" and "live (fs_state w) v" and "list_all plain cs" and "cs \<noteq> []"
    and "resolve_loop vt cs v None w = Inr (w1, None, Some p)"
  shows "w1 = w \<and> live (fs_state w) p \<and> plain (last cs) \<and> lookup (fs_state w) p (last cs) = None \<and>
    (\<forall>w' u. extends w w' \<longrightarrow> lookup (fs_state w') p (last cs) = Some u \<longrightarrow>
      resolve_loop vt cs v None w' = Inr (w', get_mounted_vnode_or_host_vnode vt (Some u) w', Some p))"
  using assms
proof (induction cs arbitrary: v)
  case (Cons c cs)
  have pc: "plain c" using Cons.prems(3) by simp
  have us: "usable (fs_state w) v"
    using Cons.prems(5) lookup_child [OF Cons.prems(1,2) pc] by (auto simp: Let_def split: if_splits)
  then have l: "vt_get_child vt v c w = Inr (w, lookup (fs_state w) v c)"
    using lookup_child [OF Cons.prems(1,2) pc] by simp
  have l': "vt_get_child vt v c w' = Inr (w', lookup (fs_state w') v c)" if "extends w w'" for w'
  proof -
    have s: "step w w'" and "usable (fs_state w') v"
      using that us Cons.prems(2) by (simp_all add: extends_def)
    then show ?thesis
      using lookup_child [OF fs_step_ok [OF Cons.prems(1) s] fs_step_live [OF s Cons.prems(2)] pc] by simp
  qed
  show ?case
  proof (cases "cs = []")
    case True
    then have "lookup (fs_state w) v c = None" "w1 = w" "p = v"
      using Cons.prems(5) l mounted_None by (auto simp: Let_def split: option.splits)
    then show ?thesis using True Cons.prems(2) pc l'
      by (auto simp: Let_def get_mounted_vnode_or_host_vnode_def split: option.splits)
  next
    case False
    then obtain y x where y: "lookup (fs_state w) v c = Some y"
      and x: "get_mounted_vnode_or_host_vnode vt (Some y) w = Some x"
      and rest: "resolve_loop vt cs x None w = Inr (w1, None, Some p)"
      using Cons.prems(5) l mounted_None [of None w]
      by (cases "lookup (fs_state w) v c") (auto simp: Let_def split: option.splits)
    have ly: "live (fs_state w) y" by (rule lookup_live [OF Cons.prems(1,2) pc us y])
    have lx: "live (fs_state w) x" using mounted_live [OF Cons.prems(1) _ x] ly by blast
    have "resolve_loop vt (c # cs) v None w' = resolve_loop vt cs x None w'" if e: "extends w w'" for w'
    proof -
      have "lookup (fs_state w') v c = Some y" using e y by (simp add: extends_def)
      then show ?thesis using l' [OF e] mounted_extends [OF Cons.prems(1) e ly] x False by (simp add: Let_def)
    qed
    then show ?thesis using Cons.IH [OF Cons.prems(1) lx _ False rest] Cons.prems(3) False by simp
  qed
qed simp

lemma resolve_path_loop:
  assumes "path \<noteq> [46]" and "tokens 47 path \<noteq> []"
  shows "resolve_path vt cwd path w =
    bindE (if hd path = 47 then get_rootfs w else Inr cwd) (\<lambda>root.
    bindE (resolve_loop vt (tokens 47 path) root None w) (\<lambda>(w, t, p).
    Inr (w, \<lparr>r_target = t, r_parent = p, r_basename = last (tokens 47 path)\<rparr>)))"
proof (cases "length (tokens 47 path) = 1")
  case True
  then obtain c where c: "tokens 47 path = [c]" by (cases "tokens 47 path") auto
  have one: "bindE (vt_get_child vt root c w) (\<lambda>(w, child).
      Inr (w, \<lparr>r_target = get_mounted_vnode_or_host_vnode vt child w, r_parent = Some root, r_basename = c\<rparr>)) =
    bindE (resolve_loop vt [c] root None w) (\<lambda>(w, t, p).
      Inr (w, \<lparr>r_target = t, r_parent = p, r_basename = c\<rparr>))" for root
    by (cases "vt_get_child vt root c w") (auto simp: Let_def split: option.splits)
  show ?thesis unfolding resolve_path_def Let_def using assms c one by simp
next
  case False
  then show ?thesis unfolding resolve_path_def Let_def using assms by simp
qed

text \<open>What is created can be resolved, and cannot be created again.\<close>

theorem create_resolves:
  assumes "ok w" and "live (fs_state w) cwd" and "list_all plain (tokens 47 path)"
    and "case c of None \<Rightarrow> sz = 0 | Some b \<Rightarrow> unat sz \<le> length b"
    and "create vt cwd path c sz m w = Inr (w', Some u)"
  shows "\<exists>r. resolve_path vt cwd path w' = Inr (w', r) \<and>
    r_target r = get_mounted_vnode_or_host_vnode vt (Some u) w'"
proof -
  have path: "path \<noteq> [46]" "path \<noteq> [46, 46]" using assms(5) by (auto simp: create_def)
  then obtain w1 x p where r: "resolve_path vt cwd path w = Inr (w1, x)" and t: "r_target x = None"
    and p: "r_parent x = Some p" and cr: "vt_create_child vt p (r_basename x) c sz m 0 0 w1 = Inr (w', Some u)"
    using assms(5) by (auto simp: create_def bindE_Inr split: if_splits option.splits)
  have ne: "tokens 47 path \<noteq> []"
    using r t path(1) by (auto simp: resolve_path_def bindE_Inr)
  obtain root where root: "(if hd path = 47 then get_rootfs w else Inr cwd) = Inr root"
    and loop: "resolve_loop vt (tokens 47 path) root None w = Inr (w1, None, Some p)"
    and base: "r_basename x = last (tokens 47 path)"
    using r t p unfolding resolve_path_loop [OF path(1) ne] by (auto simp: bindE_Inr)
  have lr: "live (fs_state w) root"
    using root assms(2) rootfs_live [OF assms(1)] by (auto split: if_splits)
  note res = resolve_loop_created [OF assms(1) lr assms(3) ne loop]
  have w1: "w1 = w" using res by simp
  note law = create_lookup [OF assms(1) _ _ _ assms(4) cr [unfolded w1 base]]
  have "step w w'" using create_ok [OF assms(1,2,5,4)] by simp
  then have e: "extends w w'" using law res by (simp add: extends_def)
  have "lookup (fs_state w') p (last (tokens 47 path)) = Some u" using law res by simp
  then have "resolve_loop vt (tokens 47 path) root None w' =
      Inr (w', get_mounted_vnode_or_host_vnode vt (Some u) w', Some p)" using res e by blast
  moreover have "(if hd path = 47 then get_rootfs w' else Inr cwd) = Inr root"
    using root e by (auto simp: extends_def fs_step_def get_rootfs_def)
  ultimately show ?thesis unfolding resolve_path_loop [OF path(1) ne] by simp
qed

end

end
