(* ===== verification/MemFSTheorems.thy ===== *)
theory MemFSTheorems
  imports MemFS VFSTheorems
begin

text \<open>
  The file systems in memory keep the contract of \<open>VFSTheorems\<close>: the interpretation \<open>mem\<close> of
  \<open>vnode_provider\<close> on \<open>memfs_vtable\<close>. Their invariant \<open>fs_ok\<close> says that every inode but a root
  has a parent that is older than itself, so that no inode is its own ancestor, that the
  children of a directory have it as their parent, that the files of a \<open>TmpFS\<close> directory have
  different names, and that the size of a file is backed by its content.
\<close>

definition size_ok :: "inode \<Rightarrow> bool" where
  "size_ok n = (case i_content n of None \<Rightarrow> i_size n = 0 | Some b \<Rightarrow> unat (i_size n) \<le> length b)"

lemma size_ok_update [simp]:
  "size_ok (n\<lparr>i_children := cs\<rparr>) = size_ok n" "size_ok (n\<lparr>i_dev := d\<rparr>) = size_ok n"
  by (simp_all add: size_ok_def cong: option.case_cong)

definition name_in :: "memfs \<Rightarrow> nat \<Rightarrow> name option" where
  "name_in s i = map_option i_name (inodes s i)"

text \<open>The root of the file system of an inode is of the same kind of file system.\<close>

definition root_ok :: "memfs \<Rightarrow> nat \<Rightarrow> inode_kind \<Rightarrow> bool" where
  "root_ok s r k \<longleftrightarrow> (\<exists>m. inodes s r = Some m \<and> (i_kind m = TmpFSInode \<longleftrightarrow> k = TmpFSInode))"

definition inode_ok :: "memfs \<Rightarrow> nat \<Rightarrow> inode \<Rightarrow> bool" where
  "inode_ok s i n \<longleftrightarrow>
     i < next_inode s \<and> root_ok s (i_fs n) (i_kind n) \<and>
     (case i_parent n of None \<Rightarrow> i = i_fs n | Some p \<Rightarrow> inodes s p \<noteq> None \<and> p < i) \<and>
     (\<forall>c \<in> set (i_children n). \<exists>m. inodes s c = Some m \<and> i_parent m = Some i) \<and>
     (i_kind n = TmpFSInode \<longrightarrow> distinct (map (name_in s) (i_children n)) \<and> size_ok n)"

definition fs_ok :: "memfs \<Rightarrow> bool" where
  "fs_ok s \<longleftrightarrow> (\<forall>i n. inodes s i = Some n \<longrightarrow> inode_ok s i n)"

definition live_inode :: "memfs \<Rightarrow> nat \<Rightarrow> bool" where
  "live_inode s i \<longleftrightarrow> inodes s i \<noteq> None"

definition kids :: "memfs \<Rightarrow> nat \<Rightarrow> name \<Rightarrow> nat option" where
  "kids s i nm =
     (case inodes s i of
        None \<Rightarrow> None
      | Some n \<Rightarrow> if i_kind n = TmpFSInode then find (\<lambda>c. name_in s c = Some nm) (i_children n) else None)"

abbreviation mem_ok :: "world \<Rightarrow> bool" where
  "mem_ok \<equiv> vfs_ok fs_ok live_inode"

abbreviation mem_step :: "world \<Rightarrow> world \<Rightarrow> bool" where
  "mem_step \<equiv> fs_step fs_ok live_inode"


subsection \<open>Updates of the heap of inodes\<close>

lemma fs_okD: "fs_ok s \<Longrightarrow> inodes s i = Some n \<Longrightarrow> inode_ok s i n"
  by (simp add: fs_ok_def)

lemma fresh_inode: "fs_ok s \<Longrightarrow> inodes s (next_inode s) = None"
  by (cases "inodes s (next_inode s)") (auto dest: fs_okD simp: inode_ok_def)

lemma fs_ok_update:
  assumes "fs_ok s" and "inodes s i = Some n"
    and same: "i_parent n' = i_parent n" "i_name n' = i_name n" "i_kind n' = i_kind n" "i_fs n' = i_fs n"
    and kids: "\<And>c. c \<in> set (i_children n') \<Longrightarrow> \<exists>m. inodes s c = Some m \<and> i_parent m = Some i"
    and tmpfs: "i_kind n = TmpFSInode \<Longrightarrow> distinct (map (name_in s) (i_children n')) \<and> size_ok n'"
  shows "fs_ok (s\<lparr>inodes := (inodes s)(i \<mapsto> n')\<rparr>)"
proof -
  let ?s = "s\<lparr>inodes := (inodes s)(i \<mapsto> n')\<rparr>"
  have nm: "name_in ?s = name_in s" using assms(2) same(2) by (auto simp: name_in_def)
  have par: "\<exists>m. inodes ?s c = Some m \<and> i_parent m = Some j"
    if "\<exists>m. inodes s c = Some m \<and> i_parent m = Some j" for c j
    using that assms(2) same(1) by auto
  have root: "root_ok ?s j k" if "root_ok s j k" for j k
    using that assms(2) same(3) by (auto simp: root_ok_def)
  show ?thesis
    unfolding fs_ok_def
  proof (intro allI impI)
    fix j m assume m: "inodes ?s j = Some m"
    show "inode_ok ?s j m"
    proof (cases "j = i")
      case True
      then have "m = n'" using m by simp
      then show ?thesis
        using fs_okD [OF assms(1,2)] same kids [THEN par] tmpfs True root
        unfolding inode_ok_def nm by (auto split: option.splits)
    next
      case False
      then have "inodes s j = Some m" using m by simp
      then show ?thesis
        using fs_okD [OF assms(1), of j m] par root
        unfolding inode_ok_def nm by (auto split: option.splits)
    qed
  qed
qed

lemma fs_ok_new:
  assumes "fs_ok s" and "i_children n = []"
    and "i_fs n = next_inode s \<or> root_ok s (i_fs n) (i_kind n)"
    and "case i_parent n of None \<Rightarrow> next_inode s = i_fs n | Some p \<Rightarrow> inodes s p \<noteq> None"
    and "i_kind n = TmpFSInode \<Longrightarrow> size_ok n"
  shows "fs_ok (s\<lparr>inodes := (inodes s)(next_inode s \<mapsto> n), next_inode := Suc (next_inode s)\<rparr>)"
proof -
  let ?i = "next_inode s"
  let ?s = "s\<lparr>inodes := (inodes s)(?i \<mapsto> n), next_inode := Suc ?i\<rparr>"
  note fresh = fresh_inode [OF assms(1)]
  have old: "p < ?i" if "inodes s p = Some m" for p m
    using fs_okD [OF assms(1) that] by (simp add: inode_ok_def)
  show ?thesis
    unfolding fs_ok_def
  proof (intro allI impI)
    fix j m assume m: "inodes ?s j = Some m"
    show "inode_ok ?s j m"
    proof (cases "j = ?i")
      case True
      then show ?thesis
        using m assms(2-) fresh old by (auto simp: inode_ok_def root_ok_def split: option.splits)
    next
      case False
      then have j: "inode_ok s j m" using m fs_okD [OF assms(1)] by simp
      then have "?i \<notin> set (i_children m)" using fresh by (auto simp: inode_ok_def)
      then have "map (name_in ?s) (i_children m) = map (name_in s) (i_children m)"
        by (auto simp: name_in_def)
      then have d: "distinct (map (name_in ?s) (i_children m)) = distinct (map (name_in s) (i_children m))"
        by (rule arg_cong)
      have "root_ok ?s (i_fs m) (i_kind m)" using j fresh by (auto simp: inode_ok_def root_ok_def)
      then show ?thesis using j fresh unfolding inode_ok_def d
        by (auto split: option.splits)
    qed
  qed
qed


subsection \<open>The primitive steps\<close>

text \<open>A new inode, and a new child of an existing one.\<close>

lemma idx_step: "get_next_inode_idx w = (w', x) \<Longrightarrow>
  fs_state w' = fs_state w \<and> mounts w' = mounts w \<and> files w' = files w \<and> opened_files w' = opened_files w"
  by (auto simp: get_next_inode_idx_def)

lemma new_node_step:
  assumes "mem_ok w" and "fs_state w1 = fs_state w" "mounts w1 = mounts w" "files w1 = files w" "opened_files w1 = opened_files w"
    and "new_node n w1 = (w', i)" and "i_children n = []"
    and "i_fs n = i \<or> root_ok (fs_state w) (i_fs n) (i_kind n)"
    and "case i_parent n of None \<Rightarrow> i = i_fs n | Some p \<Rightarrow> live_inode (fs_state w) p"
    and "i_kind n = TmpFSInode \<Longrightarrow> size_ok n"
  shows "mem_step w w' \<and> inodes (fs_state w') = (inodes (fs_state w))(i \<mapsto> n) \<and>
    inodes (fs_state w) i = None"
proof -
  have w': "w' = w1\<lparr>fs_state := (fs_state w)\<lparr>inodes := (inodes (fs_state w))(i \<mapsto> n), next_inode := Suc i\<rparr>\<rparr>"
    and i: "i = next_inode (fs_state w)"
    using assms(2,6) by (auto simp: new_node_def Let_def)
  have ok: "fs_ok (fs_state w)" using assms(1) by (simp add: vfs_ok_def)
  have "fs_ok (fs_state w')"
    using fs_ok_new [OF ok, of n] assms(7-) unfolding w' i
    by (auto simp: live_inode_def split: option.splits)
  then show ?thesis
    using assms(3-5) fresh_inode [OF ok] unfolding w' i by (simp add: fs_step_def live_inode_def)
qed

lemma set_node_step:
  assumes "mem_ok w" and "inodes (fs_state w) i = Some n"
    and "i_parent n' = i_parent n" "i_name n' = i_name n" "i_kind n' = i_kind n" "i_fs n' = i_fs n"
    and "\<And>c. c \<in> set (i_children n') \<Longrightarrow> \<exists>m. inodes (fs_state w) c = Some m \<and> i_parent m = Some i"
    and "i_kind n = TmpFSInode \<Longrightarrow> distinct (map (name_in (fs_state w)) (i_children n')) \<and> size_ok n'"
  shows "mem_step w (set_node i n' w)"
proof -
  have ok: "fs_ok (fs_state w)" using assms(1) by (simp add: vfs_ok_def)
  have "fs_ok ((fs_state w)\<lparr>inodes := (inodes (fs_state w))(i \<mapsto> n')\<rparr>)"
    by (rule fs_ok_update [OF ok assms(2-8)])
  then show ?thesis by (simp add: set_node_def fs_step_def live_inode_def)
qed

lemma inode_okD:
  assumes "mem_ok w" and "inodes (fs_state w) i = Some n"
  shows "inode_ok (fs_state w) i n"
  using assms by (simp add: vfs_ok_def fs_okD)

lemma children_parent:
  assumes "mem_ok w" and "inodes (fs_state w) i = Some n" and "c \<in> set (i_children n)"
  shows "\<exists>m. inodes (fs_state w) c = Some m \<and> i_parent m = Some i"
  using inode_okD [OF assms(1,2)] assms(3) by (simp add: inode_ok_def)

text \<open>An update of the content, the size or the device number only.\<close>

lemma set_fields_step:
  assumes "mem_ok w" and "inodes (fs_state w) i = Some n"
    and "i_parent n' = i_parent n" "i_name n' = i_name n" "i_kind n' = i_kind n" "i_fs n' = i_fs n"
    and "i_children n' = i_children n" and "i_kind n = TmpFSInode \<Longrightarrow> size_ok n'"
  shows "mem_step w (set_node i n' w)"
proof (rule set_node_step [OF assms(1-6)])
  show "\<exists>m. inodes (fs_state w) c = Some m \<and> i_parent m = Some i" if "c \<in> set (i_children n')" for c
    using children_parent [OF assms(1,2)] that assms(7) by simp
  show "distinct (map (name_in (fs_state w)) (i_children n')) \<and> size_ok n'" if "i_kind n = TmpFSInode"
    using inode_okD [OF assms(1,2)] that assms(7,8) by (simp add: inode_ok_def)
qed

text \<open>A child is added; in a directory of \<open>TmpFS\<close> under a name not yet taken.\<close>

lemma add_child_step:
  assumes "mem_ok w" and "add_child i c w = Inr w'"
    and "inodes (fs_state w) c = Some m" and "i_parent m = Some i"
    and "kids (fs_state w) i (i_name m) = None"
  shows "mem_step w w'"
proof -
  obtain n where n: "inodes (fs_state w) i = Some n"
    and w': "w' = set_node i (n\<lparr>i_children := i_children n @ [c]\<rparr>) w"
    using assms(2) by (auto simp: add_child_def node_def bindE_Inr split: option.splits)
  note ok = inode_okD [OF assms(1) n]
  have "distinct (map (name_in (fs_state w)) (i_children n @ [c])) \<and> size_ok n" if k: "i_kind n = TmpFSInode"
  proof -
    have "\<forall>d \<in> set (i_children n). name_in (fs_state w) d \<noteq> Some (i_name m)"
      using assms(5) n k by (simp add: kids_def find_None_iff)
    moreover have "name_in (fs_state w) c = Some (i_name m)" using assms(3) by (simp add: name_in_def)
    ultimately have "name_in (fs_state w) c \<notin> name_in (fs_state w) ` set (i_children n)" by force
    then show ?thesis using ok k by (simp add: inode_ok_def)
  qed
  then show ?thesis
    unfolding w' using children_parent [OF assms(1) n] assms(3,4)
    by (intro set_node_step [OF assms(1) n]) auto
qed

text \<open>Children are taken out.\<close>

lemma subseq_facts:
  assumes "subseq xs ys"
  shows "set xs \<subseteq> set ys" and "distinct ys \<Longrightarrow> distinct xs"
proof -
  show "set xs \<subseteq> set ys" using assms by (auto dest: list_emb_set)
  show "distinct ys \<Longrightarrow> distinct xs"
    using assms by (induction rule: list_emb.induct) (auto dest: list_emb_set)
qed

lemma fewer_children_step:
  assumes "mem_ok w" and "inodes (fs_state w) i = Some n" and "subseq cs (i_children n)"
  shows "mem_step w (set_node i (n\<lparr>i_children := cs\<rparr>) w)"
proof (rule set_node_step [OF assms(1,2)])
  show "\<exists>m. inodes (fs_state w) c = Some m \<and> i_parent m = Some i"
    if "c \<in> set (i_children (n\<lparr>i_children := cs\<rparr>))" for c
  proof -
    have "c \<in> set (i_children n)" using that subseq_facts(1) [OF assms(3)] by auto
    then show ?thesis by (rule children_parent [OF assms(1,2)])
  qed
  show "distinct (map (name_in (fs_state w)) (i_children (n\<lparr>i_children := cs\<rparr>))) \<and> size_ok (n\<lparr>i_children := cs\<rparr>)"
    if "i_kind n = TmpFSInode"
    using inode_okD [OF assms(1,2)] that subseq_facts(2) [OF subseq_map [OF assms(3)]]
    by (auto simp: inode_ok_def)
qed simp_all

lemma remove_first_subseq: "subseq (takeWhile P xs @ tl (dropWhile P xs)) xs"
  by (induction xs) (auto intro: subseq_Cons')


subsection \<open>The operations of the inodes\<close>

lemma nodeE: "node w i = Inr n \<longleftrightarrow> inodes (fs_state w) i = Some n"
  by (auto simp: node_def split: option.splits)

lemma has_name_in: "has_name w nm = (\<lambda>i. name_in (fs_state w) i = Some nm)"
  by (rule ext) (auto simp: has_name_def name_in_def split: option.splits)

lemma fs_root: "mem_ok w \<Longrightarrow> inodes (fs_state w) i = Some n \<Longrightarrow> root_ok (fs_state w) (i_fs n) (i_kind n)"
  by (auto dest!: inode_okD simp: inode_ok_def)

lemma child_live:
  "mem_ok w \<Longrightarrow> inodes (fs_state w) i = Some n \<Longrightarrow> find P (i_children n) = Some c \<Longrightarrow> live_inode (fs_state w) c"
  by (auto simp: find_Some_iff live_inode_def dest!: children_parent [OF _ _ nth_mem])

lemma get_parent_live:
  assumes "get_parent w i = Some r" and "mem_ok w" and "live_inode (fs_state w) i" and "r = Inr p"
  shows "\<exists>q. p = Some q \<and> live_inode (fs_state w) q"
  using assms(2-)
proof (induction arbitrary: p rule: get_parent.raw_induct [OF _ assms(1), consumes 0])
  case (1 gp w i r)
  note IH = 1(1) and body = 1(2) and ok = 1(3) and lv = 1(4) and r = 1(5)
  obtain n where n: "inodes (fs_state w) i = Some n" using lv by (auto simp: live_inode_def)
  show ?case
  proof (cases "is_root_vnode w i n = Inr True")
    case True
    then obtain h where h: "get_host_vnode w i = Some h" and g: "gp w h = Some r"
      using body r n by (auto simp: node_def split: option.splits)
    have "live_inode (fs_state w) h"
      using h ok by (auto simp: get_host_vnode_def vfs_ok_def find_Some_iff)
    with IH [OF g ok] r show ?thesis by blast
  next
    case False
    then have "p = i_parent n" and "is_root_vnode w i n = Inr False"
      using body r n by (auto simp: node_def split: sum.splits if_splits)
    then show ?thesis
      using inode_okD [OF ok n]
      by (auto simp: inode_ok_def is_root_vnode_def live_inode_def split: option.splits if_splits)
  qed
qed

lemma parent_of_live:
  assumes "parent_of w i = Inr p" and "mem_ok w" and "live_inode (fs_state w) i"
  shows "\<exists>q. p = Some q \<and> live_inode (fs_state w) q"
  using assms get_parent_live by (auto simp: parent_of_def bindE_Inr returned_def split: option.splits)

definition child_law :: "world \<Rightarrow> nat \<Rightarrow> name \<Rightarrow> world \<Rightarrow> nat option \<Rightarrow> bool" where
  "child_law w v nm w' r \<longleftrightarrow> mem_step w w' \<and> (\<forall>u. r = Some u \<longrightarrow> live_inode (fs_state w') u) \<and>
     (r = None \<longrightarrow> kids (fs_state w') v nm = None)"

lemma tmpfs_get_child_law:
  assumes "mem_ok w" and "live_inode (fs_state w) v" and "tmpfs_get_child v nm w = Inr (w', r)"
  shows "child_law w v nm w' r"
proof (cases "nm = dot \<or> nm = dot_dot")
  case True
  then show ?thesis
    using assms fs_step_refl [OF assms(1)] parent_of_live [OF _ assms(1,2)]
    by (auto simp: tmpfs_get_child_def child_law_def bindE_Inr nodeE inode_shared_from_this_def kids_def split: if_splits)
next
  case False
  then obtain n where n: "inodes (fs_state w) v = Some n" and w: "w' = w"
    and r: "r = find (\<lambda>i. name_in (fs_state w) i = Some nm) (i_children n)"
    using assms(3) by (auto simp: tmpfs_get_child_def bindE_Inr nodeE has_name_in)
  then show ?thesis
    using fs_step_refl [OF assms(1)] child_live [OF assms(1) n] by (auto simp: child_law_def kids_def)
qed

lemma TmpFSInode_new_step:
  assumes "mem_ok w" and "TmpFSInode_new fs (Some p) nm c sz m ui gi w = Inr (w', i)"
    and "root_ok (fs_state w) fs TmpFSInode" and "live_inode (fs_state w) p"
    and "case c of None \<Rightarrow> sz = 0 | Some b \<Rightarrow> unat sz \<le> length b"
  shows "mem_step w w' \<and> (\<exists>n. inodes (fs_state w') = (inodes (fs_state w))(i \<mapsto> n) \<and>
    inodes (fs_state w) i = None \<and> i_parent n = Some p \<and> i_name n = nm \<and> i_kind n = TmpFSInode \<and>
    i_mode n = m \<and> i_children n = [])"
proof -
  obtain w1 idx where idx: "get_next_inode_idx w = (w1, idx)" by (cases "get_next_inode_idx w") auto
  obtain bytes where b: "(case c of None \<Rightarrow> bytes = None | Some b \<Rightarrow> bytes = (if sz > 0 then Some (take (unat sz) b) else None))"
    and new: "new_node \<lparr>i_kind = TmpFSInode, i_fs = fs, i_index = ucast idx, i_size = sz, i_mode = m,
        i_uid = ui, i_gid = gi, i_dev = 0, i_name = nm, i_content = bytes, i_parent = Some p,
        i_children = []\<rparr> w1 = (w', i)"
    using assms(2) idx by (auto simp: TmpFSInode_new_def bindE_Inr split: option.splits if_splits)
  have "sz = 0" if "\<not> 0 < sz" using that by (simp add: word_gt_0)
  then have size: "case bytes of None \<Rightarrow> sz = 0 | Some b \<Rightarrow> unat sz \<le> length b"
    using b assms(5) by (auto split: option.splits if_splits)
  let ?n = "\<lparr>i_kind = TmpFSInode, i_fs = fs, i_index = ucast idx, i_size = sz, i_mode = m,
        i_uid = ui, i_gid = gi, i_dev = 0, i_name = nm, i_content = bytes, i_parent = Some p,
        i_children = []\<rparr>"
  have "size_ok ?n" using size by (cases bytes) (simp_all add: size_ok_def)
  then have "mem_step w w' \<and> inodes (fs_state w') = (inodes (fs_state w))(i \<mapsto> ?n) \<and>
    inodes (fs_state w) i = None"
    using idx_step [OF idx] assms(3,4) by (intro new_node_step [OF assms(1) _ _ _ _ new]) auto
  then show ?thesis by (intro conjI exI [of _ ?n]) auto
qed

lemma tmpfs_create_child_law:
  assumes "mem_ok w" and "live_inode (fs_state w) v" and "kids (fs_state w) v nm = None"
    and "case c of None \<Rightarrow> sz = 0 | Some b \<Rightarrow> unat sz \<le> length b"
    and "tmpfs_create_child v nm c sz m ui gi w = Inr (w', r)" and "is_tmpfs w v"
  shows "mem_step w w' \<and> (\<forall>u. r = Some u \<longrightarrow> live_inode (fs_state w') u)"
proof -
  obtain n w1 i where n: "inodes (fs_state w) v = Some n"
    and new: "TmpFSInode_new (i_fs n) (Some v) nm c sz m ui gi w = Inr (w1, i)"
    and add: "add_child v i w1 = Inr w'" and r: "r = Some i"
    using assms(5) by (auto simp: tmpfs_create_child_def bindE_Inr nodeE)
  obtain x where s: "mem_step w w1" and h: "inodes (fs_state w1) = (inodes (fs_state w))(i \<mapsto> x)"
    and fresh: "inodes (fs_state w) i = None" and x: "i_parent x = Some v" "i_name x = nm"
    using TmpFSInode_new_step [OF assms(1) new _ assms(2,4)] fs_root [OF assms(1) n] assms(6) n
    by (auto simp: is_tmpfs_def)
  have ok1: "mem_ok w1" using assms(1) s by (rule fs_step_ok)
  have "i \<notin> set (i_children n)" using children_parent [OF assms(1) n] fresh by force
  then have "kids (fs_state w1) v nm = None"
    using assms(3) n h fresh by (auto simp: kids_def find_None_iff name_in_def split: if_splits)
  then have "mem_step w1 w'" using add_child_step [OF ok1 add, of x] h x by simp
  then show ?thesis
    using s r h fs_step_live [of fs_ok live_inode w1 w' i] by (auto intro: fs_step_trans simp: live_inode_def)
qed

lemma release_inode_same: "release_inode i w = Inr w' \<Longrightarrow> w' = w"
  by (auto simp: release_inode_def split: option.splits if_splits)

text \<open>\<open>ProcFS\<close>: a new inode with a parent, its directories and its contents.\<close>

definition proc_step :: "world \<Rightarrow> world \<Rightarrow> bool" where
  "proc_step w w' \<longleftrightarrow> mem_step w w' \<and>
     (\<forall>j n. inodes (fs_state w) j = Some n \<longrightarrow>
        (\<exists>n'. inodes (fs_state w') j = Some n' \<and> i_kind n' = i_kind n \<and> i_parent n' = i_parent n))"

definition proc_dir :: "world \<Rightarrow> nat \<Rightarrow> bool" where
  "proc_dir w i \<longleftrightarrow> (\<exists>n. inodes (fs_state w) i = Some n \<and> i_kind n \<noteq> TmpFSInode)"

definition parent_is :: "world \<Rightarrow> nat \<Rightarrow> nat \<Rightarrow> bool" where
  "parent_is w p i \<longleftrightarrow> (\<exists>n. inodes (fs_state w) i = Some n \<and> i_parent n = Some p)"

lemma proc_step_trans: "proc_step u v \<Longrightarrow> proc_step v w \<Longrightarrow> proc_step u w"
  unfolding proc_step_def by (metis fs_step_trans)

lemma proc_step_refl: "mem_ok w \<Longrightarrow> proc_step w w"
  by (simp add: proc_step_def fs_step_refl)

lemma proc_stepD:
  assumes "proc_step w w'"
  shows "mem_ok w \<Longrightarrow> mem_ok w'" and "proc_dir w i \<Longrightarrow> proc_dir w' i" and "parent_is w p i \<Longrightarrow> parent_is w' p i"
    and "mem_step w w'"
  using assms by (auto simp: proc_step_def proc_dir_def parent_is_def intro: fs_step_ok)
    (metis option.sel)+

lemma proc_dir_live: "proc_dir w i \<Longrightarrow> live_inode (fs_state w) i"
  by (auto simp: proc_dir_def live_inode_def)

lemma ProcFSInode_new_step:
  assumes "mem_ok w" and "ProcFSInode_new k fs parent nm m w = (w', i)" and "k \<noteq> TmpFSInode"
    and "fs = i \<or> proc_dir w fs"
    and "case parent of None \<Rightarrow> i = fs | Some p \<Rightarrow> live_inode (fs_state w) p"
  shows "proc_step w w' \<and> proc_dir w' i \<and> (\<forall>p. parent = Some p \<longrightarrow> parent_is w' p i)"
proof -
  obtain w1 idx where idx: "get_next_inode_idx w = (w1, idx)" by (cases "get_next_inode_idx w") auto
  let ?n = "\<lparr>i_kind = k, i_fs = fs, i_index = ucast idx, i_size = 0, i_mode = m, i_uid = 0,
        i_gid = 0, i_dev = 0, i_name = nm, i_content = None, i_parent = parent, i_children = []\<rparr>"
  have new: "new_node ?n w1 = (w', i)" using assms(2) idx by (simp add: ProcFSInode_new_def)
  have "mem_step w w' \<and> inodes (fs_state w') = (inodes (fs_state w))(i \<mapsto> ?n) \<and>
    inodes (fs_state w) i = None"
    using idx_step [OF idx] assms(3-)
    by (intro new_node_step [OF assms(1) _ _ _ _ new])
      (auto simp: proc_dir_def root_ok_def split: option.splits)
  then show ?thesis using assms(3) by (auto simp: proc_step_def proc_dir_def parent_is_def)
qed

lemma add_proc_child_step:
  assumes "mem_ok w" and "proc_dir w i" and "parent_is w i c" and "add_child i c w = Inr w'"
  shows "proc_step w w'"
proof -
  obtain n where n: "inodes (fs_state w) i = Some n" "i_kind n \<noteq> TmpFSInode"
    and w': "w' = set_node i (n\<lparr>i_children := i_children n @ [c]\<rparr>) w"
    using assms(2,4) by (auto simp: add_child_def bindE_Inr nodeE proc_dir_def)
  obtain m where m: "inodes (fs_state w) c = Some m" "i_parent m = Some i"
    using assms(3) by (auto simp: parent_is_def)
  have "kids (fs_state w) i (i_name m) = None" using n by (simp add: kids_def)
  then have "mem_step w w'" by (rule add_child_step [OF assms(1,4) m])
  then show ?thesis using n unfolding w' by (simp add: proc_step_def set_node_def)
qed

lemma add_child_returns: "live_inode (fs_state w) i \<Longrightarrow> \<exists>w'. add_child i c w = Inr w'"
  by (auto simp: add_child_def node_def live_inode_def)

lemma add_proc_file_step:
  assumes "mem_ok w" and "proc_dir w i" and "k \<noteq> TmpFSInode"
  shows "proc_step w (add_proc_file k nm i w)"
proof -
  obtain w1 c where new: "ProcFSInode_new k i (Some i) nm S_IFREG w = (w1, c)" by fastforce
  have n: "proc_step w w1" "parent_is w1 i c"
    using ProcFSInode_new_step [OF assms(1) new assms(3)] proc_dir_live [OF assms(2)] assms(2) by simp_all
  note w1 = proc_stepD(1) [OF n(1) assms(1)] proc_stepD(2) [OF n(1) assms(2)]
  obtain w2 where a: "add_child i c w1 = Inr w2" using add_child_returns [OF proc_dir_live [OF w1(2)]] by blast
  have "proc_step w1 w2" by (rule add_proc_child_step [OF w1 n(2) a])
  then show ?thesis using n(1) new a by (simp add: add_proc_file_def) (rule proc_step_trans)
qed

lemma ProcFS_step:
  assumes "mem_ok w" and "ProcFS w = (w', v)"
  shows "mem_step w w' \<and> live_inode (fs_state w') v"
proof -
  obtain w1 root where new: "ProcFSInode_new ProcFSInode (next_inode (fs_state w)) None [47] S_IFDIR w = (w1, root)"
    by fastforce
  have root: "root = next_inode (fs_state w)"
    using new by (auto simp: ProcFSInode_new_def get_next_inode_idx_def new_node_def Let_def)
  have s: "proc_step w w1" and r: "proc_dir w1 root"
    using ProcFSInode_new_step [OF assms(1) new] root by simp_all
  define G where "G x \<longleftrightarrow> proc_step w x \<and> mem_ok x \<and> proc_dir x root" for x
  have more: "G (add_proc_file k nm root x)" if "G x" "k \<noteq> TmpFSInode" for x k nm
  proof -
    have f: "proc_step x (add_proc_file k nm root x)"
      using add_proc_file_step that by (simp add: G_def)
    show ?thesis using that proc_stepD(1,2) [OF f] proc_step_trans [OF _ f] by (simp add: G_def)
  qed
  have "G w1" using s r proc_stepD(1) [OF s assms(1)] by (simp add: G_def)
  moreover have "w' = add_proc_file SlobInfoInode slobinfo_name root (add_proc_file BuddyInfoInode
      buddyinfo_name root (add_proc_file HelloInode hello_name root (add_proc_file SwitchInode
      switch_name root w1)))" and "v = root"
    using assms(2) new by (auto simp: ProcFS_def Let_def)
  ultimately have "G w'" and "v = root" by (simp_all add: more)
  then show ?thesis by (auto simp: G_def dest: proc_stepD(4) proc_dir_live)
qed

lemma add_task_dir_step:
  assumes "mem_ok w" and "proc_dir w i" and "add_task_dir i i nm w = Inr (w', d)"
  shows "proc_step w w' \<and> live_inode (fs_state w') d"
proof -
  obtain w1 c where n1: "ProcFSInode_new ProcFSInode i (Some i) nm S_IFDIR w = (w1, c)" by fastforce
  obtain w2 e where n2: "ProcFSInode_new TaskStatusInode i (Some c) status_name S_IFREG w1 = (w2, e)" by fastforce
  obtain w3 where a1: "add_child c e w2 = Inr w3" and a2: "add_child i c w3 = Inr w'" and d: "d = c"
    using assms(3) n1 n2 by (auto simp: add_task_dir_def bindE_Inr)
  have s1: "proc_step w w1" and c1: "proc_dir w1 c" "parent_is w1 i c"
    using ProcFSInode_new_step [OF assms(1) n1] proc_dir_live [OF assms(2)] assms(2) by simp_all
  note w1 = proc_stepD(1) [OF s1 assms(1)] proc_stepD(2) [OF s1 assms(2)]
  have s2: "proc_step w1 w2" and e2: "parent_is w2 c e"
    using ProcFSInode_new_step [OF w1(1) n2] proc_dir_live [OF c1(1)] w1(2) by simp_all
  note w2 = proc_stepD(1) [OF s2 w1(1)] proc_stepD(2) [OF s2 w1(2)] proc_stepD(2) [OF s2 c1(1)]
    proc_stepD(3) [OF s2 c1(2)]
  have s3: "proc_step w2 w3" by (rule add_proc_child_step [OF w2(1,3) e2 a1])
  note w3 = proc_stepD(1) [OF s3 w2(1)] proc_stepD(2) [OF s3 w2(2)] proc_stepD(2) [OF s3 w2(3)]
    proc_stepD(3) [OF s3 w2(4)]
  have s4: "proc_step w3 w'" by (rule add_proc_child_step [OF w3(1,2,4) a2])
  show ?thesis
    using proc_step_trans [OF s1 proc_step_trans [OF s2 proc_step_trans [OF s3 s4]]]
      proc_dir_live [OF proc_stepD(2) [OF s4 w3(3)]] d by simp
qed

lemma populate_tasks_step:
  "mem_ok w \<Longrightarrow> proc_dir w i \<Longrightarrow> populate_tasks ts i w = Inr w' \<Longrightarrow> proc_step w w'"
proof (induction ts arbitrary: w)
  case (Cons t ts)
  obtain w1 where w1: "w1 = w \<or> (\<exists>d. add_task_dir i i (pid_str (t_pid t)) w = Inr (w1, d))"
    and rest: "populate_tasks ts i w1 = Inr w'"
    using Cons.prems(3) by (auto simp: bindE_Inr split: if_splits)
  have s: "proc_step w w1"
    using w1 add_task_dir_step [OF Cons.prems(1,2)] proc_step_refl [OF Cons.prems(1)] by blast
  show ?case
    by (rule proc_step_trans [OF s Cons.IH [OF proc_stepD(1) [OF s Cons.prems(1)] proc_stepD(2) [OF s Cons.prems(2)] rest]])
qed (simp add: proc_step_refl)

lemma fewer_proc_step:
  assumes "mem_ok w" and "inodes (fs_state w) i = Some n" and "subseq cs (i_children n)"
  shows "proc_step w (set_node i (n\<lparr>i_children := cs\<rparr>) w)"
  using fewer_children_step [OF assms] assms(2) by (simp add: proc_step_def) (simp add: set_node_def)

lemma repopulate_step:
  assumes "mem_ok w" and "proc_dir w i" and "repopulate_task_directories i w = Inr w'"
  shows "proc_step w w'"
proof -
  obtain n where n: "inodes (fs_state w) i = Some n" using assms(2) by (auto simp: proc_dir_def)
  let ?w = "set_node i (n\<lparr>i_children := takeWhile (\<lambda>i. \<not> stale w i) (i_children n) @
    tl (dropWhile (\<lambda>i. \<not> stale w i) (i_children n))\<rparr>) w"
  have s: "proc_step w ?w" by (rule fewer_proc_step [OF assms(1) n remove_first_subseq])
  have "populate_tasks (active_tasks (fs_state ?w)) i ?w = Inr w'"
    using assms(3) n by (auto simp: repopulate_task_directories_def node_def bindE_Inr dest!: release_inode_same)
  from populate_tasks_step [OF proc_stepD(1) [OF s assms(1)] proc_stepD(2) [OF s assms(2)] this]
  show ?thesis by (rule proc_step_trans [OF s])
qed

lemma procfs_get_child_law:
  assumes "mem_ok w" and "proc_dir w v" and "procfs_get_child v nm w = Inr (w', r)"
  shows "child_law w v nm w' r"
proof -
  have lv: "live_inode (fs_state w) v" by (rule proc_dir_live [OF assms(2)])
  obtain n where n: "inodes (fs_state w) v = Some n" using assms(2) by (auto simp: proc_dir_def)
  have "proc_step w w' \<and> (\<forall>u. r = Some u \<longrightarrow> live_inode (fs_state w') u)"
  proof (cases "nm = dot \<or> nm = dot_dot")
    case True
    then show ?thesis
      using assms(1,3) lv proc_step_refl [OF assms(1)] parent_of_live [OF _ assms(1) lv]
      by (auto simp: procfs_get_child_def bindE_Inr inode_shared_from_this_def split: if_splits)
  next
    case False
    let ?it = "find (has_name w nm) (i_children n)"
    have "(w' = w \<and> (r = None \<or> r = ?it)) \<or>
        (r = None \<and> (\<exists>c. remove_child v nm w = Inr (w', c))) \<or>
        (\<exists>d. v = i_fs n \<and> add_task_dir v (i_fs n) nm w = Inr (w', d) \<and> r = Some d)"
      using assms(3) n False
      by (auto simp: procfs_get_child_def node_def Let_def bindE_Inr is_root_vnode_def
          split: if_splits dest!: release_inode_same)
    then show ?thesis
    proof (elim disjE)
      assume "w' = w \<and> (r = None \<or> r = ?it)"
      then show ?thesis using proc_step_refl [OF assms(1)] child_live [OF assms(1) n] by auto
    next
      assume "r = None \<and> (\<exists>c. remove_child v nm w = Inr (w', c))"
      then show ?thesis
        using fewer_proc_step [OF assms(1) n remove_first_subseq] n
        by (auto simp: remove_child_def node_def)
    next
      assume "\<exists>d. v = i_fs n \<and> add_task_dir v (i_fs n) nm w = Inr (w', d) \<and> r = Some d"
      then show ?thesis using add_task_dir_step [OF assms(1,2)] by auto
    qed
  qed
  moreover from this have "proc_dir w' v" using proc_stepD(2) assms(2) by blast
  then have "kids (fs_state w') v nm = None" by (auto simp: proc_dir_def kids_def)
  ultimately show ?thesis by (auto simp: child_law_def dest: proc_stepD(4))
qed

lemma get_children_count_law:
  assumes "mem_ok w" and "live_inode (fs_state w) v"
    and "vt_get_children_count memfs_vtable v w = Inr (w', n)"
  shows "mem_step w w'"
proof (cases "is_tmpfs w v")
  case True
  then show ?thesis using assms fs_step_refl
    by (auto simp: memfs_vtable_def tmpfs_get_children_count_def bindE_Inr)
next
  case False
  obtain x where x: "inodes (fs_state w) v = Some x" using assms(2) by (auto simp: live_inode_def)
  have "i_kind x \<noteq> TmpFSInode" using False x by (simp add: is_tmpfs_def)
  then have "proc_dir w (i_fs x)" using fs_root [OF assms(1) x] by (auto simp: root_ok_def proc_dir_def)
  moreover have "repopulate_task_directories (i_fs x) w = Inr w'"
    using assms(3) False x
    by (auto simp: memfs_vtable_def procfs_get_children_count_def node_def bindE_Inr
        split: option.splits if_splits)
  ultimately show ?thesis using repopulate_step [OF assms(1)] proc_stepD(4) by blast
qed

lemma store_content_step:
  assumes "mem_ok w" and "inodes (fs_state w) i = Some n" and "i_kind n \<noteq> TmpFSInode"
    and "store_content i b sz w = Inr (w', r)"
  shows "mem_step w w'"
  using assms set_fields_step [OF assms(1,2), of "n\<lparr>i_content := Some b, i_size := sz\<rparr>"]
  by (auto simp: store_content_def node_def)

lemmas content_defs = switch_get_content_def hello_get_content_def buddyinfo_get_content_def
  slobinfo_get_content_def status_get_content_def text_content_def

lemma get_content_law:
  assumes "mem_ok w" and "get_content v w = Inr (w', c)"
  shows "mem_step w w'"
proof -
  obtain n where n: "inodes (fs_state w) v = Some n"
    using assms(2) by (auto simp: get_content_def bindE_Inr nodeE)
  have "w' = w \<or> (i_kind n \<noteq> TmpFSInode \<and> (\<exists>b sz r. store_content v b sz w = Inr (w', r)))"
    using assms(2) n
    by (auto simp: get_content_def node_def content_defs bindE_Inr split: inode_kind.splits option.splits if_splits)
  then show ?thesis using fs_step_refl [OF assms(1)] store_content_step [OF assms(1) n] by blast
qed

lemma set_content_law:
  assumes "mem_ok w" and "set_content v b (of_nat (length b)) w = Inr w'"
  shows "mem_step w w'"
proof -
  obtain n where n: "inodes (fs_state w) v = Some n"
    using assms(2) by (auto simp: set_content_def bindE_Inr nodeE)
  let ?n = "n\<lparr>i_content := Some b, i_size := of_nat (length b)\<rparr>"
  have "w' = w \<or> w' = set_node v ?n w \<or> (\<exists>x. w' = w\<lparr>fs_state := (fs_state w)\<lparr>is_switch_on := x\<rparr>\<rparr>)"
    using assms(2) n
    by (auto simp: set_content_def node_def tmpfs_set_content_def switch_set_content_def bindE_Inr
        split: inode_kind.splits)
  moreover have "mem_step w (set_node v ?n w)"
    by (rule set_fields_step [OF assms(1) n]) (simp_all add: size_ok_def unat_of_nat)
  moreover have "fs_ok ((fs_state w)\<lparr>is_switch_on := x\<rparr>) = fs_ok (fs_state w)" for x
    by (simp add: fs_ok_def inode_ok_def root_ok_def name_in_def [abs_def] cong: option.case_cong)
  ultimately show ?thesis
    using assms(1) fs_step_refl [OF assms(1)] by (auto simp: fs_step_def live_inode_def vfs_ok_def)
qed

lemma TmpFS_step:
  assumes "mem_ok w" and "TmpFS w = (w', v)"
  shows "mem_step w w' \<and> live_inode (fs_state w') v"
proof -
  obtain w1 idx where idx: "get_next_inode_idx w = (w1, idx)" by (cases "get_next_inode_idx w") auto
  note i = idx_step [OF idx]
  let ?n = "\<lparr>i_kind = TmpFSInode, i_fs = next_inode (fs_state w), i_index = ucast idx, i_size = 0,
        i_mode = S_IFDIR, i_uid = 0, i_gid = 0, i_dev = 0, i_name = [47], i_content = None,
        i_parent = None, i_children = []\<rparr>"
  have new: "new_node ?n w1 = (w', v)" using assms(2) idx i by (simp add: TmpFS_def)
  then have "v = next_inode (fs_state w)" using i by (auto simp: new_node_def Let_def)
  then have "mem_step w w' \<and> inodes (fs_state w') = (inodes (fs_state w))(v \<mapsto> ?n) \<and>
    inodes (fs_state w) v = None"
    using i by (intro new_node_step [OF assms(1) _ _ _ _ new]) (auto simp: size_ok_def)
  then show ?thesis by (auto simp: live_inode_def)
qed

lemma set_dev_law:
  assumes "mem_ok w"
  shows "mem_step w (vt_set_dev memfs_vtable v d w)"
proof (cases "inodes (fs_state w) v")
  case None
  then show ?thesis using fs_step_refl [OF assms] by (simp add: memfs_vtable_def)
next
  case (Some n)
  have "mem_step w (set_node v (n\<lparr>i_dev := d\<rparr>) w)"
    using inode_okD [OF assms Some] by (intro set_fields_step [OF assms Some]) (auto simp: inode_ok_def)
  then show ?thesis using Some by (simp add: memfs_vtable_def)
qed

lemma fs_ok_freed: "fs_ok (s\<lparr>fs_freed := x\<rparr>) = fs_ok s"
  by (simp add: fs_ok_def inode_ok_def root_ok_def name_in_def [abs_def] cong: option.case_cong)

lemma release_fs_law:
  assumes "mem_ok w" and "release_fs v w = Inr w'"
  shows "mem_step w w'"
  using assms by (auto simp: release_fs_def fs_step_def vfs_ok_def fs_ok_freed live_inode_def
    dest!: release_inode_same)

lemma not_tmpfs: "live_inode (fs_state w) v \<Longrightarrow> \<not> is_tmpfs w v \<Longrightarrow> proc_dir w v"
  by (auto simp: live_inode_def is_tmpfs_def proc_dir_def)

lemma get_child_law:
  assumes "mem_ok w" and "live_inode (fs_state w) v" and "vt_get_child memfs_vtable v nm w = Inr (w', r)"
  shows "child_law w v nm w' r"
  using assms tmpfs_get_child_law [OF assms(1,2)] procfs_get_child_law [OF assms(1) not_tmpfs [OF assms(2)]]
  by (cases "is_tmpfs w v") (auto simp: memfs_vtable_def)

interpretation mem: vnode_provider memfs_vtable fs_ok live_inode kids
proof (unfold_locales, goal_cases)
  case (1 w v nm w' r)
  then show ?case using get_child_law by (simp add: child_law_def)
next
  case (2 w v nm c sz m ui gi w' r)
  then show ?case
    by (cases "is_tmpfs w v")
      (auto simp: memfs_vtable_def procfs_create_child_def dest: tmpfs_create_child_law)
next
  case (3 w v i w' r)
  then show ?case using fs_step_refl [of fs_ok live_inode w]
    by (auto simp: memfs_vtable_def get_ith_child_def bindE_Inr split: if_splits)
next
  case (4 w v w' n)
  then show ?case by (rule get_children_count_law)
next
  case (5 w v w' c)
  then show ?case using get_content_law [of w v w' c] by (simp add: memfs_vtable_def)
next
  case (6 w v b w')
  then show ?case using set_content_law [of w v b w'] by (simp add: memfs_vtable_def)
next
  case (7 w v d)
  then show ?case by (rule set_dev_law)
next
  case (8 w w' v)
  then show ?case using TmpFS_step by (simp add: memfs_vtable_def)
next
  case (9 w w' v)
  then show ?case using ProcFS_step by (simp add: memfs_vtable_def)
next
  case (10 w v w')
  then show ?case using release_fs_law by (simp add: memfs_vtable_def)
qed (simp_all add: memfs_vtable_def)


subsection \<open>The rest of the kernel\<close>

text \<open>
  What the rest of the kernel changes between two operations: who holds which inode, the
  tasks, the reports of the allocators and the characters that wait at the serial port.
\<close>

definition surroundings ::
  "(nat \<Rightarrow> bool) \<Rightarrow> task_info list \<Rightarrow> name \<Rightarrow> name \<Rightarrow> u8 list \<Rightarrow> world \<Rightarrow> world" where
  "surroundings h ts b s input w =
     w\<lparr>fs_state := (fs_state w)\<lparr>held := h, active_tasks := ts, buddy_info := b, slob_info := s\<rparr>,
       uart_in := input\<rparr>"

lemma surroundings_ok [simp]:
  "mem_ok (surroundings h ts b s input w) = mem_ok w"
  "live_inode (fs_state (surroundings h ts b s input w)) i = live_inode (fs_state w) i"
  "inodes (fs_state (surroundings h ts b s input w)) = inodes (fs_state w)"
proof -
  have "fs_ok (x\<lparr>held := h, active_tasks := ts, buddy_info := b, slob_info := s\<rparr>) = fs_ok x" for x
    by (simp add: fs_ok_def inode_ok_def root_ok_def name_in_def [abs_def] cong: option.case_cong)
  then show "mem_ok (surroundings h ts b s input w) = mem_ok w"
    by (simp add: surroundings_def vfs_ok_def live_inode_def)
qed (simp_all add: surroundings_def live_inode_def)

end
