(* ===== verification/FSProperties.thy ===== *)
theory FSProperties
  imports MemFSTheorems "HOL-Library.Multiset"
begin

text \<open>
  What the virtual file system does over the file systems in memory: names that are created
  can be resolved (through the interpretation \<open>tree\<close> of \<open>vnode_tree\<close>), what is written is
  read back, mounts redirect a path, and all reachable states are well-formed.
\<close>

definition plain_name :: "name \<Rightarrow> bool" where
  "plain_name nm \<longleftrightarrow> nm \<noteq> dot \<and> nm \<noteq> dot_dot \<and> \<not> all_digits nm"

definition lookup_name :: "memfs \<Rightarrow> nat \<Rightarrow> name \<Rightarrow> nat option" where
  "lookup_name s i nm =
     (case inodes s i of None \<Rightarrow> None | Some n \<Rightarrow> find (\<lambda>c. name_in s c = Some nm) (i_children n))"

text \<open>A lookup in \<open>ProcFS\<close> reads \<open>_fs\<close>, one in \<open>TmpFS\<close> does not.\<close>

definition usable_inode :: "memfs \<Rightarrow> nat \<Rightarrow> bool" where
  "usable_inode s i =
     (case inodes s i of None \<Rightarrow> True | Some n \<Rightarrow> i_kind n = TmpFSInode \<or> \<not> fs_freed s (i_fs n))"

lemma tmpfs_create_form:
  assumes "mem_ok w" and "tmpfs_create_child v nm c sz m ui gi w = Inr (w', r)"
  obtains n x i where "inodes (fs_state w) v = Some n" and "r = Some i" and "i = next_inode (fs_state w)"
    and "fs_state w' = (fs_state w)\<lparr>inodes := (inodes (fs_state w))(i \<mapsto> x,
        v \<mapsto> n\<lparr>i_children := i_children n @ [i]\<rparr>), next_inode := Suc i\<rparr>"
    and "i_name x = nm" "i_children x = []" "i_mode x = m" "i_kind x = TmpFSInode" "i_parent x = Some v"
proof -
  obtain w1 idx where idx: "get_next_inode_idx w = (w1, idx)" by (cases "get_next_inode_idx w") auto
  note e = idx_step [OF idx]
  obtain n w2 i where n: "inodes (fs_state w) v = Some n"
    and new: "TmpFSInode_new (i_fs n) (Some v) nm c sz m ui gi w = Inr (w2, i)"
    and add: "add_child v i w2 = Inr w'" and r: "r = Some i"
    using assms(2) by (auto simp: tmpfs_create_child_def bindE_Inr nodeE)
  obtain bytes where b: "new_node \<lparr>i_kind = TmpFSInode, i_fs = i_fs n, i_index = ucast idx, i_size = sz,
        i_mode = m, i_uid = ui, i_gid = gi, i_dev = 0, i_name = nm, i_content = bytes, i_parent = Some v,
        i_children = []\<rparr> w1 = (w2, i)"
    using new idx by (auto simp: TmpFSInode_new_def bindE_Inr)
  let ?x = "\<lparr>i_kind = TmpFSInode, i_fs = i_fs n, i_index = ucast idx, i_size = sz,
        i_mode = m, i_uid = ui, i_gid = gi, i_dev = 0, i_name = nm, i_content = bytes, i_parent = Some v,
        i_children = []\<rparr>"
  have i: "i = next_inode (fs_state w)"
    and w2: "fs_state w2 = (fs_state w)\<lparr>inodes := (inodes (fs_state w))(i \<mapsto> ?x), next_inode := Suc i\<rparr>"
    using b e by (auto simp: new_node_def Let_def)
  have "inodes (fs_state w) i = None" using fresh_inode assms(1) i by (simp add: vfs_ok_def)
  then have "v \<noteq> i" using n by auto
  then have "w' = set_node v (n\<lparr>i_children := i_children n @ [i]\<rparr>) w2"
    using add w2 n by (simp add: add_child_def node_def)
  then have "fs_state w' = (fs_state w)\<lparr>inodes := (inodes (fs_state w))(i \<mapsto> ?x,
        v \<mapsto> n\<lparr>i_children := i_children n @ [i]\<rparr>), next_inode := Suc i\<rparr>"
    using w2 by (simp add: set_node_def)
  then show thesis by (rule that [OF n r i]) simp_all
qed

lemma find_append: "find P (xs @ ys) = (case find P xs of None \<Rightarrow> find P ys | Some x \<Rightarrow> Some x)"
  by (induction xs) auto

lemma create_effect:
  assumes "mem_ok w" and "lookup_name (fs_state w) v nm = None"
    and "tmpfs_create_child v nm c sz m ui gi w = Inr (w', r)"
  shows "(\<exists>u. r = Some u \<and> lookup_name (fs_state w') v nm = Some u) \<and>
    (\<forall>x nm y. lookup_name (fs_state w) x nm = Some y \<longrightarrow> lookup_name (fs_state w') x nm = Some y) \<and>
    (\<forall>x. live_inode (fs_state w) x \<longrightarrow> usable_inode (fs_state w') x = usable_inode (fs_state w) x \<and>
      vt_hash_code memfs_vtable x w' = vt_hash_code memfs_vtable x w)"
proof -
  obtain n x i where n: "inodes (fs_state w) v = Some n" and r: "r = Some i"
    and i: "i = next_inode (fs_state w)"
    and w': "fs_state w' = (fs_state w)\<lparr>inodes := (inodes (fs_state w))(i \<mapsto> x,
        v \<mapsto> n\<lparr>i_children := i_children n @ [i]\<rparr>), next_inode := Suc i\<rparr>"
    and x: "i_name x = nm" "i_children x = []"
    by (rule tmpfs_create_form [OF assms(1,3)])
  have fresh: "inodes (fs_state w) i = None" using fresh_inode assms(1) i by (simp add: vfs_ok_def)
  have nm: "name_in (fs_state w') j = (if j = i then Some nm else name_in (fs_state w) j)" for j
    using n x fresh w' by (auto simp: name_in_def)
  have old: "find (\<lambda>j. name_in (fs_state w') j = Some k) (i_children y) =
      find (\<lambda>j. name_in (fs_state w) j = Some k) (i_children y)" if "inodes (fs_state w) l = Some y" for k l y
  proof (rule find_cong)
    fix j assume "j \<in> set (i_children y)"
    then have "j \<noteq> i" using children_parent [OF assms(1) that] fresh by force
    then show "(name_in (fs_state w') j = Some k) = (name_in (fs_state w) j = Some k)" by (simp add: nm)
  qed simp
  have inew: "inodes (fs_state w') j = (if j = v then Some (n\<lparr>i_children := i_children n @ [i]\<rparr>)
      else if j = i then Some x else inodes (fs_state w) j)" for j
    using w' by simp
  have "lookup_name (fs_state w') v nm = Some i"
    using assms(2) old [OF n] n by (simp add: lookup_name_def inew find_append nm)
  moreover have "lookup_name (fs_state w') j k = Some y" if l: "lookup_name (fs_state w) j k = Some y" for j k y
  proof -
    obtain z where z: "inodes (fs_state w) j = Some z" using l by (auto simp: lookup_name_def split: option.splits)
    then have "j \<noteq> i" using fresh by auto
    then show ?thesis using l z n old [OF z] by (auto simp: lookup_name_def inew find_append)
  qed
  moreover have "vt_hash_code memfs_vtable j w' = vt_hash_code memfs_vtable j w" if "live_inode (fs_state w) j" for j
    using that fresh n w'
    by (auto simp: memfs_vtable_def field_def is_tmpfs_def tmpfs_hash_def procfs_hash_def weak_hash_def
        live_inode_def split: option.splits)
  moreover have "usable_inode (fs_state w') j = usable_inode (fs_state w) j" if "live_inode (fs_state w) j" for j
    using that fresh n w' by (auto simp: usable_inode_def live_inode_def)
  ultimately show ?thesis using r by auto
qed

interpretation tree: vnode_tree memfs_vtable fs_ok live_inode kids plain_name lookup_name usable_inode
proof (unfold_locales, goal_cases)
  case (1 w v nm)
  then obtain n where n: "inodes (fs_state w) v = Some n" by (auto simp: live_inode_def)
  show ?case
    using 1(3) n
    by (simp add: memfs_vtable_def tmpfs_get_child_def procfs_get_child_def plain_name_def node_def
        lookup_name_def has_name_in is_tmpfs_def is_root_vnode_def usable_inode_def)
next
  case (2 w v nm c sz m ui gi w' r)
  then have "is_tmpfs w v" by (auto simp: memfs_vtable_def procfs_create_child_def split: if_splits)
  then show ?case using create_effect [OF 2(1,4)] 2(6) by (simp add: memfs_vtable_def)
qed


subsection \<open>The states of a running system\<close>

definition empty_memfs :: memfs where
  "empty_memfs = \<lparr>inodes = (\<lambda>_. None), next_inode = 0, is_switch_on = False, active_tasks = [],
     buddy_info = [], slob_info = [], ctrl_addr = (\<lambda>i. of_nat (64 * Suc i)),
     held = (\<lambda>_. False), fs_freed = (\<lambda>_. False)\<rparr>"

definition booted :: world where
  "booted = (case mount_rootfs 0 (fst (TmpFS (VFS empty_memfs))) of Inl e \<Rightarrow> VFS empty_memfs | Inr w \<Rightarrow> w)"

lemma boot_ok:
  assumes "inodes s = (\<lambda>_. None)" and "TmpFS (VFS s) = (w0, root)" and "mount_rootfs root w0 = Inr w1"
  shows "mem_ok w1 \<and> live_inode (fs_state w1) root"
proof -
  have "mem_ok (VFS s)" using assms(1) by (simp add: vfs_ok_def VFS_def fs_ok_def)
  from TmpFS_step [OF this assms(2)] have "mem_ok w0" "live_inode (fs_state w0) root"
    using fs_step_ok \<open>mem_ok (VFS s)\<close> by blast+
  then show ?thesis
    using assms(3) mem.ok_add_mount [of w0 root root]
    by (auto simp: mount_rootfs_def add_mount_def split: if_splits)
qed

lemma booted_ok: "mem_ok booted" "live_inode (fs_state booted) 0"
proof -
  have t: "TmpFS (VFS empty_memfs) = (fst (TmpFS (VFS empty_memfs)), 0)"
    by (simp add: TmpFS_def new_node_def get_next_inode_idx_def VFS_def empty_memfs_def Let_def)
  have m: "mount_rootfs 0 (fst (TmpFS (VFS empty_memfs))) = Inr booted"
    by (simp add: booted_def mount_rootfs_def TmpFS_def new_node_def get_next_inode_idx_def VFS_def Let_def)
  have "inodes empty_memfs = (\<lambda>_. None)" by (simp add: empty_memfs_def)
  from boot_ok [OF this t m] show "mem_ok booted" "live_inode (fs_state booted) 0" by simp_all
qed







text \<open>C34: Creating a file or a directory makes its path accessible. When \<open>create\<close> returns a
  vnode for a path whose components are plain names (neither dots nor the digits of a process
  directory), then in the new state \<open>access\<close> succeeds, the path resolves to the new vnode or
  to what is mounted on it, and a second \<open>create\<close> or \<open>mkdir\<close> of the path fails without
  changing anything.
\<close>

theorem create_then_access:
  assumes "vfs_ok fs_ok live_inode w" and "live_inode (fs_state w) cwd"
    and "list_all plain_name (tokens 47 path)"
    and "case c of None \<Rightarrow> sz = 0 | Some b \<Rightarrow> unat sz \<le> length b"
    and "create memfs_vtable cwd path c sz m w = Inr (w', Some u)"
  shows "access memfs_vtable cwd path w' = Inr (w', 0) \<and>
    (\<exists>r. resolve_path memfs_vtable cwd path w' = Inr (w', r) \<and>
      r_target r = get_mounted_vnode_or_host_vnode memfs_vtable (Some u) w') \<and>
    create memfs_vtable cwd path c' sz' m' w' = Inr (w', None) \<and>
    mkdir memfs_vtable cwd path w' = Inr (w', - 1)"
proof -
  obtain r where r: "resolve_path memfs_vtable cwd path w' = Inr (w', r)"
    and t: "r_target r = get_mounted_vnode_or_host_vnode memfs_vtable (Some u) w'"
    using tree.create_resolves [OF assms] by blast
  have "r_target r \<noteq> None" using t tree.mounted_None by simp
  then show ?thesis using r t by (auto simp: access_def create_def mkdir_def)
qed

theorem create_then_access_witness:
  "\<exists>w u. create memfs_vtable 0 [47, 97] (Some [1, 2]) 2 S_IFREG booted = Inr (w, Some u) \<and>
     access memfs_vtable 0 [47, 97] w = Inr (w, 0)"
proof -
  have "case create memfs_vtable 0 [47, 97] (Some [1, 2]) 2 S_IFREG booted of
      Inl e \<Rightarrow> False | Inr (w, r) \<Rightarrow> r \<noteq> None" by code_simp
  then obtain w u where w: "create memfs_vtable 0 [47, 97] (Some [1, 2]) 2 S_IFREG booted = Inr (w, Some u)"
    by (auto split: sum.splits)
  have "list_all plain_name (tokens 47 [47, 97])" by code_simp
  from create_then_access [OF booted_ok this _ w] w show ?thesis by auto
qed


subsection \<open>Files\<close>

text \<open>\<open>f\<close> is an opened regular file of a \<open>TmpFS\<close>, at position \<open>pos\<close>.\<close>

definition tmpfs_file :: "world \<Rightarrow> nat \<Rightarrow> u64 \<Rightarrow> bool" where
  "tmpfs_file w f pos =
     (case files w f of
        None \<Rightarrow> False
      | Some obj \<Rightarrow>
          f \<in> set (opened_files w) \<and> file_pos obj = pos \<and>
          (case file_vnode obj of
             None \<Rightarrow> False
           | Some v \<Rightarrow>
               (case inodes (fs_state w) v of
                  None \<Rightarrow> False
                | Some n \<Rightarrow> i_kind n = TmpFSInode \<and> is_regular_file (i_mode n))))"

lemma tmpfs_fileE:
  assumes "tmpfs_file w f pos"
  obtains obj v n where "files w f = Some obj" "f \<in> set (opened_files w)" "file_pos obj = pos"
    and "file_vnode obj = Some v" "inodes (fs_state w) v = Some n"
    and "i_kind n = TmpFSInode" "is_regular_file (i_mode n)"
  using assms by (auto simp: tmpfs_file_def split: option.splits)

text \<open>The state after a write: the content is replaced and the position moves on.\<close>

definition written :: "world \<Rightarrow> nat \<Rightarrow> nat file_obj \<Rightarrow> nat \<Rightarrow> inode \<Rightarrow> u8 list \<Rightarrow> world" where
  "written w f obj v n buf =
     (set_node v (n\<lparr>i_content := Some buf, i_size := of_nat (length buf)\<rparr>) w)\<lparr>files := (files w)(f \<mapsto>
        obj\<lparr>file_pos := file_pos obj + of_nat (length buf)\<rparr>)\<rparr>"

lemma write_regular:
  assumes "files w f = Some obj" and "file_vnode obj = Some v" and "inodes (fs_state w) v = Some n"
    and "i_kind n = TmpFSInode" and "is_regular_file (i_mode n)" and "length buf < 2 ^ 31"
  shows "vfs_write memfs_vtable (Some f) buf w = Inr (written w f obj v n buf, int (length buf))"
proof -
  have "int32 (int (length buf)) = int (length buf)"
    using assms(6) by (simp add: int32_def signed_take_bit_int_eq_self)
  then show ?thesis
    using assms by (simp add: vfs_write_def memfs_vtable_def field_def set_content_def node_def
      tmpfs_set_content_def written_def set_node_def Let_def)
qed

lemma written_parts:
  "files (written w f obj v n buf) f = Some (obj\<lparr>file_pos := file_pos obj + of_nat (length buf)\<rparr>)"
  "inodes (fs_state (written w f obj v n buf)) v = Some (n\<lparr>i_content := Some buf, i_size := of_nat (length buf)\<rparr>)"
  "opened_files (written w f obj v n buf) = opened_files w"
  by (simp_all add: written_def set_node_def)

lemma read_tmpfs:
  assumes "files w f = Some obj" and "file_vnode obj = Some v" and "inodes (fs_state w) v = Some n"
    and "i_kind n = TmpFSInode" and "is_regular_file (i_mode n)" and "i_content n = Some b"
  shows "vfs_read memfs_vtable junk (Some f) len w =
    (let k = min len (i_size n - file_pos obj) in
     if k = 0 \<or> unat (file_pos obj) + unat k \<le> length b then
       Inr (w\<lparr>files := (files w)(f \<mapsto> obj\<lparr>file_pos := file_pos obj + k\<rparr>)\<rparr>,
            take (unat k) (drop (unat (file_pos obj)) b), int32 (uint k))
     else Inl OutOfBounds)"
  using assms
  by (simp add: vfs_read_def read_regular_def memfs_vtable_def field_def get_content_def node_def
      Let_def min_def)

lemma close_rewinds:
  assumes "files w f = Some obj" and "f \<in> set (opened_files w)"
  shows "\<exists>w'. close (Some f) k w = Inr (w', 0) \<and> files w' f = Some (obj\<lparr>file_pos := 0\<rparr>) \<and>
    fs_state w' = fs_state w"
proof -
  have "find (\<lambda>g. vnode_of_file w g = file_vnode obj) (opened_files w) \<noteq> None"
    using assms by (auto simp: find_None_iff vnode_of_file_def)
  then show ?thesis using assms(1) by (simp add: close_def Let_def)
qed

text \<open>C35: A file reads back what was last written to it. A write to an opened regular file of a
  \<open>TmpFS\<close> stores all the bytes and returns their number; after \<open>close\<close> has rewound the file, a
  read of \<open>len\<close> bytes returns the first \<open>len\<close> of them, all of them when there are fewer, and
  the number of bytes returned.
\<close>

theorem write_then_read:
  assumes "tmpfs_file w f pos" and "length buf < 2 ^ 31"
  shows "\<exists>w1 w2 w3. vfs_write memfs_vtable (Some f) buf w = Inr (w1, int (length buf)) \<and>
    close (Some f) k w1 = Inr (w2, 0) \<and>
    vfs_read memfs_vtable junk (Some f) len w2 =
      Inr (w3, take (unat len) buf, int (length (take (unat len) buf)))"
proof -
  obtain obj v n where o: "files w f = Some obj" "f \<in> set (opened_files w)" "file_pos obj = pos"
    "file_vnode obj = Some v" "inodes (fs_state w) v = Some n" "i_kind n = TmpFSInode" "is_regular_file (i_mode n)"
    by (rule tmpfs_fileE [OF assms(1)])
  let ?w1 = "written w f obj v n buf"
  let ?obj = "obj\<lparr>file_pos := file_pos obj + of_nat (length buf)\<rparr>"
  let ?n = "n\<lparr>i_content := Some buf, i_size := of_nat (length buf)\<rparr>"
  have wr: "vfs_write memfs_vtable (Some f) buf w = Inr (?w1, int (length buf))"
    by (rule write_regular [OF o(1,4,5,6,7) assms(2)])
  obtain w2 where cl: "close (Some f) k ?w1 = Inr (w2, 0)" and f2: "files w2 f = Some (?obj\<lparr>file_pos := 0\<rparr>)"
    and s2: "fs_state w2 = fs_state ?w1"
    using close_rewinds [of ?w1 f ?obj k] o(2) written_parts by auto
  let ?k = "min len (of_nat (length buf)) :: u64"
  have len: "unat (of_nat (length buf) :: u64) = length buf"
    using assms(2) by (simp add: unat_of_nat)
  have k: "unat ?k = min (unat len) (length buf)"
    using len by (simp add: min_def word_le_nat_alt)
  have n2: "inodes (fs_state w2) v = Some ?n" using s2 written_parts(2) by simp
  have "int32 (uint ?k) = int (min (unat len) (length buf))"
    using k assms(2) by (simp add: uint_nat int32_def signed_take_bit_int_eq_self)
  moreover have "take (unat ?k) buf = take (unat len) buf" using k by (simp add: min_def)
  ultimately have "\<exists>w3. vfs_read memfs_vtable junk (Some f) len w2 =
      Inr (w3, take (unat len) buf, int (length (take (unat len) buf)))"
    using read_tmpfs [OF f2 _ n2, of buf junk len] o(4,6,7) k by (simp add: Let_def min.commute)
  then show ?thesis using wr cl by blast
qed

text \<open>A state with the opened file \<open>/f\<close>, and one in which a byte has been written to it.\<close>

definition with_file :: world where
  "with_file = (case vfs_open memfs_vtable 0 [47, 102] O_CREAT booted of Inl e \<Rightarrow> booted | Inr (w, f) \<Rightarrow> w)"

definition one_written :: world where
  "one_written = (case vfs_write memfs_vtable (Some 0) [1] with_file of Inl e \<Rightarrow> booted | Inr (w, n) \<Rightarrow> w)"

theorem write_then_read_witness:
  "\<exists>w1 w2 w3. vfs_write memfs_vtable (Some 0) [7, 8, 9] with_file = Inr (w1, 3) \<and>
    close (Some 0) 4 w1 = Inr (w2, 0) \<and> vfs_read memfs_vtable [] (Some 0) 2 w2 = Inr (w3, [7, 8], 2)"
proof -
  have "tmpfs_file with_file 0 0" by code_simp
  from write_then_read [OF this, of "[7, 8, 9]" 4 "[]" 2] show ?thesis by simp
qed

text \<open>C36: Reading on after a file has been overwritten goes out of the bounds of its content. A
  write replaces the whole content but moves the position on from where it was; so after a
  write at a position that is not the start, the position is past the new size, the number of
  readable bytes \<open>size - pos\<close> wraps around, and every read of at least one byte copies from
  behind the content.
\<close>

theorem read_past_overwritten:
  assumes "tmpfs_file w f pos" and "length buf < 2 ^ 31" and "pos \<noteq> 0" and "unat pos + length buf < 2 ^ 64"
    and "len \<noteq> 0"
  shows "\<exists>w1. vfs_write memfs_vtable (Some f) buf w = Inr (w1, int (length buf)) \<and>
    vfs_read memfs_vtable junk (Some f) len w1 = Inl OutOfBounds"
proof -
  obtain obj v n where o: "files w f = Some obj" "f \<in> set (opened_files w)" "file_pos obj = pos"
    "file_vnode obj = Some v" "inodes (fs_state w) v = Some n" "i_kind n = TmpFSInode" "is_regular_file (i_mode n)"
    by (rule tmpfs_fileE [OF assms(1)])
  let ?w1 = "written w f obj v n buf"
  let ?k = "min len (of_nat (length buf) - (pos + of_nat (length buf))) :: u64"
  have wr: "vfs_write memfs_vtable (Some f) buf w = Inr (?w1, int (length buf))"
    by (rule write_regular [OF o(1,4,5,6,7) assms(2)])
  have "?k \<noteq> 0" using assms(3,5) by (simp add: min_def)
  moreover have "length buf < unat (pos + of_nat (length buf) :: u64)"
    using assms(2,3,4) by (simp add: unat_word_ariths unat_of_nat unat_gt_0)
  ultimately have "vfs_read memfs_vtable junk (Some f) len ?w1 = Inl OutOfBounds"
    using read_tmpfs [of ?w1 f "obj\<lparr>file_pos := file_pos obj + of_nat (length buf)\<rparr>" v
        "n\<lparr>i_content := Some buf, i_size := of_nat (length buf)\<rparr>" buf junk len] o
    by (simp add: Let_def written_parts)
  then show ?thesis using wr by blast
qed

theorem read_past_overwritten_witness:
  "\<exists>w1. vfs_write memfs_vtable (Some 0) [5] one_written = Inr (w1, 1) \<and>
    vfs_read memfs_vtable [] (Some 0) 1 w1 = Inl OutOfBounds"
proof -
  have "tmpfs_file one_written 0 1" by code_simp
  from read_past_overwritten [OF this, of "[5]" 1 "[]"] show ?thesis by simp
qed


subsection \<open>Mounts\<close>

lemma astrlen_name: "0 \<notin> set nm \<Longrightarrow> astrlen (nm @ 0 # rest) = Inr (length nm)"
  by (induction nm) auto

lemma name_hash_value:
  assumes "0 \<notin> set nm"
  shows "name_hash nm = 5 + 19 * sum_list (map (\<lambda>c. of_int (uint c)) nm)"
proof -
  have "foldl (\<lambda>ret c. ret + 19 * of_int (uint c)) a xs = a + 19 * sum_list (map (\<lambda>c. of_int (uint c)) xs)"
    for a :: u64 and xs :: "u8 list"
    by (induction xs arbitrary: a) (simp_all add: algebra_simps)
  then show ?thesis using astrlen_name [OF assms, of "[]"] by (simp add: name_hash_def str_hash_def)
qed

lemma name_hash_mset:
  assumes "mset a = mset b" and "0 \<notin> set a"
  shows "name_hash a = name_hash b"
proof -
  have "0 \<notin> set b" using assms by (metis set_mset_mset)
  moreover have "mset (map (\<lambda>c. of_int (uint c) :: u64) a) = mset (map (\<lambda>c. of_int (uint c)) b)"
    using assms(1) by simp
  then have "sum_list (map (\<lambda>c. of_int (uint c) :: u64) a) = sum_list (map (\<lambda>c. of_int (uint c)) b)"
    by (metis sum_mset_sum_list)
  ultimately show ?thesis using assms(2) by (simp add: name_hash_value)
qed

abbreviation hash_of :: "nat \<Rightarrow> world \<Rightarrow> u64" where
  "hash_of \<equiv> vt_hash_code memfs_vtable"

lemma TmpFS_form:
  assumes "mem_ok w" and "TmpFS w = (w', root)"
  shows "\<not> live_inode (fs_state w) root \<and> mounts w' = mounts w \<and>
    (\<forall>x. live_inode (fs_state w) x \<longrightarrow> hash_of x w' = hash_of x w)"
proof -
  obtain n where r: "root = next_inode (fs_state w)"
    and w': "fs_state w' = (fs_state w)\<lparr>inodes := (inodes (fs_state w))(root \<mapsto> n), next_inode := Suc root\<rparr>"
      "mounts w' = mounts w"
    using assms(2) by (auto simp: TmpFS_def new_node_def get_next_inode_idx_def Let_def)
  have "inodes (fs_state w) root = None" using fresh_inode assms(1) r by (simp add: vfs_ok_def)
  then show ?thesis
    using w' by (auto simp: memfs_vtable_def field_def is_tmpfs_def tmpfs_hash_def procfs_hash_def
      weak_hash_def live_inode_def split: option.splits)
qed

text \<open>Two files of one directory that the hash code does not tell apart.\<close>

definition same_but_name :: "inode \<Rightarrow> inode \<Rightarrow> bool" where
  "same_but_name a b \<longleftrightarrow> i_kind a = TmpFSInode \<and> i_kind b = TmpFSInode \<and> i_parent a = i_parent b \<and>
     i_mode a = i_mode b \<and> i_size a = i_size b"

lemma same_hash:
  assumes "inodes (fs_state w) v = Some a" and "inodes (fs_state w) x = Some b" and "same_but_name a b"
    and "mset (i_name a) = mset (i_name b)" and "0 \<notin> set (i_name a)"
  shows "hash_of x w = hash_of v w"
  using assms name_hash_mset [OF assms(4,5)]
  by (simp add: memfs_vtable_def field_def is_tmpfs_def tmpfs_hash_def same_but_name_def)

text \<open>C37: What a mount redirects. Mounting a \<open>TmpFS\<close> on a path that resolves to a vnode \<open>v\<close> which
  is no mount point yet returns 0 and makes \<open>v\<close> lead to the root of the new file system, and
  every vnode with another hash code leads where it did before. But mounts are found by the
  hash code, which adds up the characters of a name: every file of the same directory, mode
  and size whose name is an anagram of the name of \<open>v\<close> is redirected too.
\<close>

theorem mount_redirects:
  assumes "vfs_ok fs_ok live_inode w" and "resolve_path memfs_vtable cwd path w = Inr (w, r)"
    and "r_target r = Some v" and "live_inode (fs_state w) v"
    and "\<forall>m \<in> set (mounts w). vt_hash_code memfs_vtable (host_vnode m) w \<noteq> vt_hash_code memfs_vtable v w"
  shows "\<exists>w' root. mount memfs_vtable cwd path tmpfs_name w = Inr (w', 0) \<and>
    \<not> live_inode (fs_state w) root \<and>
    get_mounted_vnode_or_host_vnode memfs_vtable (Some v) w' = Some root \<and>
    (\<forall>x. live_inode (fs_state w) x \<longrightarrow> vt_hash_code memfs_vtable x w \<noteq> vt_hash_code memfs_vtable v w \<longrightarrow>
      get_mounted_vnode_or_host_vnode memfs_vtable (Some x) w' =
      get_mounted_vnode_or_host_vnode memfs_vtable (Some x) w) \<and>
    (\<forall>a b x. inodes (fs_state w) v = Some a \<longrightarrow> inodes (fs_state w) x = Some b \<longrightarrow> same_but_name a b \<longrightarrow>
      mset (i_name a) = mset (i_name b) \<longrightarrow> 0 \<notin> set (i_name a) \<longrightarrow>
      get_mounted_vnode_or_host_vnode memfs_vtable (Some x) w' = Some root)"
proof -
  obtain w1 root where t: "TmpFS w = (w1, root)" by fastforce
  note form = TmpFS_form [OF assms(1) t]
  let ?w' = "add_mount root v w1"
  have m: "mount memfs_vtable cwd path tmpfs_name w = Inr (?w', 0)"
    using assms(2,3) t by (simp add: mount_def) (simp add: memfs_vtable_def)
  have h: "hash_of x ?w' = hash_of x w" if "live_inode (fs_state w) x" for x
  proof -
    have "hash_of x ?w' = hash_of x w1"
      by (auto simp: add_mount_def memfs_vtable_def field_def is_tmpfs_def tmpfs_hash_def
          procfs_hash_def weak_hash_def split: option.splits)
    then show ?thesis using form that by simp
  qed
  have f: "find (\<lambda>m. hash_of (host_vnode m) ?w' = hash_of x ?w') (mounts w) =
      find (\<lambda>m. hash_of (host_vnode m) w = hash_of x w) (mounts w)" if "live_inode (fs_state w) x" for x
    using assms(1) h that by (intro find_cong) (auto simp: vfs_ok_def)
  have g: "get_mounted_vnode_or_host_vnode memfs_vtable (Some x) ?w' =
      (if hash_of x w = hash_of v w then Some root
       else get_mounted_vnode_or_host_vnode memfs_vtable (Some x) w)" if "live_inode (fs_state w) x" for x
  proof -
    have "mounts ?w' = mounts w @ [\<lparr>guest_fs = root, guest_vnode = root, host_vnode = v\<rparr>]"
      using form by (simp add: add_mount_def)
    moreover have "find (\<lambda>m. hash_of (host_vnode m) w = hash_of x w) (mounts w) = None"
      if "hash_of x w = hash_of v w" using assms(5) that by (simp add: find_None_iff)
    ultimately show ?thesis
      using f [OF that] h [OF that] h [OF assms(4)]
      by (auto simp: get_mounted_vnode_or_host_vnode_def find_append split: option.splits)
  qed
  have "live_inode (fs_state w) x" if "inodes (fs_state w) x = Some b" for x b
    using that by (simp add: live_inode_def)
  then show ?thesis
    using m form g [OF assms(4)] g same_hash by (intro exI [of _ ?w'] exI [of _ root]) auto
qed

text \<open>Its witness has the directories \<open>/ab\<close> and \<open>/ba\<close>, and mounts on the first.\<close>

definition two_dirs :: world where
  "two_dirs =
     (case bindE (mkdir memfs_vtable 0 [47, 97, 98] booted) (\<lambda>(w, r). mkdir memfs_vtable 0 [47, 98, 97] w) of
        Inl e \<Rightarrow> booted | Inr (w, r) \<Rightarrow> w)"

lemma two_dirs_ok: "mem_ok two_dirs"
proof -
  have keep: "mem_ok w' \<and> live_inode (fs_state w') 0"
    if "mem_ok w" "live_inode (fs_state w) 0" "mkdir memfs_vtable 0 p w = Inr (w', r)" for w w' p r
    by (rule mem.step_keeps [OF s_mkdir [OF that(3)] that(1,2,2)])
  show ?thesis
  proof (cases "mkdir memfs_vtable 0 [47, 97, 98] booted")
    case (Inr x)
    obtain w r where x: "x = (w, r)" by (cases x)
    note k1 = keep [OF booted_ok Inr [unfolded x]]
    show ?thesis
    proof (cases "mkdir memfs_vtable 0 [47, 98, 97] w")
      case i2: (Inr y)
      obtain w' r' where y: "y = (w', r')" by (cases y)
      have "two_dirs = w'" unfolding two_dirs_def Inr x i2 y by (simp add: i2 y)
      then show ?thesis using keep [OF k1 [THEN conjunct1] k1 [THEN conjunct2] i2 [unfolded y]] by simp
    qed (simp add: two_dirs_def Inr x booted_ok)
  qed (simp add: two_dirs_def booted_ok)
qed

theorem mount_redirects_witness:
  "\<exists>w root. mount memfs_vtable 0 [47, 97, 98] tmpfs_name two_dirs = Inr (w, 0) \<and>
     get_mounted_vnode_or_host_vnode memfs_vtable (Some 1) w = Some root \<and>
     get_mounted_vnode_or_host_vnode memfs_vtable (Some 2) w = Some root"
proof -
  have nodes: "\<exists>a b. inodes (fs_state two_dirs) 1 = Some a \<and> inodes (fs_state two_dirs) 2 = Some b \<and>
    same_but_name a b \<and> i_name a = [97, 98] \<and> i_name b = [98, 97]"
  proof -
    have "case inodes (fs_state two_dirs) 1 of None \<Rightarrow> False | Some a \<Rightarrow>
      (case inodes (fs_state two_dirs) 2 of None \<Rightarrow> False | Some b \<Rightarrow>
        same_but_name a b \<and> i_name a = [97, 98] \<and> i_name b = [98, 97])" by code_simp
    then show ?thesis by (auto split: option.splits)
  qed
  have res: "\<exists>r. resolve_path memfs_vtable 0 [47, 97, 98] two_dirs = Inr (two_dirs, r) \<and> r_target r = Some 1"
  proof -
    have "lookup_name (fs_state two_dirs) 0 [97, 98] = Some 1" by code_simp
    moreover have "plain_name [97, 98]" and "tokens (47 :: u8) [47, 97, 98] = [[97, 98]]"
      and "get_rootfs two_dirs = Inr 0" and "usable_inode (fs_state two_dirs) 0"
      and "get_mounted_vnode_or_host_vnode memfs_vtable (Some 1) two_dirs = Some 1" by code_simp+
    moreover have "live_inode (fs_state two_dirs) 0"
    proof -
      have "inodes (fs_state two_dirs) 0 \<noteq> None" by code_simp
      then show ?thesis by (simp add: live_inode_def)
    qed
    ultimately show ?thesis
      using tree.lookup_child [OF two_dirs_ok, of 0 "[97, 98]"]
      by (simp add: resolve_path_def)
  qed
  obtain r where r: "resolve_path memfs_vtable 0 [47, 97, 98] two_dirs = Inr (two_dirs, r)" "r_target r = Some 1"
    using res by blast
  have lv: "live_inode (fs_state two_dirs) 1" using nodes by (auto simp: live_inode_def)
  have hosts: "\<forall>m \<in> set (mounts two_dirs). hash_of (host_vnode m) two_dirs \<noteq> hash_of 1 two_dirs" by code_simp
  from mount_redirects [OF two_dirs_ok r lv hosts] nodes show ?thesis
    by (auto simp: add_mset_commute)
qed


subsection \<open>Directories of tasks\<close>








end
