(* ===== verification/Tasks.thy ===== *)
theory Tasks
  imports MemFS
begin

text \<open>
  Tasks (\<open>proc/Task.cc\<close>), signals (\<open>proc/Signal.cc\<close>), the task scheduler
  (\<open>proc/TaskScheduler.cc\<close>) and the system calls (\<open>kernel/Syscall.cc\<close>) over the virtual file
  system. Tasks are objects of a heap, by address; the scheduler owns those of its run queue
  and a task owns its terminated children, all other pointers to tasks are plain ones. An
  address whose task has been deleted holds nothing, so that its use is an error.

  The register context, the stacks and the address space of a task are not part of this state:
  \<open>switch_to\<close> changes the current task, and whether the pages of a new task could be
  allocated is an argument of \<open>Task_fork\<close>. Arguments behind user pointers are the values they
  point to.
\<close>

subsection \<open>Tasks\<close>

definition TASK_TIME_SLICE :: int where "TASK_TIME_SLICE = 64"
definition TASK_NAME_MAX_LEN :: nat where "TASK_NAME_MAX_LEN = 16"
definition NR_TASK_FD_LIMITS :: nat where "NR_TASK_FD_LIMITS = 16"
definition SIGKILL :: int where "SIGKILL = 9"
definition SIGSEGV :: int where "SIGSEGV = 11"
definition NR_signals :: int where "NR_signals = 12"

definition is_signal_valid :: "int \<Rightarrow> bool" where
  "is_signal_valid signal \<longleftrightarrow> signal \<ge> 0 \<and> signal < NR_signals"

datatype task_state = CREATED | RUNNING | SLEEPING | TERMINATED

record task =
  tk_is_user :: bool
  tk_parent :: "nat option"
  active_children :: "nat list"
  terminated_children :: "nat list"
  tk_state :: task_state
  error_code :: int
  tk_pid :: u32
  time_slice :: int
  tk_name :: "u8 list"
  pending_signals :: "int list"
  custom_signal_handlers :: "u64 list"
  fd_table :: "nat option list"
  cwd_vnode :: nat

text \<open>\<open>current\<close> is the register \<open>TPIDR_EL1\<close>; \<open>kvfs\<close> is the state of the file systems.\<close>

record procs =
  tasks :: "nat \<Rightarrow> task option"
  next_task :: nat
  current :: nat
  init_task :: "nat option"
  kthreadd :: "nat option"
  next_pid :: u32
  need_reschedule :: bool
  runqueue :: "nat list"
  kvfs :: world

definition get_task :: "procs \<Rightarrow> nat \<Rightarrow> kerror + task" where
  "get_task p a = (case tasks p a of None \<Rightarrow> Inl UseAfterFree | Some t \<Rightarrow> Inr t)"

definition upd_task :: "nat \<Rightarrow> (task \<Rightarrow> task) \<Rightarrow> procs \<Rightarrow> kerror + procs" where
  "upd_task a f p = bindE (get_task p a) (\<lambda>t. Inr (p\<lparr>tasks := (tasks p)(a \<mapsto> f t)\<rparr>))"

text \<open>The file that a new task has as its first three descriptors.\<close>

definition stdio_file :: "procs \<Rightarrow> procs \<times> nat" where
  "stdio_file p =
     (let w = kvfs p in
      (p\<lparr>kvfs := w\<lparr>files := (files w)(next_file w \<mapsto>
            \<lparr>file_vnode = None, file_pos = 0, file_options = 0\<rparr>), next_file := Suc (next_file w)\<rparr>\<rparr>,
       next_file w))"

definition Task_new :: "bool \<Rightarrow> nat option \<Rightarrow> u8 list \<Rightarrow> procs \<Rightarrow> kerror + procs \<times> nat" where
  "Task_new is_user parent name p =
     bindE (get_rootfs (kvfs p)) (\<lambda>root.
     let a = next_task p; pid = next_pid p;
         p = p\<lparr>next_task := Suc a, next_pid := pid + 1\<rparr>;
         p = (if pid = 1 then p\<lparr>init_task := Some a\<rparr>
              else if pid = 2 then p\<lparr>kthreadd := Some a\<rparr> else p) in
     bindE (case parent of
              None \<Rightarrow> Inr p
            | Some q \<Rightarrow> upd_task q (\<lambda>t. t\<lparr>active_children := active_children t @ [a]\<rparr>) p) (\<lambda>p.
     bindE (astrcpy name (replicate TASK_NAME_MAX_LEN 0) 0) (\<lambda>nm.
     let (p, opened) = stdio_file p in
     Inr (p\<lparr>tasks := (tasks p)(a \<mapsto>
       \<lparr>tk_is_user = is_user, tk_parent = parent, active_children = [], terminated_children = [],
        tk_state = CREATED, error_code = 0, tk_pid = pid, time_slice = TASK_TIME_SLICE, tk_name = nm,
        pending_signals = [], custom_signal_handlers = replicate (nat NR_signals) 0,
        fd_table = replicate 3 (Some opened) @ replicate (NR_TASK_FD_LIMITS - 3) None,
        cwd_vnode = root\<rparr>)\<rparr>, a))))"

text \<open>The loop of the destructor that hands the running children over to the init task.\<close>

primrec adopt :: "nat list \<Rightarrow> nat \<Rightarrow> procs \<Rightarrow> kerror + procs" where
  "adopt [] a p = Inr p"
| "adopt (child # cs) a p =
     (case init_task p of
        None \<Rightarrow> Inl NullDeref
      | Some i \<Rightarrow>
          bindE (upd_task i (\<lambda>t. t\<lparr>active_children := active_children t @ [child]\<rparr>) p) (\<lambda>p.
          bindE (upd_task child (\<lambda>t. t\<lparr>tk_parent := Some i\<rparr>) p) (\<lambda>p.
          bindE (upd_task a (\<lambda>t. t\<lparr>active_children := cs\<rparr>) p) (\<lambda>p.
          adopt cs a p))))"

text \<open>
  Deleting tasks: the destructor of a task deletes the terminated children it owns. The
  argument lists the tasks still to be deleted, in the order the nested destructors come to
  them.
\<close>

partial_function (option) delete_tasks :: "nat list \<Rightarrow> procs \<Rightarrow> (kerror + procs) option" where
  "delete_tasks as p =
     (case as of
        [] \<Rightarrow> Some (Inr p)
      | a # as \<Rightarrow>
          (case bindE (get_task p a) (\<lambda>t.
                bindE (adopt (active_children t) a p) (\<lambda>p.
                Inr (p\<lparr>tasks := (tasks p)(a := None)\<rparr>, terminated_children t))) of
             Inl e \<Rightarrow> Some (Inl e)
           | Inr (p, cs) \<Rightarrow> delete_tasks (cs @ as) p))"

definition delete_task :: "nat \<Rightarrow> procs \<Rightarrow> kerror + procs" where
  "delete_task a p = bindE (returned (delete_tasks [a] p)) (\<lambda>r. r)"


subsection \<open>The scheduler\<close>

definition set_state :: "nat \<Rightarrow> task_state \<Rightarrow> procs \<Rightarrow> kerror + procs" where
  "set_state a s p = upd_task a (\<lambda>t. t\<lparr>tk_state := s\<rparr>) p"

definition sched_run :: "procs \<Rightarrow> kerror + procs" where
  "sched_run p =
     (case runqueue p of
        [] \<Rightarrow> Inl (Panic ''No tasks in runqueue!'')
      | t # ts \<Rightarrow> Inr (p\<lparr>current := t\<rparr>))"

definition enqueue_task :: "nat option \<Rightarrow> procs \<Rightarrow> kerror + procs" where
  "enqueue_task task_ptr p =
     (case task_ptr of
        None \<Rightarrow> Inl (Panic ''sched: task is empty'')
      | Some a \<Rightarrow> bindE (set_state a RUNNING p) (\<lambda>p. Inr (p\<lparr>runqueue := runqueue p @ [a]\<rparr>)))"

definition remove_task :: "nat \<Rightarrow> procs \<Rightarrow> kerror + procs \<times> nat" where
  "remove_task a p =
     (if a \<in> set (runqueue p) then Inr (p\<lparr>runqueue := remove1 a (runqueue p)\<rparr>, a)
      else Inl (Panic ''sched: removed_task is empty''))"

definition schedule :: "procs \<Rightarrow> kerror + procs" where
  "schedule p =
     (let p = (if length (runqueue p) > 1
               then p\<lparr>runqueue := tl (runqueue p) @ [hd (runqueue p)]\<rparr> else p) in
      bindE (set_state (current p) SLEEPING p) (\<lambda>p.
      case runqueue p of
        [] \<Rightarrow> Inl NullDeref
      | t # ts \<Rightarrow> bindE (set_state t RUNNING p) (\<lambda>p. Inr (p\<lparr>current := t\<rparr>))))"

definition maybe_schedule :: "procs \<Rightarrow> kerror + procs" where
  "maybe_schedule p =
     (if \<not> need_reschedule p then Inr p
      else bindE (upd_task (current p) (\<lambda>t. t\<lparr>time_slice := TASK_TIME_SLICE\<rparr>)
             (p\<lparr>need_reschedule := False\<rparr>)) schedule)"

definition Task_tick :: "task \<Rightarrow> task" where
  "Task_tick t = (if time_slice t > 0 then t\<lparr>time_slice := time_slice t - 1\<rparr> else t)"

definition sched_tick :: "procs \<Rightarrow> kerror + procs" where
  "sched_tick p =
     bindE (upd_task (current p) Task_tick p) (\<lambda>p.
     bindE (get_task p (current p)) (\<lambda>t.
     Inr (if time_slice t \<le> 0 then p\<lparr>need_reschedule := True\<rparr> else p)))"


subsection \<open>The process tree\<close>

text \<open>
  The breadth-first searches. The inner loop takes as many tasks off the queue as it had when
  the outer loop came to it.
\<close>

primrec push_level :: "nat \<Rightarrow> nat list \<Rightarrow> nat list \<Rightarrow> procs \<Rightarrow> kerror + nat list \<times> nat list" where
  "push_level 0 q ret p = Inr (q, ret)"
| "push_level (Suc n) q ret p =
     (case q of
        [] \<Rightarrow> Inl UseAfterFree
      | task # q \<Rightarrow>
          bindE (get_task p task) (\<lambda>t. push_level n (q @ active_children t) (ret @ [task]) p))"

partial_function (option) active_loop :: "nat list \<Rightarrow> nat list \<Rightarrow> procs \<Rightarrow> (kerror + nat list) option" where
  "active_loop q ret p =
     (if q = [] then Some (Inr ret)
      else case push_level (length q) q ret p of
        Inl e \<Rightarrow> Some (Inl e)
      | Inr (q, ret) \<Rightarrow> active_loop q ret p)"

definition ptr :: "nat option \<Rightarrow> kerror + nat" where
  "ptr a = (case a of None \<Rightarrow> Inl NullDeref | Some a \<Rightarrow> Inr a)"

text \<open>The null pointers that the list could hold before the first tasks exist are errors here.\<close>

definition get_active_tasks :: "procs \<Rightarrow> kerror + nat list" where
  "get_active_tasks p =
     bindE (ptr (init_task p)) (\<lambda>i.
     bindE (ptr (kthreadd p)) (\<lambda>k.
     bindE (returned (active_loop [i] [i, k] p)) (\<lambda>r. r)))"

primrec find_child :: "nat list \<Rightarrow> u32 \<Rightarrow> procs \<Rightarrow> kerror + nat option" where
  "find_child [] pid p = Inr None"
| "find_child (c # cs) pid p =
     bindE (get_task p c) (\<lambda>t. if tk_pid t = pid then Inr (Some c) else find_child cs pid p)"

primrec search_level :: "nat \<Rightarrow> u32 \<Rightarrow> nat list \<Rightarrow> procs \<Rightarrow> kerror + nat list \<times> nat option" where
  "search_level 0 pid q p = Inr (q, None)"
| "search_level (Suc n) pid q p =
     (case q of
        [] \<Rightarrow> Inl UseAfterFree
      | task # q \<Rightarrow>
          bindE (get_task p task) (\<lambda>t.
          bindE (find_child (active_children t) pid p) (\<lambda>r.
          case r of
            Some c \<Rightarrow> Inr (q, Some c)
          | None \<Rightarrow> search_level n pid (q @ active_children t) p)))"

partial_function (option) search_loop :: "u32 \<Rightarrow> nat list \<Rightarrow> procs \<Rightarrow> (kerror + nat option) option" where
  "search_loop pid q p =
     (if q = [] then Some (Inr None)
      else case search_level (length q) pid q p of
        Inl e \<Rightarrow> Some (Inl e)
      | Inr (q, Some c) \<Rightarrow> Some (Inr (Some c))
      | Inr (q, None) \<Rightarrow> search_loop pid q p)"

definition get_by_pid :: "u32 \<Rightarrow> procs \<Rightarrow> kerror + nat option" where
  "get_by_pid pid p =
     (if pid = 1 then Inr (init_task p)
      else if pid = 2 then Inr (kthreadd p)
      else bindE (ptr (init_task p)) (\<lambda>i. bindE (returned (search_loop pid [i] p)) (\<lambda>r. r)))"


subsection \<open>File descriptors\<close>

definition is_fd_valid :: "int \<Rightarrow> bool" where
  "is_fd_valid fd \<longleftrightarrow> fd \<ge> 0 \<and> fd < int NR_TASK_FD_LIMITS"

text \<open>The first free slot, the loop of \<open>allocate_fd_for_file\<close>.\<close>

primrec free_fd :: "nat option list \<Rightarrow> nat \<Rightarrow> nat option" where
  "free_fd [] i = None"
| "free_fd (e # es) i = (if e = None then Some i else free_fd es (Suc i))"

definition allocate_fd_for_file :: "nat \<Rightarrow> nat option \<Rightarrow> procs \<Rightarrow> kerror + procs \<times> int" where
  "allocate_fd_for_file this file_ptr p =
     (case file_ptr of
        None \<Rightarrow> Inl (Panic ''Task::allocate_fd_for_file(): file is nullptr'')
      | Some f \<Rightarrow>
          bindE (get_task p this) (\<lambda>t.
          case free_fd (fd_table t) 0 of
            None \<Rightarrow> Inr (p, - 1)
          | Some i \<Rightarrow>
              bindE (upd_task this (\<lambda>t. t\<lparr>fd_table := (fd_table t)[i := Some f]\<rparr>) p) (\<lambda>p. Inr (p, int i))))"

definition release_fd_and_get_file :: "nat \<Rightarrow> int \<Rightarrow> procs \<Rightarrow> kerror + procs \<times> nat option" where
  "release_fd_and_get_file this fd p =
     (if is_fd_valid fd then
        bindE (get_task p this) (\<lambda>t.
        bindE (aget (fd_table t) fd) (\<lambda>f.
        bindE (upd_task this (\<lambda>t. t\<lparr>fd_table := (fd_table t)[nat fd := None]\<rparr>) p) (\<lambda>p. Inr (p, f))))
      else Inr (p, None))"

definition get_file_by_fd :: "nat \<Rightarrow> int \<Rightarrow> procs \<Rightarrow> kerror + nat option" where
  "get_file_by_fd this fd p =
     (if is_fd_valid fd then bindE (get_task p this) (\<lambda>t. aget (fd_table t) fd) else Inr None)"

text \<open>
  What \<open>use_count\<close> reports in \<open>VFS::close\<close>: the pointer of \<open>sys_close\<close>, its copy that is the
  argument, those of the table of opened files and those of the descriptors.
\<close>

definition file_use_count :: "nat \<Rightarrow> procs \<Rightarrow> int" where
  "file_use_count f p =
     2 + int (count_list (opened_files (kvfs p)) f) +
     sum_list (map (\<lambda>a. case tasks p a of None \<Rightarrow> 0 | Some t \<Rightarrow> int (count_list (fd_table t) (Some f)))
       [0..<next_task p])"

definition sys_close :: "int \<Rightarrow> procs \<Rightarrow> kerror + procs \<times> int" where
  "sys_close fd p =
     bindE (release_fd_and_get_file (current p) fd p) (\<lambda>(p, file_ptr).
     case file_ptr of
       None \<Rightarrow> Inr (p, - 1)
     | Some f \<Rightarrow>
         bindE (close (Some f) (file_use_count f p) (kvfs p)) (\<lambda>(w, r). Inr (p\<lparr>kvfs := w\<rparr>, r)))"


subsection \<open>Fork, wait and exit\<close>

text \<open>\<open>int ret = child->_pid\<close> and the conversion of \<open>size_t\<close> to \<open>int\<close>.\<close>

definition pid_int :: "u32 \<Rightarrow> int" where
  "pid_int pid = int32 (uint pid)"

text \<open>
  \<open>kstack\<close> and \<open>ustack\<close> say whether there was a page for the two stacks of the child. Without one the
  kernel panics in every case. When the table of the address sanitizer has a free entry,
  \<open>mark_allocated\<close> takes the null pointer for one that is already allocated and panics. When the
  table is full, \<open>get_free_page\<close> returns null, and the sanitizer does not know what the
  constructor allocates afterwards, the file of the standard descriptors among it; the
  destructor of the child hands that to \<open>kfree\<close>, which does not find it in the table and panics.
  So \<open>fork\<close> does not return \<open>-1\<close>. The model has the panic of the second case.
\<close>

definition Task_fork :: "nat \<Rightarrow> bool \<Rightarrow> bool \<Rightarrow> procs \<Rightarrow> kerror + procs \<times> int" where
  "Task_fork this kstack ustack p =
     bindE (get_task p this) (\<lambda>t.
     bindE (Task_new (tk_is_user t) (Some this) (tk_name t) p) (\<lambda>(p, child).
     if \<not> kstack \<or> \<not> ustack then bindE (delete_task child p) (\<lambda>p. Inl (Panic ''kasan: double free detected''))
     else
       bindE (enqueue_task (Some child) p) (\<lambda>p.
       bindE (get_task p child) (\<lambda>c.
       bindE (upd_task child (\<lambda>c. c\<lparr>cwd_vnode := cwd_vnode t\<rparr>) p) (\<lambda>p.
       Inr (p, pid_int (tk_pid c)))))))"

text \<open>
  \<open>wait\<close> returns at once, or gives the processor away and comes back to its loop when the
  task runs again. One round of it ends in one of three ways.
\<close>

datatype wait_result = No_children | Blocked | Reaped int int

definition Task_wait :: "nat \<Rightarrow> procs \<Rightarrow> kerror + procs \<times> wait_result" where
  "Task_wait this p =
     bindE (get_task p this) (\<lambda>t.
     if active_children t = [] \<and> terminated_children t = [] then Inr (p, No_children)
     else case terminated_children t of
       [] \<Rightarrow> bindE (schedule p) (\<lambda>p. Inr (p, Blocked))
     | child # cs \<Rightarrow>
         bindE (get_task p child) (\<lambda>c.
         bindE (upd_task this (\<lambda>t. t\<lparr>terminated_children := cs\<rparr>) p) (\<lambda>p.
         bindE (delete_task child p) (\<lambda>p. Inr (p, Reaped (pid_int (tk_pid c)) (error_code c))))))"

definition close_fds :: "nat \<Rightarrow> procs \<Rightarrow> kerror + procs" where
  "close_fds this p =
     forE [3..<NR_TASK_FD_LIMITS] (\<lambda>i p.
       bindE (get_task p this) (\<lambda>t.
       bindE (aget (fd_table t) (int i)) (\<lambda>f.
       if f = None then Inr p else bindE (sys_close (int i) p) (\<lambda>(p, r). Inr p)))) p"

text \<open>The state in which the next task goes on; \<open>exit\<close> does not come back to its caller.\<close>

definition Task_exit :: "nat \<Rightarrow> int \<Rightarrow> procs \<Rightarrow> kerror + procs" where
  "Task_exit this code p =
     bindE (get_task p this) (\<lambda>t.
     case tk_parent t of
       None \<Rightarrow> Inl (Panic ''Attempted to kill a task without parent'')
     | Some parent \<Rightarrow>
         bindE (upd_task this (\<lambda>t. t\<lparr>tk_state := TERMINATED, error_code := code\<rparr>) p) (\<lambda>p.
         bindE (close_fds this p) (\<lambda>p.
         bindE (upd_task parent (\<lambda>t. t\<lparr>active_children := remove1 this (active_children t)\<rparr>) p) (\<lambda>p.
         bindE (remove_task this p) (\<lambda>(p, removed).
         bindE (upd_task parent (\<lambda>t. t\<lparr>terminated_children := terminated_children t @ [removed]\<rparr>) p)
           schedule)))))"


subsection \<open>Signals\<close>

definition Task_kill :: "nat \<Rightarrow> u32 \<Rightarrow> int \<Rightarrow> procs \<Rightarrow> kerror + procs \<times> int" where
  "Task_kill this pid signal p =
     (if \<not> is_signal_valid signal then Inr (p, - 1)
      else
        bindE (get_task p this) (\<lambda>t.
        bindE (if pid = tk_pid t then Inr (Some this) else get_by_pid pid p) (\<lambda>r.
        case r of
          None \<Rightarrow> Inr (p, - 1)
        | Some a \<Rightarrow>
            bindE (upd_task a (\<lambda>t. t\<lparr>pending_signals := pending_signals t @ [signal]\<rparr>) p) (\<lambda>p.
            Inr (p, 0)))))"

definition Task_signal :: "nat \<Rightarrow> int \<Rightarrow> u64 \<Rightarrow> procs \<Rightarrow> kerror + procs \<times> int" where
  "Task_signal this signal handler p =
     (if \<not> is_signal_valid signal then Inr (p, - 1)
      else
        bindE (get_task p this) (\<lambda>t.
        bindE (aset (custom_signal_handlers t) signal handler) (\<lambda>hs.
        bindE (upd_task this (\<lambda>t. t\<lparr>custom_signal_handlers := hs\<rparr>) p) (\<lambda>p. Inr (p, 0)))))"

text \<open>
  The default handlers: those of \<open>SIGKILL\<close> and \<open>SIGSEGV\<close> end the current task, the others
  only print. \<open>True\<close> says that the handler returned.
\<close>

definition default_signal_handler :: "int \<Rightarrow> procs \<Rightarrow> kerror + procs \<times> bool" where
  "default_signal_handler signal p =
     (if signal = SIGKILL then bindE (Task_exit (current p) SIGKILL p) (\<lambda>p. Inr (p, False))
      else if signal = SIGSEGV then bindE (Task_exit (current p) 139 p) (\<lambda>p. Inr (p, False))
      else Inr (p, True))"

primrec signal_loop :: "int list \<Rightarrow> nat \<Rightarrow> procs \<Rightarrow> kerror + procs \<times> bool" where
  "signal_loop [] this p = Inr (p, True)"
| "signal_loop (signal # signals) this p =
     bindE (upd_task this (\<lambda>t. t\<lparr>pending_signals := signals\<rparr>) p) (\<lambda>p.
     if \<not> is_signal_valid signal then Inl (Panic ''invalid signal'')
     else
       bindE (get_task p this) (\<lambda>t.
       bindE (aget (custom_signal_handlers t) signal) (\<lambda>h.
       if h = 0 then
         bindE (default_signal_handler signal p) (\<lambda>(p, back).
         if back then signal_loop signals this p else Inr (p, False))
       else Inl (Panic ''not implemented yet!''))))"

definition handle_pending_signals :: "nat \<Rightarrow> procs \<Rightarrow> kerror + procs \<times> bool" where
  "handle_pending_signals this p =
     bindE (get_task p this) (\<lambda>t. signal_loop (pending_signals t) this p)"

text \<open>
  The part of the timer interrupt that concerns tasks. When it switches to another task, that
  one goes on where it was switched away from, and the interrupted task handles its signals
  once it runs again. The end of a system call does so only if no handler ended the task.
\<close>

definition handle_irq :: "procs \<Rightarrow> kerror + procs" where
  "handle_irq p =
     bindE (sched_tick p) (\<lambda>p.
     if need_reschedule p then maybe_schedule p
     else bindE (maybe_schedule p) (\<lambda>p.
          bindE (handle_pending_signals (current p) p) (\<lambda>(p, back). Inr p)))"

definition syscall_exit_path :: "procs \<Rightarrow> kerror + procs" where
  "syscall_exit_path p =
     bindE (handle_pending_signals (current p) p) (\<lambda>(p, back).
     if back then maybe_schedule p else Inr p)"

end
