(* ===== verification/Syscalls.thy ===== *)
theory Syscalls
  imports Tasks
begin

text \<open>
  The system calls (\<open>kernel/Syscall.cc\<close>): each of them works on the current task and hands
  the call on to the task or to the virtual file system. Those that load a program or change
  the address space, \<open>sys_exec\<close> and \<open>sys_mmap\<close>, are not modelled.
\<close>

text \<open>An operation of the virtual file system, run with the working directory of the current task.\<close>

definition in_vfs ::
  "(nat \<Rightarrow> world \<Rightarrow> kerror + world \<times> 'a) \<Rightarrow> procs \<Rightarrow> kerror + procs \<times> 'a" where
  "in_vfs f p =
     bindE (get_task p (current p)) (\<lambda>t.
     bindE (f (cwd_vnode t) (kvfs p)) (\<lambda>(w, r). Inr (p\<lparr>kvfs := w\<rparr>, r)))"

text \<open>The bytes that \<open>sys_read\<close> stores and the value it returns; \<open>junk\<close> is what the buffer holds before.\<close>

definition sys_read :: "u8 list \<Rightarrow> int \<Rightarrow> u64 \<Rightarrow> procs \<Rightarrow> kerror + procs \<times> u8 list \<times> int" where
  "sys_read junk fd count p =
     (if fd = 0 then
        bindE (console_read (take (unat count) junk) count (kvfs p)) (\<lambda>(w, buf, n).
        Inr (p\<lparr>kvfs := w\<rparr>, buf, int32 (uint n)))
      else
        bindE (get_file_by_fd (current p) fd p) (\<lambda>file_ptr.
        if file_ptr = None then Inr (p, [], - 1)
        else in_vfs (\<lambda>cwd. vfs_read memfs_vtable junk file_ptr count) p))"

definition sys_write :: "int \<Rightarrow> u8 list \<Rightarrow> procs \<Rightarrow> kerror + procs \<times> int" where
  "sys_write fd buf p =
     (if fd = 1 \<or> fd = 2 then
        Inr (p\<lparr>kvfs := console_write buf (kvfs p)\<rparr>, int32 (int (length buf)))
      else
        bindE (get_file_by_fd (current p) fd p) (\<lambda>file_ptr.
        if file_ptr = None then Inr (p, - 1)
        else in_vfs (\<lambda>cwd. vfs_write memfs_vtable file_ptr buf) p))"

definition sys_open :: "name \<Rightarrow> u32 \<Rightarrow> procs \<Rightarrow> kerror + procs \<times> int" where
  "sys_open pathname options p =
     bindE (in_vfs (\<lambda>cwd. vfs_open memfs_vtable cwd pathname options) p) (\<lambda>(p, file_ptr).
     if file_ptr = None then Inr (p, - 1)
     else allocate_fd_for_file (current p) file_ptr p)"

definition sys_fork :: "bool \<Rightarrow> bool \<Rightarrow> procs \<Rightarrow> kerror + procs \<times> int" where
  "sys_fork kstack ustack p = Task_fork (current p) kstack ustack p"

definition sys_wait :: "procs \<Rightarrow> kerror + procs \<times> wait_result" where
  "sys_wait p = Task_wait (current p) p"

definition sys_exit :: "int \<Rightarrow> procs \<Rightarrow> kerror + procs" where
  "sys_exit code p = Task_exit (current p) code p"

definition sys_getpid :: "procs \<Rightarrow> kerror + int" where
  "sys_getpid p = bindE (get_task p (current p)) (\<lambda>t. Inr (pid_int (tk_pid t)))"

definition sys_sched_yield :: "procs \<Rightarrow> kerror + procs \<times> int" where
  "sys_sched_yield p = bindE (schedule p) (\<lambda>p. Inr (p, 0))"

definition sys_kill :: "u32 \<Rightarrow> int \<Rightarrow> procs \<Rightarrow> kerror + procs \<times> int" where
  "sys_kill pid signal p = Task_kill (current p) pid signal p"

definition sys_signal :: "int \<Rightarrow> u64 \<Rightarrow> procs \<Rightarrow> kerror + procs \<times> int" where
  "sys_signal signal handler p = Task_signal (current p) signal handler p"

definition sys_access :: "name \<Rightarrow> procs \<Rightarrow> kerror + procs \<times> int" where
  "sys_access pathname p = in_vfs (\<lambda>cwd. access memfs_vtable cwd pathname) p"

definition sys_chdir :: "name \<Rightarrow> procs \<Rightarrow> kerror + procs \<times> int" where
  "sys_chdir pathname p =
     bindE (sys_access pathname p) (\<lambda>(p, r).
     if r = - 1 then Inr (p, - 1)
     else
       bindE (in_vfs (\<lambda>cwd. resolve_path memfs_vtable cwd pathname) p) (\<lambda>(p, r).
       case r_target r of
         None \<Rightarrow> Inl NullDeref
       | Some v \<Rightarrow>
           if \<not> is_directory (vt_get_mode memfs_vtable v (kvfs p)) then Inr (p, - 1)
           else bindE (upd_task (current p) (\<lambda>t. t\<lparr>cwd_vnode := v\<rparr>) p) (\<lambda>p. Inr (p, 0))))"

definition sys_mkdir :: "name \<Rightarrow> procs \<Rightarrow> kerror + procs \<times> int" where
  "sys_mkdir pathname p = in_vfs (\<lambda>cwd. mkdir memfs_vtable cwd pathname) p"

definition sys_rmdir :: "name \<Rightarrow> procs \<Rightarrow> kerror + procs \<times> int" where
  "sys_rmdir pathname p = in_vfs (\<lambda>cwd. rmdir pathname) p"

definition sys_unlink :: "name \<Rightarrow> procs \<Rightarrow> kerror + procs \<times> int" where
  "sys_unlink pathname p = in_vfs (\<lambda>cwd. unlink pathname) p"

definition sys_mount :: "name \<Rightarrow> name \<Rightarrow> name \<Rightarrow> procs \<Rightarrow> kerror + procs \<times> int" where
  "sys_mount device_name mountpoint fs_name p =
     in_vfs (\<lambda>cwd. mount memfs_vtable cwd mountpoint fs_name) p"

definition sys_umount :: "name \<Rightarrow> procs \<Rightarrow> kerror + procs \<times> int" where
  "sys_umount mountpoint p = in_vfs (\<lambda>cwd. umount memfs_vtable cwd mountpoint) p"

definition sys_mknod :: "name \<Rightarrow> u32 \<Rightarrow> u32 \<Rightarrow> procs \<Rightarrow> kerror + procs \<times> int" where
  "sys_mknod pathname mode dev p = in_vfs (\<lambda>cwd. mknod memfs_vtable cwd pathname mode dev) p"

definition sys_getcwd :: int where
  "sys_getcwd = - 1"

definition sys_munmap :: int where
  "sys_munmap = - 1"

definition sys_sigreturn :: int where
  "sys_sigreturn = - 1"


subsection \<open>Starting up\<close>

definition idle_name :: "u8 list" where
  "idle_name = [105, 100, 108, 101, 0]"

definition start_init_name :: "u8 list" where
  "start_init_name = [115, 116, 97, 114, 116, 95, 105, 110, 105, 116, 0]"

definition start_kthreadd_name :: "u8 list" where
  "start_kthreadd_name = [115, 116, 97, 114, 116, 95, 107, 116, 104, 114, 101, 97, 100, 100, 0]"

definition TaskScheduler :: "world \<Rightarrow> procs" where
  "TaskScheduler w = \<lparr>tasks = (\<lambda>_. None), next_task = 0, current = 0, init_task = None, kthreadd = None,
     next_pid = 0, need_reschedule = False, runqueue = [], kvfs = w\<rparr>"

text \<open>The part of \<open>Kernel::run\<close> that creates the first tasks and starts the scheduler.\<close>

definition Kernel_run :: "world \<Rightarrow> kerror + procs" where
  "Kernel_run w =
     bindE (Task_new False None idle_name (TaskScheduler w)) (\<lambda>(p, t).
     bindE (enqueue_task (Some t) p) (\<lambda>p.
     bindE (Task_new True None start_init_name p) (\<lambda>(p, t).
     bindE (enqueue_task (Some t) p) (\<lambda>p.
     bindE (Task_new False None start_kthreadd_name p) (\<lambda>(p, t).
     bindE (enqueue_task (Some t) p) sched_run)))))"

end
