(* ===== verification/TaskTree.thy ===== *)
theory TaskTree
  imports Main
begin

text \<open>
  The invariant of the process tree, over a view of the tasks as functions of their addresses:
  the parent, the running and the terminated children and the process id of each live task.
  \<open>D\<close> are the tasks that are about to be deleted and that nothing owns any more.
\<close>

definition tree :: "nat set \<Rightarrow> (nat \<Rightarrow> nat option) \<Rightarrow> (nat \<Rightarrow> nat list) \<Rightarrow> (nat \<Rightarrow> nat list) \<Rightarrow>
    (nat \<Rightarrow> nat) \<Rightarrow> nat list \<Rightarrow> nat set \<Rightarrow> bool" where
  "tree L par act trm pd rq D \<longleftrightarrow>
     (\<forall>a \<in> L. par a = None \<longrightarrow> a \<in> set rq) \<and>
     (\<forall>a \<in> L. \<forall>q. par a = Some q \<longrightarrow> 3 \<le> pd a) \<and>
     (\<forall>a \<in> L. \<forall>q. par a = Some q \<longrightarrow> a \<notin> D \<longrightarrow> q \<in> L \<and> pd q < pd a) \<and>
     (\<forall>a \<in> L. \<forall>q. par a = Some q \<longrightarrow> a \<in> set rq \<longrightarrow> a \<in> set (act q)) \<and>
     (\<forall>a \<in> L. \<forall>q. par a = Some q \<longrightarrow> a \<notin> D \<longrightarrow> a \<notin> set rq \<longrightarrow> a \<in> set (trm q)) \<and>
     (\<forall>a \<in> L. \<forall>c \<in> set (act a). c \<in> L \<and> par c = Some a \<and> c \<in> set rq) \<and>
     (\<forall>a \<in> L. \<forall>c \<in> set (trm a). c \<in> L \<and> par c = Some a \<and> c \<notin> set rq \<and> c \<notin> D) \<and>
     (\<forall>a \<in> L. distinct (act a)) \<and> (\<forall>a \<in> L. distinct (trm a)) \<and>
     D \<subseteq> L \<and> D \<inter> set rq = {} \<and> distinct rq \<and> set rq \<subseteq> L \<and> inj_on pd L"

lemma treeD:
  assumes "tree L par act trm pd rq D"
  shows "\<And>a. a \<in> L \<Longrightarrow> par a = None \<Longrightarrow> a \<in> set rq"
    and "\<And>a q. a \<in> L \<Longrightarrow> par a = Some q \<Longrightarrow> 3 \<le> pd a"
    and "\<And>a q. a \<in> L \<Longrightarrow> par a = Some q \<Longrightarrow> a \<notin> D \<Longrightarrow> q \<in> L \<and> pd q < pd a"
    and "\<And>a q. a \<in> L \<Longrightarrow> par a = Some q \<Longrightarrow> a \<in> set rq \<Longrightarrow> a \<in> set (act q)"
    and "\<And>a q. a \<in> L \<Longrightarrow> par a = Some q \<Longrightarrow> a \<notin> D \<Longrightarrow> a \<notin> set rq \<Longrightarrow> a \<in> set (trm q)"
    and "\<And>a c. a \<in> L \<Longrightarrow> c \<in> set (act a) \<Longrightarrow> c \<in> L \<and> par c = Some a \<and> c \<in> set rq"
    and "\<And>a c. a \<in> L \<Longrightarrow> c \<in> set (trm a) \<Longrightarrow> c \<in> L \<and> par c = Some a \<and> c \<notin> set rq \<and> c \<notin> D"
    and "\<And>a. a \<in> L \<Longrightarrow> distinct (act a)" and "\<And>a. a \<in> L \<Longrightarrow> distinct (trm a)"
    and "D \<subseteq> L" and "D \<inter> set rq = {}" and "distinct rq" and "set rq \<subseteq> L" and "inj_on pd L"
proof -
  note c1 = assms [unfolded tree_def]
  note c2 = c1 [THEN conjunct2]
  note c3 = c2 [THEN conjunct2]
  note c4 = c3 [THEN conjunct2]
  note c5 = c4 [THEN conjunct2]
  note c6 = c5 [THEN conjunct2]
  note c7 = c6 [THEN conjunct2]
  note c8 = c7 [THEN conjunct2]
  note c9 = c8 [THEN conjunct2]
  note c10 = c9 [THEN conjunct2]
  note c11 = c10 [THEN conjunct2]
  note c12 = c11 [THEN conjunct2]
  note c13 = c12 [THEN conjunct2]
  note c14 = c13 [THEN conjunct2]
  note c = c1 [THEN conjunct1, rule_format] c2 [THEN conjunct1, rule_format] c3 [THEN conjunct1, rule_format] c4 [THEN conjunct1, rule_format] c5 [THEN conjunct1, rule_format] c6 [THEN conjunct1, rule_format] c7 [THEN conjunct1, rule_format] c8 [THEN conjunct1, rule_format] c9 [THEN conjunct1, rule_format] c10 [THEN conjunct1, rule_format] c11 [THEN conjunct1, rule_format] c12 [THEN conjunct1, rule_format] c13 [THEN conjunct1, rule_format] c14
  show "\<And>a. a \<in> L \<Longrightarrow> par a = None \<Longrightarrow> a \<in> set rq" by (rule c(1))
  show "\<And>a q. a \<in> L \<Longrightarrow> par a = Some q \<Longrightarrow> 3 \<le> pd a" by (rule c(2))
  show "\<And>a q. a \<in> L \<Longrightarrow> par a = Some q \<Longrightarrow> a \<notin> D \<Longrightarrow> q \<in> L \<and> pd q < pd a" by (rule c(3))
  show "\<And>a q. a \<in> L \<Longrightarrow> par a = Some q \<Longrightarrow> a \<in> set rq \<Longrightarrow> a \<in> set (act q)" by (rule c(4))
  show "\<And>a q. a \<in> L \<Longrightarrow> par a = Some q \<Longrightarrow> a \<notin> D \<Longrightarrow> a \<notin> set rq \<Longrightarrow> a \<in> set (trm q)" by (rule c(5))
  show "\<And>a c. a \<in> L \<Longrightarrow> c \<in> set (act a) \<Longrightarrow> c \<in> L \<and> par c = Some a \<and> c \<in> set rq" by (rule c(6))
  show "\<And>a c. a \<in> L \<Longrightarrow> c \<in> set (trm a) \<Longrightarrow> c \<in> L \<and> par c = Some a \<and> c \<notin> set rq \<and> c \<notin> D" by (rule c(7))
  show "\<And>a. a \<in> L \<Longrightarrow> distinct (act a)" by (rule c(8))
  show "\<And>a. a \<in> L \<Longrightarrow> distinct (trm a)" by (rule c(9))
  show "D \<subseteq> L" by (rule c(10))
  show "D \<inter> set rq = {}" by (rule c(11))
  show "distinct rq" by (rule c(12))
  show "set rq \<subseteq> L" by (rule c(13))
  show "inj_on pd L" by (rule c(14))
qed

lemma treeI:
  assumes "\<And>a. a \<in> L \<Longrightarrow> par a = None \<Longrightarrow> a \<in> set rq"
    and "\<And>a q. a \<in> L \<Longrightarrow> par a = Some q \<Longrightarrow> 3 \<le> pd a"
    and "\<And>a q. a \<in> L \<Longrightarrow> par a = Some q \<Longrightarrow> a \<notin> D \<Longrightarrow> q \<in> L \<and> pd q < pd a"
    and "\<And>a q. a \<in> L \<Longrightarrow> par a = Some q \<Longrightarrow> a \<in> set rq \<Longrightarrow> a \<in> set (act q)"
    and "\<And>a q. a \<in> L \<Longrightarrow> par a = Some q \<Longrightarrow> a \<notin> D \<Longrightarrow> a \<notin> set rq \<Longrightarrow> a \<in> set (trm q)"
    and "\<And>a c. a \<in> L \<Longrightarrow> c \<in> set (act a) \<Longrightarrow> c \<in> L \<and> par c = Some a \<and> c \<in> set rq"
    and "\<And>a c. a \<in> L \<Longrightarrow> c \<in> set (trm a) \<Longrightarrow> c \<in> L \<and> par c = Some a \<and> c \<notin> set rq \<and> c \<notin> D"
    and "\<And>a. a \<in> L \<Longrightarrow> distinct (act a)" and "\<And>a. a \<in> L \<Longrightarrow> distinct (trm a)"
    and "D \<subseteq> L" and "D \<inter> set rq = {}" and "distinct rq" and "set rq \<subseteq> L" and "inj_on pd L"
  shows "tree L par act trm pd rq D"
  unfolding tree_def
proof (intro conjI)
  show "\<forall>a \<in> L. par a = None \<longrightarrow> a \<in> set rq" using assms(1) by blast
  show "\<forall>a \<in> L. \<forall>q. par a = Some q \<longrightarrow> 3 \<le> pd a" using assms(2) by blast
  show "\<forall>a \<in> L. \<forall>q. par a = Some q \<longrightarrow> a \<notin> D \<longrightarrow> q \<in> L \<and> pd q < pd a" using assms(3) by blast
  show "\<forall>a \<in> L. \<forall>q. par a = Some q \<longrightarrow> a \<in> set rq \<longrightarrow> a \<in> set (act q)" using assms(4) by blast
  show "\<forall>a \<in> L. \<forall>q. par a = Some q \<longrightarrow> a \<notin> D \<longrightarrow> a \<notin> set rq \<longrightarrow> a \<in> set (trm q)" using assms(5) by blast
  show "\<forall>a \<in> L. \<forall>c \<in> set (act a). c \<in> L \<and> par c = Some a \<and> c \<in> set rq" using assms(6) by blast
  show "\<forall>a \<in> L. \<forall>c \<in> set (trm a). c \<in> L \<and> par c = Some a \<and> c \<notin> set rq \<and> c \<notin> D" using assms(7) by blast
  show "\<forall>a \<in> L. distinct (act a)" using assms(8) by blast
  show "\<forall>a \<in> L. distinct (trm a)" using assms(9) by blast
  show "D \<subseteq> L" using assms(10) by blast
  show "D \<inter> set rq = {}" using assms(11) by blast
  show "distinct rq" using assms(12) by blast
  show "set rq \<subseteq> L" using assms(13) by blast
  show "inj_on pd L" using assms(14) by blast
qed


subsection \<open>What the operations do to the tree\<close>

text \<open>Only the live tasks matter.\<close>

lemma tree_cong:
  assumes t: "tree L par act trm pd rq D"
    and eq: "\<And>a. a \<in> L \<Longrightarrow> par' a = par a \<and> act' a = act a \<and> trm' a = trm a \<and> pd' a = pd a"
  shows "tree L par' act' trm' pd' rq D"
proof (rule treeI)
  show "inj_on pd' L" using treeD(14) [OF t] inj_on_cong [of L pd' pd] eq by simp
next
  fix a q assume a: "a \<in> L" "par' a = Some q" "a \<notin> D"
  then have "q \<in> L \<and> pd q < pd a" using treeD(3) [OF t, of a q] eq by simp
  then show "q \<in> L \<and> pd' q < pd' a" using eq a(1) by simp
next
  fix a q assume a: "a \<in> L" "par' a = Some q" "a \<in> set rq"
  have "a \<notin> D" using treeD(11) [OF t] a(3) by blast
  then have "q \<in> L" using treeD(3) [OF t, of a q] eq a by simp
  then show "a \<in> set (act' q)" using treeD(4) [OF t, of a q] eq a by simp
next
  fix a q assume a: "a \<in> L" "par' a = Some q" "a \<notin> D" "a \<notin> set rq"
  then have "q \<in> L" using treeD(3) [OF t, of a q] eq by simp
  then show "a \<in> set (trm' q)" using treeD(5) [OF t, of a q] eq a by simp
next
  fix a c assume a: "a \<in> L" "c \<in> set (act' a)"
  then show "c \<in> L \<and> par' c = Some a \<and> c \<in> set rq" using treeD(6) [OF t, of a c] eq by simp
next
  fix a c assume a: "a \<in> L" "c \<in> set (trm' a)"
  then show "c \<in> L \<and> par' c = Some a \<and> c \<notin> set rq \<and> c \<notin> D" using treeD(7) [OF t, of a c] eq by simp
next
  fix a assume "a \<in> L" "par' a = None"
  then show "a \<in> set rq" using treeD(1) [OF t, of a] eq by simp
next
  fix a q assume "a \<in> L" "par' a = Some q"
  then show "3 \<le> pd' a" using treeD(2) [OF t, of a q] eq by simp
qed (use treeD(8,9) [OF t] eq treeD(10,11,12,13) [OF t] in simp_all)

lemma tree_requeue:
  assumes "tree L par act trm pd rq D" and "set rq' = set rq" and "distinct rq'"
  shows "tree L par act trm pd rq' D"
  using assms(1,3) unfolding tree_def assms(2) by (elim conjE, intro conjI) assumption+

lemma tree_new:
  assumes t: "tree L par act trm pd rq {}" and x: "x \<notin> L" and q: "q \<in> L"
    and n: "\<And>a. a \<in> L \<Longrightarrow> pd a < n" "3 \<le> n"
  shows "tree (insert x L) (par(x := Some q)) (act(q := act q @ [x], x := [])) (trm(x := []))
    (pd(x := n)) (rq @ [x]) {}"
proof -
  have rq: "x \<notin> set rq" using treeD(13) [OF t] x by blast
  have act: "x \<notin> set (act a)" if "a \<in> L" for a using treeD(6) [OF t that] x by blast
  have trm: "x \<notin> set (trm a)" if "a \<in> L" for a using treeD(7) [OF t that] x by blast
  have qx: "q \<noteq> x" using q x by blast
  have inj: "inj_on (pd(x := n)) (insert x L)"
    using treeD(14) [OF t] x n(1) by (auto simp: inj_on_def)
  show ?thesis
  proof (rule treeI)
    fix a p assume "a \<in> insert x L" "(par(x := Some q)) a = Some p" "a \<notin> {}"
    then show "p \<in> insert x L \<and> (pd(x := n)) p < (pd(x := n)) a"
      using treeD(3) [OF t, of a p] x q n qx by (auto split: if_splits)
  next
    fix a c assume "a \<in> insert x L" "c \<in> set ((act(q := act q @ [x], x := [])) a)"
    then show "c \<in> insert x L \<and> (par(x := Some q)) c = Some a \<and> c \<in> set (rq @ [x])"
      using treeD(6) [OF t, of a c] x q act by (auto split: if_splits)
  next
    fix a c assume "a \<in> insert x L" "c \<in> set ((trm(x := [])) a)"
    then show "c \<in> insert x L \<and> (par(x := Some q)) c = Some a \<and> c \<notin> set (rq @ [x]) \<and> c \<notin> {}"
      using treeD(7) [OF t, of a c] x trm by (auto split: if_splits)
  next
    fix a p assume "a \<in> insert x L" "(par(x := Some q)) a = Some p" "a \<in> set (rq @ [x])"
    then show "a \<in> set ((act(q := act q @ [x], x := [])) p)"
      using treeD(3,4) [OF t, of a p] x qx by (auto split: if_splits)
  next
    fix a p assume "a \<in> insert x L" "(par(x := Some q)) a = Some p" "a \<notin> {}" "a \<notin> set (rq @ [x])"
    then show "a \<in> set ((trm(x := [])) p)"
      using treeD(3,5) [OF t, of a p] x by (auto split: if_splits)
  next
    fix a assume "a \<in> insert x L" "(par(x := Some q)) a = None"
    then show "a \<in> set (rq @ [x])" using treeD(1) [OF t, of a] by (auto split: if_splits)
  next
    fix a p assume "a \<in> insert x L" "(par(x := Some q)) a = Some p"
    then show "3 \<le> (pd(x := n)) a" using treeD(2) [OF t, of a p] n(2) by (auto split: if_splits)
  next
    fix a assume "a \<in> insert x L"
    then show "distinct ((act(q := act q @ [x], x := [])) a)"
      using treeD(8) [OF t, of a] act [OF q] by auto
  next
    fix a assume "a \<in> insert x L"
    then show "distinct ((trm(x := [])) a)" using treeD(9) [OF t, of a] by auto
  next
    show "distinct (rq @ [x])" using treeD(12) [OF t] rq by simp
    show "set (rq @ [x]) \<subseteq> insert x L" using treeD(13) [OF t] by auto
  qed (use inj in simp_all)
qed

lemma tree_exit:
  assumes t: "tree L par act trm pd rq {}" and a: "a \<in> set rq" "par a = Some q"
  shows "tree L par (act(q := remove1 a (act q))) (trm(q := trm q @ [a])) pd (remove1 a rq) {}"
proof -
  have aL: "a \<in> L" using treeD(13) [OF t] a(1) by blast
  have q: "q \<in> L" "pd q < pd a" using treeD(3) [OF t aL a(2)] by auto
  have rq: "set (remove1 a rq) = set rq - {a}" using treeD(12) [OF t] by simp
  have dq: "set (remove1 a (act q)) = set (act q) - {a}" using treeD(8) [OF t q(1)] by simp
  have at: "a \<notin> set (trm b)" if "b \<in> L" for b using treeD(7) [OF t that] a(1) by blast
  have ab: "b = q" if "b \<in> L" "a \<in> set (act b)" for b using treeD(6) [OF t that] a(2) by simp
  show ?thesis
  proof (rule treeI)
    fix b c assume "b \<in> L" "c \<in> set ((act(q := remove1 a (act q))) b)"
    then show "c \<in> L \<and> par c = Some b \<and> c \<in> set (remove1 a rq)"
      using treeD(6) [OF t, of b c] ab [of b] unfolding rq by (auto simp: dq split: if_splits)
  next
    fix b c assume "b \<in> L" "c \<in> set ((trm(q := trm q @ [a])) b)"
    then show "c \<in> L \<and> par c = Some b \<and> c \<notin> set (remove1 a rq) \<and> c \<notin> {}"
      using treeD(7) [OF t, of b c] aL a(2) unfolding rq by (auto split: if_splits)
  next
    fix b p assume "b \<in> L" "par b = Some p" "b \<in> set (remove1 a rq)"
    then show "b \<in> set ((act(q := remove1 a (act q))) p)"
      using treeD(4) [OF t, of b p] unfolding rq by (auto simp: dq)
  next
    fix b p assume "b \<in> L" "par b = Some p" "b \<notin> {}" "b \<notin> set (remove1 a rq)"
    then show "b \<in> set ((trm(q := trm q @ [a])) p)"
      using treeD(5) [OF t, of b p] a(2) unfolding rq by auto
  next
    fix b assume "b \<in> L" "par b = None"
    then show "b \<in> set (remove1 a rq)" using treeD(1) [OF t, of b] a(2) unfolding rq by auto
  next
    fix b p assume "b \<in> L" "par b = Some p" "b \<notin> {}"
    then show "p \<in> L \<and> pd p < pd b" using treeD(3) [OF t] by blast
  next
    fix b assume "b \<in> L"
    then show "distinct ((act(q := remove1 a (act q))) b)" using treeD(8) [OF t] q(1) by (simp add: distinct_remove1)
  next
    fix b assume "b \<in> L"
    then show "distinct ((trm(q := trm q @ [a])) b)" using treeD(9) [OF t] at q(1) by simp
  next
    show "distinct (remove1 a rq)" using treeD(12) [OF t] by simp
    show "set (remove1 a rq) \<subseteq> L" using treeD(13) [OF t] rq by blast
    show "inj_on pd L" by (rule treeD(14) [OF t])
  qed (use treeD(2) [OF t] in simp_all)
qed

lemma tree_adopt:
  assumes t: "tree L par act trm pd rq D" and a: "a \<in> D" "act a = c # cs"
    and i: "i \<in> set rq" "par i = None" "pd i < 3"
  shows "tree L (par(c := Some i)) (act(i := act i @ [c], a := cs)) trm pd rq D"
proof -
  have aL: "a \<in> L" and ar: "a \<notin> set rq" using a(1) treeD(10,11) [OF t] by auto
  have c: "c \<in> L" "par c = Some a" "c \<in> set rq" using treeD(6) [OF t aL, of c] a(2) by auto
  have iL: "i \<in> L" using i(1) treeD(13) [OF t] by blast
  have ne: "i \<noteq> a" "i \<noteq> c" "c \<noteq> a" using i(1,2) ar c by auto
  have only: "b = a" if "b \<in> L" "c \<in> set (act b)" for b using treeD(6) [OF t that] c(2) by simp
  have cs: "c \<notin> set cs" "distinct cs" using treeD(8) [OF t aL] a(2) by auto
  have ct: "c \<notin> set (trm b)" if "b \<in> L" for b using treeD(7) [OF t that] c(3) by blast
  show ?thesis
  proof (rule treeI)
    fix b p assume b: "b \<in> L" "(par(c := Some i)) b = Some p" "b \<notin> D"
    then show "p \<in> L \<and> pd p < pd b"
      using treeD(3) [OF t, of b p] treeD(2) [OF t c(1,2)] iL i(3) by (auto split: if_splits)
  next
    fix b p assume b: "b \<in> L" "(par(c := Some i)) b = Some p" "b \<in> set rq"
    then show "b \<in> set ((act(i := act i @ [c], a := cs)) p)"
      using treeD(4) [OF t, of b p] a(2) ne by (auto split: if_splits)
  next
    fix b e assume b: "b \<in> L" and e: "e \<in> set ((act(i := act i @ [c], a := cs)) b)"
    show "e \<in> L \<and> (par(c := Some i)) e = Some b \<and> e \<in> set rq"
    proof (cases "e = c")
      case True
      then have "b = i" using e cs(1) only [OF b] by (auto split: if_splits)
      then show ?thesis using True c by simp
    next
      case False
      then have "e \<in> set (act b)" using e a(2) by (auto split: if_splits)
      from treeD(6) [OF t b this] show ?thesis using False by simp
    qed
  next
    fix b e assume "b \<in> L" "e \<in> set (trm b)"
    then show "e \<in> L \<and> (par(c := Some i)) e = Some b \<and> e \<notin> set rq \<and> e \<notin> D"
      using treeD(7) [OF t, of b e] ct by auto
  next
    fix b assume "b \<in> L" "(par(c := Some i)) b = None"
    then show "b \<in> set rq" using treeD(1) [OF t, of b] by (auto split: if_splits)
  next
    fix b p assume "b \<in> L" "(par(c := Some i)) b = Some p"
    then show "3 \<le> pd b" using treeD(2) [OF t, of b] treeD(2) [OF t c(1,2)] by (auto split: if_splits)
  next
    fix b p assume "b \<in> L" "(par(c := Some i)) b = Some p" "b \<notin> D" "b \<notin> set rq"
    then show "b \<in> set (trm p)" using treeD(5) [OF t, of b p] c(3) by (auto split: if_splits)
  next
    fix b assume b: "b \<in> L"
    have "c \<notin> set (act i)" using only [OF iL] ne by blast
    then show "distinct ((act(i := act i @ [c], a := cs)) b)"
      using treeD(8) [OF t b] treeD(8) [OF t iL] cs by simp
  next
    fix b assume "b \<in> L"
    then show "distinct (trm b)" by (rule treeD(9) [OF t])
  qed (fact treeD(10,11,12,13,14) [OF t])+
qed

lemma tree_delete:
  assumes t: "tree L par act trm pd rq D" and a: "a \<in> D" "act a = []"
  shows "tree (L - {a}) par act trm pd rq (D - {a} \<union> set (trm a))"
proof -
  have aL: "a \<in> L" and ar: "a \<notin> set rq" using a(1) treeD(10,11) [OF t] by auto
  show ?thesis
  proof (rule treeI)
    fix b q assume b: "b \<in> L - {a}" "par b = Some q" "b \<notin> D - {a} \<union> set (trm a)"
    have "q \<in> L \<and> pd q < pd b" using treeD(3) [OF t, of b q] b by auto
    moreover have "q \<noteq> a"
      using treeD(4) [OF t, of b q] treeD(5) [OF t, of b q] b a by (cases "b \<in> set rq") auto
    ultimately show "q \<in> L - {a} \<and> pd q < pd b" by blast
  next
    fix b c assume "b \<in> L - {a}" "c \<in> set (trm b)"
    then show "c \<in> L - {a} \<and> par c = Some b \<and> c \<notin> set rq \<and> c \<notin> D - {a} \<union> set (trm a)"
      using treeD(7) [OF t, of b c] treeD(7) [OF t aL, of c] a(1) by auto
  next
    fix b c assume "b \<in> L - {a}" "c \<in> set (act b)"
    then show "c \<in> L - {a} \<and> par c = Some b \<and> c \<in> set rq"
      using treeD(6) [OF t, of b c] ar by auto
  next
    show "D - {a} \<union> set (trm a) \<subseteq> L - {a}" using treeD(10) [OF t] treeD(7) [OF t aL] a(1) by auto
    show "(D - {a} \<union> set (trm a)) \<inter> set rq = {}" using treeD(11) [OF t] treeD(7) [OF t aL] by auto
    show "inj_on pd (L - {a})" using treeD(14) [OF t] by (rule inj_on_subset) blast
  next
    fix b q assume "b \<in> L - {a}" "par b = Some q" "b \<notin> D - {a} \<union> set (trm a)" "b \<notin> set rq"
    then show "b \<in> set (trm q)" using treeD(5) [OF t, of b q] by auto
  next
    show "set rq \<subseteq> L - {a}" using treeD(13) [OF t] ar by blast
  qed (use treeD(1,2,4,8,9,12) [OF t] in simp_all)
qed

lemma tree_reap:
  assumes t: "tree L par act trm pd rq {}" and a: "a \<in> L" "trm a = c # cs"
  shows "tree L par act (trm(a := cs)) pd rq {c}"
proof -
  have c: "c \<in> L" "par c = Some a" "c \<notin> set rq" using treeD(7) [OF t a(1), of c] a(2) by auto
  have cs: "c \<notin> set cs" "distinct cs" using treeD(9) [OF t a(1)] a(2) by auto
  show ?thesis
  proof (rule treeI)
    fix b e assume "b \<in> L" "e \<in> set ((trm(a := cs)) b)"
    then show "e \<in> L \<and> par e = Some b \<and> e \<notin> set rq \<and> e \<notin> {c}"
      using treeD(7) [OF t, of b e] a(2) c(2) cs by (auto split: if_splits)
  next
    fix b q assume "b \<in> L" "par b = Some q" "b \<notin> {c}" "b \<notin> set rq"
    then show "b \<in> set ((trm(a := cs)) q)" using treeD(5) [OF t, of b q] a(2) by auto
  next
    fix b q assume "b \<in> L" "par b = Some q" "b \<notin> {c}"
    then show "q \<in> L \<and> pd q < pd b" using treeD(3) [OF t] by blast
  next
    fix b e assume "b \<in> L" "e \<in> set (act b)"
    then show "e \<in> L \<and> par e = Some b \<and> e \<in> set rq" by (rule treeD(6) [OF t])
  next
    fix b assume "b \<in> L"
    then show "distinct ((trm(a := cs)) b)" using treeD(9) [OF t] cs by simp
  next
    show "inj_on pd L" by (rule treeD(14) [OF t])
    show "set rq \<subseteq> L" by (rule treeD(13) [OF t])
  qed (use treeD(1,2,4,8,12) [OF t] c in simp_all)
qed

end
