(* ===== verification/TaskTheorems.thy ===== *)
theory TaskTheorems
  imports Syscalls TaskTree MemFSTheorems
begin

text \<open>
  The operations of the kernel on tasks keep the invariant \<open>procs_ok\<close>: the process tree is a
  tree of live tasks, every task is owned exactly once, the current task is at the front of
  the run queue, and every descriptor and working directory refers to a live object of the
  file systems. They fail in no other way than by the panics of the source.
\<close>

subsection \<open>The view of the tasks\<close>

definition par :: "procs \<Rightarrow> nat \<Rightarrow> nat option" where
  "par p a = Option.bind (tasks p a) tk_parent"

definition act :: "procs \<Rightarrow> nat \<Rightarrow> nat list" where
  "act p a = (case tasks p a of None \<Rightarrow> [] | Some t \<Rightarrow> active_children t)"

definition trm :: "procs \<Rightarrow> nat \<Rightarrow> nat list" where
  "trm p a = (case tasks p a of None \<Rightarrow> [] | Some t \<Rightarrow> terminated_children t)"

definition pd :: "procs \<Rightarrow> nat \<Rightarrow> nat" where
  "pd p a = (case tasks p a of None \<Rightarrow> 0 | Some t \<Rightarrow> unat (tk_pid t))"

definition tree_of :: "procs \<Rightarrow> nat set \<Rightarrow> bool" where
  "tree_of p D = tree (dom (tasks p)) (par p) (act p) (trm p) (pd p) (runqueue p) D"

lemma view_at:
  assumes "tasks p a = Some t"
  shows "par p a = tk_parent t" "act p a = active_children t" "trm p a = terminated_children t"
    "pd p a = unat (tk_pid t)" "a \<in> dom (tasks p)"
  using assms by (auto simp: par_def act_def trm_def pd_def)

lemma view_upd:
  "par (p\<lparr>tasks := (tasks p)(a \<mapsto> t)\<rparr>) = (par p)(a := tk_parent t)"
  "act (p\<lparr>tasks := (tasks p)(a \<mapsto> t)\<rparr>) = (act p)(a := active_children t)"
  "trm (p\<lparr>tasks := (tasks p)(a \<mapsto> t)\<rparr>) = (trm p)(a := terminated_children t)"
  "pd (p\<lparr>tasks := (tasks p)(a \<mapsto> t)\<rparr>) = (pd p)(a := unat (tk_pid t))"
  by (rule ext; simp add: par_def act_def trm_def pd_def)+

lemma view_tasks:
  assumes "tasks q = tasks p"
  shows "par q = par p" "act q = act p" "trm q = trm p" "pd q = pd p"
  by (rule ext; simp add: par_def act_def trm_def pd_def assms)+

lemma tree_of_eq: "tasks q = tasks p \<Longrightarrow> runqueue q = runqueue p \<Longrightarrow> tree_of q D = tree_of p D"
  by (simp add: tree_of_def view_tasks [of q p])

text \<open>An update that leaves the tree alone.\<close>

lemma tree_of_upd:
  assumes "tree_of p D" and "tasks p a = Some t"
    and "tk_parent t' = tk_parent t" "active_children t' = active_children t"
    and "terminated_children t' = terminated_children t" "tk_pid t' = tk_pid t"
  shows "tree_of (p\<lparr>tasks := (tasks p)(a \<mapsto> t')\<rparr>) D"
proof -
  have "(par p)(a := tk_parent t') = par p" "(act p)(a := active_children t') = act p"
    "(trm p)(a := terminated_children t') = trm p" "(pd p)(a := unat (tk_pid t')) = pd p"
    using assms(3-) view_at [OF assms(2)] by auto
  moreover have "dom ((tasks p)(a \<mapsto> t')) = dom (tasks p)" using assms(2) by auto
  ultimately show ?thesis using assms(1) by (simp add: tree_of_def view_upd)
qed


subsection \<open>The invariant\<close>

definition task_wf :: "world \<Rightarrow> task \<Rightarrow> bool" where
  "task_wf w t \<longleftrightarrow>
     length (fd_table t) = NR_TASK_FD_LIMITS \<and> (\<forall>f. Some f \<in> set (fd_table t) \<longrightarrow> files w f \<noteq> None) \<and>
     length (custom_signal_handlers t) = nat NR_signals \<and> list_all is_signal_valid (pending_signals t) \<and>
     length (tk_name t) = TASK_NAME_MAX_LEN \<and> 0 \<in> set (tk_name t) \<and>
     0 \<le> time_slice t \<and> time_slice t \<le> TASK_TIME_SLICE \<and> live_inode (fs_state w) (cwd_vnode t)"

definition fs_good :: "world \<Rightarrow> bool" where
  "fs_good w \<longleftrightarrow> mem_ok w \<and> mounts w \<noteq> [] \<and> (\<forall>f \<in> set (opened_files w). files w f \<noteq> None)"

definition named_task :: "procs \<Rightarrow> nat option \<Rightarrow> nat \<Rightarrow> bool" where
  "named_task p i n \<longleftrightarrow> (\<exists>a. i = Some a \<and> a \<in> set (runqueue p) \<and> par p a = None \<and> pd p a = n)"

definition base_ok :: "procs \<Rightarrow> bool" where
  "base_ok p \<longleftrightarrow>
     (\<forall>a t. tasks p a = Some t \<longrightarrow> a < next_task p \<and> tk_pid t < next_pid p \<and> task_wf (kvfs p) t) \<and>
     named_task p (init_task p) 1 \<and> named_task p (kthreadd p) 2 \<and> 3 \<le> next_pid p \<and> fs_good (kvfs p)"

definition procs_ok :: "procs \<Rightarrow> bool" where
  "procs_ok p \<longleftrightarrow> tree_of p {} \<and> base_ok p \<and> runqueue p \<noteq> [] \<and> current p = hd (runqueue p)"

lemma base_okD:
  assumes "base_ok p"
  shows "\<And>a t. tasks p a = Some t \<Longrightarrow> a < next_task p" "\<And>a t. tasks p a = Some t \<Longrightarrow> tk_pid t < next_pid p"
    "\<And>a t. tasks p a = Some t \<Longrightarrow> task_wf (kvfs p) t" "named_task p (init_task p) 1"
    "named_task p (kthreadd p) 2" "3 \<le> next_pid p" "fs_good (kvfs p)"
  using assms by (simp_all add: base_ok_def)

lemmas tree_ofD = treeD [OF iffD1 [OF tree_of_def]]

lemma rq_live:
  assumes "tree_of p D" and "a \<in> set (runqueue p)"
  shows "\<exists>t. tasks p a = Some t"
  using tree_ofD(13) [OF assms(1)] assms(2) by blast

lemma current_live:
  assumes "procs_ok p"
  shows "\<exists>t. tasks p (current p) = Some t"
proof (rule rq_live)
  show "tree_of p {}" using assms by (simp add: procs_ok_def)
  show "current p \<in> set (runqueue p)" using assms by (simp add: procs_ok_def)
qed

lemma upd_task_live: "tasks p a = Some t \<Longrightarrow> upd_task a f p = Inr (p\<lparr>tasks := (tasks p)(a \<mapsto> f t)\<rparr>)"
  by (simp add: upd_task_def get_task_def)

lemma get_task_live: "tasks p a = Some t \<Longrightarrow> get_task p a = Inr t"
  by (simp add: get_task_def)

text \<open>An update of one task that keeps the invariant of the tasks.\<close>

lemma base_ok_upd:
  assumes "base_ok p" and "tasks p a = Some t" and "task_wf (kvfs p) t'" and "tk_pid t' = tk_pid t"
    and "tk_parent t' = tk_parent t"
  shows "base_ok (p\<lparr>tasks := (tasks p)(a \<mapsto> t')\<rparr>)"
proof -
  have "(par p)(a := tk_parent t') = par p" "(pd p)(a := unat (tk_pid t')) = pd p"
    using assms(4,5) view_at [OF assms(2)] by auto
  then have "named_task (p\<lparr>tasks := (tasks p)(a \<mapsto> t')\<rparr>) i n = named_task p i n" for i n
    by (simp add: named_task_def view_upd)
  then show ?thesis using assms by (simp add: base_ok_def)
qed

text \<open>A change of the file systems under which files and inodes stay alive.\<close>

lemma base_ok_vfs:
  assumes "base_ok p" and "fs_good w" and "\<And>f. files (kvfs p) f \<noteq> None \<Longrightarrow> files w f \<noteq> None"
    and "\<And>v. live_inode (fs_state (kvfs p)) v \<Longrightarrow> live_inode (fs_state w) v"
  shows "base_ok (p\<lparr>kvfs := w\<rparr>)"
proof -
  have "task_wf w t" if "task_wf (kvfs p) t" for t
    using that assms(3,4) by (simp add: task_wf_def)
  moreover have "named_task (p\<lparr>kvfs := w\<rparr>) i n = named_task p i n" for i n
    by (simp add: named_task_def view_tasks [of "p\<lparr>kvfs := w\<rparr>" p])
  ultimately show ?thesis using assms(1,2) by (simp add: base_ok_def)
qed

lemma base_ok_queue:
  assumes "base_ok p" and "set rq = set (runqueue p)"
  shows "base_ok (p\<lparr>runqueue := rq\<rparr>)"
proof -
  have "named_task (p\<lparr>runqueue := rq\<rparr>) i n = named_task p i n" for i n
    by (simp add: named_task_def view_tasks [of "p\<lparr>runqueue := rq\<rparr>" p] assms(2))
  then show ?thesis using assms(1) by (simp add: base_ok_def)
qed

lemma base_ok_frame:
  "base_ok (p\<lparr>current := c\<rparr>) = base_ok p" "base_ok (p\<lparr>need_reschedule := b\<rparr>) = base_ok p"
  by (simp_all add: base_ok_def named_task_def view_tasks [of "p\<lparr>current := c\<rparr>" p]
      view_tasks [of "p\<lparr>need_reschedule := b\<rparr>" p])

lemma tree_of_frame:
  "tree_of (p\<lparr>current := c\<rparr>) D = tree_of p D" "tree_of (p\<lparr>need_reschedule := b\<rparr>) D = tree_of p D"
  "tree_of (p\<lparr>kvfs := w\<rparr>) D = tree_of p D"
  by (rule tree_of_eq; simp)+

text \<open>Between the operations the current task may have left the run queue.\<close>

definition mid_ok :: "procs \<Rightarrow> bool" where
  "mid_ok p \<longleftrightarrow> tree_of p {} \<and> base_ok p \<and> current p \<in> dom (tasks p)"

lemma mid_okI: "procs_ok p \<Longrightarrow> mid_ok p"
  using current_live [of p] by (auto simp: procs_ok_def mid_ok_def)

lemma mid_ok_upd:
  assumes "mid_ok p" and "tasks p a = Some t" and "task_wf (kvfs p) t'"
    and "tk_parent t' = tk_parent t" "active_children t' = active_children t"
    and "terminated_children t' = terminated_children t" "tk_pid t' = tk_pid t"
  shows "mid_ok (p\<lparr>tasks := (tasks p)(a \<mapsto> t')\<rparr>)"
  using assms tree_of_upd [OF _ assms(2,4-7)] base_ok_upd [OF _ assms(2,3,7,4)]
  by (simp add: mid_ok_def)

lemma procs_ok_upd:
  assumes "procs_ok p" and "tasks p a = Some t" and "task_wf (kvfs p) t'"
    and "tk_parent t' = tk_parent t" "active_children t' = active_children t"
    and "terminated_children t' = terminated_children t" "tk_pid t' = tk_pid t"
  shows "procs_ok (p\<lparr>tasks := (tasks p)(a \<mapsto> t')\<rparr>)"
  using assms tree_of_upd [OF _ assms(2,4-7)] base_ok_upd [OF _ assms(2,3,7,4)]
  by (simp add: procs_ok_def)

lemma wf_of: "base_ok p \<Longrightarrow> tasks p a = Some t \<Longrightarrow> task_wf (kvfs p) t"
  by (rule base_okD(3))

lemma task_wf_simps [simp]:
  "task_wf w (t\<lparr>tk_state := s\<rparr>) = task_wf w t"
  "task_wf w (t\<lparr>tk_state := s, error_code := e\<rparr>) = task_wf w t"
  "task_wf w (t\<lparr>active_children := cs\<rparr>) = task_wf w t"
  "task_wf w (t\<lparr>terminated_children := cs\<rparr>) = task_wf w t"
  "task_wf w (t\<lparr>tk_parent := q\<rparr>) = task_wf w t"
  by (simp_all add: task_wf_def)


subsection \<open>Scheduling\<close>

lemma rq_not_empty: "base_ok p \<Longrightarrow> runqueue p \<noteq> []"
  by (auto simp: base_ok_def named_task_def)

lemma set_state_mid:
  assumes "mid_ok p" and "tasks p a = Some t"
  shows "\<exists>p'. set_state a s p = Inr p' \<and> mid_ok p' \<and> dom (tasks p') = dom (tasks p) \<and>
    p' = p\<lparr>tasks := (tasks p)(a \<mapsto> t\<lparr>tk_state := s\<rparr>)\<rparr>"
  using mid_ok_upd [OF assms, of "t\<lparr>tk_state := s\<rparr>"] assms wf_of
  by (auto simp: set_state_def upd_task_live mid_ok_def)

lemma schedule_ok:
  assumes "mid_ok p"
  shows "\<exists>p'. schedule p = Inr p' \<and> procs_ok p' \<and> runqueue p' = rotate1 (runqueue p) \<and>
    next_pid p' = next_pid p \<and> need_reschedule p' = need_reschedule p \<and>
    (\<forall>a. map_option time_slice (tasks p' a) = map_option time_slice (tasks p a))"
proof -
  let ?q = "p\<lparr>runqueue := rotate1 (runqueue p)\<rparr>"
  have b: "base_ok p" and t: "tree_of p {}" using assms by (simp_all add: mid_ok_def)
  have rq: "runqueue p \<noteq> []" by (rule rq_not_empty [OF b])
  have rot: "(if length (runqueue p) > 1 then p\<lparr>runqueue := tl (runqueue p) @ [hd (runqueue p)]\<rparr> else p) = ?q"
    using rq by (cases "runqueue p"; cases "tl (runqueue p)") auto
  have "tree_of ?q {}"
    using tree_requeue [OF t [unfolded tree_of_def], of "rotate1 (runqueue p)"] tree_ofD(12) [OF t]
    by (simp add: tree_of_def view_tasks [of ?q p])
  then have mq: "mid_ok ?q" using assms base_ok_queue [OF b, of "rotate1 (runqueue p)"] by (simp add: mid_ok_def)
  then obtain tc where tc: "tasks ?q (current ?q) = Some tc" by (auto simp: mid_ok_def)
  obtain p1 where p1: "set_state (current ?q) SLEEPING ?q = Inr p1" "mid_ok p1"
    and p1': "p1 = ?q\<lparr>tasks := (tasks ?q)(current ?q \<mapsto> tc\<lparr>tk_state := SLEEPING\<rparr>)\<rparr>"
    using set_state_mid [OF mq tc] by blast
  have r1: "runqueue p1 = rotate1 (runqueue p)" using p1' by simp
  have "runqueue p1 \<noteq> []" unfolding r1 using rq by simp
  then obtain h ts where hr: "runqueue p1 = h # ts" by (meson neq_Nil_conv)
  then obtain th where th: "tasks p1 h = Some th" using rq_live [of p1 "{}" h] p1(2) by (auto simp: mid_ok_def)
  obtain p2 where p2: "set_state h RUNNING p1 = Inr p2" "mid_ok p2"
    and p2': "p2 = p1\<lparr>tasks := (tasks p1)(h \<mapsto> th\<lparr>tk_state := RUNNING\<rparr>)\<rparr>"
    using set_state_mid [OF p1(2) th] by blast
  have "schedule p = Inr (p2\<lparr>current := h\<rparr>)"
    unfolding schedule_def rot Let_def p1(1) using p2(1) hr by simp
  moreover have "procs_ok (p2\<lparr>current := h\<rparr>)"
    using p2(2) p2' hr by (simp add: mid_ok_def procs_ok_def base_ok_frame tree_of_frame)
  moreover have "\<forall>a. map_option time_slice (tasks p2 a) = map_option time_slice (tasks p a)"
    using p1' p2' tc th by auto
  ultimately show ?thesis using p1' p2' r1 by (intro exI [of _ "p2\<lparr>current := h\<rparr>"]) simp
qed

lemma procs_ok_resched: "procs_ok (p\<lparr>need_reschedule := b\<rparr>) = procs_ok p"
  by (simp add: procs_ok_def base_ok_frame tree_of_frame)

lemma maybe_schedule_ok:
  assumes "procs_ok p"
  shows "\<exists>p'. maybe_schedule p = Inr p' \<and> procs_ok p' \<and> next_pid p' = next_pid p"
proof (cases "need_reschedule p")
  case True
  obtain t where t: "tasks p (current p) = Some t" using current_live [OF assms] by blast
  let ?q = "p\<lparr>need_reschedule := False\<rparr>"
  let ?t = "t\<lparr>time_slice := TASK_TIME_SLICE\<rparr>"
  have "mid_ok ?q" using mid_okI [OF assms] by (simp add: mid_ok_def base_ok_frame tree_of_frame)
  moreover have "task_wf (kvfs p) ?t"
    using base_okD(3) [of p, OF _ t] assms by (simp add: procs_ok_def task_wf_def TASK_TIME_SLICE_def)
  ultimately have "mid_ok (?q\<lparr>tasks := (tasks ?q)(current p \<mapsto> ?t)\<rparr>)"
    using mid_ok_upd [of ?q "current p" t ?t] t by simp
  from schedule_ok [OF this] show ?thesis
    using True t upd_task_live [of ?q "current p" t] by (auto simp: maybe_schedule_def)
qed (use assms in \<open>simp add: maybe_schedule_def\<close>)

lemma sched_tick_ok:
  assumes "procs_ok p"
  shows "\<exists>p'. sched_tick p = Inr p' \<and> procs_ok p' \<and> next_pid p' = next_pid p"
proof -
  obtain t where t: "tasks p (current p) = Some t" using current_live [OF assms] by blast
  have "task_wf (kvfs p) (Task_tick t)"
    using base_okD(3) [of p, OF _ t] assms by (auto simp: procs_ok_def task_wf_def Task_tick_def)
  then have "procs_ok (p\<lparr>tasks := (tasks p)(current p \<mapsto> Task_tick t)\<rparr>)"
    by (intro procs_ok_upd [OF assms t]) (simp_all add: Task_tick_def)
  then show ?thesis
    using upd_task_live [OF t, of Task_tick]
    by (simp add: sched_tick_def get_task_def procs_ok_resched)
qed


subsection \<open>Files\<close>

lemma close_frame:
  assumes "close (Some f) n w = Inr (w', r)"
  shows "fs_state w' = fs_state w \<and> mounts w' = mounts w \<and> dom (files w') = dom (files w) \<and>
    set (opened_files w') \<subseteq> set (opened_files w)"
proof -
  have sub: "set (takeWhile P xs @ tl (dropWhile P xs)) \<subseteq> set xs" for P :: "nat \<Rightarrow> bool" and xs
    using subseq_facts(1) [OF remove_first_subseq] .
  obtain obj where o: "files w f = Some obj" using assms by (auto simp: close_def split: option.splits)
  let ?w = "w\<lparr>files := (files w)(f \<mapsto> obj\<lparr>file_pos := 0\<rparr>)\<rparr>"
  let ?same = "\<lambda>g. \<not> vnode_of_file w g = file_vnode obj"
  have "w' = w \<or> w' = ?w \<or>
      w' = ?w\<lparr>opened_files := takeWhile ?same (opened_files w) @ tl (dropWhile ?same (opened_files w))\<rparr>"
    using assms o by (auto simp: close_def Let_def split: if_splits)
  then show ?thesis using o sub [of ?same "opened_files w"] by (elim disjE) auto
qed

lemma close_returns:
  assumes "files w f \<noteq> None"
  shows "\<exists>w' r. close (Some f) n w = Inr (w', r)"
  using assms by (auto simp: close_def Let_def)

lemma fs_good_close:
  assumes "fs_good w" and "close (Some f) n w = Inr (w', r)"
  shows "fs_good w'"
proof -
  note fr = close_frame [OF assms(2)]
  have "mem_ok w'" using mem.close_ok [OF _ assms(2)] assms(1) by (simp add: fs_good_def mem.stays_defs)
  then show ?thesis using assms(1) fr by (fastforce simp: fs_good_def)
qed

text \<open>Operations that change nothing of a task but its descriptors.\<close>

definition same_tasks :: "procs \<Rightarrow> procs \<Rightarrow> bool" where
  "same_tasks p q \<longleftrightarrow> runqueue q = runqueue p \<and> current q = current p \<and> next_pid q = next_pid p \<and>
     dom (tasks q) = dom (tasks p) \<and> par q = par p \<and> act q = act p \<and> trm q = trm p \<and> pd q = pd p \<and>
     (\<forall>a. map_option error_code (tasks q a) = map_option error_code (tasks p a))"

lemma same_tasks_refl: "same_tasks p p"
  by (simp add: same_tasks_def)

lemma same_tasks_trans: "same_tasks p q \<Longrightarrow> same_tasks q r \<Longrightarrow> same_tasks p r"
  by (simp add: same_tasks_def)

lemma same_tasks_upd:
  assumes "tasks p a = Some t" and "tk_parent t' = tk_parent t" "active_children t' = active_children t"
    and "terminated_children t' = terminated_children t" "tk_pid t' = tk_pid t" "error_code t' = error_code t"
  shows "same_tasks p (p\<lparr>tasks := (tasks p)(a \<mapsto> t')\<rparr>)"
  using assms(2-) view_at [OF assms(1)] assms(1)
  by (auto simp: same_tasks_def view_upd fun_upd_idem)

lemma sys_close_ok:
  assumes "mid_ok p"
  shows "\<exists>p' r. sys_close fd p = Inr (p', r) \<and> mid_ok p' \<and> same_tasks p p'"
proof (cases "is_fd_valid fd")
  case False
  then show ?thesis using assms by (simp add: sys_close_def release_fd_and_get_file_def same_tasks_refl)
next
  case True
  obtain t where t: "tasks p (current p) = Some t" using assms by (auto simp: mid_ok_def)
  have wf: "task_wf (kvfs p) t" using assms t by (simp add: mid_ok_def wf_of)
  have fd: "0 \<le> fd" "nat fd < length (fd_table t)" "fd < int (length (fd_table t))"
    using True wf by (auto simp: is_fd_valid_def task_wf_def)
  let ?t = "t\<lparr>fd_table := (fd_table t)[nat fd := None]\<rparr>"
  let ?q = "p\<lparr>tasks := (tasks p)(current p \<mapsto> ?t)\<rparr>"
  have "task_wf (kvfs p) ?t"
    using wf set_update_subset_insert [of "fd_table t" "nat fd" None] by (auto simp: task_wf_def)
  then have q: "mid_ok ?q" by (intro mid_ok_upd [OF assms t]) simp_all
  have sq: "same_tasks p ?q" by (rule same_tasks_upd [OF t]) simp_all
  have rel: "release_fd_and_get_file (current p) fd p = Inr (?q, fd_table t ! nat fd)"
    using True fd t upd_task_live [OF t] by (simp add: release_fd_and_get_file_def get_task_def)
  show ?thesis
  proof (cases "fd_table t ! nat fd")
    case None
    then show ?thesis using rel q sq by (simp add: sys_close_def)
  next
    case (Some f)
    then have "Some f \<in> set (fd_table t)" using nth_mem [OF fd(2)] by simp
    then have "files (kvfs p) f \<noteq> None" using wf by (simp add: task_wf_def)
    then obtain w r where c: "close (Some f) (file_use_count f ?q) (kvfs p) = Inr (w, r)"
      using close_returns by blast
    have good: "fs_good (kvfs p)" using assms by (simp add: mid_ok_def base_okD(7))
    have "base_ok (?q\<lparr>kvfs := w\<rparr>)"
      using close_frame [OF c] q fs_good_close [OF good c]
      by (intro base_ok_vfs) (auto simp: mid_ok_def)
    then have "mid_ok (?q\<lparr>kvfs := w\<rparr>)" using q by (simp add: mid_ok_def tree_of_frame)
    moreover have "same_tasks p (?q\<lparr>kvfs := w\<rparr>)"
      using sq by (simp add: same_tasks_def view_tasks [of "?q\<lparr>kvfs := w\<rparr>" ?q])
    ultimately show ?thesis using rel Some c by (simp add: sys_close_def)
  qed
qed

lemma close_fds_ok:
  assumes "mid_ok p" and "this \<in> dom (tasks p)"
  shows "\<exists>p'. close_fds this p = Inr p' \<and> mid_ok p' \<and> same_tasks p p'"
proof -
  have "\<exists>p'. forE is (\<lambda>i p. bindE (get_task p this) (\<lambda>t. bindE (aget (fd_table t) (int i)) (\<lambda>f.
      if f = None then Inr p else bindE (sys_close (int i) p) (\<lambda>(p, r). Inr p)))) p = Inr p' \<and>
      mid_ok p' \<and> same_tasks p p'" if "\<forall>i \<in> set is. i < NR_TASK_FD_LIMITS" for "is"
    using assms that
  proof (induction "is" arbitrary: p)
    case (Cons i "is")
    then obtain t where t: "tasks p this = Some t" by blast
    have "length (fd_table t) = NR_TASK_FD_LIMITS"
      using wf_of [OF _ t] Cons.prems(1) by (simp add: mid_ok_def task_wf_def)
    then have a: "aget (fd_table t) (int i) = Inr (fd_table t ! i)" using Cons.prems(3) by simp
    obtain q where q: "(if fd_table t ! i = None then Inr p
        else bindE (sys_close (int i) p) (\<lambda>(p, r). Inr p)) = Inr q" "mid_ok q" "same_tasks p q"
    proof (cases "fd_table t ! i = None")
      case True
      then show thesis using that [of p] Cons.prems(1) same_tasks_refl by simp
    next
      case False
      then show thesis using that sys_close_ok [OF Cons.prems(1), of "int i"] by auto
    qed
    have "this \<in> dom (tasks q)" using q(3) Cons.prems(2) by (simp add: same_tasks_def)
    from Cons.IH [OF q(2) this] Cons.prems(3) obtain r where
      "forE is (\<lambda>i p. bindE (get_task p this) (\<lambda>t. bindE (aget (fd_table t) (int i)) (\<lambda>f.
      if f = None then Inr p else bindE (sys_close (int i) p) (\<lambda>(p, r). Inr p)))) q = Inr r"
      "mid_ok r" "same_tasks q r" by auto
    then show ?case using t a q same_tasks_trans [OF q(3)] by (auto simp: get_task_def)
  qed (simp add: same_tasks_refl)
  then show ?thesis unfolding close_fds_def by simp
qed


subsection \<open>Deleting tasks\<close>

text \<open>The states in which the tasks \<open>D\<close> are about to be deleted.\<close>

definition doomed_ok :: "procs \<Rightarrow> nat set \<Rightarrow> bool" where
  "doomed_ok p D \<longleftrightarrow> tree_of p D \<and> base_ok p"

lemma adopt_step:
  assumes "doomed_ok p D" and "a \<in> D" and "act p a = c # cs"
  shows "\<exists>p'. adopt (c # cs) a p = adopt cs a p' \<and> doomed_ok p' D \<and> act p' a = cs \<and>
    dom (tasks p') = dom (tasks p) \<and> trm p' = trm p \<and> runqueue p' = runqueue p \<and>
    current p' = current p \<and> next_pid p' = next_pid p"
proof -
  have t: "tree_of p D" and b: "base_ok p" using assms(1) by (simp_all add: doomed_ok_def)
  obtain i where i: "init_task p = Some i" "i \<in> set (runqueue p)" "par p i = None" "pd p i = 1"
    using base_okD(4) [OF b] by (auto simp: named_task_def)
  have aL: "a \<in> dom (tasks p)" and ar: "a \<notin> set (runqueue p)"
    using tree_ofD(10,11) [OF t] assms(2) by blast+
  have c: "c \<in> dom (tasks p)" "par p c = Some a" "c \<in> set (runqueue p)"
    using tree_ofD(6) [OF t aL, of c] assms(3) by simp_all
  obtain ti tc ta where tk: "tasks p i = Some ti" "tasks p c = Some tc" "tasks p a = Some ta"
    using rq_live [OF t i(2)] c(1) aL by blast
  have ne: "i \<noteq> a" "i \<noteq> c" "c \<noteq> a" using i(2,3) ar c by auto
  let ?p1 = "p\<lparr>tasks := (tasks p)(i \<mapsto> ti\<lparr>active_children := active_children ti @ [c]\<rparr>)\<rparr>"
  let ?p2 = "?p1\<lparr>tasks := (tasks ?p1)(c \<mapsto> tc\<lparr>tk_parent := Some i\<rparr>)\<rparr>"
  let ?p3 = "?p2\<lparr>tasks := (tasks ?p2)(a \<mapsto> ta\<lparr>active_children := cs\<rparr>)\<rparr>"
  have run: "adopt (c # cs) a p = adopt cs a ?p3"
    using i(1) tk ne by (simp add: upd_task_def get_task_def)
  have par: "par ?p3 = (par p)(c := Some i)" and act: "act ?p3 = (act p)(i := act p i @ [c], a := cs)"
    and trm: "trm ?p3 = trm p" and pd: "pd ?p3 = pd p"
    unfolding view_upd using ne view_at [OF tk(1)] view_at [OF tk(2)] view_at [OF tk(3)] by auto
  have dom: "dom (tasks ?p3) = dom (tasks p)" using tk by auto
  have "tree_of ?p3 D"
    using tree_adopt [OF t [unfolded tree_of_def] assms(2,3) i(2,3)] i(4)
    by (simp only: tree_of_def par act trm pd dom) simp
  moreover have "base_ok ?p3"
  proof -
    have "named_task ?p3 x n = named_task p x n" for x n
      unfolding named_task_def par pd using c(2) by (cases x) auto
    moreover have "a' < next_task p \<and> tk_pid t' < next_pid p \<and> task_wf (kvfs p) t'"
      if "tasks ?p3 a' = Some t'" for a' t'
      using that base_okD(1-3) [OF b tk(1)] base_okD(1-3) [OF b tk(2)] base_okD(1-3) [OF b tk(3)]
        base_okD(1-3) [OF b, of a'] by (auto split: if_splits)
    ultimately show ?thesis using b by (simp add: base_ok_def)
  qed
  ultimately show ?thesis using run dom act trm by (intro exI [of _ ?p3]) (simp add: doomed_ok_def)
qed

lemma adopt_ok:
  assumes "doomed_ok p D" and "a \<in> D" and "act p a = cs"
  shows "\<exists>p'. adopt cs a p = Inr p' \<and> doomed_ok p' D \<and> act p' a = [] \<and>
    dom (tasks p') = dom (tasks p) \<and> trm p' = trm p \<and> runqueue p' = runqueue p \<and>
    current p' = current p \<and> next_pid p' = next_pid p"
  using assms
proof (induction cs arbitrary: p)
  case Nil
  then show ?case by auto
next
  case (Cons c cs)
  obtain q where q: "adopt (c # cs) a p = adopt cs a q" "doomed_ok q D" "act q a = cs"
    "dom (tasks q) = dom (tasks p)" "trm q = trm p" "runqueue q = runqueue p" "current q = current p"
    "next_pid q = next_pid p"
    using adopt_step [OF Cons.prems] by blast
  from Cons.IH [OF q(2) Cons.prems(2) q(3)] show ?case using q by auto
qed

lemma delete_one:
  assumes "doomed_ok p D" and "a \<in> D"
  shows "\<exists>t p'. tasks p a = Some t \<and> adopt (active_children t) a p = Inr p' \<and> terminated_children t = trm p a \<and>
    doomed_ok (p'\<lparr>tasks := (tasks p')(a := None)\<rparr>) (D - {a} \<union> set (trm p a)) \<and>
    dom (tasks p') = dom (tasks p) \<and> runqueue p' = runqueue p \<and> current p' = current p \<and>
    next_pid p' = next_pid p"
proof -
  have t: "tree_of p D" using assms(1) by (simp add: doomed_ok_def)
  have "a \<in> dom (tasks p)" using tree_ofD(10) [OF t] assms(2) by blast
  then obtain ta where ta: "tasks p a = Some ta" by blast
  obtain p' where p': "adopt (active_children ta) a p = Inr p'" "doomed_ok p' D" "act p' a = []"
    "dom (tasks p') = dom (tasks p)" "trm p' = trm p" "runqueue p' = runqueue p" "current p' = current p"
    "next_pid p' = next_pid p"
    using adopt_ok [OF assms view_at(2) [OF ta]] by blast
  let ?q = "p'\<lparr>tasks := (tasks p')(a := None)\<rparr>"
  have t': "tree_of p' D" and b': "base_ok p'" using p'(2) by (simp_all add: doomed_ok_def)
  have ar: "a \<notin> set (runqueue p')" using tree_ofD(11) [OF t'] assms(2) by blast
  have dom: "dom (tasks ?q) = dom (tasks p') - {a}" by auto
  have views: "par ?q x = par p' x" "act ?q x = act p' x" "trm ?q x = trm p' x" "pd ?q x = pd p' x"
    if "x \<noteq> a" for x using that by (simp_all add: par_def act_def trm_def pd_def)
  have "tree (dom (tasks ?q)) (par p') (act p') (trm p') (pd p') (runqueue ?q) (D - {a} \<union> set (trm p' a))"
    using tree_delete [OF t' [unfolded tree_of_def] assms(2) p'(3)] unfolding dom by simp
  then have "tree_of ?q (D - {a} \<union> set (trm p' a))"
    unfolding tree_of_def by (rule tree_cong) (auto simp: views)
  moreover have "base_ok ?q"
  proof -
    have "named_task ?q x n" if nt: "named_task p' x n" for x n
    proof -
      obtain y where y: "x = Some y" "y \<in> set (runqueue p')" "par p' y = None" "pd p' y = n"
        using nt unfolding named_task_def by blast
      then have "y \<noteq> a" using ar by blast
      with y show ?thesis using views(1,4) [of y] by (simp add: named_task_def)
    qed
    then show ?thesis using b' by (auto simp: base_ok_def)
  qed
  ultimately show ?thesis using ta p' view_at(3) [OF ta] by (simp add: doomed_ok_def)
qed

lemma delete_tasks_ok:
  assumes "doomed_ok p (set as)" and "distinct as" and "finite (dom (tasks p))"
  shows "\<exists>p'. delete_tasks as p = Some (Inr p') \<and> doomed_ok p' {} \<and> runqueue p' = runqueue p \<and>
    current p' = current p \<and> next_pid p' = next_pid p"
  using assms
proof (induction "card (dom (tasks p))" arbitrary: as p rule: less_induct)
  case less
  show ?case
  proof (cases as)
    case Nil
    then show ?thesis using less.prems(1) by (simp add: delete_tasks.simps)
  next
    case (Cons a as')
    then have aD: "a \<in> set as" by simp
    obtain t p' where d: "tasks p a = Some t" "adopt (active_children t) a p = Inr p'"
      "terminated_children t = trm p a"
      "doomed_ok (p'\<lparr>tasks := (tasks p')(a := None)\<rparr>) (set as - {a} \<union> set (trm p a))"
      "dom (tasks p') = dom (tasks p)" "runqueue p' = runqueue p" "current p' = current p"
      "next_pid p' = next_pid p"
      using delete_one [OF less.prems(1) aD] by blast
    let ?q = "p'\<lparr>tasks := (tasks p')(a := None)\<rparr>"
    have tr: "tree_of p (set as)" using less.prems(1) by (simp add: doomed_ok_def)
    have aL: "a \<in> dom (tasks p)" using d(1) by blast
    have dq: "dom (tasks ?q) = dom (tasks p) - {a}" using d(5) by auto
    have set: "set (trm p a @ as') = set as - {a} \<union> set (trm p a)" using Cons less.prems(2) by auto
    have "distinct (trm p a @ as')"
      using tree_ofD(7) [OF tr aL] tree_ofD(9) [OF tr aL] less.prems(2) Cons by auto
    moreover have "card (dom (tasks ?q)) < card (dom (tasks p))"
      unfolding dq using aL less.prems(3) by (rule card_Diff1_less [rotated])
    moreover have "finite (dom (tasks ?q))" using dq less.prems(3) by simp
    ultimately have "\<exists>p'. delete_tasks (trm p a @ as') ?q = Some (Inr p') \<and> doomed_ok p' {} \<and>
        runqueue p' = runqueue ?q \<and> current p' = current ?q \<and> next_pid p' = next_pid ?q"
      using less.hyps [of ?q "trm p a @ as'"] d(4) unfolding set by blast
    moreover have "delete_tasks as p = delete_tasks (trm p a @ as') ?q"
      using Cons d(1,2,3) by (subst delete_tasks.simps) (simp add: get_task_def)
    ultimately show ?thesis using d(6-8) by auto
  qed
qed

end
