(* ===== verification/ProcessTheorems.thy ===== *)
theory ProcessTheorems
  imports TaskTheorems KStringTheorems
begin

text \<open>
  Fork, wait, exit and the signals keep the invariant of the tasks: every operation is shown to
  return, with what it does to the run queue and to the process ids, or to end in the panic of
  the source.
\<close>

subsection \<open>Fork\<close>

lemma name_copy:
  assumes "length nm \<le> TASK_NAME_MAX_LEN" and "0 \<in> set nm"
  shows "\<exists>nm'. astrcpy nm (replicate TASK_NAME_MAX_LEN 0) 0 = Inr nm' \<and> length nm' = TASK_NAME_MAX_LEN \<and>
    0 \<in> set nm'"
proof -
  obtain xs rest where s: "nm = xs @ 0 # rest" "0 \<notin> set xs" using split_list_first [OF assms(2)] by blast
  let ?k = "TASK_NAME_MAX_LEN - Suc (length xs)"
  have k: "TASK_NAME_MAX_LEN = Suc (length xs) + ?k" using assms(1) s(1) by simp
  have "replicate TASK_NAME_MAX_LEN (0::u8) = replicate (Suc (length xs)) 0 @ replicate ?k 0"
    by (subst k) (rule replicate_add)
  then have "astrcpy nm (replicate TASK_NAME_MAX_LEN 0) 0 = Inr (xs @ 0 # replicate ?k 0)"
    using astrcpy_chars [OF s(2), of "replicate (Suc (length xs)) 0" rest "[]" "replicate ?k 0"] s(1) by simp
  then show ?thesis using k by simp
qed

text \<open>A file system state with one file more.\<close>

definition with_stdio :: "world \<Rightarrow> world" where
  "with_stdio w = w\<lparr>files := (files w)(next_file w \<mapsto>
     \<lparr>file_vnode = None, file_pos = 0, file_options = 0\<rparr>), next_file := Suc (next_file w)\<rparr>"

lemma stdio_file_eq: "stdio_file p = (p\<lparr>kvfs := with_stdio (kvfs p)\<rparr>, next_file (kvfs p))"
  by (simp add: stdio_file_def with_stdio_def Let_def)

lemma with_stdio_good:
  assumes "fs_good w"
  shows "fs_good (with_stdio w)" "\<And>f. files w f \<noteq> None \<Longrightarrow> files (with_stdio w) f \<noteq> None"
    "files (with_stdio w) (next_file w) \<noteq> None" "fs_state (with_stdio w) = fs_state w"
    "mounts (with_stdio w) = mounts w"
  using assms by (auto simp: fs_good_def with_stdio_def vfs_ok_def)

lemma rootfs_good:
  assumes "fs_good w"
  shows "\<exists>r. get_rootfs w = Inr r \<and> live_inode (fs_state w) r"
proof -
  obtain m ms where "mounts w = m # ms" using assms by (auto simp: fs_good_def neq_Nil_conv)
  then have "get_rootfs w = Inr (guest_fs m)" by (simp add: get_rootfs_def)
  moreover have "mem_ok w" using assms by (simp add: fs_good_def)
  ultimately show ?thesis using mem.rootfs_live by blast
qed

text \<open>The task that the constructor builds.\<close>

definition fresh_task :: "bool \<Rightarrow> nat option \<Rightarrow> u32 \<Rightarrow> u8 list \<Rightarrow> nat \<Rightarrow> nat \<Rightarrow> task" where
  "fresh_task is_user parent pid nm opened root =
     \<lparr>tk_is_user = is_user, tk_parent = parent, active_children = [], terminated_children = [],
      tk_state = CREATED, error_code = 0, tk_pid = pid, time_slice = TASK_TIME_SLICE, tk_name = nm,
      pending_signals = [], custom_signal_handlers = replicate (nat NR_signals) 0,
      fd_table = replicate 3 (Some opened) @ replicate (NR_TASK_FD_LIMITS - 3) None, cwd_vnode = root\<rparr>"

lemma fresh_task_wf:
  assumes "files w opened \<noteq> None" and "length nm = TASK_NAME_MAX_LEN" and "0 \<in> set nm"
    and "live_inode (fs_state w) root"
  shows "task_wf w (fresh_task u q pid nm opened root)"
  using assms by (auto simp: task_wf_def fresh_task_def TASK_TIME_SLICE_def NR_TASK_FD_LIMITS_def)

lemma fork_new:
  assumes ok: "procs_ok p" and t: "tasks p q = Some t"
  shows "\<exists>nm root. Task_new (tk_is_user t) (Some q) (tk_name t) p =
    Inr (p\<lparr>next_task := Suc (next_task p), next_pid := next_pid p + 1, kvfs := with_stdio (kvfs p),
      tasks := (tasks p)(q \<mapsto> t\<lparr>active_children := active_children t @ [next_task p]\<rparr>,
        next_task p \<mapsto> fresh_task (tk_is_user t) (Some q) (next_pid p) nm (next_file (kvfs p)) root)\<rparr>,
      next_task p) \<and>
    length nm = TASK_NAME_MAX_LEN \<and> 0 \<in> set nm \<and> live_inode (fs_state (kvfs p)) root"
proof -
  have b: "base_ok p" using ok by (simp add: procs_ok_def)
  have wf: "task_wf (kvfs p) t" by (rule wf_of [OF b t])
  obtain nm where nm: "astrcpy (tk_name t) (replicate TASK_NAME_MAX_LEN 0) 0 = Inr nm"
    "length nm = TASK_NAME_MAX_LEN" "0 \<in> set nm"
    using name_copy [of "tk_name t"] wf by (auto simp: task_wf_def)
  obtain root where root: "get_rootfs (kvfs p) = Inr root" "live_inode (fs_state (kvfs p)) root"
    using rootfs_good [OF base_okD(7) [OF b]] by blast
  have "next_pid p \<noteq> 1" "next_pid p \<noteq> 2" using base_okD(6) [OF b] by (auto simp: word_le_nat_alt)
  then show ?thesis using t nm root
    by (intro exI [of _ nm] exI [of _ root])
      (simp add: Task_new_def upd_task_def get_task_def stdio_file_eq fresh_task_def Let_def)
qed

text \<open>Adding a child to a task.\<close>

lemma add_task_ok:
  assumes ok: "procs_ok p" and t: "tasks p q = Some t" and n: "unat (next_pid p) < 2 ^ 32 - 1"
    and c: "tk_parent c = Some q" "active_children c = []" "terminated_children c = []" "tk_pid c = next_pid p"
    and wf: "task_wf (with_stdio (kvfs p)) c"
  shows "procs_ok (p\<lparr>next_task := Suc (next_task p), next_pid := next_pid p + 1, kvfs := with_stdio (kvfs p),
    tasks := (tasks p)(q \<mapsto> t\<lparr>active_children := active_children t @ [next_task p]\<rparr>, next_task p \<mapsto> c),
    runqueue := runqueue p @ [next_task p]\<rparr>)"
    (is "procs_ok ?p")
proof -
  let ?x = "next_task p"
  have b: "base_ok p" and tr: "tree_of p {}" using ok by (simp_all add: procs_ok_def)
  have x: "?x \<notin> dom (tasks p)" using base_okD(1) [OF b, of ?x] by auto
  have ne: "q \<noteq> ?x" using x t by auto
  have pids: "unat (tk_pid s) < unat (next_pid p)" if "tasks p a = Some s" for a s
    using base_okD(2) [OF b that] by (simp add: word_less_nat_alt)
  have pds: "pd p a < unat (next_pid p)" if "a \<in> dom (tasks p)" for a
    using that pids by (auto simp: pd_def)
  have nx: "unat (next_pid p + 1) = Suc (unat (next_pid p))" using n by (simp add: unat_word_ariths)
  have three: "3 \<le> unat (next_pid p)" using base_okD(6) [OF b] by (simp add: word_le_nat_alt)
  have dom: "dom (tasks ?p) = insert ?x (dom (tasks p))" using t by auto
  have views: "par ?p = (par p)(?x := Some q)" "act ?p = (act p)(q := act p q @ [?x], ?x := [])"
    "trm ?p = (trm p)(?x := [])" "pd ?p = (pd p)(?x := unat (next_pid p))"
    using c t ne by (auto simp: par_def act_def trm_def pd_def)
  have "tree_of ?p {}"
    unfolding tree_of_def dom views
    using tree_new [OF tr [unfolded tree_of_def] x view_at(5) [OF t] pds three] by simp
  moreover have "base_ok ?p"
  proof -
    have "a < Suc ?x \<and> tk_pid s < next_pid p + 1 \<and> task_wf (with_stdio (kvfs p)) s"
      if "tasks ?p a = Some s" for a s
    proof -
      have old: "a' < Suc ?x \<and> tk_pid s' < next_pid p + 1 \<and> task_wf (with_stdio (kvfs p)) s'"
        if "tasks p a' = Some s'" for a' s'
        using base_okD(1,3) [OF b that] pids [OF that] nx with_stdio_good [OF base_okD(7) [OF b]]
        by (auto simp: word_less_nat_alt task_wf_def)
      show ?thesis using that old [OF t] old [of a s] c(4) wf nx
        by (auto simp: word_less_nat_alt split: if_splits)
    qed
    moreover have "named_task ?p i m" if nt: "named_task p i m" for i m
    proof -
      obtain y where y: "i = Some y" "y \<in> set (runqueue p)" "par p y = None" "pd p y = m"
        using nt unfolding named_task_def by blast
      then have "y \<noteq> ?x" using tree_ofD(13) [OF tr] x by blast
      with y show ?thesis unfolding named_task_def views by simp
    qed
    moreover have "3 \<le> next_pid p + 1" using nx three by (simp add: word_le_nat_alt)
    ultimately show ?thesis using b with_stdio_good(1) [OF base_okD(7) [OF b]] by (simp add: base_ok_def)
  qed
  ultimately show ?thesis using ok by (simp add: procs_ok_def)
qed

lemma fork_ok:
  assumes ok: "procs_ok p" and t: "tasks p q = Some t" and n: "unat (next_pid p) < 2 ^ 32 - 1"
  shows "\<exists>p'. Task_fork q True True p = Inr (p', pid_int (next_pid p)) \<and> procs_ok p' \<and>
    runqueue p' = runqueue p @ [next_task p] \<and> next_pid p' = next_pid p + 1 \<and>
    trm p' = (trm p)(next_task p := []) \<and>
    (\<exists>c. tasks p' (next_task p) = Some c \<and> tk_parent c = Some q \<and> tk_pid c = next_pid p \<and>
      cwd_vnode c = cwd_vnode t \<and> tk_state c = RUNNING)"
proof -
  have b: "base_ok p" using ok by (simp add: procs_ok_def)
  obtain nm root where new: "Task_new (tk_is_user t) (Some q) (tk_name t) p =
    Inr (p\<lparr>next_task := Suc (next_task p), next_pid := next_pid p + 1, kvfs := with_stdio (kvfs p),
      tasks := (tasks p)(q \<mapsto> t\<lparr>active_children := active_children t @ [next_task p]\<rparr>,
        next_task p \<mapsto> fresh_task (tk_is_user t) (Some q) (next_pid p) nm (next_file (kvfs p)) root)\<rparr>,
      next_task p)"
    and wf: "length nm = TASK_NAME_MAX_LEN" "0 \<in> set nm" "live_inode (fs_state (kvfs p)) root"
    using fork_new [OF ok t] by blast
  let ?c = "(fresh_task (tk_is_user t) (Some q) (next_pid p) nm (next_file (kvfs p)) root)
    \<lparr>tk_state := RUNNING, cwd_vnode := cwd_vnode t\<rparr>"
  note std = with_stdio_good [OF base_okD(7) [OF b]]
  have "live_inode (fs_state (kvfs p)) (cwd_vnode t)" using wf_of [OF b t] by (simp add: task_wf_def)
  then have "task_wf (with_stdio (kvfs p)) ?c"
    using fresh_task_wf [of "with_stdio (kvfs p)", OF std(3) wf(1,2), of root] wf(3)
    by (simp add: task_wf_def std(4))
  then have "procs_ok (p\<lparr>next_task := Suc (next_task p), next_pid := next_pid p + 1, kvfs := with_stdio (kvfs p),
    tasks := (tasks p)(q \<mapsto> t\<lparr>active_children := active_children t @ [next_task p]\<rparr>, next_task p \<mapsto> ?c),
    runqueue := runqueue p @ [next_task p]\<rparr>)" (is "procs_ok ?p")
    by (intro add_task_ok [OF ok t n]) (simp_all add: fresh_task_def)
  moreover have "Task_fork q True True p = Inr (?p, pid_int (next_pid p))"
    unfolding Task_fork_def get_task_live [OF t] bindE_simps new prod.case
    by (simp add: enqueue_task_def set_state_def upd_task_def get_task_def) (simp add: fresh_task_def)
  moreover have "trm ?p = (trm p)(next_task p := [])" using t by (auto simp: trm_def fresh_task_def)
  ultimately show ?thesis by (intro exI [of _ ?p]) (simp add: fresh_task_def)
qed


lemma fork_no_stack:
  assumes ok: "procs_ok p" and t: "tasks p q = Some t" and "\<not> kstack \<or> \<not> ustack"
  shows "\<exists>m. Task_fork q kstack ustack p = Inl (Panic m)"
proof -
  obtain nm root where new: "Task_new (tk_is_user t) (Some q) (tk_name t) p =
    Inr (p\<lparr>next_task := Suc (next_task p), next_pid := next_pid p + 1, kvfs := with_stdio (kvfs p),
      tasks := (tasks p)(q \<mapsto> t\<lparr>active_children := active_children t @ [next_task p]\<rparr>,
        next_task p \<mapsto> fresh_task (tk_is_user t) (Some q) (next_pid p) nm (next_file (kvfs p)) root)\<rparr>,
      next_task p)"
    using fork_new [OF ok t] by blast
  have "delete_tasks [] x = Some (Inr x)" for x by (simp add: delete_tasks.simps)
  then show ?thesis
    unfolding Task_fork_def get_task_live [OF t] bindE_simps new prod.case
    using assms(3) by (auto simp: delete_task_def delete_tasks.simps [of "[next_task p]"] get_task_def fresh_task_def)
qed


subsection \<open>Wait\<close>

lemma finite_tasks: "base_ok p \<Longrightarrow> finite (dom (tasks p))"
proof (rule finite_subset)
  assume b: "base_ok p"
  show "dom (tasks p) \<subseteq> {..<next_task p}"
  proof
    fix a assume "a \<in> dom (tasks p)"
    then obtain t where "tasks p a = Some t" by blast
    from base_okD(1) [OF b this] show "a \<in> {..<next_task p}" by simp
  qed
qed simp

lemma reap_ok:
  assumes ok: "procs_ok p" and t: "tasks p a = Some t" and c: "terminated_children t = c # cs"
  shows "\<exists>tc p'. tasks p c = Some tc \<and>
    delete_task c (p\<lparr>tasks := (tasks p)(a \<mapsto> t\<lparr>terminated_children := cs\<rparr>)\<rparr>) = Inr p' \<and>
    procs_ok p' \<and> runqueue p' = runqueue p \<and> next_pid p' = next_pid p"
proof -
  let ?q = "p\<lparr>tasks := (tasks p)(a \<mapsto> t\<lparr>terminated_children := cs\<rparr>)\<rparr>"
  have b: "base_ok p" and tr: "tree_of p {}" using ok by (simp_all add: procs_ok_def)
  have "(par p)(a := tk_parent t) = par p" "(act p)(a := active_children t) = act p"
    "(pd p)(a := unat (tk_pid t)) = pd p" "dom (tasks ?q) = dom (tasks p)" "trm p a = c # cs"
    using view_at [OF t] t c by auto
  then have "tree_of ?q {c}"
    using tree_reap [OF tr [unfolded tree_of_def] view_at(5) [OF t], of c cs]
    by (simp add: tree_of_def view_upd)
  moreover have bq: "base_ok ?q" using base_ok_upd [OF b t] wf_of [OF b t] by simp
  ultimately have "doomed_ok ?q (set [c])" by (simp add: doomed_ok_def)
  from delete_tasks_ok [OF this _ finite_tasks [OF bq]] obtain p' where
    p': "delete_tasks [c] ?q = Some (Inr p')" "doomed_ok p' {}" "runqueue p' = runqueue p"
      "current p' = current p" "next_pid p' = next_pid p" by auto
  have "c \<in> dom (tasks p)"
    using tree_ofD(7) [OF tr view_at(5) [OF t], of c] view_at(3) [OF t] c by simp
  moreover have "procs_ok p'" using p'(2-4) ok by (simp add: procs_ok_def doomed_ok_def)
  ultimately show ?thesis using p' by (auto simp: delete_task_def)
qed

lemma wait_ok:
  assumes ok: "procs_ok p"
  shows "\<exists>p' r. Task_wait (current p) p = Inr (p', r) \<and> procs_ok p' \<and> next_pid p' = next_pid p \<and>
    (\<forall>c cs tc. trm p (current p) = c # cs \<longrightarrow> tasks p c = Some tc \<longrightarrow>
      r = Reaped (pid_int (tk_pid tc)) (error_code tc))"
proof -
  obtain t where t: "tasks p (current p) = Some t" using current_live [OF ok] by blast
  show ?thesis
  proof (cases "terminated_children t")
    case Nil
    then have none: "trm p (current p) = []" using view_at(3) [OF t] by simp
    show ?thesis
      using schedule_ok [OF mid_okI [OF ok]] ok Nil t
      by (cases "active_children t = []") (auto simp: Task_wait_def get_task_def none)
  next
    case (Cons c cs)
    from reap_ok [OF ok t Cons] obtain tc p' where r: "tasks p c = Some tc"
      "delete_task c (p\<lparr>tasks := (tasks p)(current p \<mapsto> t\<lparr>terminated_children := cs\<rparr>)\<rparr>) = Inr p'"
      "procs_ok p'" "next_pid p' = next_pid p" by blast
    then have "Task_wait (current p) p = Inr (p', Reaped (pid_int (tk_pid tc)) (error_code tc))"
      using t Cons by (simp add: Task_wait_def get_task_def upd_task_live)
    then show ?thesis using r Cons view_at(3) [OF t] by auto
  qed
qed


subsection \<open>Exit\<close>

text \<open>The scheduler changes nothing of a task but its state.\<close>

lemma schedule_frame:
  assumes "schedule p = Inr p'"
  shows "par p' = par p" "act p' = act p" "trm p' = trm p" "pd p' = pd p"
    "\<And>a. map_option error_code (tasks p' a) = map_option error_code (tasks p a)"
    "\<And>a. map_option pending_signals (tasks p' a) = map_option pending_signals (tasks p a)"
    "init_task p' = init_task p"
proof -
  let ?core = "\<lambda>t. (tk_parent t, active_children t, terminated_children t, tk_pid t, error_code t, pending_signals t)"
  have set: "map_option ?core (tasks q' a) = map_option ?core (tasks q a) \<and> init_task q' = init_task q"
    if "set_state b s q = Inr q'" for b s q q' a
    using that by (auto simp: set_state_def upd_task_def get_task_def split: option.splits)
  have core: "map_option ?core (tasks p' a) = map_option ?core (tasks p a) \<and> init_task p' = init_task p" for a
  proof -
    define q where "q = (if length (runqueue p) > 1
      then p\<lparr>runqueue := tl (runqueue p) @ [hd (runqueue p)]\<rparr> else p)"
    have q: "tasks q = tasks p" "init_task q = init_task p" by (simp_all add: q_def)
    obtain p1 where p1: "set_state (current q) SLEEPING q = Inr p1"
      using assms by (auto simp: schedule_def bindE_Inr Let_def q_def)
    then obtain t ts p2 where "runqueue p1 = t # ts" "set_state t RUNNING p1 = Inr p2" "p' = p2\<lparr>current := t\<rparr>"
      using assms unfolding schedule_def Let_def q_def [symmetric]
      by (auto simp: bindE_Inr split: list.splits)
    then show ?thesis using set [OF p1, of a] set [of t RUNNING p1 p2 a] q by simp
  qed
  have "par p' a = par p a \<and> act p' a = act p a \<and> trm p' a = trm p a \<and> pd p' a = pd p a \<and>
      map_option error_code (tasks p' a) = map_option error_code (tasks p a) \<and>
      map_option pending_signals (tasks p' a) = map_option pending_signals (tasks p a)" for a
    using core [of a] by (cases "tasks p a"; cases "tasks p' a") (auto simp: par_def act_def trm_def pd_def)
  then show "par p' = par p" "act p' = act p" "trm p' = trm p" "pd p' = pd p"
    "\<And>a. map_option error_code (tasks p' a) = map_option error_code (tasks p a)"
    "\<And>a. map_option pending_signals (tasks p' a) = map_option pending_signals (tasks p a)" by auto
  show "init_task p' = init_task p" using core by simp
qed

lemma exit_no_parent:
  "tasks p a = Some t \<Longrightarrow> tk_parent t = None \<Longrightarrow>
    Task_exit a code p = Inl (Panic ''Attempted to kill a task without parent'')"
  by (simp add: Task_exit_def get_task_def)

text \<open>Handing the exiting task from one list of its parent to the other.\<close>

lemma exit_move:
  assumes m: "mid_ok p" and a: "a \<in> set (runqueue p)" "par p a = Some q"
  shows "\<exists>p'. bindE (upd_task q (\<lambda>t. t\<lparr>active_children := remove1 a (active_children t)\<rparr>) p) (\<lambda>p.
      bindE (remove_task a p) (\<lambda>(p, removed).
      bindE (upd_task q (\<lambda>t. t\<lparr>terminated_children := terminated_children t @ [removed]\<rparr>) p) f)) = f p' \<and>
    mid_ok p' \<and> runqueue p' = remove1 a (runqueue p) \<and> next_pid p' = next_pid p \<and> current p' = current p \<and>
    trm p' = (trm p)(q := trm p q @ [a]) \<and> pd p' = pd p \<and>
    (\<forall>b. map_option error_code (tasks p' b) = map_option error_code (tasks p b))"
proof -
  have b: "base_ok p" and tr: "tree_of p {}" using m by (simp_all add: mid_ok_def)
  have aL: "a \<in> dom (tasks p)" using rq_live [OF tr a(1)] by blast
  have "q \<in> dom (tasks p)" using tree_ofD(3) [OF tr aL a(2)] by simp
  then obtain t where t: "tasks p q = Some t" by blast
  let ?t = "t\<lparr>active_children := remove1 a (active_children t), terminated_children := terminated_children t @ [a]\<rparr>"
  let ?u = "p\<lparr>tasks := (tasks p)(q \<mapsto> ?t)\<rparr>"
  let ?p = "p\<lparr>runqueue := remove1 a (runqueue p), tasks := (tasks p)(q \<mapsto> ?t)\<rparr>"
  have run: "bindE (upd_task q (\<lambda>t. t\<lparr>active_children := remove1 a (active_children t)\<rparr>) p) (\<lambda>p.
      bindE (remove_task a p) (\<lambda>(p, removed).
      bindE (upd_task q (\<lambda>t. t\<lparr>terminated_children := terminated_children t @ [removed]\<rparr>) p) f)) = f ?p"
    using t a(1) by (simp add: upd_task_def get_task_def remove_task_def)
  have views: "par ?p = par p" "act ?p = (act p)(q := remove1 a (act p q))"
    "trm ?p = (trm p)(q := trm p q @ [a])" "pd ?p = pd p" and dom: "dom (tasks ?p) = dom (tasks p)"
    using t view_at [OF t] by (auto simp: view_tasks [of ?p ?u] view_upd)
  have "tree_of ?p {}"
    unfolding tree_of_def views dom using tree_exit [OF tr [unfolded tree_of_def] a] by simp
  moreover have "base_ok ?p"
  proof -
    have "base_ok ?u" using base_ok_upd [OF b t, of ?t] wf_of [OF b t] by (simp add: task_wf_def)
    moreover have "named_task ?p x n" if nt: "named_task p x n" for x n
    proof -
      obtain y where y: "x = Some y" "y \<in> set (runqueue p)" "par p y = None" "pd p y = n"
        using nt unfolding named_task_def by blast
      have "y \<noteq> a" using y(3) a(2) by auto
      then have "y \<in> set (remove1 a (runqueue p))" using y(2) by simp
      with y show ?thesis unfolding named_task_def views by simp
    qed
    ultimately show ?thesis using b by (simp add: base_ok_def)
  qed
  moreover have "\<forall>b. map_option error_code (tasks ?p b) = map_option error_code (tasks p b)" using t by simp
  ultimately show ?thesis using run m views(3,4) dom by (intro exI [of _ ?p]) (simp add: mid_ok_def)
qed

lemma exit_ok:
  assumes ok: "procs_ok p" and q: "par p (current p) = Some q"
  shows "\<exists>p'. Task_exit (current p) code p = Inr p' \<and> procs_ok p' \<and> next_pid p' = next_pid p \<and>
    runqueue p' = rotate1 (tl (runqueue p)) \<and> trm p' = (trm p)(q := trm p q @ [current p]) \<and>
    map_option error_code (tasks p' (current p)) = Some code \<and> pd p' = pd p"
proof -
  let ?a = "current p"
  obtain t where t: "tasks p ?a = Some t" using current_live [OF ok] by blast
  let ?t = "t\<lparr>tk_state := TERMINATED, error_code := code\<rparr>"
  let ?q = "p\<lparr>tasks := (tasks p)(?a \<mapsto> ?t)\<rparr>"
  have b: "base_ok p" using ok by (simp add: procs_ok_def)
  have "mid_ok ?q" using mid_ok_upd [OF mid_okI [OF ok] t, of ?t] wf_of [OF b t] by simp
  then obtain p1 where p1: "close_fds ?a ?q = Inr p1" "mid_ok p1" "same_tasks ?q p1"
    using close_fds_ok [of ?q ?a] by auto
  have s: "runqueue p1 = runqueue p" "current p1 = ?a" "next_pid p1 = next_pid p" "par p1 = par p" "trm p1 = trm p"
    "map_option error_code (tasks p1 ?a) = Some code" "pd p1 = pd p"
    using p1(3) view_at [OF t] by (auto simp: same_tasks_def view_upd fun_upd_idem)
  have rq: "remove1 ?a (runqueue p) = tl (runqueue p)" "?a \<in> set (runqueue p)"
    using ok by (cases "runqueue p"; simp add: procs_ok_def)+
  have mv: "?a \<in> set (runqueue p1)" "par p1 ?a = Some q" using s rq q by simp_all
  from exit_move [OF p1(2) mv, of schedule] obtain p2 where p2:
    "bindE (upd_task q (\<lambda>t. t\<lparr>active_children := remove1 ?a (active_children t)\<rparr>) p1) (\<lambda>p.
      bindE (remove_task ?a p) (\<lambda>(p, removed).
      bindE (upd_task q (\<lambda>t. t\<lparr>terminated_children := terminated_children t @ [removed]\<rparr>) p) schedule)) = schedule p2"
    "mid_ok p2" "runqueue p2 = remove1 ?a (runqueue p1)" "next_pid p2 = next_pid p1"
    "trm p2 = (trm p1)(q := trm p1 q @ [?a])" "pd p2 = pd p1"
    "\<forall>b. map_option error_code (tasks p2 b) = map_option error_code (tasks p1 b)"
    by blast
  from schedule_ok [OF p2(2)] obtain p3 where p3: "schedule p2 = Inr p3" "procs_ok p3"
    "runqueue p3 = rotate1 (runqueue p2)" "next_pid p3 = next_pid p2" by blast
  have "tk_parent t = Some q" using q view_at(1) [OF t] by simp
  then have "Task_exit ?a code p = Inr p3"
    unfolding Task_exit_def get_task_live [OF t] bindE_simps upd_task_live [OF t] p1(1)
    by (simp only: option.case bindE_simps p1(1) p2(1) p3(1))
  moreover have "map_option error_code (tasks p3 ?a) = Some code"
    unfolding schedule_frame(5) [OF p3(1)] p2(7) [rule_format] by (rule s(6))
  ultimately show ?thesis using p3(2-4) p2(3-6) schedule_frame(3,4) [OF p3(1)] s(1-5,7) rq(1) by simp
qed

end
