(* ===== verification/TaskSearch.thy ===== *)
theory TaskSearch
  imports TaskTheorems
begin

text \<open>
  The breadth-first searches of the process tree end: a child has a greater process id than its
  parent, so that the ids on a level grow with its depth and stay below the next id. What they
  find are the tasks that the init task reaches through running children.
\<close>

definition child_rel :: "procs \<Rightarrow> (nat \<times> nat) set" where
  "child_rel p = {(a, c). a \<in> dom (tasks p) \<and> c \<in> set (act p a)}"

lemma child_relD:
  assumes "tree_of p {}" and "(a, c) \<in> child_rel p"
  shows "c \<in> dom (tasks p)" "pd p a < pd p c"
proof -
  have a: "a \<in> dom (tasks p)" "c \<in> set (act p a)" using assms(2) by (simp_all add: child_rel_def)
  from tree_ofD(6) [OF assms(1) a] have c: "c \<in> dom (tasks p)" "par p c = Some a" by simp_all
  show "c \<in> dom (tasks p)" by (rule c(1))
  show "pd p a < pd p c" using tree_ofD(3) [OF assms(1) c] by simp
qed

lemma pd_below:
  assumes "base_ok p" and "a \<in> dom (tasks p)"
  shows "pd p a < unat (next_pid p)"
proof -
  obtain t where t: "tasks p a = Some t" using assms(2) by blast
  show ?thesis using base_okD(2) [OF assms(1) t] view_at(4) [OF t] by (simp add: word_less_nat_alt)
qed

text \<open>The next level, and what is reached from a level.\<close>

abbreviation level :: "procs \<Rightarrow> nat list \<Rightarrow> nat list" where
  "level p q \<equiv> concat (map (act p) q)"

lemma set_level: "set q \<subseteq> dom (tasks p) \<Longrightarrow> set (level p q) = child_rel p `` set q"
  by (fastforce simp: child_rel_def)

lemma level_ok:
  assumes "tree_of p {}" and "set q \<subseteq> dom (tasks p)" and "\<forall>a \<in> set q. k \<le> pd p a"
  shows "set (level p q) \<subseteq> dom (tasks p)" "\<forall>a \<in> set (level p q). Suc k \<le> pd p a"
  unfolding set_level [OF assms(2)] using child_relD [OF assms(1)] assms(3) by fastforce+

lemma reach_unfold: "r\<^sup>* `` Q = Q \<union> r\<^sup>* `` (r `` Q)"
  by (auto elim: converse_rtranclE intro: converse_rtrancl_into_rtrancl)

lemma reach_plus_unfold: "r\<^sup>+ `` Q = r `` Q \<union> r\<^sup>+ `` (r `` Q)"
  by (auto elim: converse_tranclE intro: trancl_into_trancl2)

lemma get_task_dom: "a \<in> dom (tasks p) \<Longrightarrow> \<exists>t. get_task p a = Inr t \<and> active_children t = act p a \<and> unat (tk_pid t) = pd p a"
  by (auto simp: get_task_def act_def pd_def)

lemma push_level_eq:
  "set q \<subseteq> dom (tasks p) \<Longrightarrow> push_level (length q) (q @ r) ret p = Inr (r @ level p q, ret @ q)"
proof (induction q arbitrary: r ret)
  case (Cons a q)
  then obtain t where "get_task p a = Inr t" "active_children t = act p a" using get_task_dom [of a p] by auto
  then show ?case using Cons.IH [of "r @ act p a" "ret @ [a]"] Cons.prems by simp
qed simp

lemma active_loop_ok:
  assumes tr: "tree_of p {}" and b: "base_ok p"
  shows "set q \<subseteq> dom (tasks p) \<Longrightarrow> \<forall>a \<in> set q. k \<le> pd p a \<Longrightarrow>
    \<exists>l. active_loop q ret p = Some (Inr (ret @ l)) \<and> set l = (child_rel p)\<^sup>* `` set q"
proof (induction "unat (next_pid p) - k" arbitrary: q k ret rule: less_induct)
  case less
  show ?case
  proof (cases "q = []")
    case True
    then show ?thesis by (simp add: active_loop.simps)
  next
    case False
    then obtain a where a: "a \<in> set q" by (meson last_in_set)
    then have "k < unat (next_pid p)" using less.prems pd_below [OF b, of a] by fastforce
    then have "unat (next_pid p) - Suc k < unat (next_pid p) - k" by simp
    from less.hyps [OF this level_ok [OF tr less.prems], of "ret @ q"]
    obtain l where l: "active_loop (level p q) (ret @ q) p = Some (Inr (ret @ q @ l))"
      "set l = (child_rel p)\<^sup>* `` set (level p q)" by auto
    have "active_loop q ret p = active_loop (level p q) (ret @ q) p"
      using False push_level_eq [OF less.prems(1), of "[]" ret] by (subst active_loop.simps) simp
    then show ?thesis
      using l set_level [OF less.prems(1)] reach_unfold [of "child_rel p" "set q"]
      by (intro exI [of _ "q @ l"]) simp
  qed
qed

text \<open>What a search for a process id may answer, when the tasks \<open>S\<close> are searched.\<close>

definition found :: "procs \<Rightarrow> u32 \<Rightarrow> nat set \<Rightarrow> nat option \<Rightarrow> bool" where
  "found p pid S r = (case r of None \<Rightarrow> \<forall>c \<in> S. pd p c \<noteq> unat pid | Some c \<Rightarrow> c \<in> S \<and> pd p c = unat pid)"

lemma found_mono: "found p pid S (Some c) \<Longrightarrow> S \<subseteq> S' \<Longrightarrow> found p pid S' (Some c)"
  by (auto simp: found_def)

lemma found_Un: "found p pid S None \<Longrightarrow> found p pid S' r \<Longrightarrow> found p pid (S \<union> S') r"
  by (auto simp: found_def split: option.splits)

lemma find_child_ok:
  "set cs \<subseteq> dom (tasks p) \<Longrightarrow> \<exists>r. find_child cs pid p = Inr r \<and> found p pid (set cs) r"
proof (induction cs)
  case (Cons c cs)
  then obtain t where t: "get_task p c = Inr t" "unat (tk_pid t) = pd p c" using get_task_dom [of c p] by auto
  obtain r where r: "find_child cs pid p = Inr r" "found p pid (set cs) r" using Cons by auto
  show ?case
  proof (cases "tk_pid t = pid")
    case True
    then show ?thesis using t by (auto simp: found_def)
  next
    case False
    then have "pd p c \<noteq> unat pid" using t(2) by (metis unsigned_word_eqI)
    then show ?thesis using t r False found_Un [of p pid "{c}" "set cs" r] by (simp add: found_def [of _ _ "{c}"])
  qed
qed (simp add: found_def)

lemma search_level_ok:
  assumes tr: "tree_of p {}"
  shows "set q \<subseteq> dom (tasks p) \<Longrightarrow>
    \<exists>q' r. search_level (length q) pid (q @ u) p = Inr (q', r) \<and> found p pid (set (level p q)) r \<and>
      (r = None \<longrightarrow> q' = u @ level p q)"
proof (induction q arbitrary: u)
  case (Cons a q)
  have a: "a \<in> dom (tasks p)" using Cons.prems by simp
  obtain t where t: "get_task p a = Inr t" "active_children t = act p a" using get_task_dom [OF a] by blast
  have "set (act p a) \<subseteq> dom (tasks p)" using level_ok(1) [OF tr, of "[a]" 0] a by simp
  then obtain r where r: "find_child (act p a) pid p = Inr r" "found p pid (set (act p a)) r"
    using find_child_ok by blast
  show ?case
  proof (cases r)
    case (Some c)
    then show ?thesis using t r found_mono [of p pid "set (act p a)" c "set (level p (a # q))"] by simp
  next
    case None
    from Cons.IH [of "u @ act p a"] Cons.prems obtain q' r' where
      s: "search_level (length q) pid (q @ u @ act p a) p = Inr (q', r')"
      "found p pid (set (level p q)) r'" "r' = None \<longrightarrow> q' = (u @ act p a) @ level p q" by auto
    then show ?thesis
      using t r None found_Un [of p pid "set (act p a)" "set (level p q)" r'] by simp
  qed
qed (simp add: found_def)

lemma search_loop_ok:
  assumes tr: "tree_of p {}" and b: "base_ok p"
  shows "set q \<subseteq> dom (tasks p) \<Longrightarrow> \<forall>a \<in> set q. k \<le> pd p a \<Longrightarrow>
    \<exists>r. search_loop pid q p = Some (Inr r) \<and> found p pid ((child_rel p)\<^sup>+ `` set q) r"
proof (induction "unat (next_pid p) - k" arbitrary: q k rule: less_induct)
  case less
  show ?case
  proof (cases "q = []")
    case True
    then show ?thesis by (simp add: search_loop.simps found_def)
  next
    case False
    then obtain a where a: "a \<in> set q" by (meson last_in_set)
    then have "k < unat (next_pid p)" using less.prems pd_below [OF b, of a] by fastforce
    then have "unat (next_pid p) - Suc k < unat (next_pid p) - k" by simp
    from less.hyps [OF this level_ok [OF tr less.prems]] obtain r where
      r: "search_loop pid (level p q) p = Some (Inr r)" "found p pid ((child_rel p)\<^sup>+ `` set (level p q)) r"
      by blast
    from search_level_ok [OF tr less.prems(1), of pid "[]"] obtain q' s where
      s: "search_level (length q) pid q p = Inr (q', s)" "found p pid (set (level p q)) s"
        "s = None \<longrightarrow> q' = level p q" by auto
    note un = reach_plus_unfold [of "child_rel p" "set q"] and lv = set_level [OF less.prems(1)]
    show ?thesis
    proof (cases s)
      case None
      then have "search_loop pid q p = Some (Inr r)"
        using False s r(1) by (subst search_loop.simps) simp
      then show ?thesis using None s(2) r(2) found_Un unfolding lv by (subst un) blast
    next
      case (Some c)
      then have "search_loop pid q p = Some (Inr (Some c))"
        using False s(1) by (subst search_loop.simps) simp
      then show ?thesis using Some s(2) found_mono [of p pid "child_rel p `` set q" c] un unfolding lv by blast
    qed
  qed
qed


lemma found_unique:
  assumes "tree_of p {}" and "S \<subseteq> dom (tasks p)" and "found p pid S r"
  shows "r = Some a \<longleftrightarrow> a \<in> S \<and> pd p a = unat pid"
proof
  assume a: "a \<in> S \<and> pd p a = unat pid"
  then obtain c where c: "r = Some c" "c \<in> S" "pd p c = unat pid"
    using assms(3) by (cases r) (auto simp: found_def)
  then show "r = Some a"
    using a inj_onD [OF tree_ofD(14) [OF assms(1)], of c a] subsetD [OF assms(2)] by simp
next
  assume "r = Some a"
  then show "a \<in> S \<and> pd p a = unat pid" using assms(3) by (simp add: found_def)
qed

lemma reach_live:
  assumes "tree_of p {}" and "i \<in> dom (tasks p)"
  shows "(child_rel p)\<^sup>* `` {i} \<subseteq> dom (tasks p)"
proof
  fix a assume "a \<in> (child_rel p)\<^sup>* `` {i}"
  then have "(i, a) \<in> (child_rel p)\<^sup>*" by simp
  then show "a \<in> dom (tasks p)" 
  proof (induction rule: rtrancl_induct)
    case (step b c)
    show ?case by (rule child_relD(1) [OF assms(1) step(2)])
  qed (rule assms(2))
qed

lemma named_taskD:
  assumes "named_task p x n" and "tree_of p D"
  obtains a where "x = Some a" "a \<in> dom (tasks p)" "pd p a = n"
proof -
  obtain a where "x = Some a" "a \<in> set (runqueue p)" "pd p a = n"
    using assms(1) unfolding named_task_def by blast
  then show thesis using that [of a] tree_ofD(13) [OF assms(2)] by blast
qed

lemma search_ok:
  assumes ok: "procs_ok p"
  shows "\<exists>i k l. init_task p = Some i \<and> kthreadd p = Some k \<and> get_active_tasks p = Inr (i # k # l) \<and>
    set l = (child_rel p)\<^sup>* `` {i} \<and> insert k (set l) \<subseteq> dom (tasks p) \<and>
    (\<forall>pid. \<exists>r. get_by_pid pid p = Inr r \<and> found p pid (insert k (set l)) r)"
proof -
  have b: "base_ok p" and tr: "tree_of p {}" using ok by (simp_all add: procs_ok_def)
  obtain i where i: "init_task p = Some i" "i \<in> dom (tasks p)" "pd p i = 1"
    by (rule named_taskD [OF base_okD(4) [OF b] tr])
  obtain k where k: "kthreadd p = Some k" "k \<in> dom (tasks p)" "pd p k = 2"
    by (rule named_taskD [OF base_okD(5) [OF b] tr])
  let ?R = "(child_rel p)\<^sup>* `` {i}"
  obtain l where l: "active_loop [i] [i, k] p = Some (Inr ([i, k] @ l))" "set l = ?R"
    using active_loop_ok [OF tr b, of "[i]" 0 "[i, k]"] i(2) by force
  have "\<exists>r. get_by_pid pid p = Inr r \<and> found p pid (insert k ?R) r" for pid
  proof -
    consider "pid = 1" | "pid = 2" | "pid \<noteq> 1" "pid \<noteq> 2" by blast
    then show ?thesis
    proof cases
      case 3
      have "unat pid \<noteq> unat (1 :: u32)" "unat pid \<noteq> unat (2 :: u32)"
        using 3 by (metis unsigned_word_eqI)+
      then have "found p pid {i, k} None" using i(3) k(3) by (simp add: found_def)
      obtain r where r: "search_loop pid [i] p = Some (Inr r)" "found p pid ((child_rel p)\<^sup>+ `` {i}) r"
        using search_loop_ok [OF tr b, of "[i]" 0 pid] i(2) by auto
      have "insert k ?R = {i, k} \<union> (child_rel p)\<^sup>+ `` {i}" by (auto simp: rtrancl_eq_or_trancl)
      then show ?thesis using 3 i(1) r found_Un [OF \<open>found p pid {i, k} None\<close> r(2)]
        by (simp add: get_by_pid_def ptr_def)
    qed (use i k in \<open>simp_all add: get_by_pid_def found_def\<close>)
  qed
  then show ?thesis using i k l reach_live [OF tr i(2)] by (simp add: get_active_tasks_def ptr_def)
qed

end
