(* ===== verification/ProcessSteps.thy ===== *)
theory ProcessSteps
  imports ProcessTheorems TaskSearch
begin

text \<open>
  The remaining operations on tasks, the start of the kernel and the sequences of operations
  that follow it.
\<close>

subsection \<open>Signals\<close>

lemma signal_valid_index:
  "is_signal_valid s \<Longrightarrow> length hs = nat NR_signals \<Longrightarrow> 0 \<le> s \<and> s < int (length hs)"
  by (simp add: is_signal_valid_def NR_signals_def)

lemma kill_ok:
  assumes ok: "procs_ok p"
  shows "\<exists>p' r. Task_kill (current p) pid sig p = Inr (p', r) \<and> procs_ok p' \<and> next_pid p' = next_pid p"
proof (cases "is_signal_valid sig")
  case True
  obtain t where t: "tasks p (current p) = Some t" using current_live [OF ok] by blast
  have b: "base_ok p" using ok by (simp add: procs_ok_def)
  obtain r where r: "(if pid = tk_pid t then Inr (Some (current p)) else get_by_pid pid p) = Inr r"
    and live: "\<And>a. r = Some a \<Longrightarrow> a \<in> dom (tasks p)"
  proof (cases "pid = tk_pid t")
    case True
    then show thesis using that [of "Some (current p)"] t by auto
  next
    case False
    from search_ok [OF ok] obtain k l s where
      s: "insert k (set l) \<subseteq> dom (tasks p)" "get_by_pid pid p = Inr s" "found p pid (insert k (set l)) s"
      by metis
    then have "a \<in> dom (tasks p)" if "s = Some a" for a using that by (auto simp: found_def)
    then show thesis using that [of s] False s(2) by simp
  qed
  show ?thesis
  proof (cases r)
    case None
    then show ?thesis using True t r ok by (simp add: Task_kill_def get_task_def)
  next
    case (Some a)
    then obtain s where s: "tasks p a = Some s" using live by blast
    let ?s = "s\<lparr>pending_signals := pending_signals s @ [sig]\<rparr>"
    have "task_wf (kvfs p) ?s" using wf_of [OF b s] True by (simp add: task_wf_def)
    then have "procs_ok (p\<lparr>tasks := (tasks p)(a \<mapsto> ?s)\<rparr>)" by (intro procs_ok_upd [OF ok s]) simp_all
    then show ?thesis using True t r Some upd_task_live [OF s] by (simp add: Task_kill_def get_task_def)
  qed
qed (use ok in \<open>simp add: Task_kill_def\<close>)

lemma signal_ok:
  assumes ok: "procs_ok p"
  shows "\<exists>p' r. Task_signal (current p) sig h p = Inr (p', r) \<and> procs_ok p' \<and> next_pid p' = next_pid p"
proof (cases "is_signal_valid sig")
  case True
  obtain t where t: "tasks p (current p) = Some t" using current_live [OF ok] by blast
  have wf: "task_wf (kvfs p) t" using wf_of [OF _ t] ok by (simp add: procs_ok_def)
  then have i: "0 \<le> sig \<and> sig < int (length (custom_signal_handlers t))"
    using signal_valid_index [OF True, of "custom_signal_handlers t"] by (simp add: task_wf_def)
  let ?t = "t\<lparr>custom_signal_handlers := (custom_signal_handlers t)[nat sig := h]\<rparr>"
  have "procs_ok (p\<lparr>tasks := (tasks p)(current p \<mapsto> ?t)\<rparr>)"
    by (rule procs_ok_upd [OF ok t]) (use wf in \<open>simp_all add: task_wf_def\<close>)
  then show ?thesis using True t i upd_task_live [OF t]
    by (simp add: Task_signal_def get_task_def aset_def)
qed (use ok in \<open>simp add: Task_signal_def\<close>)

text \<open>An outcome that keeps the invariant, or a panic.\<close>

definition sound :: "u32 \<Rightarrow> kerror + procs \<Rightarrow> bool" where
  "sound n r = (case r of Inl e \<Rightarrow> \<exists>m. e = Panic m | Inr p \<Rightarrow> procs_ok p \<and> next_pid p = n)"

lemma sound_Inr: "\<exists>p'. r = Inr p' \<and> procs_ok p' \<and> next_pid p' = n \<Longrightarrow> sound n r"
  by (auto simp: sound_def)

lemma exit_sound:
  assumes "procs_ok p"
  shows "sound (next_pid p) (Task_exit (current p) code p)"
proof -
  obtain t where t: "tasks p (current p) = Some t" using current_live [OF assms] by blast
  show ?thesis
  proof (cases "tk_parent t")
    case None
    then show ?thesis using exit_no_parent [OF t] by (simp add: sound_def)
  next
    case (Some q)
    then have "par p (current p) = Some q" using view_at(1) [OF t] by simp
    from exit_ok [OF assms this] show ?thesis by (intro sound_Inr) blast
  qed
qed

lemma default_handler_cases:
  "default_signal_handler s p = Inr (p, True) \<or>
    (\<exists>code. default_signal_handler s p = bindE (Task_exit (current p) code p) (\<lambda>p. Inr (p, False)))"
  by (auto simp: default_signal_handler_def)

lemma signal_loop_sound:
  "procs_ok p \<Longrightarrow> list_all is_signal_valid ss \<Longrightarrow>
    sound (next_pid p) (bindE (signal_loop ss (current p) p) (\<lambda>(p, b). Inr p))"
proof (induction ss arbitrary: p)
  case (Cons s ss)
  obtain t where t: "tasks p (current p) = Some t" using current_live [OF Cons.prems(1)] by blast
  have wf: "task_wf (kvfs p) t" using wf_of [OF _ t] Cons.prems(1) by (simp add: procs_ok_def)
  let ?t = "t\<lparr>pending_signals := ss\<rparr>"
  let ?q = "p\<lparr>tasks := (tasks p)(current p \<mapsto> ?t)\<rparr>"
  have q: "procs_ok ?q"
    by (rule procs_ok_upd [OF Cons.prems(1) t]) (use wf Cons.prems(2) in \<open>simp_all add: task_wf_def\<close>)
  have "length (custom_signal_handlers t) = nat NR_signals" using wf by (simp add: task_wf_def)
  then have g: "aget (custom_signal_handlers t) s = Inr (custom_signal_handlers t ! nat s)"
    using signal_valid_index [of s "custom_signal_handlers t"] Cons.prems(2) by (simp add: aget_def)
  have eq: "signal_loop (s # ss) (current p) p =
      (if custom_signal_handlers t ! nat s = 0 then
         bindE (default_signal_handler s ?q) (\<lambda>(p', back).
         if back then signal_loop ss (current p) p' else Inr (p', False))
       else Inl (Panic ''not implemented yet!''))"
    using t g Cons.prems(2) by (simp add: upd_task_live get_task_def)
  show ?case
  proof (cases "custom_signal_handlers t ! nat s = 0")
    case True
    from default_handler_cases [of s ?q] show ?thesis
    proof (elim disjE exE)
      assume "default_signal_handler s ?q = Inr (?q, True)"
      then show ?thesis using eq True Cons.IH [OF q] Cons.prems(2) by simp
    next
      fix code assume "default_signal_handler s ?q = bindE (Task_exit (current ?q) code ?q) (\<lambda>p. Inr (p, False))"
      then show ?thesis using eq True exit_sound [OF q, of code] by (auto simp: bindE_def split: sum.splits)
    qed
  next
    case False
    show ?thesis unfolding eq using False by (simp add: sound_def)
  qed
qed (simp add: sound_def)

lemma pending_sound:
  assumes "procs_ok p"
  shows "sound (next_pid p) (bindE (handle_pending_signals (current p) p) (\<lambda>(p, b). Inr p))"
proof -
  obtain t where t: "tasks p (current p) = Some t" using current_live [OF assms] by blast
  have "task_wf (kvfs p) t" using wf_of [OF _ t] assms by (simp add: procs_ok_def)
  then show ?thesis
    using signal_loop_sound [OF assms, of "pending_signals t"] t
    by (simp add: handle_pending_signals_def get_task_def task_wf_def)
qed

lemma syscall_exit_sound:
  assumes "procs_ok p"
  shows "sound (next_pid p) (syscall_exit_path p)"
proof (cases "handle_pending_signals (current p) p")
  case (Inl e)
  then show ?thesis using pending_sound [OF assms] by (simp add: syscall_exit_path_def)
next
  case (Inr r)
  obtain q b where r: "r = (q, b)" by (cases r)
  then have q: "procs_ok q" "next_pid q = next_pid p" using pending_sound [OF assms] Inr by (simp_all add: sound_def)
  show ?thesis using Inr r q maybe_schedule_ok [OF q(1)] by (auto simp: syscall_exit_path_def sound_def)
qed

lemma irq_sound:
  assumes "procs_ok p"
  shows "sound (next_pid p) (handle_irq p)"
proof -
  from sched_tick_ok [OF assms] obtain q where
    q: "sched_tick p = Inr q" "procs_ok q" "next_pid q = next_pid p" by blast
  from maybe_schedule_ok [OF q(2)] obtain u where
    u: "maybe_schedule q = Inr u" "procs_ok u" "next_pid u = next_pid q" by blast
  show ?thesis using q u pending_sound [OF u(2)] by (simp add: handle_irq_def sound_def)
qed


subsection \<open>Opening a file\<close>

lemma free_fd_bound: "free_fd es i = Some j \<Longrightarrow> i \<le> j \<and> j < i + length es"
  by (induction es arbitrary: i) (fastforce split: if_splits)+

lemma allocate_fd_ok:
  assumes ok: "procs_ok p" and f: "files (kvfs p) f \<noteq> None"
  shows "\<exists>p' r. allocate_fd_for_file (current p) (Some f) p = Inr (p', r) \<and> procs_ok p' \<and> next_pid p' = next_pid p"
proof -
  obtain t where t: "tasks p (current p) = Some t" using current_live [OF ok] by blast
  have wf: "task_wf (kvfs p) t" using wf_of [OF _ t] ok by (simp add: procs_ok_def)
  show ?thesis
  proof (cases "free_fd (fd_table t) 0")
    case None
    then show ?thesis using t ok by (simp add: allocate_fd_for_file_def get_task_def)
  next
    case (Some i)
    let ?t = "t\<lparr>fd_table := (fd_table t)[i := Some f]\<rparr>"
    have "task_wf (kvfs p) ?t"
      using wf f set_update_subset_insert [of "fd_table t" i "Some f"] by (auto simp: task_wf_def)
    then have "procs_ok (p\<lparr>tasks := (tasks p)(current p \<mapsto> ?t)\<rparr>)" by (intro procs_ok_upd [OF ok t]) simp_all
    then show ?thesis using t Some upd_task_live [OF t] by (simp add: allocate_fd_for_file_def get_task_def)
  qed
qed

text \<open>A change of the file systems that keeps the mounts keeps the invariant of the tasks.\<close>

lemma fs_good_stays: "fs_good w \<Longrightarrow> mem.stays w w' \<Longrightarrow> fs_good w'"
  by (cases "mounts w") (auto simp: fs_good_def mem.stays_defs)

lemma procs_ok_vfs:
  assumes ok: "procs_ok p" and k: "mem.stays (kvfs p) w"
  shows "procs_ok (p\<lparr>kvfs := w\<rparr>)"
proof -
  have b: "base_ok p" using ok by (simp add: procs_ok_def)
  have "base_ok (p\<lparr>kvfs := w\<rparr>)"
    using k fs_good_stays [OF base_okD(7) [OF b] k] by (intro base_ok_vfs [OF b]) (simp_all add: mem.stays_defs)
  then show ?thesis using ok by (simp add: procs_ok_def tree_of_frame)
qed

text \<open>Operations of the virtual file system in the working directory of the current task.\<close>

lemma cwd_live:
  assumes "procs_ok p" and "tasks p (current p) = Some t"
  shows "mem_ok (kvfs p)" "live_inode (fs_state (kvfs p)) (cwd_vnode t)"
    "\<forall>g \<in> set (opened_files (kvfs p)). files (kvfs p) g \<noteq> None"
proof -
  have b: "base_ok p" using assms(1) by (simp add: procs_ok_def)
  show "live_inode (fs_state (kvfs p)) (cwd_vnode t)" using wf_of [OF b assms(2)] by (simp add: task_wf_def)
  show "mem_ok (kvfs p)" "\<forall>g \<in> set (opened_files (kvfs p)). files (kvfs p) g \<noteq> None"
    using base_okD(7) [OF b] by (simp_all add: fs_good_def)
qed

definition kept :: "procs \<Rightarrow> procs \<Rightarrow> bool" where
  "kept p p' \<longleftrightarrow> procs_ok p' \<and> next_pid p' = next_pid p"

lemma in_vfs_kept:
  assumes ok: "procs_ok p" and r: "in_vfs f p = Inr (p', x)"
    and f: "\<And>cwd w. mem_ok (kvfs p) \<Longrightarrow> live_inode (fs_state (kvfs p)) cwd \<Longrightarrow> f cwd (kvfs p) = Inr (w, x) \<Longrightarrow>
      mem.stays (kvfs p) w"
  shows "kept p p'"
proof -
  obtain t where t: "tasks p (current p) = Some t" using current_live [OF ok] by blast
  obtain w where w: "f (cwd_vnode t) (kvfs p) = Inr (w, x)" and p': "p' = p\<lparr>kvfs := w\<rparr>"
    using r t by (auto simp: in_vfs_def get_task_def bindE_Inr)
  show ?thesis
    using procs_ok_vfs [OF ok f [OF cwd_live(1,2) [OF ok t] w]] unfolding p' by (simp add: kept_def)
qed

lemma open_sound:
  assumes ok: "procs_ok p" and r: "sys_open path options p = Inr (p', fd)"
  shows "kept p p'"
proof -
  obtain t where t: "tasks p (current p) = Some t" using current_live [OF ok] by blast
  note c = cwd_live [OF ok t]
  obtain w f where w: "vfs_open memfs_vtable (cwd_vnode t) path options (kvfs p) = Inr (w, f)"
    and rest: "(if f = None then Inr (p\<lparr>kvfs := w\<rparr>, - 1)
      else allocate_fd_for_file (current (p\<lparr>kvfs := w\<rparr>)) f (p\<lparr>kvfs := w\<rparr>)) = Inr (p', fd)"
    using r t by (auto simp: sys_open_def in_vfs_def get_task_def bindE_Inr)
  have q: "procs_ok (p\<lparr>kvfs := w\<rparr>)" by (rule procs_ok_vfs [OF ok mem.open_ok [OF c(1,2) w]])
  show ?thesis
  proof (cases f)
    case None
    then show ?thesis using rest q by (auto simp: kept_def)
  next
    case (Some g)
    then have "files (kvfs (p\<lparr>kvfs := w\<rparr>)) g \<noteq> None" using mem.open_frame [OF c(1,2) w c(3)] by simp
    from allocate_fd_ok [OF q this] show ?thesis using rest Some by (auto simp: kept_def)
  qed
qed

lemma read_sound:
  assumes "procs_ok p" and "sys_read junk fd len p = Inr (p', buf, r)"
  shows "kept p p'"
proof (cases "fd = 0")
  case True
  obtain t where t: "tasks p (current p) = Some t" using current_live [OF assms(1)] by blast
  note g = cwd_live(1) [OF assms(1) t]
  obtain w b where w: "console_read (take (unat len) junk) len (kvfs p) = Inr (w, b)" and p': "p' = p\<lparr>kvfs := w\<rparr>"
    using assms(2) True by (auto simp: sys_read_def bindE_Inr)
  show ?thesis
    using procs_ok_vfs [OF assms(1) mem.staysI [OF g mem.console_steps(2) [OF g w]]] unfolding p'
    by (simp add: kept_def)
next
  case False
  then have "p' = p \<or> (\<exists>f. in_vfs (\<lambda>cwd. vfs_read memfs_vtable junk f len) p = Inr (p', buf, r))"
    using assms(2) by (auto simp: sys_read_def bindE_Inr split: if_splits)
  then show ?thesis
  proof (elim disjE exE)
    fix f assume "in_vfs (\<lambda>cwd. vfs_read memfs_vtable junk f len) p = Inr (p', buf, r)"
    then show ?thesis by (rule in_vfs_kept [OF assms(1)]) (rule mem.read_ok)
  qed (use assms(1) in \<open>simp add: kept_def\<close>)
qed

lemma write_sound:
  assumes "procs_ok p" and "sys_write fd buf p = Inr (p', r)"
  shows "kept p p'"
proof (cases "fd = 1 \<or> fd = 2")
  case True
  obtain t where t: "tasks p (current p) = Some t" using current_live [OF assms(1)] by blast
  note g = cwd_live(1) [OF assms(1) t]
  show ?thesis
    using procs_ok_vfs [OF assms(1) mem.staysI [OF g mem.console_steps(1) [OF g]], of buf] assms(2) True
    by (auto simp: kept_def sys_write_def)
next
  case False
  then have "p' = p \<or> (\<exists>f. in_vfs (\<lambda>cwd. vfs_write memfs_vtable f buf) p = Inr (p', r))"
    using assms(2) by (auto simp: sys_write_def bindE_Inr split: if_splits)
  then show ?thesis
  proof (elim disjE exE)
    fix f assume "in_vfs (\<lambda>cwd. vfs_write memfs_vtable f buf) p = Inr (p', r)"
    then show ?thesis by (rule in_vfs_kept [OF assms(1)]) (rule mem.write_ok)
  qed (use assms(1) in \<open>simp add: kept_def\<close>)
qed

lemma resolve_stays:
  assumes "mem_ok w" and "live_inode (fs_state w) cwd" and "resolve_path memfs_vtable cwd path w = Inr (w', x)"
  shows "mem.stays w w'" "\<And>v. r_target x = Some v \<Longrightarrow> live_inode (fs_state w') v"
  using mem.resolve_path_ok [OF assms] mem.staysI [OF assms(1)] by blast+

lemma access_sound:
  assumes "procs_ok p" and "sys_access path p = Inr (p', r)"
  shows "kept p p'"
  using assms(2) unfolding sys_access_def
  by (rule in_vfs_kept [OF assms(1)]) (auto simp: access_def bindE_Inr dest: resolve_stays(1))

lemma chdir_sound:
  assumes "procs_ok p" and "sys_chdir path p = Inr (p', r)"
  shows "kept p p'"
proof -
  obtain p1 x where a: "sys_access path p = Inr (p1, x)" using assms(2) by (auto simp: sys_chdir_def bindE_Inr)
  have k1: "procs_ok p1" "next_pid p1 = next_pid p" using access_sound [OF assms(1) a] by (simp_all add: kept_def)
  show ?thesis
  proof (cases "x = - 1")
    case True
    then show ?thesis using assms(2) a k1 by (simp add: sys_chdir_def kept_def)
  next
    case False
    then obtain p2 y where i: "in_vfs (\<lambda>cwd. resolve_path memfs_vtable cwd path) p1 = Inr (p2, y)"
      using assms(2) a by (auto simp: sys_chdir_def bindE_Inr)
    have k2: "procs_ok p2" "next_pid p2 = next_pid p1"
      using in_vfs_kept [OF k1(1) i resolve_stays(1)] by (simp_all add: kept_def)
    obtain t1 where t1: "tasks p1 (current p1) = Some t1" using current_live [OF k1(1)] by blast
    obtain t2 where t2: "tasks p2 (current p2) = Some t2" using current_live [OF k2(1)] by blast
    have live: "live_inode (fs_state (kvfs p2)) v" if "r_target y = Some v" for v
      using i t1 resolve_stays(2) [OF cwd_live(1,2) [OF k1(1) t1] _ that]
      by (auto simp: in_vfs_def get_task_def bindE_Inr)
    have "p' = p2 \<or> (\<exists>v. r_target y = Some v \<and>
        p' = p2\<lparr>tasks := (tasks p2)(current p2 \<mapsto> t2\<lparr>cwd_vnode := v\<rparr>)\<rparr>)"
      using assms(2) a i False upd_task_live [OF t2]
      by (auto simp: sys_chdir_def bindE_Inr split: option.splits if_splits)
    moreover have "procs_ok (p2\<lparr>tasks := (tasks p2)(current p2 \<mapsto> t2\<lparr>cwd_vnode := v\<rparr>)\<rparr>)"
      if "r_target y = Some v" for v
      using wf_of [OF _ t2] k2(1) live [OF that]
      by (intro procs_ok_upd [OF k2(1) t2]) (auto simp: task_wf_def procs_ok_def)
    ultimately show ?thesis using k1 k2 by (auto simp: kept_def)
  qed
qed

lemma mkdir_sound:
  assumes "procs_ok p" and "sys_mkdir path p = Inr (p', r)"
  shows "kept p p'"
  using assms(2) unfolding sys_mkdir_def
proof (rule in_vfs_kept [OF assms(1)])
  fix cwd w assume ok: "mem_ok (kvfs p)" and l: "live_inode (fs_state (kvfs p)) cwd"
    and "mkdir memfs_vtable cwd path (kvfs p) = Inr (w, r)"
  then obtain v where "create memfs_vtable cwd path None 0 S_IFDIR (kvfs p) = Inr (w, v)"
    by (auto simp: mkdir_def bindE_Inr)
  from mem.create_ok [OF ok l this] show "mem.stays (kvfs p) w" using mem.staysI [OF ok] by simp
qed

lemma mount_sound:
  assumes "procs_ok p" and "sys_mount dev path fs p = Inr (p', r)"
  shows "kept p p'"
  using assms(2) unfolding sys_mount_def by (rule in_vfs_kept [OF assms(1)]) (rule mem.mount_ok)

lemma mknod_sound:
  assumes "procs_ok p" and "sys_mknod path mode dev p = Inr (p', r)"
  shows "kept p p'"
  using assms(2) unfolding sys_mknod_def by (rule in_vfs_kept [OF assms(1)]) (rule mem.mknod_ok)


subsection \<open>Starting up\<close>

lemma new_root_task:
  assumes "fs_good (kvfs p)" and "length nm \<le> TASK_NAME_MAX_LEN" and "0 \<in> set nm"
  shows "\<exists>t. Task_new u None nm p =
    Inr ((if next_pid p = 1 then p\<lparr>init_task := Some (next_task p)\<rparr>
          else if next_pid p = 2 then p\<lparr>kthreadd := Some (next_task p)\<rparr> else p)
      \<lparr>next_task := Suc (next_task p), next_pid := next_pid p + 1, kvfs := with_stdio (kvfs p),
       tasks := (tasks p)(next_task p \<mapsto> t)\<rparr>, next_task p) \<and>
    tk_parent t = None \<and> active_children t = [] \<and> terminated_children t = [] \<and> tk_pid t = next_pid p \<and>
    task_wf (with_stdio (kvfs p)) t \<and> pending_signals t = []"
proof -
  obtain nm' where nm: "astrcpy nm (replicate TASK_NAME_MAX_LEN 0) 0 = Inr nm'"
    "length nm' = TASK_NAME_MAX_LEN" "0 \<in> set nm'"
    using name_copy [OF assms(2,3)] by blast
  obtain root where root: "get_rootfs (kvfs p) = Inr root" "live_inode (fs_state (kvfs p)) root"
    using rootfs_good [OF assms(1)] by blast
  let ?t = "fresh_task u None (next_pid p) nm' (next_file (kvfs p)) root"
  have "task_wf (with_stdio (kvfs p)) ?t"
    using with_stdio_good [OF assms(1)] nm root by (intro fresh_task_wf) simp_all
  then show ?thesis using nm(1) root(1)
    by (intro exI [of _ ?t]) (simp add: Task_new_def stdio_file_eq fresh_task_def Let_def)
qed

lemma wf_stdio: "fs_good w \<Longrightarrow> task_wf w t \<Longrightarrow> task_wf (with_stdio w) t"
  using with_stdio_good [of w] by (simp add: task_wf_def)

lemma enqueue_new:
  "enqueue_task (Some a) (p\<lparr>tasks := (tasks p)(a \<mapsto> t)\<rparr>) =
    Inr (p\<lparr>tasks := (tasks p)(a \<mapsto> t\<lparr>tk_state := RUNNING\<rparr>), runqueue := runqueue p @ [a]\<rparr>)"
  by (simp add: enqueue_task_def set_state_def upd_task_def get_task_def)

lemma boot_state_ok:
  assumes t: "\<And>t. t \<in> {t0, t1, t2} \<Longrightarrow> tk_parent t = None \<and> active_children t = [] \<and>
      terminated_children t = [] \<and> task_wf w t"
    and pids: "tk_pid t0 = 0" "tk_pid t1 = 1" "tk_pid t2 = 2" and w: "fs_good w"
  shows "procs_ok \<lparr>tasks = [0 \<mapsto> t0, Suc 0 \<mapsto> t1, Suc (Suc 0) \<mapsto> t2], next_task = Suc (Suc (Suc 0)), current = 0,
    init_task = Some (Suc 0), kthreadd = Some (Suc (Suc 0)), next_pid = 3, need_reschedule = False,
    runqueue = [0, Suc 0, Suc (Suc 0)], kvfs = w\<rparr>" (is "procs_ok ?p")
proof -
  have "tree_of ?p {}"
    unfolding tree_of_def
    by (rule treeI) (use t pids in \<open>auto simp: par_def act_def trm_def pd_def inj_on_def split: if_splits\<close>)
  moreover have "base_ok ?p"
    using t pids w by (auto simp: base_ok_def named_task_def par_def pd_def split: if_splits)
  ultimately show ?thesis by (simp add: procs_ok_def)
qed

lemma kernel_boots:
  assumes w: "fs_good w"
  shows "\<exists>p. Kernel_run w = Inr p \<and> procs_ok p \<and> next_pid p = 3 \<and> runqueue p = [0, 1, 2] \<and> need_reschedule p = False \<and>
    init_task p = Some 1 \<and> (\<forall>a t. tasks p a = Some t \<longrightarrow> pending_signals t = [] \<and> terminated_children t = [])"
proof -
  note names = idle_name_def start_init_name_def start_kthreadd_name_def TASK_NAME_MAX_LEN_def
  note g1 = with_stdio_good(1) [OF w]
  note g2 = with_stdio_good(1) [OF g1]
  obtain t0 where t0: "Task_new False None idle_name (TaskScheduler w) =
      Inr ((TaskScheduler w)\<lparr>next_task := 1, next_pid := 1, kvfs := with_stdio w, tasks := [0 \<mapsto> t0]\<rparr>, 0)"
    "tk_parent t0 = None \<and> active_children t0 = [] \<and> terminated_children t0 = [] \<and> tk_pid t0 = 0 \<and>
     task_wf (with_stdio w) t0 \<and> pending_signals t0 = []"
    using new_root_task [of "TaskScheduler w" idle_name False] w by (auto simp: TaskScheduler_def names)
  let ?t0 = "t0\<lparr>tk_state := RUNNING\<rparr>"
  let ?p1 = "(TaskScheduler w)\<lparr>next_task := 1, next_pid := 1, kvfs := with_stdio w,
    tasks := [0 \<mapsto> ?t0], runqueue := [0]\<rparr>"
  obtain t1 where t1: "Task_new True None start_init_name ?p1 =
      Inr (?p1\<lparr>init_task := Some 1, next_task := 2, next_pid := 2, kvfs := with_stdio (with_stdio w),
        tasks := [0 \<mapsto> ?t0, 1 \<mapsto> t1]\<rparr>, 1)"
    "tk_parent t1 = None \<and> active_children t1 = [] \<and> terminated_children t1 = [] \<and> tk_pid t1 = 1 \<and>
     task_wf (with_stdio (with_stdio w)) t1 \<and> pending_signals t1 = []"
    using new_root_task [of ?p1 start_init_name True] g1 by (auto simp: TaskScheduler_def names)
  let ?t1 = "t1\<lparr>tk_state := RUNNING\<rparr>"
  let ?p2 = "?p1\<lparr>init_task := Some 1, next_task := 2, next_pid := 2, kvfs := with_stdio (with_stdio w),
    tasks := [0 \<mapsto> ?t0, 1 \<mapsto> ?t1], runqueue := [0, 1]\<rparr>"
  obtain t2 where t2: "Task_new False None start_kthreadd_name ?p2 =
      Inr (?p2\<lparr>kthreadd := Some 2, next_task := 3, next_pid := 3, kvfs := with_stdio (with_stdio (with_stdio w)),
        tasks := [0 \<mapsto> ?t0, 1 \<mapsto> ?t1, 2 \<mapsto> t2]\<rparr>, 2)"
    "tk_parent t2 = None \<and> active_children t2 = [] \<and> terminated_children t2 = [] \<and> tk_pid t2 = 2 \<and>
     task_wf (with_stdio (with_stdio (with_stdio w))) t2 \<and> pending_signals t2 = []"
    using new_root_task [of ?p2 start_kthreadd_name False] g2 by (auto simp: TaskScheduler_def names)
  let ?t2 = "t2\<lparr>tk_state := RUNNING\<rparr>"
  let ?w3 = "with_stdio (with_stdio (with_stdio w))"
  have "procs_ok \<lparr>tasks = [0 \<mapsto> ?t0, Suc 0 \<mapsto> ?t1, Suc (Suc 0) \<mapsto> ?t2], next_task = Suc (Suc (Suc 0)), current = 0,
    init_task = Some (Suc 0), kthreadd = Some (Suc (Suc 0)), next_pid = 3, need_reschedule = False,
    runqueue = [0, Suc 0, Suc (Suc 0)], kvfs = ?w3\<rparr>" (is "procs_ok ?p3")
    using t0(2) t1(2) t2(2) wf_stdio [OF g2] wf_stdio [OF g1] with_stdio_good(1) [OF g2]
    by (intro boot_state_ok) auto
  moreover have "Kernel_run w = Inr ?p3"
    using t0(1) t1(1) t2(1)
    by (simp add: Kernel_run_def enqueue_task_def set_state_def upd_task_def get_task_def
        TaskScheduler_def sched_run_def numeral_2_eq_2 numeral_3_eq_3)
  moreover have "\<forall>a t. tasks ?p3 a = Some t \<longrightarrow> pending_signals t = [] \<and> terminated_children t = []"
    using t0(2) t1(2) t2(2) by auto
  ultimately show ?thesis by (intro exI [of _ ?p3]) simp
qed


subsection \<open>Sequences of operations\<close>

text \<open>
  What the tasks may ask of the kernel, the timer interrupt, and what goes on outside of the
  tasks and files. \<open>Fork\<close> has the two arguments of \<open>Task_fork\<close>; \<open>Return\<close> is the end of a system call,
  where the signals are handled; \<open>Elsewhere\<close> is a change of what the file systems show of the
  rest of the kernel. Of the system calls of \<open>Syscalls\<close>, \<open>umount\<close> is missing: it can remove the
  root file system, without which the constructor of a task follows a null pointer.
\<close>

datatype kop = Fork bool bool | Wait | Exit int | Yield | Kill u32 int | Handler int u64 | Close int
  | Timer | Return
  | Open name u32 | Read "u8 list" int u64 | Write int "u8 list" | Access name | Chdir name | Mkdir name
  | Mount name name name | Mknod name u32 u32
  | Elsewhere "nat \<Rightarrow> bool" "task_info list" name name "u8 list"

text \<open>The calls that resolve a path or reach into a file.\<close>

definition is_fs_call :: "kop \<Rightarrow> bool" where
  "is_fs_call op =
     (case op of
        Open _ _ \<Rightarrow> True | Read _ _ _ \<Rightarrow> True | Write _ _ \<Rightarrow> True | Access _ \<Rightarrow> True | Chdir _ \<Rightarrow> True
      | Mkdir _ \<Rightarrow> True | Mount _ _ _ \<Rightarrow> True | Mknod _ _ _ \<Rightarrow> True | _ \<Rightarrow> False)"

definition run_op :: "kop \<Rightarrow> procs \<Rightarrow> kerror + procs" where
  "run_op op p =
     (case op of
        Fork kstack ustack \<Rightarrow> bindE (sys_fork kstack ustack p) (\<lambda>(p, r). Inr p)
      | Wait \<Rightarrow> bindE (sys_wait p) (\<lambda>(p, r). Inr p)
      | Exit code \<Rightarrow> sys_exit code p
      | Yield \<Rightarrow> bindE (sys_sched_yield p) (\<lambda>(p, r). Inr p)
      | Kill pid sig \<Rightarrow> bindE (sys_kill pid sig p) (\<lambda>(p, r). Inr p)
      | Handler sig h \<Rightarrow> bindE (sys_signal sig h p) (\<lambda>(p, r). Inr p)
      | Close fd \<Rightarrow> bindE (sys_close fd p) (\<lambda>(p, r). Inr p)
      | Timer \<Rightarrow> handle_irq p
      | Return \<Rightarrow> syscall_exit_path p
      | Open path options \<Rightarrow> bindE (sys_open path options p) (\<lambda>(p, r). Inr p)
      | Read junk fd len \<Rightarrow> bindE (sys_read junk fd len p) (\<lambda>(p, r). Inr p)
      | Write fd buf \<Rightarrow> bindE (sys_write fd buf p) (\<lambda>(p, r). Inr p)
      | Access path \<Rightarrow> bindE (sys_access path p) (\<lambda>(p, r). Inr p)
      | Chdir path \<Rightarrow> bindE (sys_chdir path p) (\<lambda>(p, r). Inr p)
      | Mkdir path \<Rightarrow> bindE (sys_mkdir path p) (\<lambda>(p, r). Inr p)
      | Mount dev path fs \<Rightarrow> bindE (sys_mount dev path fs p) (\<lambda>(p, r). Inr p)
      | Mknod path mode dev \<Rightarrow> bindE (sys_mknod path mode dev p) (\<lambda>(p, r). Inr p)
      | Elsewhere h ts b s input \<Rightarrow> Inr (p\<lparr>kvfs := surroundings h ts b s input (kvfs p)\<rparr>))"

primrec run_ops :: "kop list \<Rightarrow> procs \<Rightarrow> kerror + procs" where
  "run_ops [] p = Inr p"
| "run_ops (op # ops) p = bindE (run_op op p) (run_ops ops)"

text \<open>
  The states that the kernel reaches from its start with the file systems \<open>w\<close>. The number of
  operations is bounded so that the 32-bit process ids do not wrap around.
\<close>

definition reached :: "world \<Rightarrow> kop list \<Rightarrow> procs \<Rightarrow> bool" where
  "reached w ops p \<longleftrightarrow> fs_good w \<and> length ops < 2 ^ 32 - 4 \<and> bindE (Kernel_run w) (run_ops ops) = Inr p"

lemma mid_procs:
  assumes "procs_ok p" and "mid_ok p'" and "same_tasks p p'"
  shows "procs_ok p'"
  using assms by (simp add: procs_ok_def mid_ok_def same_tasks_def)

definition safe_result :: "kop \<Rightarrow> procs \<Rightarrow> kerror + procs \<Rightarrow> bool" where
  "safe_result op p r =
     (case r of
        Inl e \<Rightarrow> (\<exists>m. e = Panic m) \<or> is_fs_call op
      | Inr p' \<Rightarrow> procs_ok p' \<and> (next_pid p' = next_pid p \<or> next_pid p' = next_pid p + 1))"

lemma fork_safe:
  assumes "procs_ok p" and "unat (next_pid p) < 2 ^ 32 - 1"
  shows "safe_result (Fork k u) p (run_op (Fork k u) p)"
proof -
  obtain t where t: "tasks p (current p) = Some t" using current_live [OF assms(1)] by blast
  show ?thesis
  proof (cases "k \<and> u")
    case True
    then show ?thesis using fork_ok [OF assms(1) t assms(2)] by (auto simp: run_op_def sys_fork_def safe_result_def)
  next
    case False
    then obtain m where "Task_fork (current p) k u p = Inl (Panic m)" using fork_no_stack [OF assms(1) t] by blast
    then show ?thesis by (simp add: run_op_def sys_fork_def safe_result_def)
  qed
qed

lemma fs_call_safe:
  assumes "procs_ok p" and "is_fs_call op"
  shows "safe_result op p (run_op op p)"
proof (cases "run_op op p")
  case (Inl e)
  then show ?thesis using assms(2) by (simp add: safe_result_def)
next
  case (Inr p')
  then have "kept p p'"
    using assms(2) open_sound [OF assms(1)] read_sound [OF assms(1)] write_sound [OF assms(1)]
      access_sound [OF assms(1)] chdir_sound [OF assms(1)] mkdir_sound [OF assms(1)]
      mount_sound [OF assms(1)] mknod_sound [OF assms(1)]
    by (cases op) (auto simp: is_fs_call_def run_op_def bindE_Inr)
  then show ?thesis using Inr by (simp add: safe_result_def kept_def)
qed

lemma sound_safe: "sound (next_pid p) r \<Longrightarrow> safe_result op p r"
  by (auto simp: sound_def safe_result_def split: sum.splits)

lemma elsewhere_stays: "mem_ok w \<Longrightarrow> mem.stays w (surroundings h ts b s input w)"
  by (simp add: mem.stays_defs) (simp add: surroundings_def)

lemma run_op_safe:
  assumes ok: "procs_ok p" and n: "unat (next_pid p) < 2 ^ 32 - 1"
  shows "safe_result op p (run_op op p)"
proof (cases op)
  case (Fork k u)
  then show ?thesis using fork_safe [OF ok n] by simp
next
  case Wait
  from wait_ok [OF ok] show ?thesis using Wait by (auto simp: run_op_def sys_wait_def safe_result_def)
next
  case (Exit code)
  then show ?thesis using sound_safe [OF exit_sound [OF ok]] by (simp add: run_op_def sys_exit_def)
next
  case Yield
  from schedule_ok [OF mid_okI [OF ok]] show ?thesis
    using Yield by (auto simp: run_op_def sys_sched_yield_def safe_result_def)
next
  case (Kill pid sig)
  from kill_ok [OF ok, of pid sig] show ?thesis using Kill by (auto simp: run_op_def sys_kill_def safe_result_def)
next
  case (Handler sig h)
  from signal_ok [OF ok, of sig h] show ?thesis
    using Handler by (auto simp: run_op_def sys_signal_def safe_result_def)
next
  case (Close fd)
  from sys_close_ok [OF mid_okI [OF ok], of fd] obtain q r where
    q: "sys_close fd p = Inr (q, r)" "mid_ok q" "same_tasks p q" by blast
  then show ?thesis using Close mid_procs [OF ok q(2,3)] by (simp add: run_op_def same_tasks_def safe_result_def)
next
  case Timer
  then show ?thesis using sound_safe [OF irq_sound [OF ok]] by (simp add: run_op_def)
next
  case Return
  then show ?thesis using sound_safe [OF syscall_exit_sound [OF ok]] by (simp add: run_op_def)
next
  case (Elsewhere h ts b s input)
  have "mem_ok (kvfs p)" using ok base_okD(7) [of p] by (simp add: procs_ok_def fs_good_def)
  then show ?thesis
    using Elsewhere procs_ok_vfs [OF ok elsewhere_stays] by (simp add: run_op_def safe_result_def)
qed (simp_all add: fs_call_safe [OF ok] is_fs_call_def)

lemma run_op_ok:
  assumes ok: "procs_ok p" and n: "unat (next_pid p) < 2 ^ 32 - 1"
  shows "\<And>p'. run_op op p = Inr p' \<Longrightarrow> procs_ok p' \<and> unat (next_pid p') \<le> Suc (unat (next_pid p))"
    and "\<And>e. run_op op p = Inl e \<Longrightarrow> (\<exists>m. e = Panic m) \<or> is_fs_call op"
proof -
  have "unat (next_pid p + 1) = Suc (unat (next_pid p))" using n by (simp add: unat_word_ariths)
  then show "\<And>p'. run_op op p = Inr p' \<Longrightarrow> procs_ok p' \<and> unat (next_pid p') \<le> Suc (unat (next_pid p))"
    and "\<And>e. run_op op p = Inl e \<Longrightarrow> (\<exists>m. e = Panic m) \<or> is_fs_call op"
    using run_op_safe [OF assms, of op] by (auto simp: safe_result_def)
qed

lemma run_ops_ok:
  "procs_ok p \<Longrightarrow> unat (next_pid p) + length ops < 2 ^ 32 - 1 \<Longrightarrow> run_ops ops p = Inr p' \<Longrightarrow>
    procs_ok p' \<and> unat (next_pid p') \<le> unat (next_pid p) + length ops"
proof (induction ops arbitrary: p)
  case (Cons op ops)
  obtain q where q: "run_op op p = Inr q" "run_ops ops q = Inr p'" using Cons.prems(3) by (auto simp: bindE_Inr)
  have n: "unat (next_pid p) < 2 ^ 32 - 1" using Cons.prems(2) by simp
  note s = run_op_ok(1) [OF Cons.prems(1) n q(1)]
  from s Cons.prems(2) have "unat (next_pid q) + length ops < 2 ^ 32 - 1" by simp
  from Cons.IH [OF _ this q(2)] s show ?case by simp
qed simp

lemma reached_ok:
  assumes "reached w ops p"
  shows "procs_ok p" "unat (next_pid p) < 2 ^ 32 - 1"
proof -
  have w: "fs_good w" and l: "length ops < 2 ^ 32 - 4" using assms by (simp_all add: reached_def)
  obtain p0 where p0: "Kernel_run w = Inr p0" "procs_ok p0" "next_pid p0 = 3" using kernel_boots [OF w] by blast
  have "run_ops ops p0 = Inr p" using assms p0(1) by (simp add: reached_def)
  from run_ops_ok [OF p0(2) _ this] l p0(3) show "procs_ok p" "unat (next_pid p) < 2 ^ 32 - 1" by simp_all
qed

end
