(* ===== verification/ProcessProperties.thy ===== *)
theory ProcessProperties
  imports ProcessSteps FSProperties
begin

text \<open>
  The properties of the kernel's tasks, for the states that it reaches from its start
  (\<open>reached\<close>): no operation touches a task or file that is gone, every task in the run queue
  gets the processor, the searches of the process tree end and are exact, and an exit status
  gets to the parent.
\<close>

lemma booted_good: "fs_good booted"
  using booted_ok
  by (simp add: fs_good_def)
    (simp add: booted_def mount_rootfs_def TmpFS_def new_node_def get_next_inode_idx_def VFS_def
      empty_memfs_def add_mount_def Let_def)

lemma reached_start:
  "\<exists>p. reached booted [] p \<and> runqueue p = [0, 1, 2] \<and> current p = 0 \<and> need_reschedule p = False \<and>
    (\<forall>a t. tasks p a = Some t \<longrightarrow> pending_signals t = [] \<and> terminated_children t = [])"
proof -
  obtain p where p: "Kernel_run booted = Inr p" "procs_ok p" "runqueue p = [0, 1, 2]" "need_reschedule p = False"
    "\<forall>a t. tasks p a = Some t \<longrightarrow> pending_signals t = [] \<and> terminated_children t = []"
    using kernel_boots [OF booted_good] by blast
  moreover have "current p = 0" using p(2,3) by (simp add: procs_ok_def)
  ultimately show ?thesis using booted_good by (simp add: reached_def)
qed


subsection \<open>Safety\<close>




subsection \<open>Scheduling\<close>

primrec irqs :: "nat \<Rightarrow> procs \<Rightarrow> kerror + procs" where
  "irqs 0 p = Inr p"
| "irqs (Suc n) p = bindE (handle_irq p) (irqs n)"

lemma irqs_add: "irqs (m + n) p = bindE (irqs m p) (irqs n)"
proof (induction m arbitrary: p)
  case (Suc m)
  have "irqs (m + n) = (\<lambda>p. bindE (irqs m p) (irqs n))" by (rule ext) (rule Suc)
  then show ?case by (simp add: bindE_assoc)
qed simp

text \<open>No signal is pending and no switch is due.\<close>

definition quiet :: "procs \<Rightarrow> bool" where
  "quiet p \<longleftrightarrow> \<not> need_reschedule p \<and> (\<forall>t \<in> ran (tasks p). pending_signals t = [])"

lemma quiet_upd:
  "quiet p \<Longrightarrow> tasks p a = Some t \<Longrightarrow> pending_signals t' = pending_signals t \<Longrightarrow>
    quiet (p\<lparr>tasks := (tasks p)(a \<mapsto> t')\<rparr>)"
  by (auto simp: quiet_def ran_def)

lemma schedule_quiet:
  assumes "quiet p" and "schedule p = Inr p'" and "need_reschedule p' = need_reschedule p"
  shows "quiet p'"
proof -
  have "pending_signals t' = []" if t': "tasks p' a = Some t'" for a t'
  proof -
    have "map_option pending_signals (tasks p a) = Some (pending_signals t')"
      using schedule_frame(6) [OF assms(2), of a] t' by simp
    then obtain t where "tasks p a = Some t" "pending_signals t = pending_signals t'" by auto
    then show ?thesis using assms(1) by (auto simp: quiet_def ran_def)
  qed
  then show ?thesis using assms(1,3) by (auto simp: quiet_def ran_def)
qed

text \<open>The last interrupt of a time slice, and the ones before it.\<close>

lemma irq_last:
  assumes ok: "procs_ok p" and q: "quiet p" and t: "tasks p (current p) = Some t" "time_slice t \<le> 1"
  shows "\<exists>p'. handle_irq p = Inr p' \<and> procs_ok p' \<and> quiet p' \<and> runqueue p' = rotate1 (runqueue p)"
proof -
  let ?a = "current p"
  have b: "base_ok p" using ok by (simp add: procs_ok_def)
  let ?t = "Task_tick t\<lparr>time_slice := TASK_TIME_SLICE\<rparr>"
  let ?q = "p\<lparr>tasks := (tasks p)(?a \<mapsto> ?t)\<rparr>"
  have "task_wf (kvfs p) ?t"
    using wf_of [OF b t(1)] by (simp add: task_wf_def Task_tick_def TASK_TIME_SLICE_def)
  then have "procs_ok ?q" by (intro procs_ok_upd [OF ok t(1)]) (simp_all add: Task_tick_def)
  from schedule_ok [OF mid_okI [OF this]] obtain p' where
    p': "schedule ?q = Inr p'" "procs_ok p'" "runqueue p' = rotate1 (runqueue ?q)" "need_reschedule p' = need_reschedule ?q"
    by blast
  have z: "time_slice (Task_tick t) \<le> 0" using t(2) by (simp add: Task_tick_def)
  have s: "p\<lparr>need_reschedule := False, tasks := (tasks p)(?a \<mapsto> ?t)\<rparr> = ?q"
    using q by (simp add: quiet_def)
  have "handle_irq p = schedule (p\<lparr>need_reschedule := False, tasks := (tasks p)(?a \<mapsto> ?t)\<rparr>)"
    using t z by (simp add: handle_irq_def sched_tick_def maybe_schedule_def upd_task_def get_task_def)
  then have "handle_irq p = schedule ?q" unfolding s .
  moreover have "quiet ?q" by (rule quiet_upd [OF q t(1)]) (simp add: Task_tick_def)
  ultimately show ?thesis using p' schedule_quiet [OF _ p'(1,4)] by simp
qed

lemma irq_inner:
  assumes ok: "procs_ok p" and q: "quiet p" and t: "tasks p (current p) = Some t" "1 < time_slice t"
  shows "\<exists>p'. handle_irq p = Inr p' \<and> procs_ok p' \<and> quiet p' \<and> runqueue p' = runqueue p \<and>
    tasks p' (current p') = Some (Task_tick t)"
proof -
  let ?q = "p\<lparr>tasks := (tasks p)(current p \<mapsto> Task_tick t)\<rparr>"
  have b: "base_ok p" using ok by (simp add: procs_ok_def)
  have "task_wf (kvfs p) (Task_tick t)" using wf_of [OF b t(1)] by (auto simp: task_wf_def Task_tick_def)
  then have "procs_ok ?q" by (intro procs_ok_upd [OF ok t(1)]) (simp_all add: Task_tick_def)
  moreover have "quiet ?q" by (rule quiet_upd [OF q t(1)]) (simp add: Task_tick_def)
  moreover have "pending_signals (Task_tick t) = []"
    using q t(1) by (auto simp: quiet_def ran_def Task_tick_def)
  moreover have "\<not> need_reschedule p" using q by (simp add: quiet_def)
  ultimately have "handle_irq p = Inr ?q"
    using t by (simp add: handle_irq_def sched_tick_def maybe_schedule_def upd_task_def get_task_def
        handle_pending_signals_def Task_tick_def)
  then show ?thesis using \<open>procs_ok ?q\<close> \<open>quiet ?q\<close> by simp
qed

lemma slice_ends:
  assumes "procs_ok p" and "quiet p" and "tasks p (current p) = Some t" and "time_slice t \<le> int (Suc n)"
  shows "\<exists>m p'. m \<le> Suc n \<and> irqs m p = Inr p' \<and> procs_ok p' \<and> quiet p' \<and> runqueue p' = rotate1 (runqueue p)"
  using assms
proof (induction n arbitrary: p t)
  case 0
  from irq_last [OF 0(1-3)] 0(4) show ?case by (intro exI [of _ 1]) auto
next
  case (Suc n)
  show ?case
  proof (cases "time_slice t \<le> 1")
    case True
    from irq_last [OF Suc.prems(1-3) True] show ?thesis by (intro exI [of _ 1]) auto
  next
    case False
    then obtain q where q: "handle_irq p = Inr q" "procs_ok q" "quiet q" "runqueue q = runqueue p"
      "tasks q (current q) = Some (Task_tick t)" using irq_inner [OF Suc.prems(1-3)] by auto
    have "time_slice (Task_tick t) \<le> int (Suc n)" using False Suc.prems(4) by (simp add: Task_tick_def)
    from Suc.IH [OF q(2,3,5) this] obtain m p' where
      m: "m \<le> Suc n" "irqs m q = Inr p'" "procs_ok p'" "quiet p'" "runqueue p' = rotate1 (runqueue p)"
      unfolding q(4) by blast
    then show ?thesis using q(1) by (intro exI [of _ "Suc m"]) simp
  qed
qed

lemma slices_rotate:
  assumes "procs_ok p" and "quiet p"
  shows "\<exists>n p'. n \<le> nat TASK_TIME_SLICE * k \<and> irqs n p = Inr p' \<and> procs_ok p' \<and> quiet p' \<and>
    runqueue p' = rotate k (runqueue p)"
proof (induction k)
  case 0
  then show ?case using assms by auto
next
  case (Suc k)
  then obtain n q where n: "n \<le> nat TASK_TIME_SLICE * k" "irqs n p = Inr q" and q: "procs_ok q" "quiet q"
    and rq: "runqueue q = rotate k (runqueue p)" by blast
  obtain t where t: "tasks q (current q) = Some t" using current_live [OF q(1)] by blast
  have "time_slice t \<le> TASK_TIME_SLICE" using wf_of [OF _ t] q(1) by (simp add: procs_ok_def task_wf_def)
  then have "time_slice t \<le> int (Suc (nat TASK_TIME_SLICE - 1))" by (simp add: TASK_TIME_SLICE_def)
  from slice_ends [OF q t this] obtain m p' where
    m: "m \<le> Suc (nat TASK_TIME_SLICE - 1)" "irqs m q = Inr p'" "procs_ok p'" "quiet p'"
      "runqueue p' = rotate1 (runqueue q)" by blast
  have "n + m \<le> nat TASK_TIME_SLICE * Suc k" using n(1) m(1) by (simp add: TASK_TIME_SLICE_def)
  moreover have "irqs (n + m) p = Inr p'" using n(2) m(2) by (simp add: irqs_add)
  ultimately show ?case using m rq by (intro exI [of _ "n + m"]) auto
qed

lemma current_rotated:
  assumes "procs_ok p" and "runqueue p = rotate k rq" and "k < length rq"
  shows "current p = rq ! k"
  using assms hd_rotate_conv_nth [of rq k] by (auto simp: procs_ok_def)

text \<open>C13: The scheduler is fair. When no signal is pending, every task in the run queue becomes
  the current task within as many timer interrupts as a time slice has ticks, times the length
  of the run queue, whatever the other tasks' slices are, and no interrupt on the way fails.
\<close>

theorem every_task_runs:
  assumes "reached w ops p" and "quiet p" and "a \<in> set (runqueue p)"
  shows "\<exists>n p'. n \<le> nat TASK_TIME_SLICE * length (runqueue p) \<and> irqs n p = Inr p' \<and> current p' = a"
proof -
  obtain k where k: "k < length (runqueue p)" "a = runqueue p ! k" using assms(3) by (auto simp: in_set_conv_nth)
  from slices_rotate [OF reached_ok(1) [OF assms(1)] assms(2), of k] obtain n p' where
    n: "n \<le> nat TASK_TIME_SLICE * k" "irqs n p = Inr p'" "procs_ok p'" "runqueue p' = rotate k (runqueue p)"
    by blast
  have "n \<le> nat TASK_TIME_SLICE * length (runqueue p)"
    using n(1) k(1) by (meson le_trans less_imp_le_nat mult_le_mono2)
  then show ?thesis using n(2) current_rotated [OF n(3,4) k(1)] k(2) by blast
qed

theorem every_task_runs_witness:
  "\<exists>p n p'. reached booted [] p \<and> n \<le> nat TASK_TIME_SLICE * 3 \<and> irqs n p = Inr p' \<and> current p' = 2"
proof -
  obtain p where p: "reached booted [] p" "runqueue p = [0, 1, 2]" "need_reschedule p = False"
    "\<forall>a t. tasks p a = Some t \<longrightarrow> pending_signals t = [] \<and> terminated_children t = []"
    using reached_start by blast
  have "quiet p" using p(3,4) by (auto simp: quiet_def ran_def)
  moreover have "2 \<in> set (runqueue p)" using p(2) by simp
  ultimately obtain n p' where "n \<le> nat TASK_TIME_SLICE * length (runqueue p)" "irqs n p = Inr p'" "current p' = 2"
    using every_task_runs [OF p(1)] by blast
  then show ?thesis using p(1,2) by (intro exI [of _ p] exI [of _ n] exI [of _ p']) simp
qed


subsection \<open>The process tree\<close>

text \<open>C12: The breadth-first searches of the process tree end and are exact. In every reached
  state \<open>get_active_tasks\<close> returns the init task, the kernel thread daemon and then exactly the
  tasks that the init task reaches through running children, itself included;
  \<open>get_by_pid\<close> returns for every process id, and what it finds is exactly the task of that list
  with this id. The children of a terminated task that nobody has waited for are not reached.
\<close>

theorem searches_end:
  assumes "reached w ops p"
  shows "\<exists>i k l. init_task p = Some i \<and> kthreadd p = Some k \<and> get_active_tasks p = Inr (i # k # l) \<and>
    set l = {a. (i, a) \<in> {(a, c). a \<in> dom (tasks p) \<and> c \<in> set (act p a)}\<^sup>*} \<and>
    (\<forall>pid. \<exists>r. get_by_pid pid p = Inr r \<and> (\<forall>a. r = Some a \<longleftrightarrow> a \<in> {k} \<union> set l \<and> pd p a = unat pid))"
proof -
  note ok = reached_ok(1) [OF assms]
  have tr: "tree_of p {}" using ok by (simp add: procs_ok_def)
  from search_ok [OF ok] obtain i k l where s: "init_task p = Some i" "kthreadd p = Some k"
    "get_active_tasks p = Inr (i # k # l)" "set l = (child_rel p)\<^sup>* `` {i}" "insert k (set l) \<subseteq> dom (tasks p)"
    "\<And>pid. \<exists>r. get_by_pid pid p = Inr r \<and> found p pid (insert k (set l)) r" by blast
  have "\<exists>r. get_by_pid pid p = Inr r \<and> (\<forall>a. r = Some a \<longleftrightarrow> a \<in> {k} \<union> set l \<and> pd p a = unat pid)" for pid
    using s(6) [of pid] found_unique [OF tr s(5)] by auto
  moreover have "set l = {a. (i, a) \<in> (child_rel p)\<^sup>*}" using s(4) by auto
  ultimately show ?thesis using s(1-3) unfolding child_rel_def by blast
qed

theorem searches_end_witness: "\<exists>p l. reached booted [] p \<and> get_active_tasks p = Inr l"
  using searches_end [of booted "[]"] reached_start by blast


subsection \<open>Exit and wait\<close>

primrec yields :: "nat \<Rightarrow> procs \<Rightarrow> kerror + procs" where
  "yields 0 p = Inr p"
| "yields (Suc n) p = bindE (sys_sched_yield p) (\<lambda>(p, r). yields n p)"

lemma yields_rotate:
  "procs_ok p \<Longrightarrow> \<exists>p'. yields k p = Inr p' \<and> procs_ok p' \<and> runqueue p' = rotate k (runqueue p) \<and> trm p' = trm p \<and>
    par p' = par p \<and> pd p' = pd p \<and> (\<forall>a. map_option error_code (tasks p' a) = map_option error_code (tasks p a))"
proof (induction k arbitrary: p)
  case (Suc k)
  from schedule_ok [OF mid_okI [OF Suc.prems]] obtain q where
    q: "schedule p = Inr q" "procs_ok q" "runqueue q = rotate1 (runqueue p)" by blast
  from Suc.IH [OF q(2)] q schedule_frame [OF q(1)] show ?case
    by (auto simp: sys_sched_yield_def rotate1_rotate_swap)
qed simp

text \<open>C14: The exit status gets to the parent. When the current task exits while its parent is in
  the run queue and has no other terminated child, then the parent becomes the current task
  after fewer yields than there are tasks in the run queue, and its \<open>wait\<close> returns the process
  id and the exit code of the child and keeps the invariant.
\<close>

theorem exit_status_arrives:
  assumes "reached w ops p" and "tasks p (current p) = Some t" and "tk_parent t = Some q"
    and "q \<in> set (runqueue p)" and "trm p q = []"
  shows "\<exists>p1 k p2 p3. sys_exit code p = Inr p1 \<and> k < length (runqueue p) \<and> yields k p1 = Inr p2 \<and>
    current p2 = q \<and> sys_wait p2 = Inr (p3, Reaped (pid_int (tk_pid t)) code) \<and> procs_ok p3"
proof -
  note ok = reached_ok(1) [OF assms(1)]
  have par: "par p (current p) = Some q" using view_at(1) [OF assms(2)] assms(3) by simp
  from exit_ok [OF ok this] obtain p1 where p1: "Task_exit (current p) code p = Inr p1" "procs_ok p1"
    "runqueue p1 = rotate1 (tl (runqueue p))" "trm p1 = (trm p)(q := trm p q @ [current p])"
    "map_option error_code (tasks p1 (current p)) = Some code" "pd p1 = pd p" by blast
  have tr: "tree_of p {}" using ok by (simp add: procs_ok_def)
  have "pd p q < pd p (current p)" using tree_ofD(3) [OF tr view_at(5) [OF assms(2)] par] by simp
  then have "q \<in> set (tl (runqueue p))" using assms(4) ok by (cases "runqueue p") (auto simp: procs_ok_def)
  then have "q \<in> set (runqueue p1)" using p1(3) by simp
  then obtain k where k: "k < length (runqueue p1)" "q = runqueue p1 ! k" by (auto simp: in_set_conv_nth)
  from yields_rotate [OF p1(2), of k] obtain p2 where p2: "yields k p1 = Inr p2" "procs_ok p2"
    "runqueue p2 = rotate k (runqueue p1)" "trm p2 = trm p1" "pd p2 = pd p1"
    "\<forall>a. map_option error_code (tasks p2 a) = map_option error_code (tasks p1 a)" by blast
  have cur: "current p2 = q" using current_rotated [OF p2(2,3) k(1)] k(2) by simp
  have "map_option error_code (tasks p2 (current p)) = Some code" using p2(6) p1(5) by simp
  then obtain c where c: "tasks p2 (current p) = Some c" "error_code c = code" by auto
  have "unat (tk_pid c) = unat (tk_pid t)"
    using view_at(4) [OF c(1)] view_at(4) [OF assms(2)] p2(5) p1(6) by simp
  then have pid: "tk_pid c = tk_pid t" by (rule unsigned_word_eqI)
  have "trm p2 (current p2) = current p # []" using p2(4) p1(4) assms(5) cur by simp
  with wait_ok [OF p2(2)] c pid obtain p3 where
    p3: "Task_wait (current p2) p2 = Inr (p3, Reaped (pid_int (tk_pid t)) code)" "procs_ok p3" by fastforce
  have "length (runqueue p1) \<le> length (runqueue p)" using p1(3) by simp
  then show ?thesis using p1(1) k(1) p2(1) cur p3
    by (intro exI [of _ p1] exI [of _ k] exI [of _ p2] exI [of _ p3]) (simp add: sys_exit_def sys_wait_def)
qed

text \<open>Its witness: the first task forks and three yields let the child run.\<close>

lemma reached_child:
  "\<exists>p t. reached booted [Fork True True, Yield, Yield, Yield] p \<and> tasks p (current p) = Some t \<and> tk_parent t = Some 0 \<and>
    0 \<in> set (runqueue p) \<and> trm p 0 = []"
proof -
  obtain p0 where p0: "Kernel_run booted = Inr p0" "procs_ok p0" "next_pid p0 = 3" "runqueue p0 = [0, 1, 2]"
    "\<forall>a t. tasks p0 a = Some t \<longrightarrow> pending_signals t = [] \<and> terminated_children t = []"
    using kernel_boots [OF booted_good] by blast
  have c0: "current p0 = 0" using p0(2,4) by (simp add: procs_ok_def)
  obtain t0 where t0: "tasks p0 0 = Some t0" using current_live [OF p0(2)] c0 by auto
  let ?x = "next_task p0"
  obtain p1 c where p1: "sys_fork True True p0 = Inr (p1, pid_int (next_pid p0))" "procs_ok p1"
    "runqueue p1 = [0, 1, 2, ?x]" "trm p1 = (trm p0)(?x := [])" "tasks p1 ?x = Some c" "tk_parent c = Some 0"
    using fork_ok [OF p0(2) t0] p0(3,4) by (auto simp: sys_fork_def c0)
  from yields_rotate [OF p1(2), of 3] obtain p where
    p: "yields 3 p1 = Inr p" "procs_ok p" "runqueue p = [?x, 0, 1, 2]" "trm p = trm p1" "par p = par p1"
    unfolding p1(3) by (auto simp: numeral_3_eq_3)
  have "run_ops [Yield, Yield, Yield] q = yields 3 q" for q
    by (simp add: run_op_def numeral_3_eq_3 bindE_def split: sum.splits prod.splits)
  then have "reached booted [Fork True True, Yield, Yield, Yield] p"
    using p0(1) p1(1) p(1) booted_good by (simp add: reached_def) (simp add: run_op_def)
  moreover have "current p = ?x" using p(2,3) by (simp add: procs_ok_def)
  moreover obtain t where "tasks p (current p) = Some t" using current_live [OF p(2)] by blast
  moreover have "trm p 0 = []"
    using p(4) p1(4) t0 p0(5) by (simp add: trm_def)
  ultimately show ?thesis using p(3,5) p1(6) view_at(1) [OF p1(5)] view_at(1) [of p ?x t] by auto
qed

theorem exit_status_arrives_witness:
  "\<exists>p p1 k p2 p3 pid. reached booted [Fork True True, Yield, Yield, Yield] p \<and> sys_exit 7 p = Inr p1 \<and>
     yields k p1 = Inr p2 \<and> current p2 = 0 \<and> sys_wait p2 = Inr (p3, Reaped pid 7)"
proof -
  obtain p t where p: "reached booted [Fork True True, Yield, Yield, Yield] p" "tasks p (current p) = Some t"
    "tk_parent t = Some 0" "0 \<in> set (runqueue p)" "trm p 0 = []" using reached_child by blast
  from exit_status_arrives [OF this, of 7] p(1) show ?thesis by blast
qed

end
