(* ===== verification/Disk.thy ===== *)
theory Disk
  imports Kernel_Prelude
begin

text \<open>
  Storage devices and their partitions (\<open>dev/StorageDevice.cc\<close>, \<open>dev/DiskPartition.cc\<close>,
  \<open>include/dev/MasterBootRecord.h\<close>). The medium is a function from block numbers to the 512
  bytes of the block, which is what the driver of the SD card reads and writes; the driver
  itself is not modelled.
\<close>

type_synonym disk = "int \<Rightarrow> u8 list"

subsection \<open>Numbers in a buffer\<close>

text \<open>Fields of packed structures and elements of arrays that a buffer is cast to: little endian.\<close>

definition load16 :: "u8 list \<Rightarrow> nat \<Rightarrow> kerror + u16" where
  "load16 b i =
     (if i + 2 \<le> length b then Inr (ucast (b ! i) OR push_bit 8 (ucast (b ! (i + 1)))) else Inl OutOfBounds)"

definition store16 :: "u8 list \<Rightarrow> nat \<Rightarrow> u16 \<Rightarrow> kerror + u8 list" where
  "store16 b i v =
     (if i + 2 \<le> length b then Inr (b[i := ucast v, i + 1 := ucast (drop_bit 8 v)]) else Inl OutOfBounds)"

definition load32 :: "u8 list \<Rightarrow> nat \<Rightarrow> kerror + u32" where
  "load32 b i =
     (if i + 4 \<le> length b
      then Inr (ucast (b ! i) OR push_bit 8 (ucast (b ! (i + 1))) OR push_bit 16 (ucast (b ! (i + 2))) OR
        push_bit 24 (ucast (b ! (i + 3)))) else Inl OutOfBounds)"

definition store32 :: "u8 list \<Rightarrow> nat \<Rightarrow> u32 \<Rightarrow> kerror + u8 list" where
  "store32 b i v =
     (if i + 4 \<le> length b
      then Inr (b[i := ucast v, i + 1 := ucast (drop_bit 8 v), i + 2 := ucast (drop_bit 16 v),
        i + 3 := ucast (drop_bit 24 v)]) else Inl OutOfBounds)"


subsection \<open>Storage devices\<close>

definition BLOCK_SIZE :: nat where
  "BLOCK_SIZE = 512"

definition storage_read_block :: "int \<Rightarrow> u8 list \<Rightarrow> disk \<Rightarrow> kerror + u8 list" where
  "storage_read_block block_index buf d =
     (if BLOCK_SIZE \<le> length buf then Inr (d block_index @ drop BLOCK_SIZE buf) else Inl OutOfBounds)"

definition storage_write_block :: "int \<Rightarrow> u8 list \<Rightarrow> disk \<Rightarrow> kerror + disk" where
  "storage_write_block block_index buf d =
     (if BLOCK_SIZE \<le> length buf then Inr (d(block_index := take BLOCK_SIZE buf)) else Inl OutOfBounds)"

record disk_partition =
  start_block_index :: u32
  end_block_index :: u32

definition NR_MAX_PARTITIONS :: nat where
  "NR_MAX_PARTITIONS = 4"

text \<open>The table of partitions begins at byte 446 of the master boot record, with 16 bytes per entry.\<close>

definition mbr_partition :: "u8 list \<Rightarrow> nat \<Rightarrow> kerror + u32 \<times> u32" where
  "mbr_partition mbr i =
     bindE (load32 mbr (446 + 16 * i + 8)) (\<lambda>lba_addr_partition_start.
     bindE (load32 mbr (446 + 16 * i + 12)) (\<lambda>nr_sectors. Inr (lba_addr_partition_start, nr_sectors)))"

text \<open>The partitions that the constructor of a storage device finds; \<open>n\<close> is its block size.\<close>

definition StorageDevice :: "nat \<Rightarrow> disk \<Rightarrow> kerror + disk_partition list" where
  "StorageDevice n d =
     bindE (storage_read_block 0 (replicate n 0) d) (\<lambda>mbr.
     forE [1..<NR_MAX_PARTITIONS] (\<lambda>i partitions.
       bindE (mbr_partition mbr i) (\<lambda>(start, nr_sectors).
       Inr (if start = 0 then partitions
            else partitions @ [\<lparr>start_block_index = start, end_block_index = nr_sectors + (start - 1)\<rparr>]))) [])"

definition get_root_partition :: "disk_partition list \<Rightarrow> kerror + disk_partition" where
  "get_root_partition partitions = (case partitions of [] \<Rightarrow> Inl NullDeref | p # ps \<Rightarrow> Inr p)"


subsection \<open>Partitions\<close>

text \<open>Outside of the partition the buffer stays as it is, and nothing is written.\<close>

definition partition_read_block :: "disk_partition \<Rightarrow> int \<Rightarrow> u8 list \<Rightarrow> disk \<Rightarrow> kerror + u8 list" where
  "partition_read_block dp block_index buf d =
     (let block = start_block_index dp + word_of_int block_index in
      if block > end_block_index dp then Inr buf else storage_read_block (int32 (uint block)) buf d)"

definition partition_write_block :: "disk_partition \<Rightarrow> int \<Rightarrow> u8 list \<Rightarrow> disk \<Rightarrow> kerror + disk" where
  "partition_write_block dp block_index buf d =
     (let block = start_block_index dp + word_of_int block_index in
      if block > end_block_index dp then Inr d else storage_write_block (int32 (uint block)) buf d)"


subsection \<open>What is stored is loaded\<close>

lemma join16:
  "(ucast (ucast v :: u8) :: u16) OR push_bit 8 (ucast (ucast (drop_bit 8 v) :: u8)) = v"
  by (rule bit_word_eqI) (auto simp: bit_simps)

lemma join32:
  "(ucast (ucast v :: u8) :: u32) OR push_bit 8 (ucast (ucast (drop_bit 8 v) :: u8)) OR
     push_bit 16 (ucast (ucast (drop_bit 16 v) :: u8)) OR push_bit 24 (ucast (ucast (drop_bit 24 v) :: u8)) = v"
proof (rule bit_word_eqI)
  fix n assume "n < LENGTH(32)"
  then consider "n < 8" | "8 \<le> n" "n < 16" | "16 \<le> n" "n < 24" | "24 \<le> n" "n < 32" by fastforce
  then show "bit ((ucast (ucast v :: u8) :: u32) OR push_bit 8 (ucast (ucast (drop_bit 8 v) :: u8)) OR
      push_bit 16 (ucast (ucast (drop_bit 16 v) :: u8)) OR push_bit 24 (ucast (ucast (drop_bit 24 v) :: u8))) n = bit v n"
    by cases (auto simp: bit_simps)
qed

lemma store16_load16:
  assumes "store16 b i v = Inr b'"
  shows "load16 b' i = Inr v" "length b' = length b" "\<And>j. j < i \<or> i + 2 \<le> j \<Longrightarrow> b' ! j = b ! j"
  using assms by (auto simp: store16_def load16_def join16 nth_list_update split: if_splits)

lemma store32_load32:
  assumes "store32 b i v = Inr b'"
  shows "load32 b' i = Inr v" "length b' = length b" "\<And>j. j < i \<or> i + 4 \<le> j \<Longrightarrow> b' ! j = b ! j"
  using assms by (auto simp: store32_def load32_def join32 nth_list_update split: if_splits)

lemma load32_other:
  assumes "length b' = length b" and "\<And>k. j \<le> k \<Longrightarrow> k < j + 4 \<Longrightarrow> b' ! k = b ! k"
  shows "load32 b' j = load32 b j"
  using assms by (simp add: load32_def)

lemma load16_other:
  assumes "length b' = length b" and "\<And>k. j \<le> k \<Longrightarrow> k < j + 2 \<Longrightarrow> b' ! k = b ! k"
  shows "load16 b' j = load16 b j"
  using assms by (simp add: load16_def)

end
