(* ===== verification/FAT32.thy ===== *)
theory FAT32
  imports Disk KMath
begin

text \<open>
  The FAT32 file system (\<open>fs/FAT32.cc\<close>, \<open>include/fs/FAT32.h\<close>): the boot sector, the file
  allocation table, the clusters, and how the content of a file is read and written. Buffers
  from \<open>make_unique<char[]>\<close> hold zeros; \<open>junk\<close> is what an array on the stack holds before it
  is written. The directory operations are not modelled.
\<close>

subsection \<open>Geometry\<close>

definition FAT32_EOC_MIN :: u32 where
  "FAT32_EOC_MIN = 0x0ffffff8"

definition FAT32_EOC_MAX :: u32 where
  "FAT32_EOC_MAX = 0x0fffffff"

definition FAT32_IS_EOC :: "u32 \<Rightarrow> bool" where
  "FAT32_IS_EOC x \<longleftrightarrow> FAT32_EOC_MIN \<le> x \<and> x \<le> FAT32_EOC_MAX"

text \<open>The fields of the boot sector that the code reads.\<close>

record boot_sector =
  bytes_per_sector :: u16
  sectors_per_cluster :: u8
  reserved_sector_count :: u16
  table_size_32 :: u32
  root_cluster :: u32

definition BootSector :: "u8 list \<Rightarrow> disk_partition \<Rightarrow> disk \<Rightarrow> kerror + boot_sector" where
  "BootSector junk dp d =
     bindE (partition_read_block dp 0 junk d) (\<lambda>buf.
     bindE (load16 buf 11) (\<lambda>bps.
     bindE (aget buf 13) (\<lambda>spc.
     bindE (load16 buf 14) (\<lambda>rsc.
     bindE (load32 buf 36) (\<lambda>ts.
     bindE (load32 buf 44) (\<lambda>rc.
     Inr \<lparr>bytes_per_sector = bps, sectors_per_cluster = spc, reserved_sector_count = rsc, table_size_32 = ts,
       root_cluster = rc\<rparr>))))))"

record fat32 =
  fs_partition :: disk_partition
  metadata :: boot_sector
  nr_fat_entries_per_sector :: int

definition FAT32 :: "u8 list \<Rightarrow> disk_partition \<Rightarrow> disk \<Rightarrow> kerror + fat32" where
  "FAT32 junk dp d =
     bindE (BootSector junk dp d) (\<lambda>m.
     Inr \<lparr>fs_partition = dp, metadata = m, nr_fat_entries_per_sector = uint (bytes_per_sector m) div 4\<rparr>)"

definition nr_entries :: "fat32 \<Rightarrow> u32" where
  "nr_entries fs = word_of_int (nr_fat_entries_per_sector fs)"

definition fat0_sector_index :: "fat32 \<Rightarrow> u32 \<Rightarrow> u32" where
  "fat0_sector_index fs entry_index = ucast (reserved_sector_count (metadata fs)) + entry_index div nr_entries fs"

definition fat1_sector_index :: "fat32 \<Rightarrow> u32 \<Rightarrow> u32" where
  "fat1_sector_index fs entry_index =
     fat0_sector_index fs 0 + table_size_32 (metadata fs) + entry_index div nr_entries fs"

definition data_region_sector_index :: "fat32 \<Rightarrow> u32" where
  "data_region_sector_index fs = fat1_sector_index fs 0 + table_size_32 (metadata fs)"

definition cluster_sector_index :: "fat32 \<Rightarrow> u32 \<Rightarrow> u32" where
  "cluster_sector_index fs i =
     data_region_sector_index fs + (i - 2) * ucast (sectors_per_cluster (metadata fs))"

definition nr_single_fat_entries :: "fat32 \<Rightarrow> u32" where
  "nr_single_fat_entries fs = table_size_32 (metadata fs) * nr_entries fs"


subsection \<open>The file allocation table and the clusters\<close>

definition sector_buffer :: "fat32 \<Rightarrow> u8 list" where
  "sector_buffer fs = replicate (unat (bytes_per_sector (metadata fs))) 0"

definition fat_read :: "fat32 \<Rightarrow> u32 \<Rightarrow> disk \<Rightarrow> kerror + u32" where
  "fat_read fs fat_entry_index d =
     (if fat_entry_index \<ge> nr_single_fat_entries fs then Inr FAT32_EOC_MAX
      else
        let sector = fat0_sector_index fs fat_entry_index;
            offset = unat (fat_entry_index mod nr_entries fs) in
        bindE (partition_read_block (fs_partition fs) (int32 (uint sector)) (sector_buffer fs) d) (\<lambda>buffer.
        load32 buffer (4 * offset)))"

definition fat_write :: "fat32 \<Rightarrow> u32 \<Rightarrow> u32 \<Rightarrow> disk \<Rightarrow> kerror + disk" where
  "fat_write fs fat_entry_index val d =
     (if fat_entry_index \<ge> nr_single_fat_entries fs then Inr d
      else
        let sector = fat0_sector_index fs fat_entry_index;
            offset = unat (fat_entry_index mod nr_entries fs) in
        bindE (partition_read_block (fs_partition fs) (int32 (uint sector)) (sector_buffer fs) d) (\<lambda>buffer.
        bindE (store32 buffer (4 * offset) val) (\<lambda>buffer.
        partition_write_block (fs_partition fs) (int32 (uint sector)) buffer d)))"

text \<open>The first free entry of one sector of the table, from entry \<open>i\<close> on.\<close>

primrec free_in_sector :: "nat \<Rightarrow> nat \<Rightarrow> u8 list \<Rightarrow> kerror + nat option" where
  "free_in_sector 0 i buf = Inr None"
| "free_in_sector (Suc n) i buf =
     bindE (load32 buf (4 * i)) (\<lambda>v. if v = 0 then Inr (Some i) else free_in_sector n (Suc i) buf)"

partial_function (option) find_free_loop :: "fat32 \<Rightarrow> u8 list \<Rightarrow> disk \<Rightarrow> u32 \<Rightarrow> (kerror + u32) option" where
  "find_free_loop fs junk d index =
     (if index < fat1_sector_index fs 0 then
        (case bindE (partition_read_block (fs_partition fs) (int32 (uint index)) junk d)
                (free_in_sector (nat (nr_fat_entries_per_sector fs)) 0) of
           Inl e \<Rightarrow> Some (Inl e)
         | Inr (Some i) \<Rightarrow> Some (Inr ((index - fat0_sector_index fs 0) * nr_entries fs + of_nat i))
         | Inr None \<Rightarrow> find_free_loop fs junk d (index + 1))
      else Some (Inr (- 1)))"

definition fat_find_free_cluster :: "fat32 \<Rightarrow> u8 list \<Rightarrow> disk \<Rightarrow> kerror + u32" where
  "fat_find_free_cluster fs junk d =
     bindE (returned (find_free_loop fs junk d (fat0_sector_index fs 0))) (\<lambda>r. r)"

definition cluster_read :: "fat32 \<Rightarrow> u32 \<Rightarrow> u8 list \<Rightarrow> disk \<Rightarrow> kerror + u8 list" where
  "cluster_read fs cluster_number buf d =
     partition_read_block (fs_partition fs) (int32 (uint (cluster_sector_index fs cluster_number))) buf d"

definition cluster_write :: "fat32 \<Rightarrow> u32 \<Rightarrow> u8 list \<Rightarrow> disk \<Rightarrow> kerror + disk" where
  "cluster_write fs cluster_number buf d =
     partition_write_block (fs_partition fs) (int32 (uint (cluster_sector_index fs cluster_number))) buf d"


subsection \<open>Directory entries\<close>

text \<open>An entry of a directory, at the byte \<open>i\<close> of a buffer.\<close>

definition get_first_cluster_number :: "u8 list \<Rightarrow> nat \<Rightarrow> kerror + u32" where
  "get_first_cluster_number b i =
     bindE (load16 b (i + 20)) (\<lambda>first_cluster_high.
     bindE (load16 b (i + 26)) (\<lambda>first_cluster_low.
     Inr (push_bit 16 (ucast first_cluster_high) OR ucast first_cluster_low)))"

definition set_first_cluster_number :: "u32 \<Rightarrow> u8 list \<Rightarrow> nat \<Rightarrow> kerror + u8 list" where
  "set_first_cluster_number n b i =
     bindE (store16 b (i + 20) (ucast (drop_bit 16 (n AND 0xffff0000)))) (\<lambda>b.
     store16 b (i + 26) (ucast (n AND 0x0000ffff)))"

definition get_dentry_size :: "u8 list \<Rightarrow> nat \<Rightarrow> kerror + u32" where
  "get_dentry_size b i = load32 b (i + 28)"

definition set_dentry_size :: "u32 \<Rightarrow> u8 list \<Rightarrow> nat \<Rightarrow> kerror + u8 list" where
  "set_dentry_size n b i = store32 b (i + 28) n"


subsection \<open>The content of a file\<close>

record fat_inode =
  first_cluster_number :: u32
  parent_cluster_number :: u32
  parent_cluster_offset :: u32
  fi_size :: u64
  fi_regular :: bool

definition update_dentry_to_disk ::
  "fat32 \<Rightarrow> fat_inode \<Rightarrow> (u8 list \<Rightarrow> nat \<Rightarrow> kerror + u8 list) \<Rightarrow> disk \<Rightarrow> kerror + disk" where
  "update_dentry_to_disk fs this callback d =
     (if FAT32_IS_EOC (parent_cluster_number this) then Inr d
      else
        bindE (cluster_read fs (parent_cluster_number this) (sector_buffer fs) d) (\<lambda>buffer.
        bindE (callback buffer (unat (parent_cluster_offset this))) (\<lambda>buffer.
        cluster_write fs (parent_cluster_number this) buffer d)))"

definition allocate_first_cluster :: "u8 list \<Rightarrow> fat32 \<Rightarrow> fat_inode \<Rightarrow> disk \<Rightarrow> kerror + disk" where
  "allocate_first_cluster junk fs this d =
     (if first_cluster_number this \<noteq> 0 then Inr d
      else
        update_dentry_to_disk fs this (\<lambda>b i.
          bindE (fat_find_free_cluster fs junk d) (\<lambda>free_cluster_number.
          if free_cluster_number = - 1 then Inr b
          else set_first_cluster_number free_cluster_number b i)) d)"

text \<open>The chain of clusters from \<open>n\<close>, read into the buffer from its \<open>i\<close>-th block on.\<close>

partial_function (option) content_loop ::
  "fat32 \<Rightarrow> disk \<Rightarrow> u32 \<Rightarrow> nat \<Rightarrow> u8 list \<Rightarrow> (kerror + u8 list) option" where
  "content_loop fs d n i content =
     (if FAT32_IS_EOC n then Some (Inr content)
      else
        case bindE (if 512 * i \<le> length content then cluster_read fs n (drop (512 * i) content) d
                    else Inl OutOfBounds) (\<lambda>b.
             bindE (fat_read fs n d) (\<lambda>n'. Inr (n', take (512 * i) content @ b))) of
          Inl e \<Rightarrow> Some (Inl e)
        | Inr (n', content) \<Rightarrow> content_loop fs d n' (i + 1) content)"

definition fat_get_content :: "fat32 \<Rightarrow> fat_inode \<Rightarrow> disk \<Rightarrow> kerror + u8 list option" where
  "fat_get_content fs this d =
     (if \<not> fi_regular this then Inr None
      else
        bindE (returned (round_up_to_multiple_of_n (fi_size this) 512)) (\<lambda>n.
        bindE (returned (content_loop fs d (first_cluster_number this) 0 (replicate (unat n) 0))) (\<lambda>r.
        bindE r (\<lambda>content. Inr (Some content)))))"

text \<open>The loop that writes the content. It ends early, with \<open>False\<close>, when no cluster is free.\<close>

partial_function (option) write_loop ::
  "u8 list \<Rightarrow> fat32 \<Rightarrow> u8 list \<Rightarrow> u64 \<Rightarrow> u32 \<Rightarrow> u32 \<Rightarrow> u32 \<Rightarrow> disk \<Rightarrow> (kerror + disk \<times> bool) option" where
  "write_loop junk fs content buf_size i prev_free curr_free d =
     (if ucast i < buf_size then
        if curr_free = - 1 then Some (Inr (d, False))
        else
          case bindE (if unat i \<le> length content then cluster_write fs curr_free (drop (unat i) content) d
                      else Inl OutOfBounds) (\<lambda>d.
               bindE (fat_write fs curr_free FAT32_EOC_MAX d) (\<lambda>d.
               bindE (if prev_free \<noteq> 0 then fat_write fs prev_free curr_free d else Inr d) (\<lambda>d.
               bindE (fat_find_free_cluster fs junk d) (\<lambda>next_free. Inr (next_free, d))))) of
            Inl e \<Rightarrow> Some (Inl e)
          | Inr (next_free, d) \<Rightarrow> write_loop junk fs content buf_size (i + 512) curr_free next_free d
      else Some (Inr (d, True)))"

definition fat_set_content ::
  "u8 list \<Rightarrow> fat32 \<Rightarrow> u8 list \<Rightarrow> u64 \<Rightarrow> fat_inode \<Rightarrow> disk \<Rightarrow> kerror + disk \<times> fat_inode" where
  "fat_set_content junk fs content new_size this d =
     bindE (returned (round_up_to_multiple_of_n new_size 512)) (\<lambda>buf_size.
     bindE (if first_cluster_number this = 0 then allocate_first_cluster junk fs this d else Inr d) (\<lambda>d.
     bindE (fat_find_free_cluster fs junk d) (\<lambda>curr_free.
     bindE (returned (write_loop junk fs content buf_size 0 0 curr_free d)) (\<lambda>r.
     bindE r (\<lambda>(d, all_written).
     if \<not> all_written then Inr (d, this)
     else
       bindE (update_dentry_to_disk fs this (set_dentry_size (ucast new_size)) d) (\<lambda>d.
       Inr (d, this\<lparr>fi_size := new_size\<rparr>)))))))"

end
