(* ===== verification/FATTheorems.thy ===== *)
theory FATTheorems
  imports FAT32
begin

text \<open>
  The file allocation table and the clusters as two maps, the routines of \<open>fs/FAT32.cc\<close> as
  operations on them, and what writing and reading the content of a file does.
\<close>

subsection \<open>The view of the disk\<close>

abbreviation tsize :: "fat32 \<Rightarrow> nat" where
  "tsize fs \<equiv> unat (table_size_32 (metadata fs))"

abbreviation rsize :: "fat32 \<Rightarrow> nat" where
  "rsize fs \<equiv> unat (reserved_sector_count (metadata fs))"

abbreviation csize :: "fat32 \<Rightarrow> nat" where
  "csize fs \<equiv> unat (sectors_per_cluster (metadata fs))"

abbreviation nclusters :: "fat32 \<Rightarrow> nat" where
  "nclusters fs \<equiv> 128 * tsize fs"

definition geometry_ok :: "fat32 \<Rightarrow> bool" where
  "geometry_ok fs \<longleftrightarrow>
     nr_fat_entries_per_sector fs = 128 \<and> bytes_per_sector (metadata fs) = 512 \<and> 1 \<le> csize fs \<and> 1 \<le> tsize fs \<and>
     nclusters fs < 0x0ffffff8 \<and> unat (end_block_index (fs_partition fs)) < 2 ^ 31 \<and>
     unat (start_block_index (fs_partition fs)) + rsize fs + 2 * tsize fs + (nclusters fs - 3) * csize fs
       \<le> unat (end_block_index (fs_partition fs))"

definition disk_ok :: "disk \<Rightarrow> bool" where
  "disk_ok d \<longleftrightarrow> (\<forall>i. length (d i) = 512)"

definition fblk :: "fat32 \<Rightarrow> nat \<Rightarrow> int" where
  "fblk fs k = int (unat (start_block_index (fs_partition fs)) + rsize fs + k div 128)"

definition dblk :: "fat32 \<Rightarrow> nat \<Rightarrow> int" where
  "dblk fs c = int (unat (start_block_index (fs_partition fs)) + rsize fs + 2 * tsize fs + (c - 2) * csize fs)"

definition fat :: "fat32 \<Rightarrow> disk \<Rightarrow> nat \<Rightarrow> u32" where
  "fat fs d k = (case load32 (d (fblk fs k)) (4 * (k mod 128)) of Inl e \<Rightarrow> 0 | Inr v \<Rightarrow> v)"

definition blk :: "fat32 \<Rightarrow> disk \<Rightarrow> nat \<Rightarrow> u8 list" where
  "blk fs d c = d (dblk fs c)"

lemma geometryD:
  assumes "geometry_ok fs"
  shows "nr_fat_entries_per_sector fs = 128" "bytes_per_sector (metadata fs) = 512" "1 \<le> csize fs" "1 \<le> tsize fs"
    "nclusters fs < 0x0ffffff8" "unat (end_block_index (fs_partition fs)) < 2 ^ 31"
    "unat (start_block_index (fs_partition fs)) + rsize fs + 2 * tsize fs + (nclusters fs - 3) * csize fs
       \<le> unat (end_block_index (fs_partition fs))"
  using assms by (simp_all add: geometry_ok_def)

lemma fblk_less_dblk:
  assumes "k < nclusters fs"
  shows "fblk fs k < dblk fs c"
proof -
  have "k div 128 < tsize fs" using assms by (simp add: div_less_iff_less_mult mult.commute)
  then show ?thesis unfolding fblk_def dblk_def of_nat_less_iff by linarith
qed

lemma dblk_inj:
  assumes "geometry_ok fs" and "dblk fs c = dblk fs c'" and "2 \<le> c" "2 \<le> c'"
  shows "c = c'"
proof -
  have "(c - 2) * csize fs = (c' - 2) * csize fs" using assms(2) unfolding dblk_def of_nat_eq_iff by linarith
  then have "c - 2 = c' - 2" using geometryD(3) [OF assms(1)] mult_cancel2 [of "c - 2" "csize fs" "c' - 2"] by linarith
  then show ?thesis using assms(3,4) by simp
qed


subsection \<open>Blocks of the partition\<close>

lemma partition_block:
  fixes w :: u32
  assumes "unat w = n" and "unat (start_block_index dp) + n \<le> unat (end_block_index dp)"
    and "unat (end_block_index dp) < 2 ^ 31"
  shows "int32 (uint (start_block_index dp + word_of_int (int32 (uint w)))) = int (unat (start_block_index dp) + n)"
    and "\<not> end_block_index dp < start_block_index dp + word_of_int (int32 (uint w))"
proof -
  have n: "n < 2 ^ 31" "unat (start_block_index dp) + n < 2 ^ 31" using assms(2,3) by linarith+
  have small: "int32 (uint v) = uint v" if "unat v < 2 ^ 31" for v :: u32
  proof (rule int32_id)
    have "int (unat v) < int (2 ^ 31)" using that by (simp only: of_nat_less_iff)
    then show "uint v < 2 ^ 31" by simp
    show "- (2 ^ 31) \<le> uint v" by (rule order_trans [OF _ uint_ge_0]) simp
  qed
  have w: "word_of_int (int32 (uint w)) = w" unfolding small [of w, unfolded assms(1), OF n(1)] by simp
  have s: "unat (start_block_index dp + w) = unat (start_block_index dp) + n"
    using unat_add_lem [of "start_block_index dp" w] assms(1) n(2) by simp
  have "int32 (uint (start_block_index dp + w)) = uint (start_block_index dp + w)"
    by (rule small) (use s n(2) in linarith)
  then show "int32 (uint (start_block_index dp + word_of_int (int32 (uint w)))) = int (unat (start_block_index dp) + n)"
    unfolding w s [symmetric] by (simp only: uint_nat)
  show "\<not> end_block_index dp < start_block_index dp + word_of_int (int32 (uint w))"
    unfolding w word_less_nat_alt s using assms(2) by simp
qed

lemma partition_read:
  fixes w :: u32
  assumes "unat w = n" and "unat (start_block_index dp) + n \<le> unat (end_block_index dp)"
    and "unat (end_block_index dp) < 2 ^ 31" and "512 \<le> length buf"
  shows "partition_read_block dp (int32 (uint w)) buf d = Inr (d (int (unat (start_block_index dp) + n)) @ drop 512 buf)"
  using partition_block [OF assms(1-3)] assms(4)
  by (simp add: partition_read_block_def storage_read_block_def BLOCK_SIZE_def Let_def)

lemma partition_write:
  fixes w :: u32
  assumes "unat w = n" and "unat (start_block_index dp) + n \<le> unat (end_block_index dp)"
    and "unat (end_block_index dp) < 2 ^ 31" and "512 \<le> length buf"
  shows "partition_write_block dp (int32 (uint w)) buf d = Inr (d(int (unat (start_block_index dp) + n) := take 512 buf))"
  using partition_block [OF assms(1-3)] assms(4)
  by (simp add: partition_write_block_def storage_write_block_def BLOCK_SIZE_def Let_def)

lemma nr_entries_128: "geometry_ok fs \<Longrightarrow> nr_entries fs = 128"
  by (simp add: nr_entries_def geometryD)

lemma unat_small: "n < 0x0ffffff8 \<Longrightarrow> unat (of_nat n :: u32) = n"
  by (simp add: unat_of_nat)

lemma fat_sector:
  assumes g: "geometry_ok fs" and k: "k < nclusters fs"
  shows "unat (fat0_sector_index fs (of_nat k)) = rsize fs + k div 128"
    "unat (start_block_index (fs_partition fs)) + (rsize fs + k div 128) \<le> unat (end_block_index (fs_partition fs))"
    "unat (of_nat k mod nr_entries fs) = k mod 128" "nr_single_fat_entries fs = of_nat (nclusters fs)"
proof -
  have "k div 128 < tsize fs" using k by (simp add: div_less_iff_less_mult mult.commute)
  then show b: "unat (start_block_index (fs_partition fs)) + (rsize fs + k div 128) \<le> unat (end_block_index (fs_partition fs))"
    using geometryD(7) [OF g] by linarith
  have u: "unat (of_nat k :: u32) = k" using k geometryD(5) [OF g] by (intro unat_small) simp
  have q: "unat (of_nat k div nr_entries fs) = k div 128" using u by (simp add: nr_entries_128 [OF g] unat_div)
  have r: "unat (ucast (reserved_sector_count (metadata fs)) :: u32) = rsize fs" 
    using unsigned_less [of "reserved_sector_count (metadata fs)", where ?'a = nat]
    by (simp add: unsigned_ucast_eq take_bit_nat_eq_self)
  show "unat (fat0_sector_index fs (of_nat k)) = rsize fs + k div 128"
    using unat_add_lem [of "ucast (reserved_sector_count (metadata fs)) :: u32" "of_nat k div nr_entries fs"] q r b
      geometryD(6) [OF g] by (simp add: fat0_sector_index_def)
  show "unat (of_nat k mod nr_entries fs) = k mod 128" using u by (simp add: nr_entries_128 [OF g] unat_mod)
  show "nr_single_fat_entries fs = of_nat (nclusters fs)"
    by (simp add: nr_single_fat_entries_def nr_entries_128 [OF g] mult.commute)
qed

lemma cluster_sector:
  assumes g: "geometry_ok fs" and c: "2 \<le> c" "c < nclusters fs"
  shows "unat (cluster_sector_index fs (of_nat c)) = rsize fs + 2 * tsize fs + (c - 2) * csize fs"
    "unat (start_block_index (fs_partition fs)) + (rsize fs + 2 * tsize fs + (c - 2) * csize fs)
      \<le> unat (end_block_index (fs_partition fs))"
proof -
  have "(c - 2) * csize fs \<le> (nclusters fs - 3) * csize fs" using c by (intro mult_le_mono1) simp
  then show b: "unat (start_block_index (fs_partition fs)) + (rsize fs + 2 * tsize fs + (c - 2) * csize fs)
      \<le> unat (end_block_index (fs_partition fs))"
    using geometryD(7) [OF g] by linarith
  have "(of_nat c - 2 :: u32) = of_nat (c - 2)" using c(1) by (simp add: of_nat_diff)
  then have e: "cluster_sector_index fs (of_nat c) = of_nat (rsize fs + 2 * tsize fs + (c - 2) * csize fs)"
    by (simp add: cluster_sector_index_def data_region_sector_index_def fat1_sector_index_def
        fat0_sector_index_def nr_entries_128 [OF g])
  have "rsize fs + 2 * tsize fs + (c - 2) * csize fs < 2 ^ 31" using b geometryD(6) [OF g] by linarith
  then show "unat (cluster_sector_index fs (of_nat c)) = rsize fs + 2 * tsize fs + (c - 2) * csize fs"
    unfolding e unat_of_nat by (intro mod_less) simp
qed


subsection \<open>The routines on the view\<close>

lemma sector_buffer_len: "geometry_ok fs \<Longrightarrow> length (sector_buffer fs) = 512"
  by (simp add: sector_buffer_def geometryD)

lemma read_fat_sector:
  assumes g: "geometry_ok fs" and k: "k < nclusters fs" and "512 = length buf"
  shows "partition_read_block (fs_partition fs) (int32 (uint (fat0_sector_index fs (of_nat k)))) buf d = Inr (d (fblk fs k))"
  using partition_read [OF fat_sector(1,2) [OF g k] geometryD(6) [OF g], of buf d] assms(3)
  by (simp add: fblk_def add.assoc)

lemma in_table:
  assumes g: "geometry_ok fs" and k: "k < nclusters fs"
  shows "\<not> nr_single_fat_entries fs \<le> of_nat k"
proof -
  have "unat (of_nat k :: u32) = k" "unat (of_nat (nclusters fs) :: u32) = nclusters fs"
    using k geometryD(5) [OF g] by (intro unat_small; simp)+
  then show ?thesis unfolding fat_sector(4) [OF g k] word_le_nat_alt using k by linarith
qed

lemma fat_at:
  assumes "disk_ok d"
  shows "load32 (d (fblk fs k)) (4 * (k mod 128)) = Inr (fat fs d k)"
proof -
  have "4 * (k mod 128) + 4 \<le> length (d (fblk fs k))" using assms mod_less_divisor [of 128 k] by (simp add: disk_ok_def)
  then show ?thesis by (simp add: fat_def load32_def)
qed

lemma fat_read_eq:
  assumes g: "geometry_ok fs" and d: "disk_ok d" and k: "k < nclusters fs"
  shows "fat_read fs (of_nat k) d = Inr (fat fs d k)"
  using in_table [OF g k] read_fat_sector [OF g k sector_buffer_len [OF g, symmetric]] fat_sector(3) [OF g k] fat_at [OF d]
  by (simp add: fat_read_def Let_def)

text \<open>What a write leaves of the table and of the clusters.\<close>

definition same_blocks :: "fat32 \<Rightarrow> disk \<Rightarrow> disk \<Rightarrow> bool" where
  "same_blocks fs d d' \<longleftrightarrow> (\<forall>c. 2 \<le> c \<longrightarrow> c < nclusters fs \<longrightarrow> blk fs d' c = blk fs d c)"

definition same_fat :: "fat32 \<Rightarrow> disk \<Rightarrow> disk \<Rightarrow> bool" where
  "same_fat fs d d' \<longleftrightarrow> (\<forall>k < nclusters fs. fat fs d' k = fat fs d k)"

lemma fat_write_eq:
  assumes g: "geometry_ok fs" and d: "disk_ok d" and k: "k < nclusters fs"
  shows "\<exists>d'. fat_write fs (of_nat k) v d = Inr d' \<and> disk_ok d' \<and> same_blocks fs d d' \<and>
    (\<forall>j < nclusters fs. fat fs d' j = (if j = k then v else fat fs d j))"
proof -
  let ?b = "d (fblk fs k)"
  have len: "length ?b = 512" using d by (simp add: disk_ok_def)
  obtain b' where b': "store32 ?b (4 * (k mod 128)) v = Inr b'"
  proof -
    have "4 * (k mod 128) + 4 \<le> length ?b" using len mod_less_divisor [of 128 k] by simp
    then show thesis using that by (simp add: store32_def)
  qed
  note st = store32_load32 [OF b']
  let ?d = "d(fblk fs k := b')"
  have "partition_write_block (fs_partition fs) (int32 (uint (fat0_sector_index fs (of_nat k)))) b' d = Inr ?d"
    using partition_write [OF fat_sector(1,2) [OF g k] geometryD(6) [OF g], of b' d] st(2) len
    by (simp add: fblk_def add.assoc)
  then have "fat_write fs (of_nat k) v d = Inr ?d"
    using in_table [OF g k] read_fat_sector [OF g k sector_buffer_len [OF g, symmetric]] fat_sector(3) [OF g k] b'
    by (simp add: fat_write_def Let_def)
  moreover have ok: "disk_ok ?d" using d st(2) len by (simp add: disk_ok_def)
  moreover have "dblk fs c \<noteq> fblk fs k" for c using fblk_less_dblk [OF k, of c] by simp
  then have "same_blocks fs d ?d" by (simp add: same_blocks_def blk_def)
  moreover have "fat fs ?d j = (if j = k then v else fat fs d j)" for j
  proof (cases "fblk fs j = fblk fs k")
    case True
    show ?thesis
    proof (cases "j = k")
      case True
      then show ?thesis using st(1) by (simp add: fat_def)
    next
      case False
      have "j div 128 = k div 128" using True unfolding fblk_def of_nat_eq_iff by linarith
      then have "j mod 128 \<noteq> k mod 128" using False div_mod_decomp [of j 128] div_mod_decomp [of k 128] by metis
      then have "load32 b' (4 * (j mod 128)) = load32 ?b (4 * (j mod 128))"
        by (intro load32_other st) linarith
      then show ?thesis using False True by (simp add: fat_def)
    qed
  qed (auto simp: fat_def)
  ultimately show ?thesis by blast
qed

lemma cluster_read_eq:
  assumes g: "geometry_ok fs" and c: "2 \<le> c" "c < nclusters fs" and "512 \<le> length buf"
  shows "cluster_read fs (of_nat c) buf d = Inr (blk fs d c @ drop 512 buf)"
  using partition_read [OF cluster_sector [OF g c] geometryD(6) [OF g] assms(4), of d]
  by (simp add: cluster_read_def blk_def dblk_def add.assoc)

lemma cluster_write_eq:
  assumes g: "geometry_ok fs" and d: "disk_ok d" and c: "2 \<le> c" "c < nclusters fs" and b: "512 \<le> length buf"
  shows "\<exists>d'. cluster_write fs (of_nat c) buf d = Inr d' \<and> disk_ok d' \<and> same_fat fs d d' \<and>
    (\<forall>e. 2 \<le> e \<longrightarrow> blk fs d' e = (if e = c then take 512 buf else blk fs d e))"
proof -
  let ?d = "d(dblk fs c := take 512 buf)"
  have "cluster_write fs (of_nat c) buf d = Inr ?d"
    using partition_write [OF cluster_sector [OF g c] geometryD(6) [OF g] b, of d]
    by (simp add: cluster_write_def dblk_def add.assoc)
  moreover have "disk_ok ?d" using d b by (simp add: disk_ok_def)
  moreover have "same_fat fs d ?d"
  proof -
    have "fblk fs k \<noteq> dblk fs c" if "k < nclusters fs" for k using fblk_less_dblk [OF that, of c] by simp
    then show ?thesis by (auto simp: same_fat_def fat_def)
  qed
  moreover have "blk fs ?d e = (if e = c then take 512 buf else blk fs d e)" if "2 \<le> e" for e
    using dblk_inj [OF g _ that c(1)] by (auto simp: blk_def)
  ultimately show ?thesis by blast
qed


subsection \<open>Free clusters\<close>

definition free_clusters :: "fat32 \<Rightarrow> disk \<Rightarrow> nat list" where
  "free_clusters fs d = filter (\<lambda>k. fat fs d k = 0) [0..<nclusters fs]"

definition first_or_none :: "nat list \<Rightarrow> u32" where
  "first_or_none ks = (case ks of [] \<Rightarrow> - 1 | k # ks \<Rightarrow> of_nat k)"

lemma free_in_sector_eq:
  assumes g: "geometry_ok fs" and d: "disk_ok d"
  shows "i + n = 128 \<Longrightarrow> free_in_sector n i (d (fblk fs (128 * s))) =
    Inr (case filter (\<lambda>k. fat fs d k = 0) [128 * s + i..<128 * s + 128] of [] \<Rightarrow> None | k # ks \<Rightarrow> Some (k - 128 * s))"
proof (induction n arbitrary: i)
  case (Suc n)
  then have i: "i < 128" by simp
  have "fblk fs (128 * s + i) = fblk fs (128 * s)" using i by (simp add: fblk_def)
  then have "load32 (d (fblk fs (128 * s))) (4 * i) = Inr (fat fs d (128 * s + i))"
    using fat_at [OF d, of fs "128 * s + i"] i by simp
  then show ?case using Suc.IH [of "Suc i"] Suc.prems i upt_conv_Cons [of "128 * s + i" "128 * s + 128"] by simp
qed simp

lemma table_words:
  assumes g: "geometry_ok fs"
  shows "s < tsize fs \<Longrightarrow> fat0_sector_index fs (of_nat (128 * s)) = of_nat (rsize fs + s)"
    "fat0_sector_index fs 0 = of_nat (rsize fs)" "fat1_sector_index fs 0 = of_nat (rsize fs + tsize fs)"
    "rsize fs + tsize fs < 2 ^ 31"
proof -
  show b: "rsize fs + tsize fs < 2 ^ 31" using geometryD(6,7) [OF g] by linarith
  show "fat0_sector_index fs (of_nat (128 * s)) = of_nat (rsize fs + s)" if "s < tsize fs"
  proof -
    have "128 * s < nclusters fs" using that by simp
    from fat_sector(1) [OF g this] have "unat (fat0_sector_index fs (of_nat (128 * s))) = rsize fs + s" by simp
    then show ?thesis by (rule unat_eq_of_nat)
  qed
  show "fat0_sector_index fs 0 = of_nat (rsize fs)" "fat1_sector_index fs 0 = of_nat (rsize fs + tsize fs)"
    by (simp_all add: fat0_sector_index_def fat1_sector_index_def)
qed

lemma find_free_loop_eq:
  assumes g: "geometry_ok fs" and d: "disk_ok d" and j: "length junk = 512"
  shows "s \<le> tsize fs \<Longrightarrow> find_free_loop fs junk d (of_nat (rsize fs + s)) =
    Some (Inr (first_or_none (filter (\<lambda>k. fat fs d k = 0) [128 * s..<nclusters fs])))"
proof (induction "tsize fs - s" arbitrary: s)
  case 0
  then show ?case using table_words(3) [OF g] by (subst find_free_loop.simps) (simp add: first_or_none_def)
next
  case (Suc n)
  then have s: "s < tsize fs" by simp
  then have k: "128 * s < nclusters fs" by simp
  let ?P = "\<lambda>k. fat fs d k = 0"
  have u: "unat (of_nat (rsize fs + s) :: u32) = rsize fs + s"
    "unat (of_nat (rsize fs + tsize fs) :: u32) = rsize fs + tsize fs"
    using table_words(4) [OF g] s unfolding unat_of_nat by (intro mod_less; simp)+
  have lt: "(of_nat (rsize fs + s) :: u32) < fat1_sector_index fs 0"
    unfolding table_words(3) [OF g] word_less_nat_alt u using s by simp
  have rd: "bindE (partition_read_block (fs_partition fs) (int32 (uint (of_nat (rsize fs + s) :: u32))) junk d)
      (free_in_sector (nat (nr_fat_entries_per_sector fs)) 0) =
      Inr (case filter ?P [128 * s..<128 * s + 128] of [] \<Rightarrow> None | k # ks \<Rightarrow> Some (k - 128 * s))"
    using read_fat_sector [OF g k j [symmetric], of d] free_in_sector_eq [OF g d, of 0 128 s]
    unfolding table_words(1) [OF g s] by (simp add: geometryD [OF g])
  have split: "[128 * s..<nclusters fs] = [128 * s..<128 * s + 128] @ [128 * Suc s..<nclusters fs]"
    using s upt_add_eq_append [of "128 * s" "128 * s + 128" "nclusters fs - (128 * s + 128)"] by (simp add: add.commute)
  show ?case
  proof (cases "filter ?P [128 * s..<128 * s + 128]")
    case Nil
    have "find_free_loop fs junk d (of_nat (rsize fs + s)) = find_free_loop fs junk d (of_nat (rsize fs + Suc s))"
      using lt rd Nil by (subst find_free_loop.simps) (simp add: ac_simps)
    then show ?thesis using Suc.hyps(1) [of "Suc s"] Suc.hyps(2) s Nil by (simp add: split)
  next
    case (Cons k' ks)
    then have "k' \<in> set (filter ?P [128 * s..<128 * s + 128])" by simp
    then have k': "128 * s \<le> k'" by simp
    have "(of_nat (rsize fs + s) - fat0_sector_index fs 0) * nr_entries fs + of_nat (k' - 128 * s) = (of_nat k' :: u32)"
      using k' unfolding table_words(2) [OF g] nr_entries_128 [OF g] by (simp add: of_nat_diff mult.commute)
    then have "find_free_loop fs junk d (of_nat (rsize fs + s)) = Some (Inr (of_nat k'))"
      using lt rd Cons by (subst find_free_loop.simps) simp
    then show ?thesis using Cons by (simp add: split first_or_none_def)
  qed
qed

lemma find_free_eq:
  assumes g: "geometry_ok fs" and d: "disk_ok d" and j: "length junk = 512"
  shows "fat_find_free_cluster fs junk d = Inr (first_or_none (free_clusters fs d))"
  using find_free_loop_eq [OF assms, of 0] table_words(2) [OF g]
  by (simp add: fat_find_free_cluster_def free_clusters_def)


lemma free_upd:
  assumes "\<forall>j < nclusters fs. fat fs d' j = (if j = k then v else fat fs d j)" and "v \<noteq> 0"
  shows "free_clusters fs d' = filter (\<lambda>j. j \<noteq> k) (free_clusters fs d)"
  unfolding free_clusters_def filter_filter using assms by (intro filter_cong) auto

lemma free_distinct: "distinct (free_clusters fs d)"
  by (simp add: free_clusters_def)

lemma free_bound: "k \<in> set (free_clusters fs d) \<Longrightarrow> k < nclusters fs \<and> fat fs d k = 0"
  by (simp add: free_clusters_def)

lemma same_fat_free: "same_fat fs d d' \<Longrightarrow> free_clusters fs d' = free_clusters fs d"
  unfolding free_clusters_def same_fat_def by (intro filter_cong) auto


subsection \<open>Writing a content\<close>

text \<open>The clusters \<open>ks\<close> are linked in the table and the last one ends the chain.\<close>

fun linked :: "fat32 \<Rightarrow> disk \<Rightarrow> nat list \<Rightarrow> bool" where
  "linked fs d [] = True"
| "linked fs d [k] = (fat fs d k = FAT32_EOC_MAX)"
| "linked fs d (k # k' # ks) = (fat fs d k = of_nat k' \<and> linked fs d (k' # ks))"

lemma linked_cong: "(\<And>k. k \<in> set ks \<Longrightarrow> fat fs d' k = fat fs d k) \<Longrightarrow> linked fs d' ks = linked fs d ks"
  by (induction fs d ks rule: linked.induct) auto

text \<open>One round of the loop; \<open>p\<close> is the cluster before, or 0.\<close>

lemma write_round:
  assumes g: "geometry_ok fs" and d: "disk_ok d" and j: "length junk = 512"
    and free: "free_clusters fs d = k # ks" and k2: "2 \<le> k"
    and p: "p < nclusters fs" "p \<noteq> 0 \<Longrightarrow> fat fs d p \<noteq> 0" and b: "512 \<le> length b"
  shows "\<exists>d'. bindE (cluster_write fs (of_nat k) b d) (\<lambda>d.
      bindE (fat_write fs (of_nat k) FAT32_EOC_MAX d) (\<lambda>d.
      bindE (if (of_nat p :: u32) \<noteq> 0 then fat_write fs (of_nat p) (of_nat k) d else Inr d) (\<lambda>d.
      bindE (fat_find_free_cluster fs junk d) (\<lambda>next_free. Inr (next_free, d))))) = Inr (first_or_none ks, d') \<and>
    disk_ok d' \<and> free_clusters fs d' = ks \<and>
    (\<forall>e. 2 \<le> e \<longrightarrow> e < nclusters fs \<longrightarrow> blk fs d' e = (if e = k then take 512 b else blk fs d e)) \<and>
    (\<forall>e < nclusters fs. fat fs d' e = (if e = k then FAT32_EOC_MAX else if e = p \<and> p \<noteq> 0 then of_nat k else fat fs d e))"
proof -
  have kN: "k < nclusters fs" "fat fs d k = 0" using free_bound [of k fs d] free by simp_all
  have kz: "(of_nat k :: u32) \<noteq> 0" and pz: "(of_nat p :: u32) = 0 \<longleftrightarrow> p = 0"
    using unat_small [of k] unat_small [of p] kN(1) p(1) k2 geometryD(5) [OF g] by (auto simp flip: unat_eq_zero)
  have nk: "k \<notin> set ks" using free_distinct [of fs d] free by simp
  have pk: "p \<noteq> 0 \<Longrightarrow> p \<noteq> k" using p(2) kN(2) by auto
  have pf: "p \<noteq> 0 \<Longrightarrow> p \<notin> set ks" using p(2) free_bound [of p fs d] free by auto
  obtain d1 where d1: "cluster_write fs (of_nat k) b d = Inr d1" "disk_ok d1" "same_fat fs d d1"
    "\<forall>e. 2 \<le> e \<longrightarrow> blk fs d1 e = (if e = k then take 512 b else blk fs d e)"
    using cluster_write_eq [OF g d k2 kN(1) b] by blast
  obtain d2 where d2: "fat_write fs (of_nat k) FAT32_EOC_MAX d1 = Inr d2" "disk_ok d2" "same_blocks fs d1 d2"
    "\<forall>j < nclusters fs. fat fs d2 j = (if j = k then FAT32_EOC_MAX else fat fs d1 j)"
    using fat_write_eq [OF g d1(2) kN(1)] by blast
  have f2: "free_clusters fs d2 = ks"
    using free_upd [OF d2(4)] same_fat_free [OF d1(3)] free nk by (auto simp: FAT32_EOC_MAX_def filter_id_conv)
  obtain d3 where d3: "(if (of_nat p :: u32) \<noteq> 0 then fat_write fs (of_nat p) (of_nat k) d2 else Inr d2) = Inr d3"
    "disk_ok d3" "same_blocks fs d2 d3" "free_clusters fs d3 = ks"
    "\<forall>j < nclusters fs. fat fs d3 j = (if j = p \<and> p \<noteq> 0 then of_nat k else fat fs d2 j)"
  proof (cases "p = 0")
    case True
    then show thesis using that [of d2] d2(2) f2 by (simp add: same_blocks_def)
  next
    case False
    obtain d3 where d3: "fat_write fs (of_nat p) (of_nat k) d2 = Inr d3" "disk_ok d3" "same_blocks fs d2 d3"
      "\<forall>j < nclusters fs. fat fs d3 j = (if j = p then of_nat k else fat fs d2 j)"
      using fat_write_eq [OF g d2(2) p(1)] by blast
    have "free_clusters fs d3 = ks"
      using free_upd [OF d3(4) kz] f2 pf [OF False] by (auto simp: filter_id_conv)
    then show thesis using that [of d3] d3 False pz by simp
  qed
  have "blk fs d3 e = (if e = k then take 512 b else blk fs d e)" if "2 \<le> e" "e < nclusters fs" for e
    using that d1(4) d2(3) d3(3) by (simp add: same_blocks_def)
  moreover have "fat fs d3 e = (if e = k then FAT32_EOC_MAX else if e = p \<and> p \<noteq> 0 then of_nat k else fat fs d e)"
    if "e < nclusters fs" for e
    using that d3(5) d2(4) d1(3) pk by (auto simp: same_fat_def)
  moreover note find_free_eq [OF g d3(2) j]
  ultimately show ?thesis using d1(1) d2(1) d3(1,2,4) by (intro exI [of _ d3]) simp
qed


lemma first_or_none_Cons:
  assumes "geometry_ok fs" and "k < nclusters fs"
  shows "first_or_none (k # ks) = of_nat k" "(of_nat k :: u32) \<noteq> - 1"
proof -
  show "first_or_none (k # ks) = of_nat k" by (simp add: first_or_none_def)
  have "unat (of_nat k :: u32) = k" using assms geometryD(5) [OF assms(1)] by (intro unat_small) simp
  moreover have "unat (0xffffffff :: u32) = 0xffffffff" by simp
  moreover have "(- 1 :: u32) = 0xffffffff" by simp
  moreover have "k \<noteq> 0xffffffff" using assms(2) geometryD(5) [OF assms(1)] by simp
  ultimately show "(of_nat k :: u32) \<noteq> - 1" by metis
qed

lemma write_loop_eq:
  assumes g: "geometry_ok fs" and j: "length junk = 512" and m: "512 * m < 2 ^ 32" "unat buf_size = 512 * m"
    and c: "512 * m \<le> length content"
  shows "disk_ok d \<Longrightarrow> unat i = 512 * t \<Longrightarrow> t + r = m \<Longrightarrow> r \<le> length (free_clusters fs d) \<Longrightarrow>
    \<forall>k \<in> set (free_clusters fs d). 2 \<le> k \<Longrightarrow> p < nclusters fs \<Longrightarrow> (p \<noteq> 0 \<Longrightarrow> fat fs d p \<noteq> 0) \<Longrightarrow>
    ks = take r (free_clusters fs d) \<Longrightarrow>
    \<exists>d'. write_loop junk fs content buf_size i (of_nat p) (first_or_none (free_clusters fs d)) d = Some (Inr (d', True)) \<and>
      disk_ok d' \<and> linked fs d' ks \<and> concat (map (blk fs d') ks) = take (512 * r) (drop (512 * t) content) \<and>
      (\<forall>e. 2 \<le> e \<longrightarrow> e < nclusters fs \<longrightarrow> e \<notin> set ks \<longrightarrow> blk fs d' e = blk fs d e) \<and>
      (\<forall>e < nclusters fs. e \<notin> set ks \<longrightarrow>
        fat fs d' e = (if e = p \<and> p \<noteq> 0 \<and> ks \<noteq> [] then of_nat (hd ks) else fat fs d e))"
proof (induction r arbitrary: d i t p ks)
  case 0
  have "unat (ucast i :: u64) = unat i" using unsigned_less [of i, where ?'a = nat]
    by (simp add: unsigned_ucast_eq take_bit_nat_eq_self)
  then have "\<not> (ucast i :: u64) < buf_size" using 0(2,3) m(2) by (simp add: word_less_nat_alt)
  then show ?case using 0 by (subst write_loop.simps) auto
next
  case (Suc r)
  obtain k fr where fr: "free_clusters fs d = k # fr" using Suc.prems(4) by (cases "free_clusters fs d") auto
  have kN: "k < nclusters fs" using free_bound [of k fs d] fr by simp
  have k2: "2 \<le> k" using Suc.prems(5) fr by simp
  have i: "unat (ucast i :: u64) = unat i" using unsigned_less [of i, where ?'a = nat]
    by (simp add: unsigned_ucast_eq take_bit_nat_eq_self)
  have lt: "(ucast i :: u64) < buf_size" using Suc.prems(2,3) m(2) i by (simp add: word_less_nat_alt)
  have cl: "512 * t + 512 \<le> length content" using Suc.prems(3) c by simp
  then have b: "512 \<le> length (drop (unat i) content)" using Suc.prems(2) by simp
  obtain d1 where d1: "bindE (cluster_write fs (of_nat k) (drop (unat i) content) d) (\<lambda>d.
      bindE (fat_write fs (of_nat k) FAT32_EOC_MAX d) (\<lambda>d.
      bindE (if (of_nat p :: u32) \<noteq> 0 then fat_write fs (of_nat p) (of_nat k) d else Inr d) (\<lambda>d.
      bindE (fat_find_free_cluster fs junk d) (\<lambda>next_free. Inr (next_free, d))))) = Inr (first_or_none fr, d1)"
    "disk_ok d1" "free_clusters fs d1 = fr"
    "\<forall>e. 2 \<le> e \<longrightarrow> e < nclusters fs \<longrightarrow> blk fs d1 e = (if e = k then take 512 (drop (unat i) content) else blk fs d e)"
    "\<forall>e < nclusters fs. fat fs d1 e = (if e = k then FAT32_EOC_MAX else if e = p \<and> p \<noteq> 0 then of_nat k else fat fs d e)"
    using write_round [OF g Suc.prems(1) j fr k2 Suc.prems(6,7) b] by blast
  have run: "write_loop junk fs content buf_size i (of_nat p) (of_nat k) d =
      write_loop junk fs content buf_size (i + 512) (of_nat k) (first_or_none fr) d1"
    using lt first_or_none_Cons(2) [OF g kN] b d1(1) Suc.prems(2) cl
    by (subst write_loop.simps) simp
  have i1: "unat (i + 512) = 512 * Suc t"
    using Suc.prems(2,3) m(1) unat_add_lem [of i 512] by simp
  let ?ks = "take r fr"
  have ks: "ks = k # ?ks" using Suc.prems(8) fr by simp
  have nk: "k \<notin> set ?ks" using free_distinct [of fs d] fr by (auto dest: in_set_takeD)
  from Suc.IH [OF d1(2) i1, of k ?ks] obtain d' where d':
    "write_loop junk fs content buf_size (i + 512) (of_nat k) (first_or_none fr) d1 = Some (Inr (d', True))"
    "disk_ok d'" "linked fs d' ?ks" "concat (map (blk fs d') ?ks) = take (512 * r) (drop (512 * Suc t) content)"
    "\<forall>e. 2 \<le> e \<longrightarrow> e < nclusters fs \<longrightarrow> e \<notin> set ?ks \<longrightarrow> blk fs d' e = blk fs d1 e"
    "\<forall>e < nclusters fs. e \<notin> set ?ks \<longrightarrow>
        fat fs d' e = (if e = k \<and> k \<noteq> 0 \<and> ?ks \<noteq> [] then of_nat (hd ?ks) else fat fs d1 e)"
    using Suc.prems(3-5) d1(3,5) fr kN k2 by (auto simp: FAT32_EOC_MAX_def)
  have "linked fs d' ks"
    using d'(3,6) d1(5) kN k2 nk unfolding ks by (cases ?ks) auto
  moreover have "concat (map (blk fs d') ks) = take (512 * Suc r) (drop (512 * t) content)"
  proof -
    have "blk fs d' k = take 512 (drop (512 * t) content)" using d'(5) d1(4) k2 kN nk Suc.prems(2) by simp
    then have "concat (map (blk fs d') ks) = take 512 (drop (512 * t) content) @ take (512 * r) (drop 512 (drop (512 * t) content))"
      unfolding ks using d'(4) by (simp add: add.commute)
    also have "\<dots> = take (512 + 512 * r) (drop (512 * t) content)" by (rule take_add [symmetric])
    finally show ?thesis by simp
  qed
  moreover have "blk fs d' e = blk fs d e" if "2 \<le> e" "e < nclusters fs" "e \<notin> set ks" for e
    using that d'(5) d1(4) unfolding ks by auto
  moreover have "fat fs d' e = (if e = p \<and> p \<noteq> 0 \<and> ks \<noteq> [] then of_nat (hd ks) else fat fs d e)"
    if "e < nclusters fs" "e \<notin> set ks" for e
    using that d'(6) d1(5) unfolding ks by auto
  ultimately show ?case using run d'(1,2) fr first_or_none_Cons(1) [OF g kN] by auto
qed


subsection \<open>Reading a content\<close>

lemma not_EOC:
  assumes "geometry_ok fs" and "k < nclusters fs"
  shows "\<not> FAT32_IS_EOC (of_nat k)"
proof -
  have "k < 0x0ffffff8" using assms geometryD(5) [OF assms(1)] by simp
  from unat_small [OF this] this show ?thesis by (simp add: FAT32_IS_EOC_def FAT32_EOC_MIN_def word_le_nat_alt)
qed

lemma EOC_MAX_is_EOC: "FAT32_IS_EOC FAT32_EOC_MAX"
  by (simp add: FAT32_IS_EOC_def FAT32_EOC_MIN_def FAT32_EOC_MAX_def)

lemma content_loop_eq:
  assumes g: "geometry_ok fs" and d: "disk_ok d"
  shows "linked fs d (k # ks) \<Longrightarrow> \<forall>c \<in> set (k # ks). 2 \<le> c \<and> c < nclusters fs \<Longrightarrow>
    512 * (i + length (k # ks)) \<le> length content \<Longrightarrow>
    content_loop fs d (of_nat k) i content =
      Some (Inr (take (512 * i) content @ concat (map (blk fs d) (k # ks)) @ drop (512 * (i + length (k # ks))) content))"
proof (induction ks arbitrary: k i content)
  case Nil
  then have k: "2 \<le> k" "k < nclusters fs" by simp_all
  have "cluster_read fs (of_nat k) (drop (512 * i) content) d = Inr (blk fs d k @ drop 512 (drop (512 * i) content))"
    using Nil.prems(3) by (intro cluster_read_eq [OF g k]) simp
  then show ?case
    using Nil.prems not_EOC [OF g k(2)] fat_read_eq [OF g d k(2)] EOC_MAX_is_EOC
      content_loop.simps [of fs d FAT32_EOC_MAX]
    by (subst content_loop.simps) (simp add: add.commute)
next
  case (Cons k' ks)
  then have k: "2 \<le> k" "k < nclusters fs" by simp_all
  let ?c = "take (512 * i) content @ blk fs d k @ drop 512 (drop (512 * i) content)"
  have len: "length (blk fs d k) = 512" using d by (simp add: blk_def disk_ok_def)
  have "cluster_read fs (of_nat k) (drop (512 * i) content) d = Inr (blk fs d k @ drop 512 (drop (512 * i) content))"
    using Cons.prems(3) by (intro cluster_read_eq [OF g k]) simp
  then have "content_loop fs d (of_nat k) i content = content_loop fs d (of_nat k') (i + 1) ?c"
    using Cons.prems not_EOC [OF g k(2)] fat_read_eq [OF g d k(2)] by (subst content_loop.simps) simp
  moreover have "take (512 * (i + 1)) ?c = take (512 * i) content @ blk fs d k"
    using Cons.prems(3) len by simp
  moreover have "drop (512 * (i + 1 + length (k' # ks))) ?c = drop (512 * (i + length (k # k' # ks))) content"
    using Cons.prems(3) len by (simp add: add.commute)
  moreover have "length ?c = length content" using Cons.prems(3) len by simp
  ultimately show ?case using Cons.IH [of k' "i + 1" ?c] Cons.prems by simp
qed

lemma round_up_eq:
  assumes "1 \<le> m" "512 * m < 2 ^ 32" "unat x \<le> 512 * m" "m = 1 \<or> 512 * m < unat x + 512"
  shows "round_up_to_multiple_of_n x 512 = Some (of_nat (512 * m))" "unat (of_nat (512 * m) :: u64) = 512 * m"
proof -
  have "unat x + unat (512 :: u64) \<le> 2 ^ 64" using assms(2,3) by simp
  then obtain m' y where y: "round_up_to_multiple_of_n x 512 = Some y" "unat y = m' * unat (512 :: u64)" "1 \<le> m'"
    "unat x \<le> unat y" "m' = 1 \<or> unat y < unat x + unat (512 :: u64)"
    by (rule round_up_to_multiple_of_n_Some [of "512 :: u64" x, rotated]) simp_all
  have "m' = m" using y(2-5) assms by auto
  then have "unat y = 512 * m" using y(2) by simp
  then show "round_up_to_multiple_of_n x 512 = Some (of_nat (512 * m))" using y(1) unat_eq_of_nat by blast
  show "unat (of_nat (512 * m) :: u64) = 512 * m" using assms(2) by (intro unat_of_nat_small) simp
qed

lemma get_content_eq:
  assumes g: "geometry_ok fs" and d: "disk_ok d" and l: "linked fs d (k # ks)"
    and c: "\<forall>c \<in> set (k # ks). 2 \<le> c \<and> c < nclusters fs" and r: "fi_regular this" "first_cluster_number this = of_nat k"
    and m: "length (k # ks) = m" "512 * m < 2 ^ 32" "unat (fi_size this) \<le> 512 * m"
      "m = 1 \<or> 512 * m < unat (fi_size this) + 512"
  shows "fat_get_content fs this d = Inr (Some (concat (map (blk fs d) (k # ks))))"
proof -
  have "1 \<le> m" using m(1) by auto
  note ru = round_up_eq [OF this m(2-4)]
  have "content_loop fs d (of_nat k) 0 (replicate (512 * m) 0) = Some (Inr (concat (map (blk fs d) (k # ks))))"
    using content_loop_eq [OF g d l c, of 0 "replicate (512 * m) 0"] m(1) by simp
  then show ?thesis using r ru by (simp add: fat_get_content_def)
qed


subsection \<open>Directory entries\<close>

lemma join_cluster:
  "push_bit 16 (ucast (ucast (drop_bit 16 (n AND 0xffff0000)) :: u16)) OR ucast (ucast (n AND 0x0000ffff) :: u16) = (n :: u32)"
proof -
  have lo: "n AND 0x0000ffff = take_bit 16 n" by (simp add: take_bit_eq_mask mask_eq_exp_minus_1)
  have "drop_bit 16 (n AND 0xffff0000) = drop_bit 16 n AND mask 16" by (simp add: mask_eq_exp_minus_1)
  also have "\<dots> = take_bit 16 (drop_bit 16 n)" by (simp only: take_bit_eq_mask)
  finally have hi: "drop_bit 16 (n AND 0xffff0000) = take_bit 16 (drop_bit 16 n)" .
  show ?thesis unfolding lo hi by (rule bit_word_eqI) (auto simp: bit_simps)
qed

lemma dentry_ops:
  assumes "length b = 512" and "off \<le> 480"
  shows "\<exists>b'. set_first_cluster_number n b off = Inr b' \<and> length b' = 512 \<and> get_first_cluster_number b' off = Inr n"
    and "\<exists>b'. set_dentry_size v b off = Inr b' \<and> length b' = 512 \<and> get_dentry_size b' off = Inr v \<and>
      get_first_cluster_number b' off = get_first_cluster_number b off"
proof -
  obtain b1 where b1: "store16 b (off + 20) (ucast (drop_bit 16 (n AND 0xffff0000))) = Inr b1"
    using assms by (simp add: store16_def)
  note s1 = store16_load16 [OF b1]
  obtain b2 where b2: "store16 b1 (off + 26) (ucast (n AND 0x0000ffff)) = Inr b2"
    using assms s1(2) by (simp add: store16_def)
  note s2 = store16_load16 [OF b2]
  have "load16 b2 (off + 20) = load16 b1 (off + 20)" by (rule load16_other) (use s2(2,3) in simp_all)
  then have "get_first_cluster_number b2 off = Inr n"
    using s1(1) s2(1) join_cluster [of n] by (simp add: get_first_cluster_number_def)
  then show "\<exists>b'. set_first_cluster_number n b off = Inr b' \<and> length b' = 512 \<and> get_first_cluster_number b' off = Inr n"
    using b1 b2 s1(2) s2(2) assms(1) by (simp add: set_first_cluster_number_def)
  obtain b3 where b3: "store32 b (off + 28) v = Inr b3" using assms by (simp add: store32_def)
  note s3 = store32_load32 [OF b3]
  have "load16 b3 (off + 20) = load16 b (off + 20)" "load16 b3 (off + 26) = load16 b (off + 26)"
    by (rule load16_other; use s3(2,3) in simp)+
  then show "\<exists>b'. set_dentry_size v b off = Inr b' \<and> length b' = 512 \<and> get_dentry_size b' off = Inr v \<and>
      get_first_cluster_number b' off = get_first_cluster_number b off"
    using b3 s3(1,2) assms(1) by (simp add: set_dentry_size_def get_dentry_size_def get_first_cluster_number_def)
qed

lemma update_dentry_eq:
  assumes g: "geometry_ok fs" and d: "disk_ok d" and p: "parent_cluster_number this = of_nat p" "2 \<le> p" "p < nclusters fs"
    and cb: "callback (blk fs d p) (unat (parent_cluster_offset this)) = Inr b" and b: "length b = 512"
  shows "\<exists>d'. update_dentry_to_disk fs this callback d = Inr d' \<and> disk_ok d' \<and> same_fat fs d d' \<and>
    (\<forall>e. 2 \<le> e \<longrightarrow> blk fs d' e = (if e = p then b else blk fs d e))"
proof -
  have "cluster_read fs (of_nat p) (sector_buffer fs) d = Inr (blk fs d p)"
    using cluster_read_eq [OF g p(2,3), of "sector_buffer fs" d] sector_buffer_len [OF g] by simp
  then have "update_dentry_to_disk fs this callback d = cluster_write fs (of_nat p) b d"
    using cb not_EOC [OF g p(3)] p(1) by (simp add: update_dentry_to_disk_def)
  then show ?thesis using cluster_write_eq [OF g d p(2,3), of b] b by (simp cong: if_cong)
qed


subsection \<open>What a file holds after it has been written\<close>

text \<open>A file whose directory entry is in the cluster \<open>p\<close>, on a disk with room for \<open>m\<close> more clusters.\<close>

definition file_ready :: "fat32 \<Rightarrow> disk \<Rightarrow> u8 list \<Rightarrow> fat_inode \<Rightarrow> nat \<Rightarrow> nat \<Rightarrow> bool" where
  "file_ready fs d junk this p m \<longleftrightarrow>
     geometry_ok fs \<and> disk_ok d \<and> length junk = 512 \<and> fat fs d 0 \<noteq> 0 \<and> fat fs d 1 \<noteq> 0 \<and>
     fi_regular this \<and> parent_cluster_number this = of_nat p \<and> 2 \<le> p \<and> p < nclusters fs \<and> fat fs d p \<noteq> 0 \<and>
     unat (parent_cluster_offset this) \<le> 480 \<and> m \<le> length (free_clusters fs d) \<and> 1 \<le> m \<and> 512 * m < 2 ^ 32"

text \<open>\<open>m\<close> is the number of blocks of a content of \<open>n\<close> bytes, at least one.\<close>

definition blocks_of :: "u64 \<Rightarrow> nat \<Rightarrow> bool" where
  "blocks_of n m \<longleftrightarrow> unat n \<le> 512 * m \<and> (m = 1 \<or> 512 * m < unat n + 512)"

lemma free_from_2:
  assumes "fat fs d 0 \<noteq> 0" "fat fs d 1 \<noteq> 0" "k \<in> set (free_clusters fs d)"
  shows "2 \<le> k"
proof -
  have "k \<noteq> 0" "k \<noteq> 1" using assms free_bound [OF assms(3)] by metis+
  then show ?thesis by simp
qed

text \<open>The part of \<open>set_content\<close> after the first cluster has been allocated.\<close>

lemma write_and_resize:
  assumes f: "file_ready fs d junk this p m" and n: "blocks_of new_size m" and c: "length content = 512 * m"
    and ks: "ks = take m (free_clusters fs d)"
  shows "\<exists>d'. bindE (fat_find_free_cluster fs junk d) (\<lambda>curr_free.
      bindE (returned (write_loop junk fs content (of_nat (512 * m)) 0 0 curr_free d)) (\<lambda>r.
      bindE r (\<lambda>(d, all_written).
      if \<not> all_written then Inr (d, this)
      else bindE (update_dentry_to_disk fs this (set_dentry_size (ucast new_size)) d) (\<lambda>d.
        Inr (d, this\<lparr>fi_size := new_size\<rparr>))))) = Inr (d', this\<lparr>fi_size := new_size\<rparr>) \<and>
    disk_ok d' \<and> linked fs d' ks \<and> concat (map (blk fs d') ks) = content \<and>
    get_dentry_size (blk fs d' p) (unat (parent_cluster_offset this)) = Inr (ucast new_size) \<and>
    get_first_cluster_number (blk fs d' p) (unat (parent_cluster_offset this)) =
      get_first_cluster_number (blk fs d p) (unat (parent_cluster_offset this)) \<and>
    (\<forall>e. 2 \<le> e \<longrightarrow> e < nclusters fs \<longrightarrow> e \<notin> set ks \<longrightarrow> e \<noteq> p \<longrightarrow> blk fs d' e = blk fs d e) \<and>
    (\<forall>e < nclusters fs. e \<notin> set ks \<longrightarrow> fat fs d' e = fat fs d e)"
proof -
  let ?off = "unat (parent_cluster_offset this)"
  have g: "geometry_ok fs" and d: "disk_ok d" and j: "length junk = 512" and p: "2 \<le> p" "p < nclusters fs"
    and pc: "parent_cluster_number this = of_nat p" and off: "?off \<le> 480" and pf: "fat fs d p \<noteq> 0"
    and m: "m \<le> length (free_clusters fs d)" "512 * m < 2 ^ 32"
    and z: "fat fs d 0 \<noteq> 0" "fat fs d 1 \<noteq> 0" using f by (simp_all add: file_ready_def)
  have two: "\<forall>k \<in> set (free_clusters fs d). 2 \<le> k" using free_from_2 [OF z] by blast
  have u: "unat (of_nat (512 * m) :: u64) = 512 * m" using m(2) by (intro unat_of_nat_small) simp
  have pks: "p \<notin> set ks" using pf free_bound [of p fs d] ks by (auto dest: in_set_takeD)
  have ksN: "2 \<le> e \<and> e < nclusters fs" if "e \<in> set ks" for e
    using that two free_bound [of e fs d] ks by (auto dest: in_set_takeD)
  from write_loop_eq [OF g j m(2) u _ d, of content 0 0 m 0 ks] obtain d1 where d1:
    "write_loop junk fs content (of_nat (512 * m)) 0 0 (first_or_none (free_clusters fs d)) d = Some (Inr (d1, True))"
    "disk_ok d1" "linked fs d1 ks" "concat (map (blk fs d1) ks) = content"
    "\<forall>e. 2 \<le> e \<longrightarrow> e < nclusters fs \<longrightarrow> e \<notin> set ks \<longrightarrow> blk fs d1 e = blk fs d e"
    "\<forall>e < nclusters fs. e \<notin> set ks \<longrightarrow> fat fs d1 e = fat fs d e"
    using c m(1) two p(2) ks by auto
  have len: "length (blk fs d1 p) = 512" using d1(2) by (simp add: blk_def disk_ok_def)
  obtain b where b: "set_dentry_size (ucast new_size) (blk fs d1 p) ?off = Inr b" "length b = 512"
    "get_dentry_size b ?off = Inr (ucast new_size)"
    "get_first_cluster_number b ?off = get_first_cluster_number (blk fs d1 p) ?off"
    using dentry_ops(2) [OF len off] by blast
  obtain d2 where d2: "update_dentry_to_disk fs this (set_dentry_size (ucast new_size)) d1 = Inr d2" "disk_ok d2"
    "same_fat fs d1 d2" "\<forall>e. 2 \<le> e \<longrightarrow> blk fs d2 e = (if e = p then b else blk fs d1 e)"
    using update_dentry_eq [OF g d1(2) pc p, of "set_dentry_size (ucast new_size)", OF b(1,2)] by blast
  have "fat fs d2 e = fat fs d1 e" if "e < nclusters fs" for e using that d2(3) by (simp add: same_fat_def)
  then have "linked fs d2 ks" and "\<forall>e < nclusters fs. e \<notin> set ks \<longrightarrow> fat fs d2 e = fat fs d e"
    using linked_cong [of ks fs d2 d1] ksN d1(3,6) by simp_all
  moreover have mp: "map (blk fs d2) ks = map (blk fs d1) ks" using d2(4) pks ksN by (intro map_cong) auto
  have "concat (map (blk fs d2) ks) = content" unfolding mp by (rule d1(4))
  moreover have "blk fs d2 p = b" "blk fs d1 p = blk fs d p" using d2(4) d1(5) p pks by simp_all
  ultimately show ?thesis
    using find_free_eq [OF g d j] d1(1,5) d2 b by (intro exI [of _ d2]) simp
qed

text \<open>C39: What is first written to a file of FAT32 is found again through the directory. When a file
  has no cluster yet, the disk has room, and the buffer holds the whole 512-byte blocks that the
  new size is rounded up to, \<open>set_content\<close> returns and leaves in the directory entry the new size
  and the number of a first cluster, from which \<open>get_content\<close> reads exactly those blocks.
\<close>

theorem first_write_is_found:
  assumes f: "file_ready fs d junk this p m" and n: "blocks_of new_size m" and c: "length content = 512 * m"
    and first: "first_cluster_number this = 0"
  shows "\<exists>d' this' k. fat_set_content junk fs content new_size this d = Inr (d', this') \<and> fi_size this' = new_size \<and>
    get_dentry_size (blk fs d' p) (unat (parent_cluster_offset this)) = Inr (ucast new_size) \<and>
    get_first_cluster_number (blk fs d' p) (unat (parent_cluster_offset this)) = Inr k \<and>
    fat_get_content fs (this'\<lparr>first_cluster_number := k\<rparr>) d' = Inr (Some content)"
proof -
  let ?off = "unat (parent_cluster_offset this)"
  have g: "geometry_ok fs" and d: "disk_ok d" and j: "length junk = 512" and p: "2 \<le> p" "p < nclusters fs"
    and pc: "parent_cluster_number this = of_nat p" and off: "?off \<le> 480" and reg: "fi_regular this"
    and m: "m \<le> length (free_clusters fs d)" "1 \<le> m" "512 * m < 2 ^ 32"
    and z: "fat fs d 0 \<noteq> 0" "fat fs d 1 \<noteq> 0" using f by (simp_all add: file_ready_def)
  note nn = n [unfolded blocks_of_def]
  obtain k0 fr where fr: "free_clusters fs d = k0 # fr" using m by (cases "free_clusters fs d") auto
  have k0: "k0 < nclusters fs" using free_bound [of k0 fs d] fr by simp
  have len: "length (blk fs d p) = 512" using d by (simp add: blk_def disk_ok_def)
  obtain b where b: "set_first_cluster_number (of_nat k0) (blk fs d p) ?off = Inr b" "length b = 512"
    "get_first_cluster_number b ?off = Inr (of_nat k0)" using dentry_ops(1) [OF len off] by blast
  let ?cb = "\<lambda>b i. bindE (fat_find_free_cluster fs junk d) (\<lambda>free_cluster_number.
          if free_cluster_number = - 1 then Inr b else set_first_cluster_number free_cluster_number b i)"
  have "?cb (blk fs d p) ?off = Inr b"
    using find_free_eq [OF g d j] fr first_or_none_Cons [OF g k0] b(1) by simp
  from update_dentry_eq [OF g d pc p, of ?cb, OF this b(2)] obtain d1 where
    d1: "update_dentry_to_disk fs this ?cb d = Inr d1" "disk_ok d1" "same_fat fs d d1" "blk fs d1 p = b"
    using p(1) by auto
  have f1: "file_ready fs d1 junk this p m"
    using f d1(2,3) same_fat_free [OF d1(3)] by (simp add: file_ready_def same_fat_def)
  have fr1: "free_clusters fs d1 = k0 # fr" using same_fat_free [OF d1(3)] fr by simp
  define ks where "ks = take (m - 1) fr"
  have ks: "k0 # ks = take m (free_clusters fs d1)" using fr1 m(2) by (cases m) (simp_all add: ks_def)
  from write_and_resize [OF f1 n c ks] obtain d' where d':
    "bindE (fat_find_free_cluster fs junk d1) (\<lambda>curr_free.
      bindE (returned (write_loop junk fs content (of_nat (512 * m)) 0 0 curr_free d1)) (\<lambda>r.
      bindE r (\<lambda>(d, all_written).
      if \<not> all_written then Inr (d, this)
      else bindE (update_dentry_to_disk fs this (set_dentry_size (ucast new_size)) d) (\<lambda>d.
        Inr (d, this\<lparr>fi_size := new_size\<rparr>))))) = Inr (d', this\<lparr>fi_size := new_size\<rparr>)"
    "disk_ok d'" "linked fs d' (k0 # ks)" "concat (map (blk fs d') (k0 # ks)) = content"
    "get_dentry_size (blk fs d' p) ?off = Inr (ucast new_size)"
    "get_first_cluster_number (blk fs d' p) ?off = Inr (of_nat k0)"
    unfolding d1(4) b(3) by blast
  have "2 \<le> e \<and> e < nclusters fs" if "e \<in> set (k0 # ks)" for e
    using that free_from_2 [OF z] free_bound [of e fs d] fr unfolding ks_def by (auto dest: in_set_takeD)
  moreover have "length (take m (free_clusters fs d1)) = m" using m(1) same_fat_free [OF d1(3)] by simp
  then have "length (k0 # ks) = m" unfolding ks .
  ultimately have "fat_get_content fs (this\<lparr>fi_size := new_size, first_cluster_number := of_nat k0\<rparr>) d' =
      Inr (Some (concat (map (blk fs d') (k0 # ks))))"
    using nn m(3) reg by (intro get_content_eq [OF g d'(2,3)]) auto
  then show ?thesis
    using d' d1(1) first round_up_eq(1) [OF m(2,3)] nn by (simp add: fat_set_content_def allocate_first_cluster_def)
qed


text \<open>C40: What is written to a file of FAT32 that already has a content is lost. Let the file have a
  chain of clusters, the disk have room, and the buffer hold the whole 512-byte blocks that the
  new size is rounded up to. Then \<open>set_content\<close> returns with the new size and has stored the buffer
  in clusters that were free before, linked to each other. But the file and its directory entry
  still have the old first cluster, and the old chain, its blocks and every entry of the table
  outside the new clusters are what they were. When the new content has as many blocks as the
  old one, \<open>get_content\<close> reads the old content.
\<close>

theorem overwrite_is_lost:
  assumes f: "file_ready fs d junk this p m" and n: "blocks_of new_size m" and c: "length content = 512 * m"
    and first: "first_cluster_number this = of_nat k" and old: "linked fs d (k # ks)"
    and inside: "\<forall>e \<in> set (k # ks). 2 \<le> e \<and> e < nclusters fs \<and> e \<noteq> p \<and> fat fs d e \<noteq> 0"
  shows "\<exists>d' this' ns. fat_set_content junk fs content new_size this d = Inr (d', this') \<and>
    fi_size this' = new_size \<and> first_cluster_number this' = of_nat k \<and>
    linked fs d' ns \<and> concat (map (blk fs d') ns) = content \<and> (\<forall>e \<in> set ns. fat fs d e = 0) \<and>
    get_first_cluster_number (blk fs d' p) (unat (parent_cluster_offset this)) =
      get_first_cluster_number (blk fs d p) (unat (parent_cluster_offset this)) \<and>
    linked fs d' (k # ks) \<and> map (blk fs d') (k # ks) = map (blk fs d) (k # ks) \<and>
    (\<forall>e < nclusters fs. e \<notin> set ns \<longrightarrow> fat fs d' e = fat fs d e) \<and>
    (length (k # ks) = m \<longrightarrow> fat_get_content fs this' d' = Inr (Some (concat (map (blk fs d) (k # ks)))))"
proof -
  have g: "geometry_ok fs" and reg: "fi_regular this" and m: "1 \<le> m" "512 * m < 2 ^ 32"
    using f by (simp_all add: file_ready_def)
  note nn = n [unfolded blocks_of_def]
  have "k < 0x0ffffff8" using inside geometryD(5) [OF g] by auto
  from unat_small [OF this] have kz: "(of_nat k :: u32) \<noteq> 0" using inside by (auto simp flip: unat_eq_zero)
  define ns where "ns = take m (free_clusters fs d)"
  from write_and_resize [OF f n c ns_def] obtain d' where d':
    "bindE (fat_find_free_cluster fs junk d) (\<lambda>curr_free.
      bindE (returned (write_loop junk fs content (of_nat (512 * m)) 0 0 curr_free d)) (\<lambda>r.
      bindE r (\<lambda>(d, all_written).
      if \<not> all_written then Inr (d, this)
      else bindE (update_dentry_to_disk fs this (set_dentry_size (ucast new_size)) d) (\<lambda>d.
        Inr (d, this\<lparr>fi_size := new_size\<rparr>))))) = Inr (d', this\<lparr>fi_size := new_size\<rparr>)"
    "disk_ok d'" "\<forall>e. 2 \<le> e \<longrightarrow> e < nclusters fs \<longrightarrow> e \<notin> set ns \<longrightarrow> e \<noteq> p \<longrightarrow> blk fs d' e = blk fs d e"
    and fat: "\<forall>e < nclusters fs. e \<notin> set ns \<longrightarrow> fat fs d' e = fat fs d e"
    and new: "linked fs d' ns" "concat (map (blk fs d') ns) = content"
      "get_first_cluster_number (blk fs d' p) (unat (parent_cluster_offset this)) =
        get_first_cluster_number (blk fs d p) (unat (parent_cluster_offset this))" by blast
  have free: "\<forall>e \<in> set ns. fat fs d e = 0" using free_bound [of _ fs d] unfolding ns_def by (auto dest: in_set_takeD)
  have nf: "e \<notin> set ns" if "e \<in> set (k # ks)" for e using that inside free by auto
  have link: "linked fs d' (k # ks)" using old linked_cong [of "k # ks" fs d' d] fat nf inside by blast
  have mp: "map (blk fs d') (k # ks) = map (blk fs d) (k # ks)"
    using d'(3) nf inside by (intro map_cong) auto
  have get: "fat_get_content fs (this\<lparr>fi_size := new_size\<rparr>) d' = Inr (Some (concat (map (blk fs d') (k # ks))))"
    if "length (k # ks) = m"
    using inside reg first that m(2) nn by (intro get_content_eq [OF g d'(2) link]) auto
  have "fat_set_content junk fs content new_size this d = Inr (d', this\<lparr>fi_size := new_size\<rparr>)"
    using d'(1) first kz round_up_eq(1) [OF m] nn by (simp add: fat_set_content_def)
  then show ?thesis using first new free link mp fat get [unfolded mp]
    by (intro exI [of _ d'] exI [of _ "this\<lparr>fi_size := new_size\<rparr>"] exI [of _ ns]) simp
qed



subsection \<open>A small disk\<close>

text \<open>
  A partition of 129 blocks with one sector of table, in which clusters 2 (the root directory)
  and 3 (a file with its entry at the start of cluster 2) are in use.
\<close>

definition small_fs :: fat32 where
  "small_fs = \<lparr>fs_partition = \<lparr>start_block_index = 1, end_block_index = 129\<rparr>,
     metadata = \<lparr>bytes_per_sector = 512, sectors_per_cluster = 1, reserved_sector_count = 1, table_size_32 = 1,
       root_cluster = 2\<rparr>, nr_fat_entries_per_sector = 128\<rparr>"

definition small_disk :: disk where
  "small_disk i = (if i = 2 then concat (replicate 4 [255, 255, 255, 15]) @ replicate 496 0 else replicate 512 7)"

definition small_file :: "u32 \<Rightarrow> fat_inode" where
  "small_file k = \<lparr>first_cluster_number = k, parent_cluster_number = 2, parent_cluster_offset = 0, fi_size = 512,
     fi_regular = True\<rparr>"

lemma small_ready: "file_ready small_fs small_disk (replicate 512 0) (small_file k) 2 1"
proof -
  have "disk_ok small_disk" by (simp add: disk_ok_def small_disk_def length_concat sum_list_replicate)
  moreover have "geometry_ok small_fs" by (simp add: geometry_ok_def small_fs_def)
  moreover have "fat small_fs small_disk 0 \<noteq> 0" "fat small_fs small_disk 1 \<noteq> 0" "fat small_fs small_disk 2 \<noteq> 0"
    "1 \<le> length (free_clusters small_fs small_disk)" by code_simp+
  ultimately show ?thesis by (simp add: file_ready_def small_file_def) (simp add: small_fs_def)
qed

theorem first_write_is_found_witness:
  "\<exists>d' this' k. fat_set_content (replicate 512 0) small_fs (replicate 512 1) 512 (small_file 0) small_disk = Inr (d', this') \<and>
     fat_get_content small_fs (this'\<lparr>first_cluster_number := k\<rparr>) d' = Inr (Some (replicate 512 1))"
  using first_write_is_found [OF small_ready, of 512 "replicate 512 1" 0]
  by (auto simp: blocks_of_def small_file_def)

theorem overwrite_is_lost_witness:
  "\<exists>d' this'. fat_set_content (replicate 512 0) small_fs (replicate 512 1) 512 (small_file 3) small_disk = Inr (d', this') \<and>
     fat_get_content small_fs this' d' = Inr (Some (replicate 512 7))"
proof -
  have l: "linked small_fs small_disk [3]" "fat small_fs small_disk 3 \<noteq> 0" "blk small_fs small_disk 3 = replicate 512 7"
    by code_simp+
  have "blocks_of 512 1" by (simp add: blocks_of_def)
  from overwrite_is_lost [OF small_ready this _ _ l(1), of "replicate 512 1" 3] l(2,3) show ?thesis
    by (auto simp: small_file_def small_fs_def)
qed

end
