(* ===== verification/Spec2Isabelle.thy ===== *)
theory Spec2Isabelle
  imports BuddyTheorems SlobTheorems VMTheorems TaskletScheduler TimerMultiplexer Printf
    KListTheorems SmartPtrTheorems KStringTheorems FSProperties ProcessProperties
    FATTheorems
begin

text \<open>
  A verification development for valkyrie, a UNIX-like kernel for the Raspberry Pi 3B+ written
  in C++ (the sources under \<open>src/\<close>).

  \<^bold>\<open>The program.\<close> The memory manager (\<open>mm/\<close>) divides memory into two zones: a buddy allocator
  hands out page frames of the first, a slob allocator small chunks of the second, an address
  sanitizer records every pointer handed out, and \<open>VMMap\<close> builds the page tables of a process
  from page frames and shares them copy-on-write. The library (\<open>lib/\<close>, \<open>include/lib/\<close>) provides
  strings, containers and smart pointers. The virtual file system (\<open>fs/\<close>) resolves paths over
  mounted file systems, which it calls through the virtual functions of \<open>Vnode\<close>: \<open>TmpFS\<close> and
  \<open>ProcFS\<close> in memory, \<open>FAT32\<close> on a partition of a disk (\<open>dev/\<close>). Tasks (\<open>proc/\<close>) form a tree, are
  scheduled round robin by the timer interrupt, own file descriptors and enter the kernel by
  system calls (\<open>kernel/\<close>).

  \<^bold>\<open>How it is modelled.\<close> A class is a \<open>record\<close> of its fields, an object that is referred to by
  pointers lives in a heap (a partial function of addresses that are never used twice), and an
  operation is a function that takes the state and returns it updated. \<open>Kernel_Prelude\<close> fixes the
  result type \<open>kerror + 'a\<close>: a call of \<open>Kernel::panic\<close>, an index out of bounds, a null pointer, a
  use after free, a cast to the wrong class and a loop that never ends are values. Machine
  integers are words, C++ \<open>int\<close> is an integer cut to 32 bits where it can overflow. Loops that
  may not end are partial functions into \<open>option\<close>; no fuel is used, and where a theorem says that
  a routine returns, the loop is proved to end. Every operation that holds the kernel lock is
  one step.

  \<^bold>\<open>The theories,\<close> by component; the name of a definition is that of the C++ function.

  \<^item> \<open>Kernel_Prelude\<close>: types, errors, bounds-checked arrays, chains of cells. \<open>KMath\<close>
    (\<open>lib/Math.cc\<close>): powers, roots, logarithms, rounding, with their loops.
  \<^item> \<open>Pages\<close>, \<open>Dyadic\<close>, \<open>BuddyAllocator\<close> (\<open>mm/BuddyAllocator.cc\<close>), \<open>BuddyView\<close>, \<open>BuddyInvariant\<close>,
    \<open>BuddyCorrect\<close>, \<open>BuddySpec\<close>, \<open>BuddyTheorems\<close>: free blocks, blocks in use and blocks in the
    hands of the running routine partition the frames of the zone. Allocation and deallocation
    keep this, allocation fails only when no block is large enough, and coalescing restores the
    initial state. \<open>Page_Interface\<close> has the locale \<open>page_allocator\<close> of an allocator seen by its
    clients; \<open>BuddySpec\<close> interprets it as \<open>bud\<close> and \<open>BuddyTheorems\<close> and \<open>MemoryTheorems\<close> use it.
  \<^item> \<open>SlobAllocator\<close>, \<open>SlobTheorems\<close> (\<open>mm/SlobAllocator.cc\<close>): layout of chunks, the bins as lists,
    allocation followed by deallocation. \<open>AddressSanitizer\<close>, \<open>MemoryManager\<close>, \<open>MemoryTheorems\<close>
    (\<open>mm/AddressSanitizer.cc\<close>, \<open>mm/MemoryManager.cc\<close>): pages are fresh, double frees are panics,
    reference counts are independent.
  \<^item> \<open>VMMap\<close>, \<open>PageTables\<close>, \<open>VMTheorems\<close> (\<open>mm/VirtualMemoryMap.cc\<close>): \<open>map\<close> and \<open>unmap\<close> refine the
    update and the removal of one page of an abstract address space, and the copy-on-write
    handler gives a page a private copy.
  \<^item> \<open>CString\<close>, \<open>CStringTheorems\<close> (\<open>lib/CString.cc\<close>), \<open>Printf\<close> (\<open>lib/printf.cc\<close>): comparison,
    search, conversion to and from digits. \<open>KString\<close>, \<open>KStringTheorems\<close> (\<open>include/lib/String.h\<close>).
  \<^item> \<open>RingBuffer\<close>, \<open>Deque\<close>, \<open>KList\<close>, \<open>KListTheorems\<close> (\<open>include/lib/\<close>): each container implements a
    sequence. \<open>TaskletScheduler\<close> and \<open>TimerMultiplexer\<close> (\<open>include/kernel/\<close>, \<open>kernel/\<close>): tasklets run
    once and in order, timers fire after their timeout.
  \<^item> \<open>SmartPtr\<close>, \<open>SmartPtrTheorems\<close> (\<open>SharedPtr.h\<close>, \<open>WeakPtr.h\<close>, \<open>UniquePtr.h\<close>): an object lives as long
    as it has an owner, for classes without \<open>EnableSharedFromThis\<close>, and the uses of the classes
    that break this, the deletion of an object with \<open>EnableSharedFromThis\<close> among them.
  \<^item> \<open>Vnode\<close>, \<open>VFS\<close>, \<open>VFSTheorems\<close> (\<open>fs/VirtualFileSystem.cc\<close>): the virtual functions of a file
    system are a record \<open>vtable\<close>, an argument of every operation. The locales \<open>vnode_provider\<close>
    (what a call may do to the state) and \<open>vnode_tree\<close> (what a lookup finds after a creation)
    are what the virtual file system relies on. \<open>MemFS\<close> (\<open>fs/TmpFS.cc\<close>, \<open>fs/ProcFS.cc\<close>) defines the
    file systems in memory, \<open>MemFSTheorems\<close> and \<open>FSProperties\<close> interpret the two locales on them as
    \<open>mem\<close> and \<open>tree\<close>, and \<open>FSProperties\<close> has the properties of paths, files, mounts and the
    directories of tasks. Which inodes the tasks and opened files refer to is data of the state
    (\<open>held\<close>): the deletion of an inode that nothing refers to is a use after free, and one that is
    referred to stays in the heap. \<open>umount\<close> deletes the object of the file system (\<open>fs_freed\<close>).
  \<^item> \<open>Disk\<close> (\<open>dev/StorageDevice.cc\<close>, \<open>dev/DiskPartition.cc\<close>), \<open>FAT32\<close>, \<open>FATTheorems\<close> (\<open>fs/FAT32.cc\<close>): the
    allocation table and the clusters as two maps, a first write that is read back and an
    overwrite that is lost.
  \<^item> \<open>Tasks\<close> (\<open>proc/Task.cc\<close>, \<open>proc/TaskScheduler.cc\<close>, \<open>proc/Signal.cc\<close>, the parts of
    \<open>kernel/Exception.cc\<close> that concern tasks), \<open>Syscalls\<close> (\<open>kernel/Syscall.cc\<close>, \<open>Kernel::run\<close>).
    \<open>TaskTree\<close> is the invariant of the process tree on its own; \<open>TaskTheorems\<close>,
    \<open>ProcessTheorems\<close> and \<open>ProcessSteps\<close> show for each operation that it returns, or panics as the
    source does, and keeps the invariant, and for the calls into the file systems that they keep
    it when they return; \<open>TaskSearch\<close> that the breadth-first searches end; \<open>ProcessProperties\<close> has
    the properties of the states reached from the start of the kernel. The timer interrupt of
    \<open>Tasks\<close> is the part of the scheduler; \<open>TimerMultiplexer::tick\<close>, which runs before it, has a
    theory of its own.

  \<^bold>\<open>Bounds.\<close> Process ids are 32-bit words that wrap around, so a run of the kernel is limited to
  fewer than \<open>2 ^ 32 - 4\<close> operations. The order of a request to the buddy allocator is computed
  through an \<open>int\<close>, so its laws are stated for requests of at most \<open>2 ^ 42\<close> bytes. The offset in
  a file that \<open>FAT32\<close> writes is a 32-bit word, so a content has fewer than \<open>2 ^ 32\<close> bytes, and a
  volume fewer clusters than the first end-of-chain mark.

  \<^bold>\<open>Not modelled.\<close> The drivers (\<open>driver/\<close>) and the assembly files (\<open>boot/\<close>, \<open>ctx_switch.S\<close>,
  \<open>do_exec.S\<close>, \<open>evt.S\<close>, \<open>esr.S\<close>, \<open>va_space.S\<close>) read and write device and system registers; the console
  is modelled by the characters waiting and sent, the disk by its blocks. Loading a program
  (\<open>Task::exec\<close>, \<open>Task::mmap\<close>, \<open>ELF.h\<close>) writes through physical addresses into pages whose bytes
  no theory models, and a context switch is only a change of the current task. The directory
  operations and the file names of \<open>FAT32\<close>, \<open>lib/Encoding.cc\<close>, which only they use, and the parser
  of CPIO archives are left out; mounting the root file system takes the entries of the
  archive as its argument. The objects of tasks, files and inodes are created without a call of
  the allocators, so only the two stacks of a forked task can be missing. When the last opened
  file or working directory that refers to a removed inode goes away, the deletion of the inode
  is not a step of the model. The recursive mutex disables interrupts and is not part of the
  state. The templates of \<open>include/lib/\<close> that compute types (\<open>TypeTraits.h\<close>, \<open>Utility.h\<close>,
  \<open>Functional.h\<close>, \<open>Iterator.h\<close>) are part of the models of their users. The user programs (\<open>usr/\<close>)
  run on the kernel and repeat the string and output routines of the library.
\<close>

end
